(* ===== verification/Prelude.thy ===== *)
theory Prelude
  imports Main "HOL-Library.Word" "HOL-Library.Multiset" "HOL-Library.List_Lexorder"
    "HOL-Library.Char_ord"
begin

text \<open>
  Shared vocabulary of the development: the type synonyms that name Go's basic types, the
  fact collections that the component theories feed, and generic lemmas on lists, folds and
  stable sorting that several components use.

  Go strings and byte slices holding text are HOL strings (lists of 8-bit characters, so
  \<open>length\<close> counts bytes as Go's \<open>len\<close> does). Binary blobs are lists of \<open>8 word\<close>. Go's
  \<open>int\<close>, \<open>int64\<close> and \<open>uint64\<close> values that stay in range are \<open>int\<close> or \<open>nat\<close>; where the
  code relies on wrap-around the value is reduced with \<open>wrap_i64\<close>, \<open>wrap_u64\<close> and their
  32-bit counterparts, or is a word.
\<close>

section \<open>Names for Go's types\<close>

type_synonym bytes = "8 word list"
type_synonym u32 = "32 word"
type_synonym u64 = "64 word"

definition wrap_i64 :: "int \<Rightarrow> int" where
  "wrap_i64 x = signed_take_bit 63 x"

definition wrap_u64 :: "int \<Rightarrow> int" where
  "wrap_u64 x = take_bit 64 x"

definition wrap_i32 :: "int \<Rightarrow> int" where
  "wrap_i32 x = signed_take_bit 31 x"

definition wrap_u32 :: "int \<Rightarrow> int" where
  "wrap_u32 x = take_bit 32 x"

text \<open>Go divides integers towards zero.\<close>

definition go_quot :: "int \<Rightarrow> int \<Rightarrow> int" where
  "go_quot a b = sgn a * sgn b * (\<bar>a\<bar> div \<bar>b\<bar>)"

definition in_i64 :: "int \<Rightarrow> bool" where
  "in_i64 x \<longleftrightarrow> - (2 ^ 63) \<le> x \<and> x < 2 ^ 63"

definition in_i32 :: "int \<Rightarrow> bool" where
  "in_i32 x \<longleftrightarrow> - (2 ^ 31) \<le> x \<and> x < 2 ^ 31"

definition in_u64 :: "int \<Rightarrow> bool" where
  "in_u64 x \<longleftrightarrow> 0 \<le> x \<and> x < 2 ^ 64"

section \<open>Fact collections\<close>

named_theorems go_str "rewrite rules for the model of package strings"
named_theorems go_num "rewrite rules for the model of package strconv"
named_theorems fl_simps "rewrite rules for floating-point operations"
named_theorems frame "fields an operation leaves alone"

section \<open>Wrap-around\<close>

lemma wrap_i64_range: "in_i64 (wrap_i64 x)"
  unfolding wrap_i64_def in_i64_def
  using signed_take_bit_int_greater_eq_minus_exp [of 63 x] signed_take_bit_int_less_exp [of 63 x]
  by simp

lemma wrap_i64_id [simp]: "in_i64 x \<Longrightarrow> wrap_i64 x = x"
  unfolding wrap_i64_def in_i64_def by (simp add: signed_take_bit_int_eq_self)

lemma wrap_i32_range: "in_i32 (wrap_i32 x)"
  unfolding wrap_i32_def in_i32_def
  using signed_take_bit_int_greater_eq_minus_exp [of 31 x] signed_take_bit_int_less_exp [of 31 x]
  by simp

lemma wrap_i32_id [simp]: "in_i32 x \<Longrightarrow> wrap_i32 x = x"
  unfolding wrap_i32_def in_i32_def by (simp add: signed_take_bit_int_eq_self)

lemma wrap_u64_range: "in_u64 (wrap_u64 x)"
  unfolding wrap_u64_def in_u64_def by (simp add: take_bit_int_less_exp [of 64, simplified])

lemma wrap_u64_id [simp]: "in_u64 x \<Longrightarrow> wrap_u64 x = x"
  unfolding wrap_u64_def in_u64_def by (simp add: take_bit_int_eq_self)

section \<open>Lists\<close>

lemma fold_invariant:
  "P s \<Longrightarrow> (\<And>x s. x \<in> set xs \<Longrightarrow> P s \<Longrightarrow> P (f x s)) \<Longrightarrow> P (fold f xs s)"
  by (induction xs arbitrary: s) auto

lemma concat_map_append: "concat (map f (xs @ ys)) = concat (map f xs) @ concat (map f ys)"
  by simp

lemma list_all_mono: "list_all P xs \<Longrightarrow> (\<And>x. x \<in> set xs \<Longrightarrow> P x \<Longrightarrow> Q x) \<Longrightarrow> list_all Q xs"
  by (auto simp: list_all_iff)

lemma last_sort:
  fixes xs :: "'a::linorder list"
  assumes "xs \<noteq> []"
  shows "last (sort xs) = Max (set xs)"
proof -
  have ne: "sort xs \<noteq> []" using assms by (metis length_0_conv length_sort)
  then have "sorted (butlast (sort xs) @ [last (sort xs)])" by simp
  then have le: "\<forall>y \<in> set (butlast (sort xs)). y \<le> last (sort xs)" by (simp only: sorted_append) simp
  have "set xs = insert (last (sort xs)) (set (butlast (sort xs)))"
    using ne by (metis append_butlast_last_id set_sort Un_insert_right list.simps(15) set_append sup_bot.right_neutral list.set(1))
  then show ?thesis using le by (auto intro!: Max_eqI [symmetric])
qed

lemma map_filter_all: "(\<And>x. x \<in> set xs \<Longrightarrow> f x = Some (g x)) \<Longrightarrow> List.map_filter f xs = map g xs"
  by (induction xs) (simp_all add: map_filter_simps)

text \<open>Cutting a list into runs of at most \<open>n\<close> elements.\<close>

function runs :: "nat \<Rightarrow> 'a list \<Rightarrow> 'a list list" where
  "runs n xs = (if n = 0 \<or> xs = [] then [] else take n xs # runs n (drop n xs))"
  by pat_completeness auto
termination
  by (relation "measure (\<lambda>(n, xs). length xs)") (auto simp: length_greater_0_conv)

declare runs.simps [simp del]

lemma runs_Nil [simp]: "runs n [] = []"
  by (simp add: runs.simps)

lemma concat_runs: "0 < n \<Longrightarrow> concat (runs n xs) = xs"
proof (induction n xs rule: runs.induct)
  case (1 n xs)
  then show ?case by (subst runs.simps) auto
qed

lemma length_runs_le: "ys \<in> set (runs n xs) \<Longrightarrow> length ys \<le> n \<and> ys \<noteq> []"
proof (induction n xs rule: runs.induct)
  case (1 n xs)
  show ?case
  proof (cases "n = 0 \<or> xs = []")
    case True
    with "1.prems" show ?thesis by (subst (asm) runs.simps) auto
  next
    case False
    with "1.prems" have "ys = take n xs \<or> ys \<in> set (runs n (drop n xs))"
      by (subst (asm) runs.simps) auto
    with False "1.IH" show ?thesis by auto
  qed
qed

lemma runs_short: "0 < n \<Longrightarrow> xs \<noteq> [] \<Longrightarrow> length xs \<le> n \<Longrightarrow> runs n xs = [xs]"
  by (subst runs.simps) simp

section \<open>Stable insertion sort along a comparison\<close>

text \<open>
  \<open>lt\<close> is the strict comparison a Go \<open>sort.Slice\<close> call is given. Insertion keeps equal
  elements in order, so the sort is stable; Go's own sort is only some sorted permutation.
\<close>

primrec insert_by :: "('a \<Rightarrow> 'a \<Rightarrow> bool) \<Rightarrow> 'a \<Rightarrow> 'a list \<Rightarrow> 'a list" where
  "insert_by lt x [] = [x]"
| "insert_by lt x (y # ys) = (if lt y x then y # insert_by lt x ys else x # y # ys)"

primrec sort_by :: "('a \<Rightarrow> 'a \<Rightarrow> bool) \<Rightarrow> 'a list \<Rightarrow> 'a list" where
  "sort_by lt [] = []"
| "sort_by lt (x # xs) = insert_by lt x (sort_by lt xs)"

lemma mset_insert_by [simp]: "mset (insert_by lt x xs) = add_mset x (mset xs)"
  by (induction xs) auto

lemma mset_sort_by [simp]: "mset (sort_by lt xs) = mset xs"
  by (induction xs) auto

lemma set_insert_by [simp]: "set (insert_by lt x xs) = insert x (set xs)"
  by (induction xs) auto

lemma set_sort_by [simp]: "set (sort_by lt xs) = set xs"
  by (induction xs) auto

lemma sorted_insert_by:
  assumes trans: "\<And>a b c. le a b \<Longrightarrow> le b c \<Longrightarrow> le a c"
    and lt: "\<And>a b. lt a b \<Longrightarrow> le a b"
    and total: "\<And>y. y \<in> set xs \<Longrightarrow> \<not> lt y x \<Longrightarrow> le x y"
  shows "sorted_wrt le xs \<Longrightarrow> sorted_wrt le (insert_by lt x xs)"
  using total
proof (induction xs)
  case Nil
  then show ?case by simp
next
  case (Cons y ys)
  then show ?case by (auto intro: trans lt)
qed

lemma sorted_sort_by:
  assumes trans: "\<And>a b c. le a b \<Longrightarrow> le b c \<Longrightarrow> le a c"
    and lt: "\<And>a b. lt a b \<Longrightarrow> le a b"
    and total: "\<And>x y. x \<in> set xs \<Longrightarrow> y \<in> set xs \<Longrightarrow> \<not> lt y x \<Longrightarrow> le x y"
  shows "sorted_wrt le (sort_by lt xs)"
  using total
proof (induction xs)
  case Nil
  then show ?case by simp
next
  case (Cons x xs)
  then have "sorted_wrt le (sort_by lt xs)" by simp
  then show ?case
    using sorted_insert_by [of le lt "sort_by lt xs" x] trans lt Cons.prems by auto
qed

text \<open>The same along a comparison that is a strict weak order on the elements sorted.\<close>

definition weak_order_on :: "'a set \<Rightarrow> ('a \<Rightarrow> 'a \<Rightarrow> bool) \<Rightarrow> bool" where
  "weak_order_on A lt \<longleftrightarrow>
     (\<forall>a \<in> A. \<forall>b \<in> A. lt a b \<longrightarrow> \<not> lt b a)
     \<and> (\<forall>a \<in> A. \<forall>b \<in> A. \<forall>c \<in> A. \<not> lt b a \<longrightarrow> \<not> lt c b \<longrightarrow> \<not> lt c a)"

lemma weak_order_onD:
  assumes "weak_order_on A lt"
  shows "a \<in> A \<Longrightarrow> b \<in> A \<Longrightarrow> lt a b \<Longrightarrow> \<not> lt b a"
    and "a \<in> A \<Longrightarrow> b \<in> A \<Longrightarrow> c \<in> A \<Longrightarrow> \<not> lt b a \<Longrightarrow> \<not> lt c b \<Longrightarrow> \<not> lt c a"
  using assms [unfolded weak_order_on_def, THEN conjunct1, rule_format, of a b]
    assms [unfolded weak_order_on_def, THEN conjunct2, rule_format, of a b c]
  by simp_all

lemma weak_order_on_key:
  fixes key :: "'a \<Rightarrow> 'k::linorder"
  assumes "\<And>a b. a \<in> A \<Longrightarrow> b \<in> A \<Longrightarrow> lt a b \<longleftrightarrow> key a < key b"
  shows "weak_order_on A lt"
  unfolding weak_order_on_def by (intro conjI ballI impI) (simp_all add: assms not_less)

lemma sorted_insert_by_on:
  assumes "weak_order_on A lt" "x \<in> A"
  shows "set xs \<subseteq> A \<Longrightarrow> sorted_wrt (\<lambda>a b. \<not> lt b a) xs \<Longrightarrow> sorted_wrt (\<lambda>a b. \<not> lt b a) (insert_by lt x xs)"
proof (induction xs)
  case (Cons y ys)
  then have A: "y \<in> A" "set ys \<subseteq> A" "\<forall>z \<in> set ys. \<not> lt z y" "sorted_wrt (\<lambda>a b. \<not> lt b a) ys" by auto
  have asym: "lt y x \<Longrightarrow> \<not> lt x y"
    using assms(2) A(1) weak_order_onD(1) [OF assms(1), of y x] by simp
  have trans: "\<not> lt z x" if "\<not> lt y x" "z \<in> set ys" for z
    using that assms(2) A weak_order_onD(2) [OF assms(1), of x y z] by auto
  show ?case using asym trans A Cons.IH by simp
qed simp

lemma sorted_sort_by_on:
  "weak_order_on A lt \<Longrightarrow> set xs \<subseteq> A \<Longrightarrow> sorted_wrt (\<lambda>a b. \<not> lt b a) (sort_by lt xs)"
proof (induction xs)
  case (Cons x xs)
  then show ?case using sorted_insert_by_on [of A lt x "sort_by lt xs"] by simp
qed simp

text \<open>
  What Go documents of \<open>sort.Slice\<close>: the result is a permutation of the slice, and it is sorted
  when the comparison is a strict weak order on its elements. Nothing is said of the order of
  equal elements.
\<close>

locale slice_sorter =
  fixes srt :: "('a \<Rightarrow> 'a \<Rightarrow> bool) \<Rightarrow> 'a list \<Rightarrow> 'a list"
  assumes permutes: "mset (srt lt xs) = mset xs"
    and sorts: "weak_order_on (set xs) lt \<Longrightarrow> sorted_wrt (\<lambda>a b. \<not> lt b a) (srt lt xs)"
begin

lemma same_set [simp]: "set (srt lt xs) = set xs"
  by (metis permutes set_mset_mset)

lemma same_length [simp]: "length (srt lt xs) = length xs"
  by (metis permutes size_mset)

text \<open>The keys come out sorted when the comparison is by key, whatever happens to equal keys.\<close>

lemma keys_sorted:
  fixes key :: "'a \<Rightarrow> 'k::linorder"
  assumes "\<And>a b. a \<in> set xs \<Longrightarrow> b \<in> set xs \<Longrightarrow> lt a b \<longleftrightarrow> key a < key b"
  shows "map key (srt lt xs) = sort (map key xs)"
proof (rule properties_for_sort [symmetric])
  show "mset (map key (srt lt xs)) = mset (map key xs)" by (simp add: permutes)
  have "weak_order_on (set xs) lt"
    using assms by (rule weak_order_on_key)
  then have "sorted_wrt (\<lambda>a b. \<not> lt b a) (srt lt xs)" by (rule sorts)
  then have "sorted_wrt (\<lambda>a b. key a \<le> key b) (srt lt xs)"
    by (rule sorted_wrt_mono_rel [rotated]) (use assms in \<open>auto simp: not_less\<close>)
  then show "sorted (map key (srt lt xs))" by (simp add: sorted_map)
qed

end

interpretation insertion: slice_sorter sort_by
  by unfold_locales (auto intro: sorted_sort_by_on)

end
