(* ===== verification/GoStrings.thy ===== *)
theory GoStrings
  imports Prelude
begin

text \<open>
  The part of Go's package \<open>strings\<close> (and of \<open>bytes\<close>, its twin) that the agent uses, on
  byte strings: \<open>Cut\<close>, \<open>CutPrefix\<close>, \<open>HasPrefix\<close>, \<open>TrimPrefix\<close>, \<open>Split\<close>, \<open>Join\<close>,
  \<open>TrimRight\<close>, \<open>TrimSpace\<close>, \<open>Fields\<close>, \<open>ReplaceAll\<close>, \<open>IndexByte\<close>. White space is
  Unicode's, recognised on its UTF-8 encoding: the lead bytes of the encodings of the
  non-ASCII spaces never occur inside another valid encoding, so matching the byte
  sequences is what decoding rune by rune does.
\<close>

section \<open>Prefixes\<close>

primrec has_prefix :: "string \<Rightarrow> string \<Rightarrow> bool" where
  "has_prefix [] s = True"
| "has_prefix (p # ps) s = (case s of [] \<Rightarrow> False | c # cs \<Rightarrow> c = p \<and> has_prefix ps cs)"

definition cut_prefix :: "string \<Rightarrow> string \<Rightarrow> string option" where
  "cut_prefix p s = (if has_prefix p s then Some (drop (length p) s) else None)"

definition trim_prefix :: "string \<Rightarrow> string \<Rightarrow> string" where
  "trim_prefix p s = (if has_prefix p s then drop (length p) s else s)"

lemma has_prefix_iff: "has_prefix p s \<longleftrightarrow> (\<exists>t. s = p @ t)"
  by (induction p arbitrary: s) (auto split: list.splits)

lemma has_prefix_append [simp]: "has_prefix p (p @ t)"
  by (auto simp: has_prefix_iff)

lemma cut_prefix_append [simp, go_str]: "cut_prefix p (p @ t) = Some t"
  by (simp add: cut_prefix_def)

lemma cut_prefix_Some: "cut_prefix p s = Some t \<longleftrightarrow> s = p @ t"
  by (auto simp: cut_prefix_def has_prefix_iff)

section \<open>Cut around the first separator\<close>

primrec str_cut :: "string \<Rightarrow> string \<Rightarrow> string \<times> string \<times> bool" where
  "str_cut sep [] = ([], [], sep = [])"
| "str_cut sep (c # cs) =
     (if has_prefix sep (c # cs) then ([], drop (length sep) (c # cs), True)
      else case str_cut sep cs of (a, b, found) \<Rightarrow> (c # a, b, found))"

lemma cut_length: "str_cut sep s = (a, b, found) \<Longrightarrow> length b \<le> length s"
  by (induction s arbitrary: a b) (auto split: if_splits prod.splits intro: le_SucI)

lemma cut_length_less: "str_cut [c] s = (a, b, found) \<Longrightarrow> s \<noteq> [] \<Longrightarrow> length b < length s"
proof (induction s arbitrary: a b)
  case (Cons x xs)
  then show ?case
    by (cases xs) (auto split: if_splits prod.splits)
qed simp

lemma cut_absent [go_str]: "c \<notin> set s \<Longrightarrow> str_cut [c] s = (s, [], False)"
  by (induction s) auto

lemma cut_present [go_str]: "c \<notin> set a \<Longrightarrow> str_cut [c] (a @ c # b) = (a, b, True)"
  by (induction a) auto

lemma cut_found: "str_cut [c] s = (a, b, True) \<Longrightarrow> s = a @ c # b \<and> c \<notin> set a"
  by (induction s arbitrary: a) (auto split: if_splits prod.splits)

lemma cut_not_found: "str_cut [c] s = (a, b, False) \<Longrightarrow> a = s \<and> b = [] \<and> c \<notin> set s"
  by (induction s arbitrary: a) (auto split: if_splits prod.splits)

lemma cut_before_absent: "str_cut [c] s = (a, b, found) \<Longrightarrow> c \<notin> set a"
  by (cases found) (auto dest: cut_found cut_not_found)

lemma cut_set: "str_cut sep s = (a, b, found) \<Longrightarrow> set a \<subseteq> set s \<and> set b \<subseteq> set s"
proof (induction s arbitrary: a b)
  case (Cons x xs)
  then show ?case
    using set_drop_subset [of "length sep" "x # xs"]
    by (cases "str_cut sep xs") (auto split: if_splits)
qed auto

section \<open>Split and Join\<close>

primrec split_on :: "char \<Rightarrow> string \<Rightarrow> string list" where
  "split_on c [] = [[]]"
| "split_on c (x # xs) =
     (if x = c then [] # split_on c xs
      else case split_on c xs of [] \<Rightarrow> [[x]] | y # ys \<Rightarrow> (x # y) # ys)"

primrec join_with :: "string \<Rightarrow> string list \<Rightarrow> string" where
  "join_with sep [] = []"
| "join_with sep (s # ss) = (if ss = [] then s else s @ sep @ join_with sep ss)"

lemma split_on_not_Nil [simp]: "split_on c s \<noteq> []"
  by (induction s) (auto split: list.splits)

lemma split_on_absent [go_str]: "c \<notin> set s \<Longrightarrow> split_on c s = [s]"
  by (induction s) auto

lemma split_on_present [go_str]: "c \<notin> set a \<Longrightarrow> split_on c (a @ c # b) = a # split_on c b"
  by (induction a) auto

lemma split_on_parts: "p \<in> set (split_on c s) \<Longrightarrow> c \<notin> set p"
proof (induction s arbitrary: p)
  case (Cons x xs)
  then show ?case by (cases "split_on c xs") (auto split: if_splits)
qed simp

lemma split_on_append:
  "split_on c (a @ c # b) = split_on c a @ split_on c b"
proof (induction a)
  case (Cons x a)
  then show ?case by (cases "split_on c a") auto
qed simp

lemma join_split [simp]: "join_with [c] (split_on c s) = s"
proof (induction s)
  case (Cons x s)
  then show ?case by (cases "split_on c s") (auto split: if_splits)
qed simp

lemma split_join [go_str]:
  "ss \<noteq> [] \<Longrightarrow> \<forall>s \<in> set ss. c \<notin> set s \<Longrightarrow> split_on c (join_with [c] ss) = ss"
  by (induction ss) (auto simp: split_on_absent split_on_present)

lemma split_on_inj: "split_on c s = split_on c t \<Longrightarrow> s = t"
  by (metis join_split)

lemma join_with_eq_Nil: "join_with [c] ss = [] \<longleftrightarrow> ss = [] \<or> ss = [[]]"
  by (cases ss) auto

lemma set_join_with: "set (join_with sep ss) \<subseteq> \<Union> (set ` set ss) \<union> set sep"
  by (induction ss) auto

section \<open>Trimming and fields\<close>

definition trim_right_of :: "char list \<Rightarrow> string \<Rightarrow> string" where
  "trim_right_of cs s = rev (dropWhile (\<lambda>c. c \<in> set cs) (rev s))"

lemma trim_right_of_last: "s \<noteq> [] \<Longrightarrow> last s \<notin> set cs \<Longrightarrow> trim_right_of cs s = s"
  by (cases s rule: rev_cases) (auto simp: trim_right_of_def)

lemma trim_right_of_Nil [simp]: "trim_right_of cs [] = []"
  by (simp add: trim_right_of_def)

lemma trim_right_of_snoc:
  "trim_right_of cs (s @ [c]) = (if c \<in> set cs then trim_right_of cs s else s @ [c])"
  by (simp add: trim_right_of_def)

definition byte :: "char \<Rightarrow> nat" where
  "byte c = of_char c"

definition ascii_space :: "char \<Rightarrow> bool" where
  "ascii_space c \<longleftrightarrow> byte c \<in> {9, 10, 11, 12, 13, 32}"

text \<open>The number of bytes of the white-space rune that starts the string, 0 for none.\<close>

definition space_len :: "string \<Rightarrow> nat" where
  "space_len s = (case s of [] \<Rightarrow> 0 | a # s1 \<Rightarrow>
     if ascii_space a then 1
     else if byte a < 128 then 0
     else (case s1 of [] \<Rightarrow> 0 | b # s2 \<Rightarrow>
       if byte a = 194 \<and> byte b \<in> {133, 160} then 2
       else (case s2 of [] \<Rightarrow> 0 | c # _ \<Rightarrow>
         if byte a = 225 \<and> byte b = 154 \<and> byte c = 128
            \<or> byte a = 226 \<and> byte b = 128 \<and> (byte c \<le> 138 \<and> 128 \<le> byte c \<or> byte c \<in> {168, 169, 175})
            \<or> byte a = 226 \<and> byte b = 129 \<and> byte c = 159
            \<or> byte a = 227 \<and> byte b = 128 \<and> byte c = 128
         then 3 else 0)))"

lemma space_len_bound: "space_len s \<le> length s"
  by (auto simp: space_len_def split: list.splits)

lemma space_len_Nil [simp]: "space_len [] = 0"
  by (simp add: space_len_def)

lemma space_len_ascii: "byte c < 128 \<Longrightarrow> space_len (c # s) = (if ascii_space c then 1 else 0)"
  by (auto simp: space_len_def)

function trim_left_space :: "string \<Rightarrow> string" where
  "trim_left_space s = (if space_len s = 0 then s else trim_left_space (drop (space_len s) s))"
  by pat_completeness auto
termination
proof (relation "measure length")
  fix s assume "space_len s \<noteq> 0"
  then show "(drop (space_len s) s, s) \<in> measure length"
    by (cases s) auto
qed simp

declare trim_left_space.simps [simp del]

text \<open>The width of the white-space rune that ends the string.\<close>

definition space_len_end :: "string \<Rightarrow> nat" where
  "space_len_end s =
     (if s \<noteq> [] \<and> space_len (drop (length s - 1) s) = 1 then 1
      else if 2 \<le> length s \<and> space_len (drop (length s - 2) s) = 2 then 2
      else if 3 \<le> length s \<and> space_len (drop (length s - 3) s) = 3 then 3
      else 0)"

lemma space_len_end_pos: "space_len_end s \<noteq> 0 \<Longrightarrow> s \<noteq> []"
  by (auto simp: space_len_end_def split: if_splits)

function trim_right_space :: "string \<Rightarrow> string" where
  "trim_right_space s =
     (if space_len_end s = 0 then s
      else trim_right_space (take (length s - space_len_end s) s))"
  by pat_completeness auto
termination
proof (relation "measure length")
  fix s assume "space_len_end s \<noteq> 0"
  then show "(take (length s - space_len_end s) s, s) \<in> measure length"
    using space_len_end_pos [of s] by (cases s) auto
qed simp

declare trim_right_space.simps [simp del]

definition trim_space :: "string \<Rightarrow> string" where
  "trim_space s = trim_right_space (trim_left_space s)"

text \<open>The current word, reversed, then the rest.\<close>

function fields_from :: "string \<Rightarrow> string \<Rightarrow> string list" where
  "fields_from w s =
     (if s = [] then (if w = [] then [] else [rev w])
      else if space_len s = 0 then fields_from (hd s # w) (tl s)
      else (if w = [] then [] else [rev w]) @ fields_from [] (drop (space_len s) s))"
  by pat_completeness auto
termination
  by (relation "measure (\<lambda>(w, s). length s)") auto

declare fields_from.simps [simp del]

definition str_fields :: "string \<Rightarrow> string list" where
  "str_fields s = fields_from [] s"

lemma fields_from_nonempty: "f \<in> set (fields_from w s) \<Longrightarrow> f \<noteq> []"
proof (induction w s rule: fields_from.induct)
  case (1 w s)
  then show ?case
    by (subst (asm) (3) fields_from.simps) (auto split: if_splits)
qed

lemma str_fields_nonempty: "f \<in> set (str_fields s) \<Longrightarrow> f \<noteq> []"
  unfolding str_fields_def by (rule fields_from_nonempty)

section \<open>Replacement and search\<close>

text \<open>\<open>ReplaceAll\<close> with a non-empty pattern.\<close>

function replace_all :: "string \<Rightarrow> string \<Rightarrow> string \<Rightarrow> string" where
  "replace_all pat new s =
     (if s = [] then []
      else if pat \<noteq> [] \<and> has_prefix pat s then new @ replace_all pat new (drop (length pat) s)
      else hd s # replace_all pat new (tl s))"
  by pat_completeness auto
termination
  by (relation "measure (\<lambda>(pat, new, s). length s)") auto

declare replace_all.simps [simp del]

primrec index_byte :: "char \<Rightarrow> string \<Rightarrow> nat option" where
  "index_byte c [] = None"
| "index_byte c (x # xs) = (if x = c then Some 0 else map_option Suc (index_byte c xs))"

lemma index_byte_None: "index_byte c s = None \<longleftrightarrow> c \<notin> set s"
  by (induction s) auto

lemma index_byte_Some: "index_byte c s = Some i \<Longrightarrow> i < length s \<and> s ! i = c \<and> c \<notin> set (take i s)"
  by (induction s arbitrary: i) (auto split: if_splits)

lemma index_byte_append: "c \<notin> set a \<Longrightarrow> index_byte c (a @ c # b) = Some (length a)"
  by (induction a) auto

text \<open>ASCII lower case, \<open>c | 0x20\<close> on letters.\<close>

definition lower :: "char \<Rightarrow> char" where
  "lower c = (if 65 \<le> byte c \<and> byte c \<le> 90 then char_of (byte c + 32) else c)"

section \<open>Fields and trimming of ASCII text\<close>

definition plain :: "char \<Rightarrow> bool" where
  "plain c \<longleftrightarrow> byte c < 128 \<and> \<not> ascii_space c"

lemma ascii_space_byte: "ascii_space c \<Longrightarrow> byte c < 128"
  by (auto simp: ascii_space_def)

lemma plain_not_space: "plain c \<Longrightarrow> \<not> ascii_space c"
  by (simp add: plain_def)

lemma fields_from_plain: "list_all plain a \<Longrightarrow> fields_from w (a @ s) = fields_from (rev a @ w) s"
proof (induction a arbitrary: w)
  case (Cons c a)
  then have "fields_from w ((c # a) @ s) = fields_from (c # w) (a @ s)"
    by (subst fields_from.simps) (simp add: space_len_ascii plain_def)
  with Cons show ?case by simp
qed simp

lemma fields_from_space: "ascii_space c \<Longrightarrow> fields_from w (c # s) = (if w = [] then [] else [rev w]) @ fields_from [] s"
  by (subst fields_from.simps) (simp add: space_len_ascii ascii_space_byte)

lemma fields_from_Nil [simp]: "fields_from w [] = (if w = [] then [] else [rev w])"
  by (subst fields_from.simps) simp

lemma str_fields_skip [simp]: "list_all ascii_space sp \<Longrightarrow> str_fields (sp @ s) = str_fields s"
  by (induction sp) (simp_all add: str_fields_def fields_from_space)

lemma str_fields_Nil [simp]: "str_fields [] = []"
  by (simp add: str_fields_def)

lemma str_fields_blank: "list_all ascii_space sp \<Longrightarrow> str_fields sp = []"
  using str_fields_skip [of sp "[]"] by simp

text \<open>A word, then white space; a word that ends the text.\<close>

lemma str_fields_word [go_str]:
  "list_all plain a \<Longrightarrow> a \<noteq> [] \<Longrightarrow> ascii_space c \<Longrightarrow> str_fields (a @ c # s) = a # str_fields s"
  by (simp add: str_fields_def fields_from_plain fields_from_space)

lemma str_fields_last [go_str]: "list_all plain a \<Longrightarrow> a \<noteq> [] \<Longrightarrow> str_fields a = [a]"
  using fields_from_plain [of a "[]" "[]"] by (simp add: str_fields_def)

text \<open>Words, each after some white space and closed by one.\<close>

lemma str_fields_words:
  assumes "\<And>a. a \<in> set ws \<Longrightarrow> list_all plain a \<and> a \<noteq> [] \<and> list_all ascii_space (before a) \<and> ascii_space (close a)"
  shows "str_fields (concat (map (\<lambda>a. before a @ a @ [close a]) ws) @ s) = ws @ str_fields s"
  using assms by (induction ws) (simp_all add: str_fields_word)

lemma space_len_end_ascii:
  assumes "byte c < 128"
  shows "space_len_end (s @ [c]) = (if ascii_space c then 1 else 0)"
proof -
  have "space_len (drop (length s - Suc 0) (s @ [c])) \<noteq> 2" if "s \<noteq> []"
  proof -
    from that obtain t d where s: "s = t @ [d]" by (cases s rule: rev_cases) auto
    show ?thesis using assms by (auto simp: s space_len_def)
  qed
  moreover have "space_len (drop (length s - 2) (s @ [c])) \<noteq> 3" if "2 \<le> length s"
  proof -
    from that obtain t d e where s: "s = t @ [d, e]"
      by (cases s rule: rev_cases) (auto, metis append_butlast_last_id append.assoc append_Cons append_Nil length_0_conv not_less_eq_eq numeral_2_eq_2 zero_le)
    show ?thesis using assms by (auto simp: s space_len_def)
  qed
  ultimately show ?thesis
    using assms by (cases "s = []") (auto simp: space_len_end_def space_len_ascii)
qed

lemma trim_left_plain: "plain c \<Longrightarrow> trim_left_space (c # s) = c # s"
  by (subst trim_left_space.simps) (simp add: space_len_ascii plain_def)

lemma trim_left_skip: "list_all ascii_space sp \<Longrightarrow> trim_left_space (sp @ s) = trim_left_space s"
proof (induction sp)
  case (Cons c sp)
  then show ?case by (subst trim_left_space.simps) (simp add: space_len_ascii ascii_space_byte)
qed simp

lemma trim_right_plain: "plain c \<Longrightarrow> trim_right_space (s @ [c]) = s @ [c]"
  by (subst trim_right_space.simps) (simp add: space_len_end_ascii plain_def)

lemma trim_right_skip: "list_all ascii_space sp \<Longrightarrow> trim_right_space (s @ sp) = trim_right_space s"
proof (induction sp rule: rev_induct)
  case (snoc c sp)
  then have "space_len_end ((s @ sp) @ [c]) = 1" by (subst space_len_end_ascii) (auto simp: ascii_space_byte)
  with snoc show ?case by (subst trim_right_space.simps) simp
qed simp

text \<open>A text whose first and last characters are plain, inside white space.\<close>

definition trimmed :: "string \<Rightarrow> bool" where
  "trimmed s \<longleftrightarrow> (s = [] \<or> plain (hd s) \<and> plain (last s))"

lemma trim_space_pad [go_str]:
  assumes "trimmed s" "list_all ascii_space l" "list_all ascii_space r"
  shows "trim_space (l @ s @ r) = s"
proof (cases "s = []")
  case True
  have "trim_left_space [] = []" by (subst trim_left_space.simps) simp
  then have "trim_left_space (l @ r) = []" using trim_left_skip [of "l @ r" "[]"] assms(2,3) by simp
  moreover have "trim_right_space [] = []" by (subst trim_right_space.simps) (simp add: space_len_end_def)
  ultimately show ?thesis by (simp add: True trim_space_def)
next
  case False
  then have "trim_left_space (l @ s @ r) = s @ r" "trim_right_space (s @ r) = s"
    using assms trim_left_skip [of l "s @ r"] trim_left_plain [of "hd s" "tl s @ r"]
      trim_right_skip [of r s] trim_right_plain [of "last s" "butlast s"]
    by (simp_all add: trimmed_def hd_Cons_tl flip: append_Cons)
  then show ?thesis by (simp add: trim_space_def)
qed

section \<open>Lines\<close>

abbreviation newline :: char where "newline \<equiv> CHR 0x0A"

definition lines_of :: "string \<Rightarrow> string list" where
  "lines_of data = split_on newline data"

lemma lines_of_lines:
  assumes "\<And>l. l \<in> set ls \<Longrightarrow> newline \<notin> set l"
  shows "lines_of (concat (map (\<lambda>l. l @ [newline]) ls) @ s) = ls @ lines_of s"
  using assms by (induction ls) (simp_all add: lines_of_def split_on_present)

lemma ascii_space_blank [simp]: "ascii_space CHR '' ''" "ascii_space newline"
  by code_simp+

lemma blanks [simp]: "list_all ascii_space (replicate k CHR '' '')"
  by (induction k) simp_all

lemma str_fields_joined:
  "list_all (\<lambda>w. list_all plain w \<and> w \<noteq> []) ws \<Longrightarrow> str_fields (join_with '' '' ws) = ws"
  by (induction ws) (auto simp: str_fields_last str_fields_word)

text \<open>
  The lines of a \<open>bufio.Scanner\<close>: no last empty one, a carriage return before the newline left
  out, and nothing from the first line on that does not fit its buffer of 64 kilobytes.
\<close>

definition drop_cr :: "string \<Rightarrow> string" where
  "drop_cr l = (if l \<noteq> [] \<and> last l = CHR 0x0D then butlast l else l)"

definition scan_lines :: "string \<Rightarrow> string list" where
  "scan_lines data =
     (let ls = lines_of data
      in map drop_cr (takeWhile (\<lambda>l. length l < 65536) (if last ls = [] then butlast ls else ls)))"

lemma scan_lines_lines:
  assumes "\<And>l. l \<in> set ls \<Longrightarrow> newline \<notin> set l \<and> CHR 0x0D \<notin> set l \<and> length l < 65536"
  shows "scan_lines (concat (map (\<lambda>l. l @ [newline]) ls)) = ls"
proof -
  have "lines_of (concat (map (\<lambda>l. l @ [newline]) ls) @ []) = ls @ lines_of []"
    using assms by (intro lines_of_lines) blast
  moreover have "drop_cr l = l" if "l \<in> set ls" for l
    using assms [OF that] by (auto simp: drop_cr_def dest: last_in_set)
  moreover have whole: "takeWhile (\<lambda>l. length l < 65536) ls = ls"
    using assms by (simp add: takeWhile_eq_all_conv)
  ultimately show ?thesis by (simp add: scan_lines_def lines_of_def whole map_idI)
qed

section \<open>Paths\<close>

definition after_last_slash :: "string \<Rightarrow> string" where
  "after_last_slash s = rev (takeWhile (\<lambda>c. c \<noteq> CHR ''/'') (rev s))"

definition base_name :: "string \<Rightarrow> string" where
  "base_name path =
     (if path = [] then ''.''
      else let b = after_last_slash (trim_right_of ''/'' path) in if b = [] then ''/'' else b)"

definition trim_suffix :: "string \<Rightarrow> string \<Rightarrow> string" where
  "trim_suffix suf s = (if has_prefix (rev suf) (rev s) then take (length s - length suf) s else s)"

end
