(* ===== verification/GoFloat.thy ===== *)
theory GoFloat
  imports Complex_Main Prelude
begin

text \<open>
  IEEE 754 binary floating point as Go's \<open>float64\<close> and \<open>float32\<close> have it (round to nearest,
  ties to even). A finite value is its rational value; the negative zero, the infinities and
  NaN are constructors of their own. Every operation computes the exact rational result and
  rounds it once. The definitions compute: rounding takes the binary exponent of the exact
  result, scales, and rounds to an integer.
\<close>

section \<open>Values\<close>

datatype gofloat = NaN | Inf bool | NegZero | Fin rat

type_synonym f64 = gofloat
type_synonym f32 = gofloat

text \<open>\<open>Inf True\<close> is negative infinity.\<close>

definition fval :: "gofloat \<Rightarrow> rat" where
  "fval x = (case x of Fin q \<Rightarrow> q | _ \<Rightarrow> 0)"

definition fneg :: "gofloat \<Rightarrow> bool" where
  "fneg x = (case x of Fin q \<Rightarrow> q < 0 | NegZero \<Rightarrow> True | Inf s \<Rightarrow> s | NaN \<Rightarrow> False)"

definition is_finite :: "gofloat \<Rightarrow> bool" where
  "is_finite x = (case x of NaN \<Rightarrow> False | Inf _ \<Rightarrow> False | _ \<Rightarrow> True)"

lemma fval_simps [simp, fl_simps]:
  "fval (Fin q) = q" "fval NegZero = 0"
  by (simp_all add: fval_def)

lemma fneg_simps [simp, fl_simps]:
  "fneg (Fin q) = (q < 0)" "fneg NegZero" "fneg (Inf s) = s" "\<not> fneg NaN"
  by (simp_all add: fneg_def)

lemma is_finite_simps [simp, fl_simps]:
  "is_finite (Fin q)" "is_finite NegZero" "\<not> is_finite (Inf s)" "\<not> is_finite NaN"
  by (simp_all add: is_finite_def)

section \<open>Rounding\<close>

text \<open>The floor of the binary logarithm of a positive integer, then of a positive rational.\<close>

function log2_int :: "int \<Rightarrow> nat" where
  "log2_int n = (if n \<le> 1 then 0 else Suc (log2_int (n div 2)))"
  by pat_completeness auto
termination
  by (relation "measure nat") auto

declare log2_int.simps [simp del]

definition ilog2 :: "rat \<Rightarrow> int" where
  "ilog2 q = (case quotient_of q of (n, d) \<Rightarrow>
     let k = int (log2_int n) - int (log2_int d) in if 2 powi k \<le> q then k else k - 1)"

definition round_even :: "rat \<Rightarrow> int" where
  "round_even x = (let f = \<lfloor>x\<rfloor>; r = x - of_int f in
     if r < 1 / 2 then f else if 1 / 2 < r then f + 1 else if even f then f else f + 1)"

text \<open>
  Rounding a positive magnitude to \<open>p\<close> significant bits with least exponent \<open>emin\<close>, then
  signed values with overflow at \<open>emax\<close>. \<open>s\<close> is the sign of the exact result.
\<close>

definition round_mag :: "nat \<Rightarrow> int \<Rightarrow> rat \<Rightarrow> rat" where
  "round_mag p emin q =
     (let u = 2 powi (max (ilog2 q) emin - int p + 1) in of_int (round_even (q / u)) * u)"

definition round_to :: "nat \<Rightarrow> int \<Rightarrow> int \<Rightarrow> bool \<Rightarrow> rat \<Rightarrow> gofloat" where
  "round_to p emin emax s q =
     (if q = 0 then if s then NegZero else Fin 0
      else let m = round_mag p emin \<bar>q\<bar> in
        if m = 0 then if s then NegZero else Fin 0
        else if 2 powi (emax + 1) \<le> m then Inf s
        else Fin (if s then - m else m))"

definition rnd64 :: "bool \<Rightarrow> rat \<Rightarrow> f64" where
  "rnd64 = round_to 53 (-1022) 1023"

definition rnd32 :: "bool \<Rightarrow> rat \<Rightarrow> f32" where
  "rnd32 = round_to 24 (-126) 127"

section \<open>Operations\<close>

definition fadd :: "f64 \<Rightarrow> f64 \<Rightarrow> f64" where
  "fadd x y =
     (case x of NaN \<Rightarrow> NaN
      | Inf s \<Rightarrow> (case y of NaN \<Rightarrow> NaN | Inf t \<Rightarrow> if s = t then Inf s else NaN | _ \<Rightarrow> Inf s)
      | _ \<Rightarrow> (case y of NaN \<Rightarrow> NaN | Inf t \<Rightarrow> Inf t
        | _ \<Rightarrow> if x = NegZero \<and> y = NegZero then NegZero
               else rnd64 (fval x + fval y < 0) (fval x + fval y)))"

definition fminus :: "f64 \<Rightarrow> f64" where
  "fminus x = (case x of NaN \<Rightarrow> NaN | Inf s \<Rightarrow> Inf (\<not> s) | NegZero \<Rightarrow> Fin 0
     | Fin q \<Rightarrow> if q = 0 then NegZero else Fin (- q))"

definition fsub :: "f64 \<Rightarrow> f64 \<Rightarrow> f64" where
  "fsub x y = fadd x (fminus y)"

definition fmul :: "f64 \<Rightarrow> f64 \<Rightarrow> f64" where
  "fmul x y =
     (let s = (fneg x \<noteq> fneg y) in
      if x = NaN \<or> y = NaN then NaN
      else if \<not> is_finite x \<or> \<not> is_finite y
        then if is_finite x \<and> fval x = 0 \<or> is_finite y \<and> fval y = 0 then NaN else Inf s
      else rnd64 s (fval x * fval y))"

definition fdiv :: "f64 \<Rightarrow> f64 \<Rightarrow> f64" where
  "fdiv x y =
     (let s = (fneg x \<noteq> fneg y) in
      if x = NaN \<or> y = NaN then NaN
      else if \<not> is_finite x then if is_finite y then Inf s else NaN
      else if \<not> is_finite y then if s then NegZero else Fin 0
      else if fval y = 0 then if fval x = 0 then NaN else Inf s
      else rnd64 s (fval x / fval y))"

definition flt :: "gofloat \<Rightarrow> gofloat \<Rightarrow> bool" where
  "flt x y =
     (case x of NaN \<Rightarrow> False
      | Inf s \<Rightarrow> (case y of NaN \<Rightarrow> False | Inf t \<Rightarrow> s \<and> \<not> t | _ \<Rightarrow> s)
      | _ \<Rightarrow> (case y of NaN \<Rightarrow> False | Inf t \<Rightarrow> \<not> t | _ \<Rightarrow> fval x < fval y))"

definition feq :: "gofloat \<Rightarrow> gofloat \<Rightarrow> bool" where
  "feq x y =
     (case x of NaN \<Rightarrow> False
      | Inf s \<Rightarrow> y = Inf s
      | _ \<Rightarrow> is_finite y \<and> fval x = fval y)"

definition fle :: "gofloat \<Rightarrow> gofloat \<Rightarrow> bool" where
  "fle x y \<longleftrightarrow> flt x y \<or> feq x y"

text \<open>Conversions. Converting an out-of-range value to an integer is left to the platform
  (Go calls it implementation-dependent): \<open>cvt\<close> is the platform's choice there.\<close>

definition f64_of_int :: "int \<Rightarrow> f64" where
  "f64_of_int n = rnd64 (n < 0) (of_int n)"

definition f32_of :: "f64 \<Rightarrow> f32" where
  "f32_of x = (case x of Fin q \<Rightarrow> rnd32 (q < 0) q | _ \<Rightarrow> x)"

definition trunc_rat :: "rat \<Rightarrow> int" where
  "trunc_rat q = (if q < 0 then - \<lfloor>- q\<rfloor> else \<lfloor>q\<rfloor>)"

definition f64_to_int :: "int \<Rightarrow> int \<Rightarrow> (f64 \<Rightarrow> int) \<Rightarrow> f64 \<Rightarrow> int" where
  "f64_to_int lo hi cvt x =
     (if is_finite x \<and> lo \<le> trunc_rat (fval x) \<and> trunc_rat (fval x) \<le> hi
      then trunc_rat (fval x) else cvt x)"

section \<open>The binary logarithm\<close>

lemma log2_int_bounds:
  "0 < n \<Longrightarrow> 2 ^ log2_int n \<le> n \<and> n < 2 ^ Suc (log2_int n)"
proof (induction n rule: log2_int.induct)
  case (1 n)
  show ?case
  proof (cases "n \<le> 1")
    case True
    with "1.prems" have "n = 1" by simp
    then show ?thesis by (simp add: log2_int.simps)
  next
    case False
    with "1.IH" have ih: "2 ^ log2_int (n div 2) \<le> n div 2" "n div 2 < 2 ^ Suc (log2_int (n div 2))"
      by auto
    have "log2_int n = Suc (log2_int (n div 2))"
      using False by (simp add: log2_int.simps [of n])
    moreover have "2 * (n div 2) \<le> n" "n < 2 * (n div 2) + 2" by auto
    ultimately show ?thesis using ih by auto
  qed
qed

lemma quotient_of_pos:
  assumes "0 < q" "quotient_of q = (n, d)"
  shows "0 < n" "0 < d" "q = of_int n / of_int d"
proof -
  show "0 < d" using assms(2) by (rule quotient_of_denom_pos)
  show q: "q = of_int n / of_int d" using assms(2) by (rule quotient_of_div)
  show "0 < n" using q assms(1) \<open>0 < d\<close> by (simp add: zero_less_divide_iff)
qed

lemma powi_diff_nat: "(2::rat) powi (int a - int b) = 2 ^ a / 2 ^ b"
  by (simp add: power_int_diff)

lemma ilog2_bounds:
  assumes "0 < q"
  shows "2 powi ilog2 q \<le> q" "q < 2 powi (ilog2 q + 1)"
proof -
  obtain n d where nd: "quotient_of q = (n, d)" by fastforce
  note p = quotient_of_pos [OF assms nd]
  define a b where "a = log2_int n" and "b = log2_int d"
  let ?k = "int a - int b"
  have n: "2 ^ a \<le> n" "n < 2 ^ Suc a" using log2_int_bounds [OF p(1)] by (simp_all add: a_def)
  have d: "2 ^ b \<le> d" "d < 2 ^ Suc b" using log2_int_bounds [OF p(2)] by (simp_all add: b_def)
  have il: "ilog2 q = (if 2 powi ?k \<le> q then ?k else ?k - 1)"
    by (simp add: ilog2_def nd a_def b_def Let_def)
  have rn: "(2::rat) ^ a \<le> of_int n" "of_int n < (2::rat) ^ Suc a"
    using n by (metis of_int_le_iff of_int_power of_int_numeral, metis of_int_less_iff of_int_power of_int_numeral)
  have rd: "(2::rat) ^ b \<le> of_int d" "of_int d < (2::rat) ^ Suc b"
    using d by (metis of_int_le_iff of_int_power of_int_numeral, metis of_int_less_iff of_int_power of_int_numeral)
  have "q < 2 ^ Suc a / 2 ^ b"
    unfolding p(3) using rn(2) rd(1) p(1,2) by (intro frac_less) auto
  then have up: "q < 2 powi (?k + 1)"
    by (simp add: power_int_add power_int_diff mult.commute)
  have "2 ^ a / 2 ^ Suc b \<le> q"
    unfolding p(3) using rn(1) rd(2) p(1,2) by (intro frac_le) auto
  then have lo: "2 powi (?k - 1) \<le> q"
    by (simp add: power_int_diff)
  show "2 powi ilog2 q \<le> q" using lo by (simp add: il)
  show "q < 2 powi (ilog2 q + 1)" using up by (simp add: il)
qed

lemma powi_mono2: "a \<le> b \<Longrightarrow> (2::rat) powi a \<le> 2 powi b"
  by (rule power_int_increasing) auto

lemma ilog2_unique:
  assumes "0 < q" "2 powi k \<le> q" "q < 2 powi (k + 1)"
  shows "ilog2 q = k"
proof -
  note b = ilog2_bounds [OF assms(1)]
  have "k < ilog2 q + 1"
  proof (rule ccontr)
    assume "\<not> k < ilog2 q + 1"
    then have "(2::rat) powi (ilog2 q + 1) \<le> 2 powi k" by (intro powi_mono2) simp
    with b(2) assms(2) show False by simp
  qed
  moreover have "ilog2 q < k + 1"
  proof (rule ccontr)
    assume "\<not> ilog2 q < k + 1"
    then have "(2::rat) powi (k + 1) \<le> 2 powi ilog2 q" by (intro powi_mono2) simp
    with b(1) assms(3) show False by simp
  qed
  ultimately show ?thesis by simp
qed

lemma ilog2_mono:
  assumes "0 < a" "a \<le> b"
  shows "ilog2 a \<le> ilog2 b"
proof (rule ccontr)
  assume "\<not> ilog2 a \<le> ilog2 b"
  then have "(2::rat) powi (ilog2 b + 1) \<le> 2 powi ilog2 a" by (intro powi_mono2) simp
  with ilog2_bounds [OF assms(1)] ilog2_bounds [of b] assms show False by simp
qed

text \<open>Equations for evaluation: powers of two through integers, the overflow test through the
  exponent.\<close>

definition pow2 :: "int \<Rightarrow> rat" where
  "pow2 k = (if 0 \<le> k then of_int (2 ^ nat k) else Fract 1 (2 ^ nat (- k)))"

lemma powi_pow2: "(2::rat) powi k = pow2 k"
  by (simp add: pow2_def power_int_def Fract_of_int_quotient field_simps)

lemma ilog2_code [code]:
  "ilog2 q = (case quotient_of q of (n, d) \<Rightarrow>
     let k = int (log2_int n) - int (log2_int d) in if pow2 k \<le> q then k else k - 1)"
  by (simp add: ilog2_def powi_pow2)

lemma round_mag_code [code]:
  "round_mag p emin q =
     (let e = max (ilog2 q) emin - int p + 1
      in of_int (round_even (q * pow2 (- e))) * pow2 e)"
proof -
  have "q / 2 powi e = q * 2 powi (- e)" for e :: int
    by (simp add: power_int_minus divide_inverse)
  then show ?thesis by (simp add: round_mag_def powi_pow2 [symmetric] Let_def)
qed

section \<open>Rounding to an integer\<close>

lemma round_even_of_int [simp]: "round_even (of_int k) = k"
  by (simp add: round_even_def)

lemma round_even_floor: "\<lfloor>x\<rfloor> \<le> round_even x" "round_even x \<le> \<lfloor>x\<rfloor> + 1"
  by (simp_all add: round_even_def Let_def)

lemma round_even_mono:
  assumes "x \<le> y"
  shows "round_even x \<le> round_even y"
proof (cases "\<lfloor>x\<rfloor> = \<lfloor>y\<rfloor>")
  case True
  with assms show ?thesis by (auto simp: round_even_def Let_def)
next
  case False
  with floor_mono [OF assms] have "\<lfloor>x\<rfloor> + 1 \<le> \<lfloor>y\<rfloor>" by simp
  with round_even_floor [of x] round_even_floor [of y] show ?thesis by linarith
qed

lemma round_even_error: "\<bar>of_int (round_even x) - x\<bar> \<le> 1 / 2"
  unfolding round_even_def Let_def by (simp add: abs_if) linarith

lemma round_even_le_int: "x \<le> of_int k \<Longrightarrow> round_even x \<le> k"
  using round_even_mono [of x "of_int k"] by simp

lemma round_even_ge_int: "of_int k \<le> x \<Longrightarrow> k \<le> round_even x"
  using round_even_mono [of "of_int k" x] by simp

section \<open>Rounding a magnitude\<close>

lemma powi_mult2: "(2::rat) powi a * 2 powi b = 2 powi (a + b)"
  by (simp add: power_int_add)

lemma powi_nat_of_int: "0 \<le> k \<Longrightarrow> (2::rat) powi k = of_int (2 ^ nat k)"
  by (simp add: power_int_def)

lemma round_mag_exact:
  assumes q: "0 < q" "q = of_int m * 2 powi k" and m: "m < 2 ^ p" and k: "emin - int p + 1 \<le> k"
  shows "round_mag p emin q = q"
proof -
  define E where "E = max (ilog2 q) emin"
  define u where "u = (2::rat) powi (E - int p + 1)"
  have "q < 2 powi int p * 2 powi k"
    unfolding q(2)
  proof (rule mult_strict_right_mono)
    show "rat_of_int m < 2 powi int p"
      using m by (metis of_int_less_iff of_int_power of_int_numeral power_int_of_nat)
  qed simp
  then have "2 powi ilog2 q < (2::rat) powi (int p + k)"
    using ilog2_bounds(1) [OF q(1)] by (simp add: power_int_add)
  then have "ilog2 q < int p + k"
    by (metis powi_mono2 linorder_not_less)
  with k have ge: "0 \<le> k - (E - int p + 1)" by (simp add: E_def)
  have "q / u = of_int m * 2 powi (k - (E - int p + 1))"
    by (simp add: q(2) u_def power_int_diff)
  also have "\<dots> = of_int (m * 2 ^ nat (k - (E - int p + 1)))"
    using ge by (simp add: powi_nat_of_int)
  finally have "q / u = of_int (m * 2 ^ nat (k - (E - int p + 1)))" .
  then have "of_int (round_even (q / u)) * u = q / u * u" by (metis round_even_of_int)
  also have "\<dots> = q" by (simp add: u_def)
  finally show ?thesis by (simp add: round_mag_def E_def u_def Let_def)
qed

lemma round_mag_error:
  "\<bar>round_mag p emin q - q\<bar> \<le> 2 powi (max (ilog2 q) emin - int p + 1) / 2"
proof -
  define u where "u = (2::rat) powi (max (ilog2 q) emin - int p + 1)"
  have u: "0 < u" by (simp add: u_def)
  have "\<bar>of_int (round_even (q / u)) * u - q\<bar> = \<bar>of_int (round_even (q / u)) - q / u\<bar> * u"
    using u by (simp add: abs_if field_simps)
  also have "\<dots> \<le> 1 / 2 * u"
    using u round_even_error [of "q / u"] by (intro mult_right_mono) auto
  finally show ?thesis by (simp add: round_mag_def u_def Let_def)
qed

lemma round_mag_lower:
  assumes "0 < q" "0 < p" "2 powi e \<le> q" "emin \<le> e"
  shows "2 powi e \<le> round_mag p emin q"
proof -
  have il: "e \<le> ilog2 q"
    using ilog2_mono [of "2 powi e" q] assms(3) ilog2_unique [of "2 powi e" e]
    by (simp add: power_int_add)
  define E where "E = max (ilog2 q) emin"
  define u where "u = (2::rat) powi (E - int p + 1)"
  have E: "E = ilog2 q" using il assms(4) by (simp add: E_def)
  have u: "0 < u" by (simp add: u_def)
  have "2 powi (int p - 1) * u = 2 powi E"
    by (simp add: u_def flip: power_int_add)
  also have "\<dots> \<le> q" using ilog2_bounds(1) [OF assms(1)] E by simp
  finally have "of_int (2 ^ nat (int p - 1)) \<le> q / u"
    using u assms(2) by (simp add: field_simps powi_nat_of_int)
  then have "2 ^ nat (int p - 1) \<le> round_even (q / u)" by (rule round_even_ge_int)
  then have "of_int (2 ^ nat (int p - 1)) * u \<le> of_int (round_even (q / u)) * u"
    using u by (intro mult_right_mono, subst of_int_le_iff) simp_all
  also have "of_int (2 ^ nat (int p - 1)) * u = 2 powi E"
  proof -
    have "of_int (2 ^ nat (int p - 1)) * u = 2 powi (int p - 1) * 2 powi (E - int p + 1)"
      using assms(2) by (simp only: u_def powi_nat_of_int)
    also have "\<dots> = 2 powi E" by (simp only: powi_mult2) simp
    finally show ?thesis .
  qed
  finally have "2 powi E \<le> round_mag p emin q" by (simp add: round_mag_def E_def u_def Let_def)
  moreover have "(2::rat) powi e \<le> 2 powi E" using il E by (intro powi_mono2) simp
  ultimately show ?thesis by simp
qed

lemma round_mag_upper:
  assumes "0 < q"
  shows "round_mag p emin q \<le> 2 powi (max (ilog2 q) emin + 1)"
proof -
  define E where "E = max (ilog2 q) emin"
  define u where "u = (2::rat) powi (E - int p + 1)"
  have u: "0 < u" by (simp add: u_def)
  have "q \<le> 2 powi (ilog2 q + 1)" using ilog2_bounds(2) [OF assms] by simp
  also have "\<dots> \<le> 2 powi (E + 1)" by (intro powi_mono2) (simp add: E_def)
  also have "\<dots> = 2 powi int p * u" by (simp only: u_def powi_mult2) simp
  finally have "q / u \<le> of_int (2 ^ p)" using u by (simp add: field_simps)
  then have "round_even (q / u) \<le> 2 ^ p" by (rule round_even_le_int)
  then have "of_int (round_even (q / u)) * u \<le> of_int (2 ^ p) * u"
    using u by (intro mult_right_mono, subst of_int_le_iff) simp_all
  also have "of_int (2 ^ p) * u = 2 powi (E + 1)"
  proof -
    have "of_int (2 ^ p) * u = 2 powi int p * 2 powi (E - int p + 1)" by (simp add: u_def)
    also have "\<dots> = 2 powi (E + 1)" by (simp only: powi_mult2) simp
    finally show ?thesis .
  qed
  finally show ?thesis by (simp add: round_mag_def E_def u_def Let_def)
qed

lemma round_mag_mono:
  assumes "0 < a" "a \<le> b" "0 < p"
  shows "round_mag p emin a \<le> round_mag p emin b"
proof -
  have il: "ilog2 a \<le> ilog2 b" using assms(1,2) by (rule ilog2_mono)
  show ?thesis
  proof (cases "max (ilog2 a) emin = max (ilog2 b) emin")
    case True
    define u where "u = (2::rat) powi (max (ilog2 b) emin - int p + 1)"
    have "0 < u" by (simp add: u_def)
    with assms(2) have "round_even (a / u) \<le> round_even (b / u)"
      by (intro round_even_mono) (simp add: field_simps)
    with \<open>0 < u\<close> show ?thesis by (simp add: round_mag_def True u_def [symmetric] Let_def)
  next
    case False
    with il have less: "max (ilog2 a) emin + 1 \<le> ilog2 b" and ge: "emin \<le> ilog2 b" by auto
    have "round_mag p emin a \<le> 2 powi (max (ilog2 a) emin + 1)"
      using assms(1) by (rule round_mag_upper)
    also have "\<dots> \<le> 2 powi ilog2 b" using less by (rule powi_mono2)
    also have "\<dots> \<le> round_mag p emin b"
      using assms ge ilog2_bounds(1) [of b] by (intro round_mag_lower) auto
    finally show ?thesis .
  qed
qed

lemma round_mag_nonneg: "0 \<le> q \<Longrightarrow> 0 \<le> round_mag p emin q"
  unfolding round_mag_def Let_def
  by (intro mult_nonneg_nonneg) (auto intro!: round_even_ge_int [of 0, simplified])

lemma round_to_code [code]:
  "round_to p emin emax s q =
     (if q = 0 then if s then NegZero else Fin 0
      else let m = round_mag p emin \<bar>q\<bar> in
        if m = 0 then if s then NegZero else Fin 0
        else if emax < ilog2 m then Inf s
        else Fin (if s then - m else m))"
proof -
  have "(2 powi (emax + 1) \<le> m) = (emax < ilog2 m)" if "0 < m" for m :: rat
  proof
    assume le: "2 powi (emax + 1) \<le> m"
    have "ilog2 (2 powi (emax + 1)) = emax + 1" by (rule ilog2_unique) (simp_all add: power_int_add)
    with ilog2_mono [OF _ le] show "emax < ilog2 m" by simp
  next
    assume "emax < ilog2 m"
    then have "(2::rat) powi (emax + 1) \<le> 2 powi ilog2 m" by (intro powi_mono2) simp
    with ilog2_bounds(1) [OF that] show "2 powi (emax + 1) \<le> m" by simp
  qed
  moreover have "0 \<le> round_mag p emin \<bar>q\<bar>" by (intro round_mag_nonneg) simp
  ultimately show ?thesis by (simp add: round_to_def Let_def less_le)
qed

section \<open>Rounding to float64\<close>

lemma rnd64_zero [simp, fl_simps]: "rnd64 s 0 = (if s then NegZero else Fin 0)"
  by (simp add: rnd64_def round_to_def)

text \<open>A rational with at most 53 significant bits and a normal exponent is kept exactly.\<close>

lemma rnd64_exact:
  assumes q: "\<bar>q\<bar> = of_int m * 2 powi k" and m: "0 < m" "m < 2 ^ 53"
    and k: "- 1074 \<le> k" "k \<le> 971" and s: "s = (q < 0)"
  shows "rnd64 s q = Fin q"
proof -
  have pos: "0 < \<bar>q\<bar>" unfolding q using m(1) by simp
  have ex: "round_mag 53 (- 1022) \<bar>q\<bar> = \<bar>q\<bar>"
    using pos q m k by (intro round_mag_exact [where m = m and k = k]) auto
  have "\<bar>q\<bar> < of_int (2 ^ 53) * 2 powi k"
    unfolding q using m(2) by (intro mult_strict_right_mono, subst of_int_less_iff) simp_all
  also have "of_int (2 ^ 53) * 2 powi k = (2::rat) powi 53 * 2 powi k" by (simp add: power_int_def)
  also have "\<dots> = (2::rat) powi (53 + k)" by (rule powi_mult2)
  also have "\<dots> \<le> 2 powi 1024" using k(2) by (intro powi_mono2) simp
  finally have small: "\<not> (2::rat) powi (1023 + 1) \<le> \<bar>q\<bar>" by simp
  show ?thesis
    using pos small by (simp add: rnd64_def round_to_def ex s Let_def)
qed

lemma rnd64_int:
  assumes "\<bar>n\<bar> \<le> 2 ^ 53" "n \<noteq> 0 \<or> \<not> s" "n \<noteq> 0 \<Longrightarrow> s = (n < 0)"
  shows "rnd64 s (of_int n) = Fin (of_int n)"
proof (cases "n = 0")
  case True
  with assms show ?thesis by simp
next
  case nz: False
  show ?thesis
  proof (cases "\<bar>n\<bar> = 2 ^ 53")
    case True
    then have "\<bar>rat_of_int n\<bar> = of_int 1 * 2 powi 53" by (simp add: power_int_def flip: of_int_abs)
    then show ?thesis using assms nz by (intro rnd64_exact [where m = 1 and k = 53]) auto
  next
    case False
    then show ?thesis using assms nz by (intro rnd64_exact [where m = "\<bar>n\<bar>" and k = 0]) auto
  qed
qed

lemma f64_of_int_exact [fl_simps]: "\<bar>n\<bar> \<le> 2 ^ 53 \<Longrightarrow> f64_of_int n = Fin (of_int n)"
  unfolding f64_of_int_def by (rule rnd64_int) auto

lemma fadd_int:
  "\<bar>a + b\<bar> \<le> 2 ^ 53 \<Longrightarrow> fadd (Fin (of_int a)) (Fin (of_int b)) = Fin (of_int (a + b))"
  unfolding fadd_def using rnd64_int [of "a + b" "a + b < 0"]
  by (simp flip: of_int_add)

lemma fsub_int:
  "\<bar>a - b\<bar> \<le> 2 ^ 53 \<Longrightarrow> fsub (Fin (of_int a)) (Fin (of_int b)) = Fin (of_int (a - b))"
  unfolding fsub_def fminus_def fadd_def using rnd64_int [of "a - b" "a - b < 0"]
  by (cases "b = 0") (auto simp flip: of_int_diff)

lemma fmul_int:
  "\<bar>a * b\<bar> \<le> 2 ^ 53 \<Longrightarrow> 0 < a \<Longrightarrow> fmul (Fin (of_int a)) (Fin (of_int b)) = Fin (of_int (a * b))"
  unfolding fmul_def using rnd64_int [of "a * b" "b < 0"]
  by (auto simp: Let_def mult_less_0_iff simp flip: of_int_mult)

lemma fdiv_one [fl_simps]: "fdiv (Fin 1) (Fin 1) = Fin 1"
  using rnd64_int [of 1 False] by (simp add: fdiv_def)

lemma fdiv_int_one [fl_simps]: "\<bar>n\<bar> \<le> 2 ^ 53 \<Longrightarrow> fdiv (Fin (of_int n)) (Fin 1) = Fin (of_int n)"
  unfolding fdiv_def using rnd64_int [of n "n < 0"] by (auto simp: Let_def)

text \<open>Dividing a whole number by 100 rounds to a value with the exact quotient's floor.\<close>

lemma rnd64_hundredths:
  fixes a :: int
  assumes a: "0 < a" "a < 2 ^ 40"
  shows "\<exists>q. rnd64 False (of_int a / 100) = Fin q \<and> \<lfloor>q\<rfloor> = a div 100"
proof -
  define x where "x = rat_of_int a / 100"
  define m where "m = round_mag 53 (- 1022) x"
  have x: "0 < x" "1 / 100 \<le> x" "x < 2 powi 40"
  proof -
    show "0 < x" "1 / 100 \<le> x" using a by (simp_all add: x_def)
    have "rat_of_int a < of_int (2 ^ 40)" using a(2) by (subst of_int_less_iff)
    then show "x < 2 powi 40" using a(1) by (simp add: x_def power_int_def)
  qed
  have "(2::rat) powi ilog2 x < 2 powi 40" using ilog2_bounds(1) [OF x(1)] x(3) by simp
  then have "ilog2 x < 40" by (metis powi_mono2 linorder_not_less)
  then have "(2::rat) powi (max (ilog2 x) (- 1022) - int 53 + 1) \<le> 2 powi (- 13)"
    by (intro powi_mono2) simp
  with round_mag_error [of 53 "- 1022" x] have err: "\<bar>m - x\<bar> \<le> 1 / 1024"
    by (simp add: m_def power_int_minus)
  have fl: "\<lfloor>x\<rfloor> = a div 100" unfolding x_def by (metis floor_divide_of_int_eq of_int_numeral)
  have low: "of_int (a div 100) \<le> m"
  proof (cases "0 < a div 100")
    case True
    have "of_int (a div 100) = round_mag 53 (- 1022) (of_int (a div 100))"
      using True a by (intro round_mag_exact [where m = "a div 100" and k = 0, symmetric]) simp_all
    also have "\<dots> \<le> m"
      unfolding m_def using True fl by (intro round_mag_mono) (simp_all, linarith)
    finally show ?thesis .
  next
    case False
    then show ?thesis using round_mag_nonneg [of x 53 "- 1022"] x a by (simp add: m_def)
  qed
  have "x \<le> of_int (a div 100) + 99 / 100"
  proof -
    have "a \<le> 100 * (a div 100) + 99" by presburger
    then have "rat_of_int a \<le> of_int (100 * (a div 100) + 99)" by (subst of_int_le_iff)
    then show ?thesis by (simp add: x_def field_simps)
  qed
  with err have up: "m < of_int (a div 100) + 1" by linarith
  have m0: "m \<noteq> 0" using err x by auto
  have "m \<le> x + 1" using err by linarith
  then have "m < 2 powi 41" using x(3) by (simp add: power_int_def)
  also have "\<dots> \<le> (2::rat) powi 1024" by (intro powi_mono2) simp
  finally have "\<not> (2::rat) powi (1023 + 1) \<le> m" by simp
  then have "rnd64 False x = Fin m"
    using x m0 by (simp add: rnd64_def round_to_def m_def Let_def)
  moreover have "\<lfloor>m\<rfloor> = a div 100" using low up by (simp add: floor_eq_iff)
  ultimately show ?thesis by (auto simp: x_def)
qed

lemma flt_Fin [simp, fl_simps]: "flt (Fin a) (Fin b) \<longleftrightarrow> a < b"
  by (simp add: flt_def)

lemma feq_Fin [simp, fl_simps]: "feq (Fin a) (Fin b) \<longleftrightarrow> a = b"
  by (simp add: feq_def)

lemma fle_Fin [simp, fl_simps]: "fle (Fin a) (Fin b) \<longleftrightarrow> a \<le> b"
  by (auto simp: fle_def)

lemma flt_finite: "is_finite x \<Longrightarrow> is_finite y \<Longrightarrow> flt x y \<longleftrightarrow> fval x < fval y"
  by (cases x; cases y) (auto simp: flt_def)

lemma fle_finite: "is_finite x \<Longrightarrow> is_finite y \<Longrightarrow> fle x y \<longleftrightarrow> fval x \<le> fval y"
  by (cases x; cases y) (auto simp: fle_def flt_def feq_def)

lemma fle_refl: "x \<noteq> NaN \<Longrightarrow> fle x x"
  by (cases x) (auto simp: fle_def feq_def)

lemma fle_trans: "fle x y \<Longrightarrow> fle y z \<Longrightarrow> fle x z"
  by (cases x; cases y; cases z) (auto simp: fle_def flt_def feq_def)

lemma fle_total: "x \<noteq> NaN \<Longrightarrow> y \<noteq> NaN \<Longrightarrow> \<not> flt y x \<Longrightarrow> fle x y"
  by (cases x; cases y) (auto simp: fle_def flt_def feq_def)

lemma flt_not_NaN: "flt x y \<Longrightarrow> x \<noteq> NaN \<and> y \<noteq> NaN"
  by (auto simp: flt_def split: gofloat.splits)

lemma flt_fle_trans: "flt x y \<Longrightarrow> fle y z \<Longrightarrow> flt x z"
  by (cases x; cases y; cases z) (auto simp: fle_def flt_def feq_def)

lemma fle_flt_trans: "fle x y \<Longrightarrow> flt y z \<Longrightarrow> flt x z"
  by (cases x; cases y; cases z) (auto simp: fle_def flt_def feq_def)

lemma flt_imp_not_fle: "flt x y \<Longrightarrow> \<not> fle y x"
  by (cases x; cases y) (auto simp: fle_def flt_def feq_def)

section \<open>Values that are not negative\<close>

definition nonneg :: "gofloat \<Rightarrow> bool" where
  "nonneg x \<longleftrightarrow> \<not> fneg x"

lemma nonneg_round: "0 \<le> q \<Longrightarrow> nonneg (round_to p emin emax False q)"
  by (simp add: round_to_def nonneg_def Let_def round_mag_nonneg not_less)

lemma nonneg_simps [simp]: "nonneg NaN" "nonneg (Inf s) \<longleftrightarrow> \<not> s" "\<not> nonneg NegZero" "nonneg (Fin q) \<longleftrightarrow> 0 \<le> q"
  by (auto simp: nonneg_def)

lemma nonneg_ops:
  "nonneg x \<Longrightarrow> nonneg y \<Longrightarrow> nonneg (fdiv x y)"
  "nonneg x \<Longrightarrow> nonneg y \<Longrightarrow> nonneg (fmul x y)"
  "nonneg x \<Longrightarrow> nonneg (f32_of x)"
  "0 \<le> n \<Longrightarrow> nonneg (f64_of_int n)"
  subgoal by (cases x; cases y) (auto simp: fdiv_def rnd64_def intro!: nonneg_round)
  subgoal by (cases x; cases y) (auto simp: fmul_def rnd64_def intro!: nonneg_round)
  subgoal by (cases x) (auto simp: f32_of_def rnd32_def not_less intro!: nonneg_round)
  subgoal by (auto simp: f64_of_int_def rnd64_def not_less intro!: nonneg_round)
  done

lemma nonneg_fsub: "\<not> fle x y \<Longrightarrow> nonneg (fsub x y)"
  by (cases x; cases y)
    (auto simp: fsub_def fadd_def fminus_def fle_def flt_def feq_def rnd64_def not_less split: if_splits intro!: nonneg_round)

lemma nonneg_flt: "flt (Fin 0) dt \<Longrightarrow> nonneg dt"
  by (cases dt) (auto simp: flt_def)

section \<open>Unsigned integers as floating-point numbers\<close>

definition f64_of_u64 :: "u64 \<Rightarrow> f64" where
  "f64_of_u64 w = f64_of_int (uint w)"

lemma rnd64_mono:
  assumes "0 \<le> q" "q \<le> q'" "rnd64 False q' = Fin r'"
  shows "\<exists>r. rnd64 False q = Fin r \<and> 0 \<le> r \<and> r \<le> r'"
proof (cases "q = 0")
  case True
  have "0 \<le> r'" using nonneg_round [of q' 53 "- 1022" 1023] assms by (simp add: rnd64_def)
  then show ?thesis using True by simp
next
  case False
  let ?m = "round_mag 53 (- 1022)"
  from False assms have "0 < q" "0 < q'" by auto
  then have m: "0 \<le> ?m q" "?m q \<le> ?m q'" using assms round_mag_mono [of q q' 53] round_mag_nonneg by auto
  moreover have "?m q' = r' \<and> ?m q' < 2 powi 1024"
    using assms \<open>0 < q'\<close> m by (auto simp: rnd64_def round_to_def Let_def not_le split: if_splits)
  ultimately show ?thesis using \<open>0 < q\<close> by (auto simp: rnd64_def round_to_def Let_def)
qed

lemma rnd64_two_64: "rnd64 False (2 ^ 64) = Fin (2 ^ 64)"
proof -
  have "\<bar>2 ^ 64 :: rat\<bar> = of_int 1 * 2 powi 64" by (simp add: power_int_def)
  from rnd64_exact [OF this, where s = False] show ?thesis by simp
qed

lemma f64_of_int_range:
  assumes "0 \<le> n" "n < 2 ^ 64"
  shows "\<exists>r. f64_of_int n = Fin r \<and> 0 \<le> r \<and> r \<le> 2 ^ 64 \<and> (0 < n \<longrightarrow> 1 \<le> r)"
proof -
  have "(of_int n :: rat) \<le> of_int (2 ^ 64)" using assms(2) by (simp only: of_int_le_iff)
  then have "(of_int n :: rat) \<le> 2 ^ 64" by simp
  from rnd64_mono [OF _ this rnd64_two_64] assms(1)
  obtain r where r: "rnd64 False (of_int n) = Fin r" "0 \<le> r" "r \<le> 2 ^ 64" by auto
  have "1 \<le> r" if "0 < n"
    using rnd64_mono [of 1 "of_int n", OF _ _ r(1)] rnd64_int [of 1 False] that by auto
  then show ?thesis using r assms(1) by (simp add: f64_of_int_def)
qed

lemma f64_of_int_mono:
  assumes "0 \<le> a" "a \<le> b" "f64_of_int a = Fin ra" "f64_of_int b = Fin rb"
  shows "ra \<le> rb"
  using rnd64_mono [of "of_int a" "of_int b" rb] assms by (simp add: f64_of_int_def)

lemma f64_of_u64_range: "\<exists>r. f64_of_u64 w = Fin r \<and> 0 \<le> r \<and> r \<le> 2 ^ 64 \<and> (0 < w \<longrightarrow> 1 \<le> r)"
proof -
  have "uint w < 2 ^ 64" "0 \<le> uint w" "0 < w \<longrightarrow> 0 < uint w" using uint_lt2p [of w] by (simp_all add: word_less_def)
  with f64_of_int_range show ?thesis unfolding f64_of_u64_def by metis
qed

lemma f64_of_u64_mono: "a \<le> b \<Longrightarrow> f64_of_u64 a = Fin ra \<Longrightarrow> f64_of_u64 b = Fin rb \<Longrightarrow> ra \<le> rb"
  using f64_of_int_mono [of "uint a" "uint b" ra rb] by (simp add: f64_of_u64_def word_le_def)

lemma part_range:
  assumes "a \<le> b" "0 < b"
  shows "\<exists>r. fdiv (f64_of_u64 a) (f64_of_u64 b) = Fin r \<and> 0 \<le> r \<and> r \<le> 1"
proof -
  obtain q p where q: "f64_of_u64 a = Fin q" "0 \<le> q" "f64_of_u64 b = Fin p" "1 \<le> p"
    using f64_of_u64_range [of a] f64_of_u64_range [of b] assms(2) by auto
  then have "q / p \<le> 1" using f64_of_u64_mono [OF assms(1)] by (simp add: divide_le_eq)
  moreover have "rnd64 False 1 = Fin 1" using rnd64_int [of 1 False] by simp
  ultimately show ?thesis using rnd64_mono [of "q / p" 1 1] q by (auto simp: fdiv_def)
qed

lemma word_parts: "a \<le> b \<Longrightarrow> uint a + uint (b - a) = uint b" for a b :: u64
  by (simp add: uint_sub_lem word_le_def)

lemma fdiv_exact:
  assumes "0 < n" "n * k \<le> 2 ^ 53" "k \<le> 2 ^ 53"
  shows "fdiv (Fin (of_nat (n * k))) (Fin (of_nat n)) = Fin (of_nat k)"
proof -
  have "int k \<le> 2 ^ 53" using assms(3) by (metis of_nat_le_iff of_nat_numeral of_nat_power)
  then have "rnd64 False (of_nat k) = Fin (of_nat k)" using rnd64_int [of "int k" False] by simp
  moreover have "of_nat (n * k) / of_nat n = (of_nat k :: rat)" using assms(1) by simp
  moreover have "\<not> (of_nat (n * k) :: rat) < 0" by (simp only: of_nat_less_0_iff) simp
  ultimately show ?thesis using assms(1) by (simp add: fdiv_def del: of_nat_mult)
qed

lemma f64_of_u64_nat: "n \<le> 2 ^ 53 \<Longrightarrow> f64_of_u64 (of_nat n) = Fin (of_nat n)"
proof -
  assume n: "n \<le> 2 ^ 53"
  then have i: "int n \<le> 2 ^ 53" by (metis of_nat_le_iff of_nat_numeral of_nat_power)
  then have "uint (of_nat n :: u64) = int n" by (simp add: unsigned_of_nat take_bit_nat_eq_self n order.strict_trans1 [OF n])
  then show ?thesis using f64_of_int_exact [of "int n"] i by (simp add: f64_of_u64_def)
qed

section \<open>Rounded values are kept\<close>

lemma round_mag_again:
  assumes "0 < q" "0 < round_mag 53 (- 1022) q"
  shows "round_mag 53 (- 1022) (round_mag 53 (- 1022) q) = round_mag 53 (- 1022) q"
proof -
  define k where "k = max (ilog2 q) (- 1022) - 52"
  define m where "m = round_even (q / 2 powi k)"
  have r: "round_mag 53 (- 1022) q = of_int m * 2 powi k"
    by (simp add: round_mag_def m_def k_def Let_def)
  have "(of_int m :: rat) * 2 powi k \<le> 2 powi (k + 53)"
    using round_mag_upper [OF assms(1), of 53 "- 1022"] unfolding r by (simp add: k_def add.commute)
  also have "\<dots> = of_int (2 ^ 53) * 2 powi k" by (simp add: power_int_add)
  finally have le: "m \<le> 2 ^ 53"
    by (subst (asm) mult_le_cancel_right_pos) (simp_all only: of_int_le_iff, simp)
  show ?thesis
  proof (cases "m = 2 ^ 53")
    case True
    then have "round_mag 53 (- 1022) q = of_int (2 ^ 52) * 2 powi (k + 1)" by (simp add: r power_int_add)
    then show ?thesis by (intro round_mag_exact [OF assms(2), where m = "2 ^ 52" and k = "k + 1"]) (auto simp: k_def)
  next
    case False
    with le show ?thesis by (intro round_mag_exact [OF assms(2) r]) (auto simp: k_def)
  qed
qed

lemma rnd64_again:
  assumes "rnd64 False q = Fin r" "0 \<le> q"
  shows "rnd64 False r = Fin r"
proof (cases "q = 0")
  case False
  let ?m = "round_mag 53 (- 1022) q"
  from assms False have m: "(?m = 0 \<and> r = 0) \<or> (?m = r \<and> 0 < ?m \<and> \<not> 2 powi 1024 \<le> ?m)"
    using round_mag_nonneg [of q 53 "- 1022"] by (auto simp: rnd64_def round_to_def Let_def split: if_splits)
  then show ?thesis
    using round_mag_again [of q] assms(2) False by (auto simp: rnd64_def round_to_def Let_def)
qed (use assms in simp)

lemma fadd_ge:
  assumes "rnd64 False a = Fin a" "0 \<le> a" "0 \<le> b" "a + b \<le> 2 ^ 64"
  shows "\<exists>s. fadd (Fin a) (Fin b) = Fin s \<and> a \<le> s"
proof -
  obtain s where s: "rnd64 False (a + b) = Fin s"
    using rnd64_mono [OF _ assms(4) rnd64_two_64] assms(2,3) by auto
  moreover have "a \<le> s" using rnd64_mono [OF assms(2) _ s] assms(1,3) by auto
  ultimately show ?thesis using assms(2,3) by (simp add: fadd_def)
qed

end
