(* ===== verification/GoStrconv.thy ===== *)
theory GoStrconv
  imports GoStrings GoFloat
begin

text \<open>
  Go's package \<open>strconv\<close>: \<open>ParseUint\<close>, \<open>ParseInt\<close>, \<open>Atoi\<close>, \<open>ParseFloat\<close>, \<open>FormatInt\<close>.
  A parse reports a syntax error, a range error with the value it saturates at, or a value.
  Code that ignores the error takes \<open>res_val\<close>: the saturated value, or zero after a syntax
  error. \<open>ParseFloat\<close> accepts decimal and hexadecimal literals, underscores as Go's syntax
  allows them, and the names of the infinities and NaN in any case; the value is the exact
  rational, rounded once.
\<close>

datatype 'a parsed = Parsed 'a | OutOfRange 'a | Malformed

definition ok_val :: "'a parsed \<Rightarrow> 'a option" where
  "ok_val r = (case r of Parsed v \<Rightarrow> Some v | _ \<Rightarrow> None)"

definition res_val :: "'a \<Rightarrow> 'a parsed \<Rightarrow> 'a" where
  "res_val z r = (case r of Parsed v \<Rightarrow> v | OutOfRange v \<Rightarrow> v | Malformed \<Rightarrow> z)"

lemma ok_val_simps [simp, go_num]:
  "ok_val (Parsed v) = Some v" "ok_val (OutOfRange v) = None" "ok_val Malformed = None"
  by (simp_all add: ok_val_def)

lemma ok_val_Some: "ok_val r = Some v \<longleftrightarrow> r = Parsed v"
  by (cases r) auto

lemma res_val_simps [simp, go_num]:
  "res_val z (Parsed v) = v" "res_val z (OutOfRange v) = v" "res_val z Malformed = z"
  by (simp_all add: res_val_def)

section \<open>Integers\<close>

definition digit_val :: "char \<Rightarrow> int option" where
  "digit_val c =
     (if 48 \<le> byte c \<and> byte c \<le> 57 then Some (int (byte c) - 48)
      else if 97 \<le> byte c \<and> byte c \<le> 122 then Some (int (byte c) - 87)
      else if 65 \<le> byte c \<and> byte c \<le> 90 then Some (int (byte c) - 55)
      else None)"

primrec uint_digits :: "int \<Rightarrow> int \<Rightarrow> int \<Rightarrow> string \<Rightarrow> int parsed" where
  "uint_digits base maxv n [] = Parsed n"
| "uint_digits base maxv n (c # cs) =
     (case digit_val c of None \<Rightarrow> Malformed
      | Some d \<Rightarrow> if base \<le> d then Malformed
          else if maxv < n * base + d then OutOfRange maxv
          else uint_digits base maxv (n * base + d) cs)"

definition parse_uint :: "int \<Rightarrow> nat \<Rightarrow> string \<Rightarrow> int parsed" where
  "parse_uint base bits s = (if s = [] then Malformed else uint_digits base (2 ^ bits - 1) 0 s)"

definition parse_int :: "int \<Rightarrow> nat \<Rightarrow> string \<Rightarrow> int parsed" where
  "parse_int base bits s =
     (case s of [] \<Rightarrow> Malformed | c # cs \<Rightarrow>
        let neg = (c = CHR ''-''); digits = (if neg \<or> c = CHR ''+'' then cs else s); cutoff = 2 ^ (bits - 1) in
        case parse_uint base bits digits of
          Malformed \<Rightarrow> Malformed
        | r \<Rightarrow> let un = res_val 0 r in
            if \<not> neg \<and> cutoff \<le> un then OutOfRange (cutoff - 1)
            else if neg \<and> cutoff < un then OutOfRange (- cutoff)
            else Parsed (if neg then - un else un))"

definition atoi :: "string \<Rightarrow> int parsed" where
  "atoi = parse_int 10 64"

text \<open>Decimal rendering.\<close>

definition digit_char :: "nat \<Rightarrow> char" where
  "digit_char d = char_of (48 + d)"

function fmt_nat :: "nat \<Rightarrow> string" where
  "fmt_nat n = (if n < 10 then [digit_char n] else fmt_nat (n div 10) @ [digit_char (n mod 10)])"
  by pat_completeness auto
termination
  by (relation "measure id") auto

declare fmt_nat.simps [simp del]

definition fmt_int :: "int \<Rightarrow> string" where
  "fmt_int n = (if n < 0 then CHR ''-'' # fmt_nat (nat (- n)) else fmt_nat (nat n))"

section \<open>Floating point\<close>

definition float_name :: "string \<Rightarrow> f64 option" where
  "float_name s =
     (let l = map lower s in
      if l \<in> {''inf'', ''+inf'', ''infinity'', ''+infinity''} then Some (Inf False)
      else if l \<in> {''-inf'', ''-infinity''} then Some (Inf True)
      else if l = ''nan'' then Some NaN else None)"

text \<open>The mantissa: value of the digits, digits after the point, then what stopped it.\<close>

record mantissa =
  m_val :: int
  m_frac :: nat
  m_dot :: bool
  m_digits :: bool
  m_under :: bool

fun scan_mantissa :: "bool \<Rightarrow> mantissa \<Rightarrow> string \<Rightarrow> mantissa \<times> string" where
  "scan_mantissa hex m [] = (m, [])"
| "scan_mantissa hex m (c # cs) =
     (if c = CHR ''_'' then scan_mantissa hex (m\<lparr>m_under := True\<rparr>) cs
      else if c = CHR ''.'' then
        if m_dot m then (m, c # cs) else scan_mantissa hex (m\<lparr>m_dot := True\<rparr>) cs
      else case digit_val c of
        None \<Rightarrow> (m, c # cs)
      | Some d \<Rightarrow>
          if d < 10 \<or> hex \<and> d < 16 then
            scan_mantissa hex
              (m\<lparr>m_val := m_val m * (if hex then 16 else 10) + d,
                 m_frac := (if m_dot m then Suc (m_frac m) else m_frac m),
                 m_digits := True\<rparr>) cs
          else (m, c # cs))"

fun scan_exponent :: "int \<Rightarrow> bool \<Rightarrow> string \<Rightarrow> int \<times> bool \<times> string" where
  "scan_exponent e u [] = (e, u, [])"
| "scan_exponent e u (c # cs) =
     (if c = CHR ''_'' then scan_exponent e True cs
      else if 48 \<le> byte c \<and> byte c \<le> 57 then
        scan_exponent (if e < 10000 then e * 10 + (int (byte c) - 48) else e) u cs
      else (e, u, c # cs))"

text \<open>Underscores only between digits (a base prefix counts as a digit).\<close>

datatype saw = SawStart | SawDigit | SawUnder | SawOther

primrec underscores_ok :: "bool \<Rightarrow> saw \<Rightarrow> string \<Rightarrow> bool" where
  "underscores_ok hex w [] = (w \<noteq> SawUnder)"
| "underscores_ok hex w (c # cs) =
     (if (case digit_val c of None \<Rightarrow> False | Some d \<Rightarrow> d < 10 \<or> hex \<and> d < 16)
      then underscores_ok hex SawDigit cs
      else if c = CHR ''_'' then w = SawDigit \<and> underscores_ok hex SawUnder cs
      else w \<noteq> SawUnder \<and> underscores_ok hex SawOther cs)"

definition underscore_ok :: "string \<Rightarrow> bool" where
  "underscore_ok s0 =
     (let s = (case s0 of c # cs \<Rightarrow> if c = CHR ''-'' \<or> c = CHR ''+'' then cs else s0 | [] \<Rightarrow> s0) in
      case s of a # b # cs \<Rightarrow>
        if a = CHR ''0'' \<and> lower b \<in> {CHR ''b'', CHR ''o'', CHR ''x''}
        then underscores_ok (lower b = CHR ''x'') SawDigit cs
        else underscores_ok False SawStart s
      | _ \<Rightarrow> underscores_ok False SawStart s)"

definition is_digit_char :: "char \<Rightarrow> bool" where
  "is_digit_char c \<longleftrightarrow> 48 \<le> byte c \<and> byte c \<le> 57"

text \<open>Sign, mantissa, power of ten (of two for a hexadecimal literal), base.\<close>

definition read_float :: "string \<Rightarrow> (bool \<times> int \<times> int \<times> bool) option" where
  "read_float s =
     (let neg = (case s of c # _ \<Rightarrow> c = CHR ''-'' | [] \<Rightarrow> False);
          s1 = (case s of c # cs \<Rightarrow> if c = CHR ''-'' \<or> c = CHR ''+'' then cs else s | [] \<Rightarrow> s);
          hex = (case s1 of a # b # c # _ \<Rightarrow> a = CHR ''0'' \<and> lower b = CHR ''x'' | _ \<Rightarrow> False)
      in case scan_mantissa hex \<lparr>m_val = 0, m_frac = 0, m_dot = False, m_digits = False, m_under = False\<rparr>
                (if hex then drop 2 s1 else s1) of (m, rest) \<Rightarrow>
        let point = (if hex then - 4 else - 1) * int (m_frac m);
            finish = (\<lambda>e u. if (m_under m \<or> u) \<and> \<not> underscore_ok s then None
                            else Some (neg, m_val m, point + e, hex))
        in if \<not> m_digits m then None
           else case rest of
             [] \<Rightarrow> if hex then None else finish 0 False
           | c # r0 \<Rightarrow>
               if lower c = (if hex then CHR ''p'' else CHR ''e'') then
                 let eneg = (case r0 of d # _ \<Rightarrow> d = CHR ''-'' | [] \<Rightarrow> False);
                     r1 = (case r0 of d # ds \<Rightarrow> if d = CHR ''-'' \<or> d = CHR ''+'' then ds else r0 | [] \<Rightarrow> r0)
                 in case r1 of [] \<Rightarrow> None
                    | d # _ \<Rightarrow> if is_digit_char d then
                        (case scan_exponent 0 False r1 of (e, u, rest') \<Rightarrow>
                           if rest' = [] then finish (if eneg then - e else e) u else None)
                        else None
               else None)"

definition scaled :: "int \<Rightarrow> int \<Rightarrow> int \<Rightarrow> rat" where
  "scaled base m e =
     (if 0 \<le> e then of_int (m * base ^ nat e) else of_int m / of_int (base ^ nat (- e)))"

definition parse_float :: "string \<Rightarrow> f64 parsed" where
  "parse_float s =
     (case float_name s of Some f \<Rightarrow> Parsed f
      | None \<Rightarrow> (case read_float s of None \<Rightarrow> Malformed
        | Some (neg, m, e, hex) \<Rightarrow>
            let q = scaled (if hex then 2 else 10) m e;
                r = rnd64 neg (if neg then - q else q)
            in if is_finite r then Parsed r else OutOfRange r))"

section \<open>Round trips\<close>

lemma byte_digit_char: "d < 10 \<Longrightarrow> byte (digit_char d) = 48 + d"
  by (simp add: byte_def digit_char_def of_char_of)

lemma digit_val_digit_char [simp, go_num]: "d < 10 \<Longrightarrow> digit_val (digit_char d) = Some (int d)"
  by (simp add: digit_val_def byte_digit_char)

lemma uint_digits_append:
  "uint_digits b m n (xs @ ys) =
     (case uint_digits b m n xs of Parsed k \<Rightarrow> uint_digits b m k ys | r \<Rightarrow> r)"
  by (induction xs arbitrary: n) (auto split: option.splits parsed.splits)

lemma uint_digits_fmt_nat:
  "int n \<le> m \<Longrightarrow> uint_digits 10 m 0 (fmt_nat n) = Parsed (int n)"
proof (induction n rule: fmt_nat.induct)
  case (1 n)
  show ?case
  proof (cases "n < 10")
    case True
    with "1.prems" show ?thesis by (subst fmt_nat.simps) simp
  next
    case False
    have "int (n div 10) * 10 + int (n mod 10) = int n" by presburger
    with False "1.prems" "1.IH" show ?thesis
      by (subst fmt_nat.simps) (simp add: uint_digits_append)
  qed
qed

lemma fmt_nat_not_Nil [simp]: "fmt_nat n \<noteq> []"
  by (subst fmt_nat.simps) simp

lemma fmt_nat_digits: "c \<in> set (fmt_nat n) \<Longrightarrow> is_digit_char c"
proof (induction n rule: fmt_nat.induct)
  case (1 n)
  then show ?case
    by (subst (asm) (2) fmt_nat.simps)
      (auto split: if_splits simp: is_digit_char_def byte_digit_char)
qed

lemma digit_not_sign: "is_digit_char c \<Longrightarrow> c \<noteq> CHR ''-'' \<and> c \<noteq> CHR ''+''"
  by (auto simp: is_digit_char_def byte_def)

lemma fmt_nat_head: "\<exists>c cs. fmt_nat n = c # cs \<and> is_digit_char c"
proof (cases "fmt_nat n")
  case (Cons c cs)
  then show ?thesis using fmt_nat_digits [of c n] by auto
qed simp

lemma parse_uint_fmt_nat [go_num]:
  "int n < 2 ^ bits \<Longrightarrow> parse_uint 10 bits (fmt_nat n) = Parsed (int n)"
  by (simp add: parse_uint_def uint_digits_fmt_nat)

lemma parse_int_fmt_int:
  assumes "- (2 ^ (bits - 1)) \<le> n" "n < 2 ^ (bits - 1)" "0 < bits"
  shows "parse_int 10 bits (fmt_int n) = Parsed n"
proof -
  have two: "(2::int) ^ bits = 2 * 2 ^ (bits - 1)"
    using assms(3) by (cases bits) simp_all
  show ?thesis
  proof (cases "n < 0")
    case True
    have "parse_uint 10 bits (fmt_nat (nat (- n))) = Parsed (- n)"
      using True assms two by (subst parse_uint_fmt_nat) simp_all
    with True assms show ?thesis by (simp add: parse_int_def fmt_int_def)
  next
    case False
    obtain c cs where c: "fmt_nat (nat n) = c # cs" "is_digit_char c"
      using fmt_nat_head by blast
    have "parse_uint 10 bits (c # cs) = Parsed n"
      using False assms two c(1) by (subst c(1) [symmetric], subst parse_uint_fmt_nat) simp_all
    with False c assms digit_not_sign [of c] show ?thesis
      by (simp add: parse_int_def fmt_int_def)
  qed
qed

lemma parse_i64_fmt_int [go_num]: "in_i64 n \<Longrightarrow> parse_int 10 64 (fmt_int n) = Parsed n"
  using parse_int_fmt_int [of 64 n] by (simp add: in_i64_def)

lemma atoi_fmt_int [go_num]: "in_i64 n \<Longrightarrow> atoi (fmt_int n) = Parsed n"
  by (simp add: atoi_def parse_i64_fmt_int)

lemma digit_val_nonneg: "digit_val c = Some d \<Longrightarrow> 0 \<le> d"
  by (auto simp: digit_val_def split: if_splits)

lemma uint_digits_nonneg: "0 \<le> n \<Longrightarrow> uint_digits b m n ds = Parsed v \<Longrightarrow> 0 \<le> v"
proof (induction ds arbitrary: n)
  case (Cons d ds)
  obtain k where k: "digit_val d = Some k" "0 \<le> k" "k < b" "uint_digits b m (n * b + k) ds = Parsed v"
    using Cons.prems(2) by (auto split: option.splits if_splits dest: digit_val_nonneg)
  with Cons.prems(1) have "0 \<le> n * b + k" by simp
  then show ?case using k(4) by (rule Cons.IH)
qed simp

lemma uint_digits_out: "uint_digits b m n ds = OutOfRange v \<Longrightarrow> v = m"
  by (induction ds arbitrary: n) (auto split: option.splits if_splits)

lemma parse_uint_nonneg: "0 \<le> res_val 0 (parse_uint b bits s)"
proof (cases "parse_uint b bits s")
  case (Parsed v)
  then show ?thesis by (auto simp: parse_uint_def split: if_splits intro: uint_digits_nonneg [of 0])
next
  case (OutOfRange v)
  then show ?thesis by (auto simp: parse_uint_def split: if_splits dest: uint_digits_out)
qed simp

lemma parse_int_range:
  assumes "parse_int base bits s = Parsed n"
  shows "- (2 ^ (bits - 1)) \<le> n \<and> n < 2 ^ (bits - 1)"
proof -
  obtain c cs where s: "s = c # cs" using assms by (cases s) (auto simp: parse_int_def)
  define ds where "ds = (if c = CHR ''-'' \<or> c = CHR ''+'' then cs else s)"
  define un where "un = res_val 0 (parse_uint base bits ds)"
  have "0 \<le> un" unfolding un_def by (rule parse_uint_nonneg)
  moreover have "(0::int) < 2 ^ (bits - 1)" by simp
  moreover have "c = CHR ''-'' \<and> un \<le> 2 ^ (bits - 1) \<and> n = - un \<or> c \<noteq> CHR ''-'' \<and> un < 2 ^ (bits - 1) \<and> n = un"
    using assms
    by (auto simp: parse_int_def s Let_def un_def ds_def split: parsed.splits if_splits)
  ultimately show ?thesis by (intro conjI) (elim disjE conjE; linarith)+
qed

section \<open>Floating-point numbers printed as integers\<close>

lemma scan_digits:
  assumes "\<And>c. c \<in> set s \<Longrightarrow> is_digit_char c" "uint_digits 10 b (m_val m) s = Parsed v"
  shows "scan_mantissa False m s = (m\<lparr>m_val := v, m_frac := m_frac m + (if m_dot m then length s else 0),
    m_digits := (m_digits m \<or> s \<noteq> [])\<rparr>, [])"
  using assms
proof (induction s arbitrary: m)
  case (Cons c s)
  have c: "is_digit_char c" using Cons.prems(1) by simp
  then have ne: "c \<noteq> CHR ''_''" "c \<noteq> CHR ''.''" by (auto simp: is_digit_char_def byte_def)
  obtain d where d: "digit_val c = Some d" "d < 10" using c by (auto simp: is_digit_char_def digit_val_def)
  let ?m = "m\<lparr>m_val := m_val m * 10 + d, m_frac := (if m_dot m then Suc (m_frac m) else m_frac m), m_digits := True\<rparr>"
  have "uint_digits 10 b (m_val ?m) s = Parsed v" using Cons.prems(2) d by (simp split: if_splits)
  from Cons.IH [OF _ this] Cons.prems(1)
  have "scan_mantissa False ?m s = (?m\<lparr>m_val := v, m_frac := m_frac ?m + (if m_dot ?m then length s else 0),
    m_digits := (m_digits ?m \<or> s \<noteq> [])\<rparr>, [])" by simp
  then show ?case using ne d by simp
qed simp

lemma float_name_digits:
  assumes "is_digit_char c"
  shows "float_name (c # s) = None"
proof -
  have "lower c = c" "c \<notin> {CHR ''i'', CHR ''+'', CHR ''-'', CHR ''n''}"
    using assms by (auto simp: lower_def is_digit_char_def byte_def)
  then show ?thesis by (simp add: float_name_def)
qed

lemma parse_float_fmt_nat [go_num]:
  assumes "n \<le> 2 ^ 53"
  shows "parse_float (fmt_nat n) = Parsed (Fin (of_nat n))"
proof -
  obtain c cs where s: "fmt_nat n = c # cs" "is_digit_char c" using fmt_nat_head by blast
  have digits: "\<And>d. d \<in> set (c # cs) \<Longrightarrow> is_digit_char d" using fmt_nat_digits [of _ n] s by simp
  have "uint_digits 10 (int n) 0 (c # cs) = Parsed (int n)" using uint_digits_fmt_nat [of n "int n"] s by simp
  then have "uint_digits 10 (int n) (m_val \<lparr>m_val = 0, m_frac = 0, m_dot = False, m_digits = False, m_under = False\<rparr>) (c # cs)
    = Parsed (int n)" by simp
  from scan_digits [OF digits this]
  have scan: "scan_mantissa False \<lparr>m_val = 0, m_frac = 0, m_dot = False, m_digits = False, m_under = False\<rparr> (c # cs)
    = (\<lparr>m_val = int n, m_frac = 0, m_dot = False, m_digits = True, m_under = False\<rparr>, [])" by simp
  have x: "\<not> lower d = CHR ''x''" if "is_digit_char d" for d
    using that by (auto simp: lower_def is_digit_char_def byte_def)
  have "(case c # cs of a # b # d # _ \<Rightarrow> a = CHR ''0'' \<and> lower b = CHR ''x'' | _ \<Rightarrow> False) = False"
    using digits x by (auto split: list.splits)
  then have "read_float (c # cs) = Some (False, int n, 0, False)"
    unfolding read_float_def Let_def using digit_not_sign [OF s(2)] by (simp only: list.case if_False simp_thms scan) simp
  moreover have "int n \<le> 2 ^ 53" using assms by (metis of_nat_le_iff of_nat_numeral of_nat_power)
  then have "rnd64 False (of_nat n) = Fin (of_nat n)" using rnd64_int [of "int n" False] by simp
  ultimately show ?thesis using s by (simp add: parse_float_def float_name_digits scaled_def)
qed

text \<open>A number as the code usually wants it: none when there is an error.\<close>

definition float_ok :: "string \<Rightarrow> f64 option" where
  "float_ok s = ok_val (parse_float s)"

text \<open>The value of a number that is not checked: zero for a malformed one, the bound it saturates
  at for one out of range.\<close>

definition float_or_zero :: "string \<Rightarrow> f64" where
  "float_or_zero s = res_val (Fin 0) (parse_float s)"

lemma plain_digits: "list_all plain (fmt_nat n)"
proof -
  have "is_digit_char c \<Longrightarrow> plain c" for c by (auto simp: is_digit_char_def plain_def ascii_space_def)
  then show ?thesis using fmt_nat_digits by (auto simp: list_all_iff)
qed

lemma digits_not: "\<not> is_digit_char c \<Longrightarrow> c \<notin> set (fmt_nat n)"
  using fmt_nat_digits by blast

end
