(* ===== verification/MetricTypes.thy ===== *)
theory MetricTypes
  imports GoStrconv
begin

text \<open>
  The metric data types of \<^verbatim>\<open>internal/metrics\<close>: samples (\<^verbatim>\<open>sample.go\<close>), series and points
  (\<^verbatim>\<open>series.go\<close>), service checks (\<^verbatim>\<open>servicecheck.go\<close>) and events (\<^verbatim>\<open>event.go\<close>), and the JSON
  values they are sent as. JSON is modelled as a value, not as text: \<open>encoding/json\<close> renders
  it, and refuses a number that is not finite.
\<close>

section \<open>JSON values\<close>

datatype json =
    JNull
  | JStr string
  | JInt int
  | JFloat f64
  | JArr "json list"
  | JObj "(string \<times> json) list"

text \<open>What \<open>encoding/json\<close> can render.\<close>

fun json_ok :: "json \<Rightarrow> bool" where
  "json_ok JNull = True"
| "json_ok (JStr s) = True"
| "json_ok (JInt i) = True"
| "json_ok (JFloat f) = is_finite f"
| "json_ok (JArr js) = list_all json_ok js"
| "json_ok (JObj fs) = list_all (\<lambda>(k, v). json_ok v) fs"

definition json_marshal :: "json \<Rightarrow> json option" where
  "json_marshal j = (if json_ok j then Some j else None)"

text \<open>A field tagged \<open>omitempty\<close>.\<close>

definition omit_str :: "string \<Rightarrow> string \<Rightarrow> (string \<times> json) list" where
  "omit_str k s = (if s = [] then [] else [(k, JStr s)])"

definition omit_int :: "string \<Rightarrow> int \<Rightarrow> (string \<times> json) list" where
  "omit_int k n = (if n = 0 then [] else [(k, JInt n)])"

definition omit_strs :: "string \<Rightarrow> string list \<Rightarrow> (string \<times> json) list" where
  "omit_strs k ss = (if ss = [] then [] else [(k, JArr (map JStr ss))])"

lemma json_ok_fields [simp]:
  "list_all (\<lambda>(k, v). json_ok v) (omit_str k s)"
  "list_all (\<lambda>(k, v). json_ok v) (omit_int k n)"
  "list_all (\<lambda>(k, v). json_ok v) (omit_strs k ss)"
  by (simp_all add: omit_str_def omit_int_def omit_strs_def list_all_length)

lemma json_ok_strs [simp]: "list_all json_ok (map JStr ss)"
  by (induction ss) simp_all

section \<open>Samples\<close>

datatype sample_type =
    SampleGauge | SampleCounter | SampleHistogram | SampleTiming | SampleDistribution | SampleSet

text \<open>The \<open>iota\<close> value of each constant.\<close>

primrec sample_code :: "sample_type \<Rightarrow> nat" where
  "sample_code SampleGauge = 0"
| "sample_code SampleCounter = 1"
| "sample_code SampleHistogram = 2"
| "sample_code SampleTiming = 3"
| "sample_code SampleDistribution = 4"
| "sample_code SampleSet = 5"

lemma sample_code_inject [simp]: "sample_code a = sample_code b \<longleftrightarrow> a = b"
  by (cases a; cases b) simp_all

lemma sample_code_less: "sample_code t < 6"
  by (cases t) simp_all

instantiation sample_type :: linorder
begin

definition less_eq_sample_type :: "sample_type \<Rightarrow> sample_type \<Rightarrow> bool" where
  "less_eq_sample_type a b \<longleftrightarrow> sample_code a \<le> sample_code b"

definition less_sample_type :: "sample_type \<Rightarrow> sample_type \<Rightarrow> bool" where
  "less_sample_type a b \<longleftrightarrow> sample_code a < sample_code b"

instance
  by standard (auto simp: less_eq_sample_type_def less_sample_type_def)

end

record sample =
  smp_name :: string
  smp_value :: f64
  smp_str :: string
  smp_type :: sample_type
  smp_tags :: "string list"
  smp_rate :: f64

section \<open>Service checks and events\<close>

record service_check =
  sc_check :: string
  sc_host :: string
  sc_timestamp :: int
  sc_status :: int
  sc_message :: string
  sc_tags :: "string list"

definition service_check_json :: "service_check \<Rightarrow> json" where
  "service_check_json c = JObj
     ([(''check'', JStr (sc_check c)), (''host_name'', JStr (sc_host c)),
       (''timestamp'', JInt (sc_timestamp c)), (''status'', JInt (sc_status c))]
      @ omit_str ''message'' (sc_message c)
      @ [(''tags'', JArr (map JStr (sc_tags c)))])"

record event =
  ev_title :: string
  ev_text :: string
  ev_timestamp :: int
  ev_priority :: string
  ev_alert_type :: string
  ev_host :: string
  ev_tags :: "string list"
  ev_aggregation_key :: string
  ev_source_type_name :: string

definition event_json :: "event \<Rightarrow> json" where
  "event_json e = JObj
     ([(''msg_title'', JStr (ev_title e)), (''msg_text'', JStr (ev_text e))]
      @ omit_int ''timestamp'' (ev_timestamp e)
      @ omit_str ''priority'' (ev_priority e)
      @ omit_str ''alert_type'' (ev_alert_type e)
      @ omit_str ''host'' (ev_host e)
      @ omit_strs ''tags'' (ev_tags e)
      @ omit_str ''aggregation_key'' (ev_aggregation_key e)
      @ omit_str ''source_type_name'' (ev_source_type_name e))"

section \<open>Series\<close>

datatype serie_type = TypeGauge | TypeCount | TypeRate

primrec serie_type_str :: "serie_type \<Rightarrow> string" where
  "serie_type_str TypeGauge = ''gauge''"
| "serie_type_str TypeCount = ''count''"
| "serie_type_str TypeRate = ''rate''"

record point =
  pt_ts :: int
  pt_value :: f64

definition point_json :: "point \<Rightarrow> json" where
  "point_json p = JArr [JInt (pt_ts p), JFloat (pt_value p)]"

record serie =
  se_name :: string
  se_points :: "point list"
  se_type :: serie_type
  se_interval :: int
  se_tags :: "string list"
  se_host :: string
  se_device :: string
  se_source :: string

definition finite_points :: "point list \<Rightarrow> bool" where
  "finite_points ps = list_all (\<lambda>p. is_finite (pt_value p)) ps"

definition serie_json :: "serie \<Rightarrow> json" where
  "serie_json s = JObj
     ([(''metric'', JStr (se_name s)), (''points'', JArr (map point_json (se_points s))),
       (''type'', JStr (serie_type_str (se_type s))), (''interval'', JInt (se_interval s)),
       (''tags'', JArr (map JStr (se_tags s))), (''host'', JStr (se_host s))]
      @ omit_str ''device'' (se_device s)
      @ omit_str ''source_type_name'' (se_source s))"

lemma json_ok_obj: "json_ok (JObj (fs @ gs)) \<longleftrightarrow> json_ok (JObj fs) \<and> json_ok (JObj gs)"
  by simp

lemma json_ok_omit [simp]:
  "json_ok (JObj (omit_str k s))" "json_ok (JObj (omit_int k n))" "json_ok (JObj (omit_strs k ss))"
  by (simp_all only: json_ok.simps json_ok_fields)

lemma json_ok_arr_strs [simp]: "json_ok (JArr (map JStr ss))"
  by (simp only: json_ok.simps json_ok_strs)

lemma json_ok_cons:
  "json_ok (JObj ((k, v) # fs)) \<longleftrightarrow> json_ok v \<and> json_ok (JObj fs)"
  by simp_all

lemma json_ok_empty [simp]: "json_ok (JObj [])"
  by simp

lemma json_ok_service_check [simp]: "json_ok (service_check_json c)"
  unfolding service_check_json_def json_ok_obj json_ok_cons
  by (simp del: json_ok.simps(5,6))

lemma json_ok_event [simp]: "json_ok (event_json e)"
  unfolding event_json_def json_ok_obj json_ok_cons
  by (simp del: json_ok.simps(5,6))

lemma json_ok_points: "json_ok (JArr (map point_json ps)) \<longleftrightarrow> finite_points ps"
  by (induction ps) (simp_all add: finite_points_def point_json_def)

lemma json_ok_serie: "json_ok (serie_json s) \<longleftrightarrow> finite_points (se_points s)"
  unfolding serie_json_def json_ok_obj json_ok_cons json_ok_points
  by (simp del: json_ok.simps(5,6))

end
