(* ===== verification/DogstatsdParse.thy ===== *)
theory DogstatsdParse
  imports MetricTypes
begin

text \<open>
  The DogStatsD wire formats, \<^verbatim>\<open>internal/dogstatsd/parse.go\<close>: metric lines, service checks
  and events. Each option loop is the source's loop over \<open>strings.Cut\<close>; the lemmas show that
  it folds over the pipe-separated fields.
\<close>

section \<open>Metric lines\<close>

definition parse_type :: "string \<Rightarrow> sample_type option" where
  "parse_type s =
     (if s = ''g'' then Some SampleGauge
      else if s = ''c'' then Some SampleCounter
      else if s = ''h'' then Some SampleHistogram
      else if s = ''ms'' then Some SampleTiming
      else if s = ''d'' then Some SampleDistribution
      else if s = ''s'' then Some SampleSet
      else None)"

definition split_tags :: "string \<Rightarrow> string list" where
  "split_tags s = (if s = [] then [] else split_on CHR '','' s)"

definition sample_field :: "string \<Rightarrow> sample \<Rightarrow> sample" where
  "sample_field field base =
     (if has_prefix ''@'' field then
        (case parse_float (drop 1 field) of
           Parsed r \<Rightarrow> if flt (Fin 0) r then base\<lparr>smp_rate := r\<rparr> else base
         | _ \<Rightarrow> base)
      else if has_prefix ''#'' field then base\<lparr>smp_tags := split_tags (drop 1 field)\<rparr>
      else base)"

function sample_opts :: "string \<Rightarrow> sample \<Rightarrow> sample" where
  "sample_opts opts base =
     (if opts = [] then base
      else case str_cut ''|'' opts of (field, opts', _) \<Rightarrow> sample_opts opts' (sample_field field base))"
  by pat_completeness auto
termination
  by (relation "measure (\<lambda>(opts, base). length opts)") (auto dest!: cut_length_less [OF sym])

declare sample_opts.simps [simp del]

function parse_values :: "sample \<Rightarrow> string \<Rightarrow> sample list option" where
  "parse_values base v =
     (case str_cut '':'' v of (vs, restv, packed) \<Rightarrow>
        (case parse_float vs of
           Parsed x \<Rightarrow>
             if packed then map_option (Cons (base\<lparr>smp_value := x\<rparr>)) (parse_values base restv)
             else Some [base\<lparr>smp_value := x\<rparr>]
         | _ \<Rightarrow> None))"
  by pat_completeness auto
termination
  by (relation "measure (\<lambda>(base, v). length v)") (auto dest!: cut_found [OF sym])

declare parse_values.simps [simp del]

definition parse :: "string \<Rightarrow> sample list option" where
  "parse line =
     (case str_cut ''|'' line of (head, rest, ok) \<Rightarrow>
        if \<not> ok then None
        else case str_cut '':'' head of (name, value_str, ok2) \<Rightarrow>
          if \<not> ok2 \<or> name = [] then None
          else case str_cut ''|'' rest of (type_str, opts, _) \<Rightarrow>
            (case parse_type type_str of
               None \<Rightarrow> None
             | Some typ \<Rightarrow>
                 let base = sample_opts opts
                   \<lparr>smp_name = name, smp_value = Fin 0, smp_str = [], smp_type = typ,
                    smp_tags = [], smp_rate = Fin 1\<rparr>
                 in if typ = SampleSet then Some [base\<lparr>smp_str := value_str\<rparr>]
                    else parse_values base value_str))"

section \<open>Service checks\<close>

function check_opts :: "string \<Rightarrow> service_check \<Rightarrow> service_check" where
  "check_opts opts sc =
     (if opts = [] then sc
      else case str_cut ''|'' opts of (field, opts', _) \<Rightarrow>
        if has_prefix ''d:'' field then
          check_opts opts'
            (case parse_int 10 64 (drop 2 field) of Parsed ts \<Rightarrow> sc\<lparr>sc_timestamp := ts\<rparr> | _ \<Rightarrow> sc)
        else if has_prefix ''h:'' field then check_opts opts' (sc\<lparr>sc_host := drop 2 field\<rparr>)
        else if has_prefix ''#'' field then
          check_opts opts' (sc\<lparr>sc_tags := split_tags (drop 1 field)\<rparr>)
        else if has_prefix ''m:'' field then
          (if opts' \<noteq> [] then sc\<lparr>sc_message := drop 2 field @ ''|'' @ opts'\<rparr>
           else sc\<lparr>sc_message := drop 2 field\<rparr>)
        else check_opts opts' sc)"
  by pat_completeness auto
termination
  by (relation "measure (\<lambda>(opts, sc). length opts)") (auto dest!: cut_length_less [OF sym])

declare check_opts.simps [simp del]

definition parse_service_check :: "string \<Rightarrow> service_check option" where
  "parse_service_check line =
     (case cut_prefix ''_sc|'' line of
        None \<Rightarrow> None
      | Some rest \<Rightarrow>
          (case str_cut ''|'' rest of (name, rest', ok) \<Rightarrow>
             if \<not> ok \<or> name = [] then None
             else case str_cut ''|'' rest' of (status_str, opts, _) \<Rightarrow>
               (case atoi status_str of
                  Parsed status \<Rightarrow>
                    if status < 0 \<or> 3 < status then None
                    else Some (check_opts opts
                      \<lparr>sc_check = name, sc_host = [], sc_timestamp = 0, sc_status = status,
                       sc_message = [], sc_tags = []\<rparr>)
                | _ \<Rightarrow> None)))"

section \<open>Events\<close>

text \<open>Both texts spell a newline as a backslash and an \<open>n\<close>.\<close>

definition event_unescape :: "string \<Rightarrow> string" where
  "event_unescape s = replace_all [CHR 0x5C, CHR ''n''] [CHR 0x0A] s"

definition event_field :: "string \<Rightarrow> event \<Rightarrow> event" where
  "event_field field ev =
     (if has_prefix ''d:'' field then
        (case parse_int 10 64 (drop 2 field) of Parsed ts \<Rightarrow> ev\<lparr>ev_timestamp := ts\<rparr> | _ \<Rightarrow> ev)
      else if has_prefix ''h:'' field then ev\<lparr>ev_host := drop 2 field\<rparr>
      else if has_prefix ''p:'' field then ev\<lparr>ev_priority := drop 2 field\<rparr>
      else if has_prefix ''t:'' field then ev\<lparr>ev_alert_type := drop 2 field\<rparr>
      else if has_prefix ''s:'' field then ev\<lparr>ev_source_type_name := drop 2 field\<rparr>
      else if has_prefix ''k:'' field then ev\<lparr>ev_aggregation_key := drop 2 field\<rparr>
      else if has_prefix ''#'' field then ev\<lparr>ev_tags := split_tags (drop 1 field)\<rparr>
      else ev)"

lemma event_cut_less:
  assumes "opts \<noteq> []" "str_cut ''|'' (trim_prefix ''|'' opts) = (field, opts', found)"
  shows "length opts' < length opts"
proof (cases "has_prefix ''|'' opts")
  case True
  then have "length (trim_prefix ''|'' opts) < length opts"
    using assms(1) by (simp add: trim_prefix_def)
  with cut_length [OF assms(2)] show ?thesis by simp
next
  case False
  with cut_length_less [OF assms(2)] assms(1) show ?thesis by (simp add: trim_prefix_def)
qed

function event_opts :: "string \<Rightarrow> event \<Rightarrow> event" where
  "event_opts opts ev =
     (if opts = [] then ev
      else case str_cut ''|'' (trim_prefix ''|'' opts) of
        (field, opts', _) \<Rightarrow> event_opts opts' (event_field field ev))"
  by pat_completeness auto
termination
  by (relation "measure (\<lambda>(opts, ev). length opts)") (auto dest!: event_cut_less [OF _ sym])

declare event_opts.simps [simp del]

definition parse_event :: "string \<Rightarrow> event option" where
  "parse_event line =
     (case cut_prefix ''_e{'' line of
        None \<Rightarrow> None
      | Some rest \<Rightarrow>
          (case str_cut ''}:'' rest of (header, body, ok) \<Rightarrow>
             if \<not> ok then None
             else case str_cut '','' header of (tl_str, el_str, ok2) \<Rightarrow>
               if \<not> ok2 then None
               else (case (atoi tl_str, atoi el_str) of
                   (Parsed tlen, Parsed elen) \<Rightarrow>
                     if tlen \<le> 0 \<or> elen < 0 then None
                     else if int (length body) < tlen then None
                     else (case cut_prefix ''|'' (drop (nat tlen) body) of
                         None \<Rightarrow> None
                       | Some r \<Rightarrow>
                           if int (length r) < elen then None
                           else Some (event_opts (drop (nat elen) r)
                             \<lparr>ev_title = event_unescape (take (nat tlen) body),
                              ev_text = event_unescape (take (nat elen) r),
                              ev_timestamp = 0, ev_priority = [], ev_alert_type = [],
                              ev_host = [], ev_tags = [], ev_aggregation_key = [],
                              ev_source_type_name = []\<rparr>))
                 | _ \<Rightarrow> None)))"

section \<open>The loops fold over the pipe-separated fields\<close>

lemma cut_split: "str_cut [c] s = (a, b, found) \<Longrightarrow> split_on c s = (if found then a # split_on c b else [a])"
  by (cases found) (auto dest!: cut_found cut_not_found simp: split_on_absent split_on_present)

lemma sample_field_Nil [simp]: "sample_field [] base = base"
  by (simp add: sample_field_def)

lemma event_field_Nil [simp]: "event_field [] ev = ev"
  by (simp add: event_field_def)

lemma sample_opts_fold: "sample_opts opts base = fold sample_field (split_on CHR ''|'' opts) base"
proof (induction opts base rule: sample_opts.induct)
  case (1 opts base)
  show ?case
  proof (cases "opts = []")
    case True
    then show ?thesis by (simp add: sample_opts.simps)
  next
    case False
    obtain field opts' found where cut: "str_cut ''|'' opts = (field, opts', found)"
      by (cases "str_cut ''|'' opts")
    then have "opts' = []" if "\<not> found"
      using that by (auto dest: cut_not_found)
    with 1 [OF False cut [symmetric]] False cut show ?thesis
      by (subst sample_opts.simps) (auto simp: cut_split [OF cut])
  qed
qed

lemma event_opts_fold: "event_opts opts ev = fold event_field (split_on CHR ''|'' opts) ev"
proof (induction opts ev rule: event_opts.induct)
  case (1 opts ev)
  show ?case
  proof (cases "opts = []")
    case True
    then show ?thesis by (simp add: event_opts.simps)
  next
    case False
    obtain field opts' found where cut: "str_cut ''|'' (trim_prefix ''|'' opts) = (field, opts', found)"
      by (cases "str_cut ''|'' (trim_prefix ''|'' opts)")
    then have nil: "opts' = []" if "\<not> found"
      using that by (auto dest: cut_not_found)
    have "fold event_field (split_on CHR ''|'' opts) ev
        = fold event_field (split_on CHR ''|'' (trim_prefix ''|'' opts)) ev"
      by (cases opts) (auto simp: trim_prefix_def)
    with 1 [OF False cut [symmetric]] False cut nil show ?thesis
      by (subst event_opts.simps) (auto simp: cut_split [OF cut])
  qed
qed

lemma parse_values_those:
  "parse_values base v =
     map_option (map (\<lambda>x. base\<lparr>smp_value := x\<rparr>))
       (those (map (\<lambda>p. ok_val (parse_float p)) (split_on CHR '':'' v)))"
proof (induction base v rule: parse_values.induct)
  case (1 base v)
  obtain vs restv found where cut: "str_cut '':'' v = (vs, restv, found)"
    by (cases "str_cut '':'' v")
  show ?case
  proof (cases "parse_float vs")
    case (Parsed x)
    then show ?thesis
      using 1 [OF cut [symmetric]] cut
      by (subst parse_values.simps)
        (auto simp: cut_split [OF cut] option.map_comp o_def split: option.splits)
  qed (subst parse_values.simps, simp add: cut cut_split [OF cut])+
qed

section \<open>Metric lines against their grammar\<close>

text \<open>
  The grammar of the source's comment, read off the fields that \<open>|\<close>, \<open>:\<close> and \<open>,\<close> separate:
  \<^verbatim>\<open>name:value[:value...]|type[|@sample_rate][|#tag1:v1,tag2:v2][|...]\<close>.
\<close>

definition parse_spec :: "string \<Rightarrow> sample list option" where
  "parse_spec line =
     (case split_on CHR ''|'' line of
        head # type_str # opts \<Rightarrow>
          (case split_on CHR '':'' head of
             name # v # vs \<Rightarrow>
               if name = [] then None
               else (case parse_type type_str of
                   None \<Rightarrow> None
                 | Some typ \<Rightarrow>
                     let base = fold sample_field opts
                       \<lparr>smp_name = name, smp_value = Fin 0, smp_str = [], smp_type = typ,
                        smp_tags = [], smp_rate = Fin 1\<rparr>
                     in if typ = SampleSet then Some [base\<lparr>smp_str := join_with '':'' (v # vs)\<rparr>]
                        else map_option (map (\<lambda>x. base\<lparr>smp_value := x\<rparr>))
                               (those (map (\<lambda>p. ok_val (parse_float p)) (v # vs))))
           | _ \<Rightarrow> None)
      | _ \<Rightarrow> None)"

lemma split_two: "str_cut [c] s = (a, b, True) \<Longrightarrow> \<exists>v vs. split_on c s = a # v # vs \<and> split_on c b = v # vs"
  using split_on_not_Nil [of c b]
  by (cases "split_on c b") (auto dest!: cut_split)

lemma cut_not_found_False: "str_cut [c] s = (a, b, False) \<Longrightarrow> split_on c s = [s]"
  by (auto dest: cut_not_found simp: split_on_absent)

lemma parse_eq_spec: "parse line = parse_spec line"
proof -
  obtain head tail ok where c1: "str_cut ''|'' line = (head, tail, ok)"
    by (cases "str_cut ''|'' line")
  obtain name v ok2 where c2: "str_cut '':'' head = (name, v, ok2)"
    by (cases "str_cut '':'' head")
  obtain ty opts ok3 where c3: "str_cut ''|'' tail = (ty, opts, ok3)"
    by (cases "str_cut ''|'' tail")
  show ?thesis
  proof (cases "ok \<and> ok2")
    case False
    then show ?thesis
      using c1 c2
      by (auto simp: parse_def parse_spec_def cut_not_found_False split: list.splits
          dest!: cut_not_found_False cut_split)
  next
    case True
    with c1 c2 have s1: "split_on CHR ''|'' line = head # split_on CHR ''|'' tail"
      and s2: "split_on CHR '':'' head = name # split_on CHR '':'' v"
      by (simp_all add: cut_split)
    obtain w ws where s4: "split_on CHR '':'' v = w # ws" and jw: "join_with '':'' (w # ws) = v"
      using join_split [of "CHR '':''" v] split_on_not_Nil [of "CHR '':''" v]
      by (cases "split_on CHR '':'' v") simp_all
    have s3: "split_on CHR ''|'' tail = ty # (if ok3 then split_on CHR ''|'' opts else [])"
      using c3 by (simp add: cut_split)
    have o3: "opts = []" if "\<not> ok3"
      using c3 that by (auto dest: cut_not_found)
    have opts: "sample_opts opts b = fold sample_field (if ok3 then split_on CHR ''|'' opts else []) b" for b
      using o3 by (auto simp: sample_opts_fold)
    have lhs: "parse line =
        (if name = [] then None else case parse_type ty of None \<Rightarrow> None
          | Some typ \<Rightarrow>
              let base = sample_opts opts \<lparr>smp_name = name, smp_value = Fin 0, smp_str = [],
                    smp_type = typ, smp_tags = [], smp_rate = Fin 1\<rparr>
              in if typ = SampleSet then Some [base\<lparr>smp_str := v\<rparr>] else parse_values base v)"
      using True by (simp add: parse_def c1 c2 c3)
    show ?thesis
      unfolding lhs parse_spec_def s1 s2 s3 s4 list.case jw
      by (simp only: opts Let_def parse_values_those [of _ v, unfolded s4])
  qed
qed


text \<open>What every accepted line gives.\<close>

lemma sample_field_frame [frame]:
  "smp_name (sample_field f b) = smp_name b" "smp_type (sample_field f b) = smp_type b"
  "smp_value (sample_field f b) = smp_value b" "smp_str (sample_field f b) = smp_str b"
  by (auto simp: sample_field_def split: parsed.split)

lemma sample_fields_frame [frame]:
  "smp_name (fold sample_field fs b) = smp_name b" "smp_type (fold sample_field fs b) = smp_type b"
  "smp_value (fold sample_field fs b) = smp_value b" "smp_str (fold sample_field fs b) = smp_str b"
  by (induction fs arbitrary: b) (simp_all add: frame)

definition sample_wf :: "sample \<Rightarrow> bool" where
  "sample_wf s \<longleftrightarrow>
     smp_name s \<noteq> [] \<and> CHR '':'' \<notin> set (smp_name s) \<and> CHR ''|'' \<notin> set (smp_name s)
     \<and> flt (Fin 0) (smp_rate s)
     \<and> list_all (\<lambda>t. CHR '','' \<notin> set t \<and> CHR ''|'' \<notin> set t) (smp_tags s) \<and> smp_tags s \<noteq> [[]]"

lemma split_tags_wf:
  assumes "c \<notin> set s"
  shows "list_all (\<lambda>t. CHR '','' \<notin> set t \<and> c \<notin> set t) (split_tags s) \<and> split_tags s \<noteq> [[]]"
proof -
  have "c \<notin> set t" if "t \<in> set (split_on d s)" for t d
    using assms that
  proof (induction s arbitrary: t)
    case (Cons x s)
    then show ?case by (cases "split_on d s") (auto split: if_splits)
  qed simp
  moreover have "split_on CHR '','' s \<noteq> [[]]" if "s \<noteq> []"
    using that by (metis join_split join_with_eq_Nil)
  ultimately show ?thesis
    by (auto simp: split_tags_def list_all_iff dest: split_on_parts)
qed

lemma sample_field_rate_tags:
  assumes "CHR ''|'' \<notin> set f" "sample_wf b"
  shows "sample_wf (sample_field f b)"
proof -
  have "CHR ''|'' \<notin> set (drop 1 f)"
    using assms(1) by (meson in_set_dropD)
  then show ?thesis
    using assms(2) split_tags_wf [of "CHR ''|''" "drop 1 f"]
    by (auto simp: sample_field_def sample_wf_def split: parsed.split)
qed

lemma sample_fields_wf:
  "\<forall>f \<in> set fs. CHR ''|'' \<notin> set f \<Longrightarrow> sample_wf b \<Longrightarrow> sample_wf (fold sample_field fs b)"
  by (induction fs arbitrary: b) (auto intro: sample_field_rate_tags)

lemma those_Some: "those (map f xs) = Some ys \<longleftrightarrow> map f xs = map Some ys"
proof (induction xs arbitrary: ys)
  case (Cons x xs)
  then show ?case by (cases ys) (auto split: option.splits)
qed auto

text \<open>
  C35. Whatever datagram arrives, an accepted line gives at least one sample, and every sample
  has a non-empty name without \<open>:\<close> and \<open>|\<close>, a rate above zero (so \<open>accumulate\<close> may divide by
  it), and tags without the separators \<open>,\<close> and \<open>|\<close>; a set gives exactly one sample, other
  types one per packed value.
\<close>

theorem parse_wf:
  assumes "parse line = Some ss"
  shows "ss \<noteq> [] \<and> list_all sample_wf ss
    \<and> (\<exists>t. list_all (\<lambda>s. smp_type s = t) ss \<and>
         length ss = (if t = SampleSet then 1
                      else length (split_on CHR '':'' (hd (split_on CHR ''|'' line))) - 1))"
proof -
  obtain head type_str opts where s1: "split_on CHR ''|'' line = head # type_str # opts"
    using assms by (auto simp: parse_eq_spec parse_spec_def split: list.splits)
  obtain name v vs where s2: "split_on CHR '':'' head = name # v # vs"
    using assms by (auto simp: parse_eq_spec parse_spec_def s1 split: list.splits)
  have pipes: "\<forall>f \<in> set (head # opts). CHR ''|'' \<notin> set f"
    using split_on_parts [of _ "CHR ''|''" line] s1 by auto
  have "set name \<subseteq> set head"
    using join_split [of "CHR '':''" head] s2 by (auto split: if_splits)
  moreover have "CHR '':'' \<notin> set name"
    using split_on_parts [of name "CHR '':''" head] s2 by simp
  ultimately have name: "CHR '':'' \<notin> set name" "CHR ''|'' \<notin> set name"
    using pipes by auto
  obtain kd where ty: "parse_type type_str = Some kd" and nn: "name \<noteq> []"
    using assms by (auto simp: parse_eq_spec parse_spec_def s1 s2 split: if_splits option.splits)
  define base where "base = fold sample_field opts
    \<lparr>smp_name = name, smp_value = Fin 0, smp_str = [], smp_type = kd, smp_tags = [], smp_rate = Fin 1\<rparr>"
  have wf: "sample_wf base"
    unfolding base_def
    by (rule sample_fields_wf) (use pipes name nn in \<open>simp_all add: sample_wf_def\<close>)
  have styp: "smp_type base = kd"
    by (simp add: base_def frame)
  have "(let base = base in if kd = SampleSet then Some [base\<lparr>smp_str := join_with '':'' (v # vs)\<rparr>]
      else map_option (map (\<lambda>x. base\<lparr>smp_value := x\<rparr>))
             (those (map (\<lambda>p. ok_val (parse_float p)) (v # vs)))) = Some ss"
    using assms nn
    by (simp add: parse_eq_spec parse_spec_def s1 s2 ty base_def Let_def cong: if_cong)
  then have ss: "ss = [base\<lparr>smp_str := join_with '':'' (v # vs)\<rparr>] \<and> kd = SampleSet
      \<or> kd \<noteq> SampleSet \<and> (\<exists>xs. length xs = length (v # vs) \<and> ss = map (\<lambda>x. base\<lparr>smp_value := x\<rparr>) xs)"
    unfolding Let_def
    by (auto simp: those_Some simp del: join_with.simps list.map split: if_splits)
      (metis length_Cons length_map)
  then show ?thesis
    using wf styp s2 by (auto simp: s1 list_all_iff sample_wf_def)
qed

lemma parse_wf_witness:
  "let line = ''lat:1:2.5|ms|@0.5|#a:b,c''; ss = the (parse line)
   in ss \<noteq> [] \<and> list_all sample_wf ss \<and> length ss = 2"
proof -
  have "parse ''lat:1:2.5|ms|@0.5|#a:b,c'' \<noteq> None
      \<and> length (the (parse ''lat:1:2.5|ms|@0.5|#a:b,c'')) = 2" by code_simp
  then obtain ss where "parse ''lat:1:2.5|ms|@0.5|#a:b,c'' = Some ss" "length ss = 2" by auto
  with parse_wf [OF this(1)] show ?thesis by simp
qed

section \<open>Service checks round trip\<close>

text \<open>The datagram a client sends for a check, each optional part left out when empty.\<close>

definition tags_field :: "string list \<Rightarrow> string" where
  "tags_field tags = (if tags = [] then [] else ''|#'' @ join_with '','' tags)"

definition opt_field :: "string \<Rightarrow> string \<Rightarrow> string" where
  "opt_field key v = (if v = [] then [] else CHR ''|'' # key @ v)"

definition int_field :: "string \<Rightarrow> int \<Rightarrow> string" where
  "int_field key n = (if n = 0 then [] else CHR ''|'' # key @ fmt_int n)"

definition check_line :: "service_check \<Rightarrow> string" where
  "check_line c = ''_sc|'' @ sc_check c @ ''|'' @ fmt_int (sc_status c) @ int_field ''d:'' (sc_timestamp c)
     @ opt_field ''h:'' (sc_host c) @ tags_field (sc_tags c) @ opt_field ''m:'' (sc_message c)"

definition tags_ok :: "string list \<Rightarrow> bool" where
  "tags_ok tags \<longleftrightarrow> list_all (\<lambda>t. CHR '','' \<notin> set t \<and> CHR ''|'' \<notin> set t) tags \<and> tags \<noteq> [[]]"

definition check_wf :: "service_check \<Rightarrow> bool" where
  "check_wf c \<longleftrightarrow> sc_check c \<noteq> [] \<and> CHR ''|'' \<notin> set (sc_check c) \<and> 0 \<le> sc_status c \<and> sc_status c \<le> 3
     \<and> in_i64 (sc_timestamp c) \<and> CHR ''|'' \<notin> set (sc_host c) \<and> tags_ok (sc_tags c)"

text \<open>A message whose only pipe ends it loses that pipe.\<close>

definition kept_message :: "string \<Rightarrow> string" where
  "kept_message m = (case str_cut ''|'' m of (a, b, _) \<Rightarrow> if b = [] then a else m)"

lemma fmt_int_no_pipe [simp]: "CHR ''|'' \<notin> set (fmt_int n)"
proof -
  have "CHR ''|'' \<notin> set (fmt_nat k)" for k
  proof -
    have "byte CHR ''|'' = 124" by code_simp
    then show ?thesis using fmt_nat_digits [of "CHR ''|''" k] by (auto simp: is_digit_char_def)
  qed
  then show ?thesis by (simp add: fmt_int_def)
qed

lemma tags_no_pipe: "tags_ok tags \<Longrightarrow> CHR ''|'' \<notin> set (join_with '','' tags)"
  using set_join_with [of "'',''" tags] by (fastforce simp: tags_ok_def list_all_iff)

lemma split_tags_join: "tags_ok tags \<Longrightarrow> split_tags (join_with '','' tags) = tags"
  by (cases "tags = []") (auto simp: split_tags_def tags_ok_def split_join join_with_eq_Nil list_all_iff)

text \<open>The option list splits at the first field, whatever follows it.\<close>

definition pipe_or_end :: "string \<Rightarrow> bool" where
  "pipe_or_end s \<longleftrightarrow> s = [] \<or> hd s = CHR ''|''"

lemma cut_field:
  "CHR ''|'' \<notin> set f \<Longrightarrow> pipe_or_end s \<Longrightarrow> str_cut ''|'' (f @ s) = (f, tl s, s \<noteq> [])"
  by (cases s) (auto simp: pipe_or_end_def cut_absent cut_present)

lemma pipe_or_end_fields [simp]:
  "pipe_or_end []" "pipe_or_end (int_field k n @ s) \<longleftrightarrow> n \<noteq> 0 \<or> pipe_or_end s"
  "pipe_or_end (opt_field k v @ s) \<longleftrightarrow> v \<noteq> [] \<or> pipe_or_end s"
  "pipe_or_end (tags_field t @ s) \<longleftrightarrow> t \<noteq> [] \<or> pipe_or_end s"
  "pipe_or_end (opt_field k v)" "pipe_or_end (tags_field t)"
  by (auto simp: pipe_or_end_def int_field_def opt_field_def tags_field_def)

lemma check_opts_int:
  assumes "pipe_or_end s" "in_i64 n"
  shows "check_opts (tl (int_field ''d:'' n @ s)) c
       = check_opts (tl s) (if n = 0 then c else c\<lparr>sc_timestamp := n\<rparr>)"
  using assms cut_field [of "''d:'' @ fmt_int n" s]
  by (cases "n = 0") (simp_all add: int_field_def check_opts.simps [of "CHR ''d'' # _"] parse_i64_fmt_int)

lemma check_opts_host:
  assumes "pipe_or_end s" "CHR ''|'' \<notin> set h"
  shows "check_opts (tl (opt_field ''h:'' h @ s)) c
       = check_opts (tl s) (if h = [] then c else c\<lparr>sc_host := h\<rparr>)"
  using assms cut_field [of "''h:'' @ h" s]
  by (cases "h = []") (simp_all add: opt_field_def check_opts.simps [of "CHR ''h'' # _"])

lemma check_opts_tags:
  assumes "pipe_or_end s" "tags_ok t"
  shows "check_opts (tl (tags_field t @ s)) c
       = check_opts (tl s) (if t = [] then c else c\<lparr>sc_tags := t\<rparr>)"
  using assms tags_no_pipe [of t] cut_field [of "CHR ''#'' # join_with '','' t" s]
  by (cases "t = []") (simp_all add: tags_field_def check_opts.simps [of "CHR ''#'' # _"] split_tags_join)

lemma check_opts_message:
  "check_opts (tl (opt_field ''m:'' m)) c
     = (if m = [] then c else c\<lparr>sc_message := kept_message m\<rparr>)"
proof (cases "m = []")
  case False
  obtain a b found where cut: "str_cut ''|'' m = (a, b, found)"
    by (cases "str_cut ''|'' m")
  then have "str_cut ''|'' (''m:'' @ m) = (''m:'' @ a, b, found)"
    by simp
  moreover have "a @ ''|'' @ b = m" if "b \<noteq> []"
    using cut that by (cases found) (auto dest!: cut_found cut_not_found)
  ultimately show ?thesis
    using False cut by (simp add: opt_field_def check_opts.simps [of "CHR ''m'' # _"] kept_message_def)
qed (simp add: opt_field_def check_opts.simps)

lemmas check_opts_field = check_opts_int check_opts_host check_opts_tags check_opts_message

text \<open>
  A service check written as the datagram the comment describes is read back unchanged,
  whatever bytes its message holds, pipes included, with one exception: a message whose only
  pipe is its last byte comes back without it.
\<close>

theorem parse_service_check_roundtrip:
  assumes "check_wf c"
  shows "parse_service_check (check_line c) = Some (c\<lparr>sc_message := kept_message (sc_message c)\<rparr>)"
proof -
  let ?opts = "int_field ''d:'' (sc_timestamp c) @ opt_field ''h:'' (sc_host c) @ tags_field (sc_tags c)
     @ opt_field ''m:'' (sc_message c)"
  have wf: "sc_check c \<noteq> []" "CHR ''|'' \<notin> set (sc_check c)" "in_i64 (sc_timestamp c)"
      "CHR ''|'' \<notin> set (sc_host c)" "tags_ok (sc_tags c)" "0 \<le> sc_status c" "sc_status c \<le> 3"
      "in_i64 (sc_status c)"
    using assms by (auto simp: check_wf_def in_i64_def)
  have "cut_prefix ''_sc|'' (check_line c) = Some (sc_check c @ CHR ''|'' # fmt_int (sc_status c) @ ?opts)"
    by (simp add: check_line_def cut_prefix_Some)
  moreover have "str_cut ''|'' (sc_check c @ CHR ''|'' # fmt_int (sc_status c) @ ?opts)
      = (sc_check c, fmt_int (sc_status c) @ ?opts, True)"
    using wf by (intro cut_present)
  moreover have "str_cut ''|'' (fmt_int (sc_status c) @ ?opts) = (fmt_int (sc_status c), tl ?opts, ?opts \<noteq> [])"
    by (rule cut_field) simp_all
  moreover have "check_opts (tl ?opts) \<lparr>sc_check = sc_check c, sc_host = [], sc_timestamp = 0,
        sc_status = sc_status c, sc_message = [], sc_tags = []\<rparr>
      = c\<lparr>sc_message := kept_message (sc_message c)\<rparr>"
    using wf by (cases c) (auto simp: check_opts_field kept_message_def)
  ultimately show ?thesis
    using wf by (simp add: parse_service_check_def atoi_fmt_int)
qed

definition check_example :: service_check where
  "check_example = \<lparr>sc_check = ''db.up'', sc_host = ''h1'', sc_timestamp = - 7, sc_status = 2,
     sc_message = ''a|b'', sc_tags = [''x'', ''y:1'']\<rparr>"

lemma parse_service_check_roundtrip_witness:
  "parse_service_check (check_line check_example) = Some check_example"
  using parse_service_check_roundtrip [of check_example]
  by (simp add: check_example_def check_wf_def in_i64_def tags_ok_def kept_message_def)

section \<open>Events round trip\<close>

definition event_escape :: "string \<Rightarrow> string" where
  "event_escape s = concat (map (\<lambda>c. if c = CHR 0x0A then [CHR 0x5C, CHR ''n''] else [c]) s)"

text \<open>A backslash before an \<open>n\<close> cannot be told from an escaped newline.\<close>

fun escapable :: "string \<Rightarrow> bool" where
  "escapable (x # y # s) \<longleftrightarrow> \<not> (x = CHR 0x5C \<and> y = CHR ''n'') \<and> escapable (y # s)"
| "escapable s \<longleftrightarrow> True"

lemma event_unescape_step:
  "event_unescape [] = []"
  "event_unescape (CHR 0x5C # CHR ''n'' # s) = CHR 0x0A # event_unescape s"
  "\<not> (c = CHR 0x5C \<and> s \<noteq> [] \<and> hd s = CHR ''n'') \<Longrightarrow> event_unescape (c # s) = c # event_unescape s"
  by (simp add: event_unescape_def replace_all.simps,
      simp add: event_unescape_def replace_all.simps [of _ _ "CHR 0x5C # _"],
      cases s, simp_all add: event_unescape_def replace_all.simps [of _ _ "c # _"])

lemma unescape_escape: "escapable s \<Longrightarrow> event_unescape (event_escape s) = s"
proof (induction s rule: escapable.induct)
  case (1 x y s)
  then show ?case
    by (auto simp: event_escape_def event_unescape_step)
qed (simp_all add: event_escape_def event_unescape_step)

lemma event_opts_tl: "pipe_or_end s \<Longrightarrow> event_opts (tl s) ev = event_opts s ev"
  by (cases s) (auto simp: pipe_or_end_def event_opts_fold)

lemma event_opts_step:
  "CHR ''|'' \<notin> set f \<Longrightarrow> pipe_or_end s \<Longrightarrow>
     event_opts (CHR ''|'' # f @ s) ev = event_opts s (event_field f ev)"
  by (cases s) (auto simp: pipe_or_end_def event_opts_fold split_on_present split_on_absent)

lemma event_opts_int:
  "pipe_or_end s \<Longrightarrow> in_i64 n \<Longrightarrow>
     event_opts (int_field ''d:'' n @ s) e = event_opts s (if n = 0 then e else e\<lparr>ev_timestamp := n\<rparr>)"
  using event_opts_step [of "''d:'' @ fmt_int n" s e]
  by (simp add: int_field_def event_field_def parse_i64_fmt_int)

lemma event_opts_tags:
  "pipe_or_end s \<Longrightarrow> tags_ok t \<Longrightarrow>
     event_opts (tags_field t @ s) e = event_opts s (if t = [] then e else e\<lparr>ev_tags := t\<rparr>)"
  using event_opts_step [of "CHR ''#'' # join_with '','' t" s e] tags_no_pipe [of t]
  by (simp add: tags_field_def event_field_def split_tags_join)

lemma event_opts_str:
  assumes "pipe_or_end s" "CHR ''|'' \<notin> set v"
  shows "event_opts (opt_field ''h:'' v @ s) e = event_opts s (if v = [] then e else e\<lparr>ev_host := v\<rparr>)"
    "event_opts (opt_field ''p:'' v @ s) e = event_opts s (if v = [] then e else e\<lparr>ev_priority := v\<rparr>)"
    "event_opts (opt_field ''t:'' v @ s) e = event_opts s (if v = [] then e else e\<lparr>ev_alert_type := v\<rparr>)"
    "event_opts (opt_field ''s:'' v @ s) e
       = event_opts s (if v = [] then e else e\<lparr>ev_source_type_name := v\<rparr>)"
    "event_opts (opt_field ''k:'' v @ s) e
       = event_opts s (if v = [] then e else e\<lparr>ev_aggregation_key := v\<rparr>)"
  using assms event_opts_step [of "''h:'' @ v" s e] event_opts_step [of "''p:'' @ v" s e]
    event_opts_step [of "''t:'' @ v" s e] event_opts_step [of "''s:'' @ v" s e]
    event_opts_step [of "''k:'' @ v" s e]
  by (simp_all add: opt_field_def event_field_def)

lemmas event_opts_field = event_opts_int event_opts_tags event_opts_str

definition event_line :: "event \<Rightarrow> string" where
  "event_line e =
     ''_e{'' @ fmt_nat (length (event_escape (ev_title e))) @ '','' @ fmt_nat (length (event_escape (ev_text e)))
     @ ''}:'' @ event_escape (ev_title e) @ ''|'' @ event_escape (ev_text e)
     @ int_field ''d:'' (ev_timestamp e) @ opt_field ''h:'' (ev_host e) @ opt_field ''p:'' (ev_priority e)
     @ opt_field ''t:'' (ev_alert_type e) @ opt_field ''s:'' (ev_source_type_name e)
     @ opt_field ''k:'' (ev_aggregation_key e) @ tags_field (ev_tags e)"

definition event_wf :: "event \<Rightarrow> bool" where
  "event_wf e \<longleftrightarrow> ev_title e \<noteq> [] \<and> escapable (ev_title e) \<and> escapable (ev_text e)
     \<and> int (length (event_escape (ev_title e))) < 2 ^ 63 \<and> int (length (event_escape (ev_text e))) < 2 ^ 63
     \<and> in_i64 (ev_timestamp e) \<and> tags_ok (ev_tags e)
     \<and> list_all (\<lambda>s. CHR ''|'' \<notin> set s) [ev_host e, ev_priority e, ev_alert_type e,
          ev_source_type_name e, ev_aggregation_key e]"

lemma event_opts_Nil [simp]: "event_opts [] e = e"
  by (simp add: event_opts.simps)

lemma fmt_nat_absent:
  "\<not> is_digit_char c \<Longrightarrow> c \<notin> set (fmt_nat n)"
  by (auto dest: fmt_nat_digits)

lemma cut_event_header:
  "CHR ''}'' \<notin> set h \<Longrightarrow> str_cut ''}:'' (h @ ''}:'' @ b) = (h, b, True)"
  by (induction h) auto

lemma fmt_int_nat: "fmt_int (int n) = fmt_nat n"
  by (simp add: fmt_int_def)

lemma event_frame_not_digit:
  "\<not> is_digit_char CHR '',''" "\<not> is_digit_char CHR ''}''"
  by code_simp+

lemma event_header_absent: "CHR ''}'' \<notin> set (fmt_nat a @ '','' @ fmt_nat b)"
  using event_frame_not_digit by (simp add: fmt_nat_absent)

lemma length_event_escape: "event_escape s = [] \<longleftrightarrow> s = []"
  by (cases s) (simp_all add: event_escape_def)

text \<open>
  An event written as the datagram the comment describes is read back unchanged: the
  \<open>{len,len}\<close> frame protects any pipes, colons and braces in its title and text, newlines
  survive the escaping, and each option lands in its own field.
\<close>

theorem parse_event_roundtrip:
  assumes "event_wf e"
  shows "parse_event (event_line e) = Some e"
proof -
  let ?t = "event_escape (ev_title e)" and ?x = "event_escape (ev_text e)"
  let ?opts = "int_field ''d:'' (ev_timestamp e) @ opt_field ''h:'' (ev_host e) @ opt_field ''p:'' (ev_priority e)
     @ opt_field ''t:'' (ev_alert_type e) @ opt_field ''s:'' (ev_source_type_name e)
     @ opt_field ''k:'' (ev_aggregation_key e) @ tags_field (ev_tags e)"
  have wf: "?t \<noteq> []" "event_unescape ?t = ev_title e" "event_unescape ?x = ev_text e"
      "atoi (fmt_nat (length ?t)) = Parsed (int (length ?t))"
      "atoi (fmt_nat (length ?x)) = Parsed (int (length ?x))"
    using assms unescape_escape atoi_fmt_int [of "int (length ?t)"] atoi_fmt_int [of "int (length ?x)"]
    by (auto simp: event_wf_def in_i64_def fmt_int_nat length_event_escape)
  have "event_line e = ''_e{'' @ (fmt_nat (length ?t) @ '','' @ fmt_nat (length ?x)) @ ''}:''
      @ ?t @ ''|'' @ ?x @ ?opts"
    by (simp add: event_line_def)
  then have "cut_prefix ''_e{'' (event_line e)
      = Some ((fmt_nat (length ?t) @ '','' @ fmt_nat (length ?x)) @ ''}:'' @ ?t @ ''|'' @ ?x @ ?opts)"
    by (simp only: cut_prefix_append)
  moreover have "str_cut ''}:'' ((fmt_nat (length ?t) @ '','' @ fmt_nat (length ?x)) @ ''}:'' @ ?t @ ''|'' @ ?x @ ?opts)
      = (fmt_nat (length ?t) @ '','' @ fmt_nat (length ?x), ?t @ ''|'' @ ?x @ ?opts, True)"
    by (rule cut_event_header [OF event_header_absent])
  moreover have "str_cut '','' (fmt_nat (length ?t) @ '','' @ fmt_nat (length ?x))
      = (fmt_nat (length ?t), fmt_nat (length ?x), True)"
    using cut_present [of "CHR '',''" "fmt_nat (length ?t)" "fmt_nat (length ?x)"] event_frame_not_digit
    by (simp add: fmt_nat_absent)
  moreover have "event_opts ?opts \<lparr>ev_title = ev_title e, ev_text = ev_text e, ev_timestamp = 0,
      ev_priority = [], ev_alert_type = [], ev_host = [], ev_tags = [], ev_aggregation_key = [],
      ev_source_type_name = []\<rparr> = e"
    using assms event_opts_tags [of "[]" "ev_tags e"]
    by (cases e) (auto simp: event_wf_def event_opts_field)
  ultimately show ?thesis
    using wf cut_prefix_append [of "''|''" "?x @ ?opts"]
    by (simp add: parse_event_def cut_prefix_append)
qed

definition event_example :: event where
  "event_example = \<lparr>ev_title = ''a|b'', ev_text = [CHR ''x'', CHR 0x0A, CHR ''|''], ev_timestamp = 5,
     ev_priority = ''low'', ev_alert_type = [], ev_host = ''h'', ev_tags = [''k:v'', ''w''],
     ev_aggregation_key = ''agg'', ev_source_type_name = []\<rparr>"

lemma parse_event_roundtrip_witness: "parse_event (event_line event_example) = Some event_example"
  by (rule parse_event_roundtrip)
    (simp add: event_example_def event_wf_def event_escape_def in_i64_def tags_ok_def)

end
