(* ===== verification/GoTime.thy ===== *)
theory GoTime
  imports GoFloat
begin

text \<open>
  Go's package \<open>time\<close>: an instant is its nanoseconds since the epoch, a duration a number of
  nanoseconds. \<open>Time.Sub\<close> saturates at the bounds of a duration.
\<close>

definition second :: int where "second = 1000000000"

text \<open>The zero \<open>time.Time\<close>, the first second of the year 1, and \<open>Time.Sub\<close>, which saturates.\<close>

definition zero_time :: int where "zero_time = - 62135596800 * second"

definition time_sub :: "int \<Rightarrow> int \<Rightarrow> int" where
  "time_sub a b = max (- (2 ^ 63)) (min (2 ^ 63 - 1) (a - b))"

text \<open>\<open>Duration.Seconds\<close>, and the whole seconds of an instant (\<open>Time.Unix\<close>).\<close>

definition dur_seconds :: "int \<Rightarrow> f64" where
  "dur_seconds d = fadd (f64_of_int (go_quot d second)) (fdiv (f64_of_int (d - second * go_quot d second)) (f64_of_int second))"

definition unix :: "int \<Rightarrow> int" where
  "unix now = now div second"

end
