(* ===== verification/Intake.thy ===== *)
theory Intake
  imports GoStrconv GoTime
begin

text \<open>
  The transport to the backend, \<^verbatim>\<open>internal/intake/intake.go\<close>: one request, the retry ladder,
  and the fan-out to several endpoints. The network is an explicit state threaded through
  every call: a script of the answers \<open>http.Client.Do\<close> will give and of the timers that fire
  before the context is done, and the log of what the client did. An exhausted script answers
  as a dead network and a cancelled context do. Durations are nanoseconds.
\<close>

section \<open>Endpoints, client and network\<close>

record endpoint =
  ep_url :: string
  ep_key :: string
  ep_reliable :: bool

record client =
  cl_max_tries :: int
  cl_backoff :: int

text \<open>The agent's version, as every request header and the heartbeat report it.\<close>

definition agent_version :: string where "agent_version = ''0.1.0''"

definition backoff_max :: int where "backoff_max = 30 * second"

text \<open>\<open>New\<close> fills in the zero options.\<close>

definition new_client :: "int \<Rightarrow> int \<Rightarrow> client" where
  "new_client max_tries backoff =
     \<lparr>cl_max_tries = (if max_tries = 0 then 4 else max_tries),
      cl_backoff = (if backoff = 0 then second else backoff)\<rparr>"

datatype net_error =
    BadUrl
  | Cancelled
  | NoResponse
  | Unexpected int
  | GaveUp int "net_error option"
  | BuildFailed

text \<open>A body \<open>compress\<close> has gzipped. Writing to a \<open>bytes.Buffer\<close> cannot fail.\<close>

datatype 'b gzipped = Gz 'b

definition compress :: "'b \<Rightarrow> net_error + 'b gzipped" where
  "compress body = Inr (Gz body)"

datatype 'b act =
    Request string string "'b gzipped" "int option"
  | Slept int

record 'b net =
  nt_replies :: "int option list"
  nt_timers :: "bool list"
  nt_bad_urls :: "string list"
  nt_acts :: "'b act list"

text \<open>A status, zero when there was no response, and the error.\<close>

type_synonym post_result = "int \<times> net_error option"

definition url_ok :: "'b net \<Rightarrow> endpoint \<Rightarrow> bool" where
  "url_ok nt ep \<longleftrightarrow> ep_url ep \<notin> set (nt_bad_urls nt)"

definition accepted :: "int \<Rightarrow> bool" where
  "accepted status \<longleftrightarrow> go_quot status 100 = 2"

definition permanent :: "int \<Rightarrow> bool" where
  "permanent status \<longleftrightarrow> status = 400 \<or> status = 401 \<or> status = 403 \<or> status = 413"

section \<open>One request and the retry ladder\<close>

definition next_reply :: "'b net \<Rightarrow> int option" where
  "next_reply nt = (case nt_replies nt of [] \<Rightarrow> None | r # _ \<Rightarrow> r)"

definition do_request :: "endpoint \<Rightarrow> 'b gzipped \<Rightarrow> 'b net \<Rightarrow> post_result \<times> 'b net" where
  "do_request ep gz nt =
     (if \<not> url_ok nt ep then ((0, Some BadUrl), nt)
      else let reply = next_reply nt;
               nt' = nt\<lparr>nt_replies := tl (nt_replies nt),
                        nt_acts := nt_acts nt @ [Request (ep_url ep) (ep_key ep) gz reply]\<rparr>
           in (case reply of
                 None \<Rightarrow> ((0, Some NoResponse), nt')
               | Some status \<Rightarrow>
                   if accepted status then ((status, None), nt')
                   else ((status, Some (Unexpected status)), nt')))"

text \<open>\<open>sleep\<close>: whether the timer fired before the context was done.\<close>

definition sleep :: "int \<Rightarrow> 'b net \<Rightarrow> bool \<times> 'b net" where
  "sleep d nt =
     (case nt_timers nt of
        True # ts \<Rightarrow> (True, nt\<lparr>nt_timers := ts, nt_acts := nt_acts nt @ [Slept d]\<rparr>)
      | _ \<Rightarrow> (False, nt\<lparr>nt_timers := tl (nt_timers nt)\<rparr>))"

definition next_wait :: "int \<Rightarrow> int" where
  "next_wait wait = (let w = wrap_i64 (wait * 2) in if w > backoff_max then backoff_max else w)"

function send_try ::
  "client \<Rightarrow> endpoint \<Rightarrow> 'b gzipped \<Rightarrow> int \<Rightarrow> int \<Rightarrow> post_result \<Rightarrow> 'b net \<Rightarrow> post_result \<times> 'b net" where
  "send_try c ep gz attempt wait prev nt =
     (if attempt < cl_max_tries c then
        (let (fired, nt1) = (if attempt > 0 then sleep wait nt else (True, nt)) in
         if \<not> fired then ((fst prev, Some Cancelled), nt1)
         else let wait' = (if attempt > 0 then next_wait wait else wait);
                  ((status, err), nt2) = do_request ep gz nt1
              in (case err of
                    None \<Rightarrow> ((status, None), nt2)
                  | Some e \<Rightarrow>
                      if permanent status then ((status, Some e), nt2)
                      else send_try c ep gz (attempt + 1) wait' (status, Some e) nt2))
      else ((fst prev, Some (GaveUp (cl_max_tries c) (snd prev))), nt))"
  by pat_completeness auto
termination
  by (relation "measure (\<lambda>(c, ep, gz, attempt, wait, prev, nt). nat (cl_max_tries c - attempt))") auto

declare send_try.simps [simp del]

definition send :: "client \<Rightarrow> endpoint \<Rightarrow> 'b gzipped \<Rightarrow> 'b net \<Rightarrow> post_result \<times> 'b net" where
  "send c ep gz nt =
     (if \<not> url_ok nt ep then ((0, Some BadUrl), nt)
      else send_try c ep gz 0 (cl_backoff c) (0, None) nt)"

definition post :: "client \<Rightarrow> endpoint \<Rightarrow> 'b \<Rightarrow> 'b net \<Rightarrow> post_result \<times> 'b net" where
  "post c ep body nt =
     (case compress body of Inl e \<Rightarrow> ((0, Some e), nt) | Inr gz \<Rightarrow> send c ep gz nt)"

section \<open>Fan-out\<close>

text \<open>A best-effort endpoint: its result is logged and dropped.\<close>

definition post_additional :: "client \<Rightarrow> 'b gzipped \<Rightarrow> endpoint \<Rightarrow> 'b net \<Rightarrow> 'b net" where
  "post_additional c gz ep nt = snd (send c ep gz nt)"

definition post_all :: "client \<Rightarrow> endpoint list \<Rightarrow> 'b \<Rightarrow> 'b net \<Rightarrow> post_result \<times> 'b net" where
  "post_all c eps body nt =
     (case eps of
        [] \<Rightarrow> ((0, None), nt)
      | ep # rest \<Rightarrow>
          (case compress body of
             Inl e \<Rightarrow> ((0, Some e), nt)
           | Inr gz \<Rightarrow>
               let (r, nt1) = send c ep gz nt in (r, fold (post_additional c gz) rest nt1)))"

definition post_built ::
  "client \<Rightarrow> (string \<Rightarrow> 'b option) \<Rightarrow> endpoint \<Rightarrow> 'b net \<Rightarrow> 'b net" where
  "post_built c build ep nt =
     (case build (ep_key ep) of
        None \<Rightarrow> nt
      | Some body \<Rightarrow>
          (case compress body of Inl e \<Rightarrow> nt | Inr gz \<Rightarrow> post_additional c gz ep nt))"

definition post_all_func ::
  "client \<Rightarrow> endpoint list \<Rightarrow> (string \<Rightarrow> 'b option) \<Rightarrow> 'b net \<Rightarrow> post_result \<times> 'b net" where
  "post_all_func c eps build nt =
     (case eps of
        [] \<Rightarrow> ((0, None), nt)
      | ep # rest \<Rightarrow>
          (case build (ep_key ep) of
             None \<Rightarrow> ((0, Some BuildFailed), nt)
           | Some body \<Rightarrow>
               let (r, nt1) = post c ep body nt in (r, fold (post_built c build) rest nt1)))"

section \<open>What the primary acknowledged\<close>

text \<open>
  The bodies a destination, named by URL and key, has accepted, in order. Everything the
  callers rely on is a statement about this list.
\<close>

primrec ack_of :: "string \<times> string \<Rightarrow> 'b act \<Rightarrow> 'b list" where
  "ack_of d (Request u k z r) =
     (case r of None \<Rightarrow> []
      | Some st \<Rightarrow> if (u, k) = d \<and> accepted st then (case z of Gz b \<Rightarrow> [b]) else [])"
| "ack_of d (Slept w) = []"

definition dest :: "endpoint \<Rightarrow> string \<times> string" where
  "dest ep = (ep_url ep, ep_key ep)"

definition acked :: "string \<times> string \<Rightarrow> 'b net \<Rightarrow> 'b list" where
  "acked d nt = concat (map (ack_of d) (nt_acts nt))"

lemma sleep_frame [frame]:
  "sleep w nt = (fired, nt') \<Longrightarrow> acked d nt' = acked d nt \<and> nt_bad_urls nt' = nt_bad_urls nt"
  by (auto simp: sleep_def acked_def split: list.splits bool.splits)

lemma accepted_not_permanent: "accepted st \<Longrightarrow> \<not> permanent st"
  by (auto simp: accepted_def permanent_def go_quot_def)

lemma do_request_acked:
  assumes "do_request ep (Gz b) nt = ((status, err), nt')"
  shows "acked d nt' = acked d nt @ (if err = None \<and> d = dest ep then [b] else [])"
    and "nt_bad_urls nt' = nt_bad_urls nt"
  using assms
  by (auto simp: do_request_def acked_def dest_def Let_def split: if_splits option.splits)

lemma send_try_acked:
  "send_try c ep (Gz b) attempt wait prev nt = ((status, err), nt') \<Longrightarrow>
     acked d nt' = acked d nt @ (if err = None \<and> d = dest ep then [b] else [])
     \<and> nt_bad_urls nt' = nt_bad_urls nt"
proof (induction c ep "Gz b" attempt wait prev nt rule: send_try.induct)
  case (1 c ep attempt wait prev nt)
  show ?case
  proof (cases "attempt < cl_max_tries c")
    case False
    with "1.prems" show ?thesis by (auto simp: send_try.simps)
  next
    case lt: True
    obtain fired nt1 where sl: "(if attempt > 0 then sleep wait nt else (True, nt)) = (fired, nt1)"
      by fastforce
    then have f1: "acked d nt1 = acked d nt" "nt_bad_urls nt1 = nt_bad_urls nt"
      using sleep_frame [of wait nt] by (auto split: if_splits)
    obtain st er nt2 where rq: "do_request ep (Gz b) nt1 = ((st, er), nt2)"
      by (metis prod.exhaust)
    note f2 = do_request_acked(1) [OF rq, of d] do_request_acked(2) [OF rq]
    show ?thesis
    proof (cases "fired \<and> (\<exists>e. er = Some e) \<and> \<not> permanent st")
      case True
      then obtain e where e: "er = Some e" by blast
      have "send_try c ep (Gz b) (attempt + 1) (if attempt > 0 then next_wait wait else wait) (st, Some e) nt2
          = ((status, err), nt')"
        using "1.prems" lt sl rq True e by (simp add: send_try.simps [of c ep _ attempt] Let_def)
      from "1.hyps" [OF lt refl sl [symmetric] _ refl refl rq [symmetric] refl e _ this] True e f1 f2
      show ?thesis by simp
    next
      case False
      then show ?thesis
        using "1.prems" lt sl rq f1 f2
        by (cases fired; cases er) (auto simp: send_try.simps [of c ep _ attempt] Let_def)
    qed
  qed
qed

lemma send_acked:
  "send c ep (Gz b) nt = ((status, err), nt') \<Longrightarrow>
     acked d nt' = acked d nt @ (if err = None \<and> d = dest ep then [b] else [])
     \<and> nt_bad_urls nt' = nt_bad_urls nt"
  using send_try_acked [of c ep b 0 "cl_backoff c" "(0, None)" nt status err nt' d]
  by (auto simp: send_def split: if_splits)

section \<open>Which answer decides\<close>

definition outcome :: "int option \<Rightarrow> post_result" where
  "outcome r = (case r of None \<Rightarrow> (0, Some NoResponse)
     | Some st \<Rightarrow> (st, if accepted st then None else Some (Unexpected st)))"

definition transient :: "int option \<Rightarrow> bool" where
  "transient r \<longleftrightarrow> (case r of None \<Rightarrow> True | Some st \<Rightarrow> \<not> accepted st \<and> \<not> permanent st)"

text \<open>The next \<open>n\<close> answers of the script.\<close>

definition next_replies :: "nat \<Rightarrow> 'b net \<Rightarrow> int option list" where
  "next_replies n nt = take n (nt_replies nt @ replicate n None)"

lemma next_replies_Suc:
  "next_replies (Suc n) nt = next_reply nt # take n (tl (nt_replies nt) @ replicate n None)"
  by (cases "nt_replies nt")
    (simp_all add: next_replies_def next_reply_def min_def take_replicate flip: replicate_Suc)

lemma do_request_outcome:
  assumes "url_ok nt ep"
  shows "do_request ep gz nt = (outcome (next_reply nt),
    nt\<lparr>nt_replies := tl (nt_replies nt),
       nt_acts := nt_acts nt @ [Request (ep_url ep) (ep_key ep) gz (next_reply nt)]\<rparr>)"
  using assms by (auto simp: do_request_def outcome_def Let_def split: option.splits)

lemma outcome_final:
  "\<not> transient r \<longleftrightarrow> snd (outcome r) = None \<or> permanent (fst (outcome r))"
  by (auto simp: outcome_def transient_def permanent_def split: option.splits)

text \<open>One rung, as an equation over the outcome.\<close>

lemma send_try_rung:
  assumes "url_ok nt ep" "attempt < cl_max_tries c" "0 \<le> attempt"
    and "attempt > 0 \<Longrightarrow> \<exists>ts. nt_timers nt = True # ts"
  shows "send_try c ep gz attempt wait prev nt =
    (let nt2 = nt\<lparr>nt_timers := (if attempt > 0 then tl (nt_timers nt) else nt_timers nt),
            nt_replies := tl (nt_replies nt),
            nt_acts := nt_acts nt @ (if attempt > 0 then [Slept wait] else [])
                         @ [Request (ep_url ep) (ep_key ep) gz (next_reply nt)]\<rparr>
     in if transient (next_reply nt)
        then send_try c ep gz (attempt + 1) (if attempt > 0 then next_wait wait else wait)
               (outcome (next_reply nt)) nt2
        else (outcome (next_reply nt), nt2))"
proof -
  have ok: "url_ok (nt\<lparr>nt_timers := a, nt_acts := b\<rparr>) ep" for a b
    using assms(1) by (simp add: url_ok_def)
  have nr: "next_reply (nt\<lparr>nt_timers := a, nt_acts := b\<rparr>) = next_reply nt" for a b
    by (simp add: next_reply_def)
  obtain st er where o: "outcome (next_reply nt) = (st, er)" by fastforce
  show ?thesis
  proof (cases "attempt > 0")
    case True
    then obtain ts where ts: "nt_timers nt = True # ts" using assms(4) by blast
    then have "sleep wait nt = (True, nt\<lparr>nt_timers := ts, nt_acts := nt_acts nt @ [Slept wait]\<rparr>)"
      by (simp add: sleep_def)
    with True ts o assms outcome_final [of "next_reply nt"] show ?thesis
      by (cases er)
        (auto simp: send_try.simps [of c ep gz attempt] do_request_outcome [OF ok] nr Let_def)
  next
    case False
    with o assms outcome_final [of "next_reply nt"] show ?thesis
      by (cases er)
        (auto simp: send_try.simps [of c ep gz attempt] send_try.simps [of c ep gz 0]
          do_request_outcome Let_def)
  qed
qed

lemma send_try_decides:
  assumes "url_ok nt ep" "0 < attempt" "n = nat (cl_max_tries c - attempt)" "replicate n True @ ts = nt_timers nt"
  shows "fst (send_try c ep gz attempt wait prev nt) =
    (case dropWhile transient (next_replies n nt) of
       [] \<Rightarrow> (let o' = (if n = 0 then prev else outcome (last (next_replies n nt)))
              in (fst o', Some (GaveUp (cl_max_tries c) (snd o'))))
     | r # _ \<Rightarrow> outcome r)"
  using assms
proof (induction n arbitrary: attempt wait prev nt)
  case 0
  then show ?case by (simp add: send_try.simps next_replies_def)
next
  case (Suc n)
  define nt2 where "nt2 = nt\<lparr>nt_timers := tl (nt_timers nt), nt_replies := tl (nt_replies nt),
      nt_acts := nt_acts nt @ [Slept wait, Request (ep_url ep) (ep_key ep) gz (next_reply nt)]\<rparr>"
  have tm: "nt_timers nt = True # tl (nt_timers nt)" "replicate n True @ ts = nt_timers nt2"
    using Suc.prems(4) [symmetric] by (simp_all add: nt2_def)
  have rs: "next_replies (Suc n) nt = next_reply nt # next_replies n nt2"
    by (simp only: next_replies_Suc) (simp add: nt2_def next_replies_def)
  have lt: "attempt < cl_max_tries c" and ex: "\<exists>ts. nt_timers nt = True # ts"
    using Suc.prems(3) tm(1) by auto
  have step: "send_try c ep gz attempt wait prev nt =
      (if transient (next_reply nt)
       then send_try c ep gz (attempt + 1) (next_wait wait) (outcome (next_reply nt)) nt2
       else (outcome (next_reply nt), nt2))"
    using Suc.prems(1,2) lt ex send_try_rung [of nt ep attempt c gz wait prev]
    by (simp add: nt2_def Let_def)
  have ih: "transient (next_reply nt) \<Longrightarrow> fst (send_try c ep gz (attempt + 1) (next_wait wait) (outcome (next_reply nt)) nt2) =
    (case dropWhile transient (next_replies n nt2) of
       [] \<Rightarrow> (let o' = (if n = 0 then outcome (next_reply nt) else outcome (last (next_replies n nt2)))
              in (fst o', Some (GaveUp (cl_max_tries c) (snd o'))))
     | r # _ \<Rightarrow> outcome r)"
    using Suc.prems tm by (intro Suc.IH) (auto simp: nt2_def url_ok_def)
  have "n = 0 \<longleftrightarrow> next_replies n nt2 = []"
    by (auto simp: next_replies_def)
  then show ?case
    unfolding step rs using ih by (auto simp: Let_def simp del: dropWhile_eq_Nil_conv split: list.split)
qed

text \<open>
  C11. What a post returns, when no timer is cut short: the first answer that is an acceptance or
  a permanent refusal decides, and the later answers are never asked for. When every try gets a
  transient answer the client gives up with the status of the last one.
\<close>

theorem send_decides:
  assumes "url_ok nt ep" "0 < cl_max_tries c"
    and "replicate (nat (cl_max_tries c) - 1) True @ ts = nt_timers nt"
  shows "fst (send c ep gz nt) =
    (let rs = next_replies (nat (cl_max_tries c)) nt in
     case dropWhile transient rs of
       [] \<Rightarrow> (fst (outcome (last rs)), Some (GaveUp (cl_max_tries c) (snd (outcome (last rs)))))
     | r # _ \<Rightarrow> outcome r)"
proof -
  define n where "n = nat (cl_max_tries c) - 1"
  define nt2 where "nt2 = nt\<lparr>nt_replies := tl (nt_replies nt),
      nt_acts := nt_acts nt @ [Request (ep_url ep) (ep_key ep) gz (next_reply nt)]\<rparr>"
  have n: "nat (cl_max_tries c) = Suc n" "n = nat (cl_max_tries c - 1)"
    using assms(2) by (auto simp: n_def)
  have rs: "next_replies (Suc n) nt = next_reply nt # next_replies n nt2"
    by (simp only: next_replies_Suc) (simp add: nt2_def next_replies_def)
  have step: "send_try c ep gz 0 (cl_backoff c) (0, None) nt =
      (if transient (next_reply nt) then send_try c ep gz 1 (cl_backoff c) (outcome (next_reply nt)) nt2
       else (outcome (next_reply nt), nt2))"
    using assms send_try_rung [of nt ep 0 c gz "cl_backoff c" "(0, None)"] by (auto simp: nt2_def Let_def)
  have "fst (send_try c ep gz 1 (cl_backoff c) (outcome (next_reply nt)) nt2) =
    (case dropWhile transient (next_replies n nt2) of
       [] \<Rightarrow> (let o' = (if n = 0 then outcome (next_reply nt) else outcome (last (next_replies n nt2)))
              in (fst o', Some (GaveUp (cl_max_tries c) (snd o'))))
     | r # _ \<Rightarrow> outcome r)"
    by (rule send_try_decides [of _ _ _ _ _ ts]) (use assms n in \<open>auto simp: nt2_def url_ok_def\<close>)
  moreover have "n = 0 \<longleftrightarrow> next_replies n nt2 = []"
    by (auto simp: next_replies_def)
  ultimately show ?thesis
    using assms(1) unfolding send_def n(1) rs step
    by (auto simp: Let_def simp del: dropWhile_eq_Nil_conv split: list.split)
qed

definition net_example :: "int option list \<Rightarrow> string net" where
  "net_example rs = \<lparr>nt_replies = rs, nt_timers = [True, True, True], nt_bad_urls = [], nt_acts = []\<rparr>"

definition ep_example :: endpoint where
  "ep_example = \<lparr>ep_url = ''https://a'', ep_key = ''k1'', ep_reliable = True\<rparr>"

lemma send_decides_witness:
  "fst (send (new_client 0 0) ep_example (Gz ''x'') (net_example [Some 503, None, Some 202])) = (202, None)"
  using send_decides [of "net_example [Some 503, None, Some 202]" ep_example "new_client 0 0" "[]" "Gz ''x''"]
  by (simp add: net_example_def new_client_def url_ok_def next_replies_def transient_def outcome_def
      accepted_def permanent_def go_quot_def eval_nat_numeral)

section \<open>The retry ladder in time\<close>

text \<open>An action without the answer it got.\<close>

primrec shape :: "'b act \<Rightarrow> 'b act" where
  "shape (Request u k z r) = Request u k z None"
| "shape (Slept w) = Slept w"

fun rungs :: "endpoint \<Rightarrow> 'b gzipped \<Rightarrow> nat \<Rightarrow> int \<Rightarrow> 'b act list" where
  "rungs ep gz 0 w = []"
| "rungs ep gz (Suc n) w =
     Slept w # Request (ep_url ep) (ep_key ep) gz None # rungs ep gz n (next_wait w)"

lemma sleep_cases:
  obtains ts where "sleep w nt = (True, nt\<lparr>nt_timers := ts, nt_acts := nt_acts nt @ [Slept w]\<rparr>)"
      "nt_timers nt = True # ts"
  | nt' where "sleep w nt = (False, nt')" "nt_acts nt' = nt_acts nt"
proof (cases "\<exists>ts. nt_timers nt = True # ts")
  case True
  then show thesis using that(1) by (auto simp: sleep_def)
next
  case False
  then have "sleep w nt = (False, nt\<lparr>nt_timers := tl (nt_timers nt)\<rparr>)"
    by (auto simp: sleep_def split: list.split bool.split)
  then show thesis by (rule that(2)) simp
qed

lemma send_try_rungs:
  assumes "url_ok nt ep" "0 < attempt" "n = nat (cl_max_tries c - attempt)"
    and "send_try c ep gz attempt wait prev nt = (r, nt')"
  shows "\<exists>m. map shape (nt_acts nt') = map shape (nt_acts nt) @ take m (rungs ep gz n wait)"
  using assms
proof (induction n arbitrary: attempt wait prev nt)
  case 0
  then show ?case by (auto simp: send_try.simps)
next
  case (Suc n)
  have lt: "attempt < cl_max_tries c" using Suc.prems by linarith
  show ?case
  proof (cases wait nt rule: sleep_cases)
    case (2 nt1)
    then have "nt' = nt1" using Suc.prems lt by (auto simp: send_try.simps [of c ep gz attempt])
    with 2 show ?thesis by (metis append_Nil2 take0)
  next
    case (1 ts)
    define nt2 where "nt2 = nt\<lparr>nt_timers := ts, nt_replies := tl (nt_replies nt),
      nt_acts := nt_acts nt @ [Slept wait, Request (ep_url ep) (ep_key ep) gz (next_reply nt)]\<rparr>"
    have step: "(r, nt') = (if transient (next_reply nt)
       then send_try c ep gz (attempt + 1) (next_wait wait) (outcome (next_reply nt)) nt2
       else (outcome (next_reply nt), nt2))"
      using Suc.prems lt 1 send_try_rung [of nt ep attempt c gz wait prev] by (auto simp: nt2_def Let_def)
    have acts: "map shape (nt_acts nt2) = map shape (nt_acts nt) @ take 2 (rungs ep gz (Suc n) wait)"
      by (simp add: nt2_def)
    show ?thesis
    proof (cases "transient (next_reply nt)")
      case False
      with step acts show ?thesis by (intro exI [of _ 2]) simp
    next
      case True
      have "\<exists>m. map shape (nt_acts nt') = map shape (nt_acts nt2) @ take m (rungs ep gz n (next_wait wait))"
      proof (rule Suc.IH)
        show "send_try c ep gz (attempt + 1) (next_wait wait) (outcome (next_reply nt)) nt2 = (r, nt')"
          using step True by simp
      qed (use Suc.prems in \<open>auto simp: nt2_def url_ok_def\<close>)
      then obtain m where "map shape (nt_acts nt') = map shape (nt_acts nt2) @ take m (rungs ep gz n (next_wait wait))"
        by blast
      then have "map shape (nt_acts nt') = map shape (nt_acts nt) @ take (Suc (Suc m)) (rungs ep gz (Suc n) wait)"
        using acts by simp
      then show ?thesis by blast
    qed
  qed
qed

text \<open>The waits in closed form: doubling up to the cap.\<close>

definition wait_at :: "int \<Rightarrow> nat \<Rightarrow> int" where
  "wait_at b k = (if k = 0 then b else min (b * 2 ^ k) backoff_max)"

lemma next_wait_at:
  assumes "0 \<le> b" "b < 2 ^ 62"
  shows "next_wait (wait_at b k) = wait_at b (Suc k)"
proof -
  have cap: "0 \<le> backoff_max" "backoff_max < 2 ^ 62"
    by (simp_all add: backoff_max_def second_def)
  have "0 \<le> wait_at b k" "wait_at b k < 2 ^ 62"
    using assms cap by (auto simp: wait_at_def)
  then have "in_i64 (wait_at b k * 2)" by (simp add: in_i64_def)
  then have "next_wait (wait_at b k) = min (wait_at b k * 2) backoff_max"
    by (simp add: next_wait_def Let_def min_def)
  also have "\<dots> = wait_at b (Suc k)"
    using cap by (auto simp: wait_at_def min_def)
  finally show ?thesis .
qed

lemma rungs_closed:
  assumes "0 \<le> b" "b < 2 ^ 62"
  shows "rungs ep gz n (wait_at b k) =
    concat (map (\<lambda>i. [Slept (wait_at b i), Request (ep_url ep) (ep_key ep) gz None]) [k..<k + n])"
proof (induction n arbitrary: k)
  case (Suc n)
  show ?case
    by (simp add: next_wait_at [OF assms] Suc.IH [of "Suc k"] upt_conv_Cons del: upt_Suc)
qed simp

text \<open>
  C15. In every circumstance the client does an initial part of one fixed ladder: a request, then
  for each further try a wait and a request, at most \<open>maxTries\<close> requests in all, each with the
  same destination and body. The waits start at the configured backoff and double up to 30
  seconds, with no wrap-around.
\<close>

theorem send_ladder:
  assumes "url_ok nt ep" "0 \<le> cl_backoff c" "cl_backoff c < 2 ^ 62" "0 < cl_max_tries c"
  shows "\<exists>m. map shape (nt_acts (snd (send c ep gz nt))) = map shape (nt_acts nt)
    @ take m (Request (ep_url ep) (ep_key ep) gz None
        # concat (map (\<lambda>i. [Slept (if i = 0 then cl_backoff c else min (cl_backoff c * 2 ^ i) (30 * second)),
                            Request (ep_url ep) (ep_key ep) gz None])
             [0..<nat (cl_max_tries c) - 1]))"
proof -
  define nt2 where "nt2 = nt\<lparr>nt_replies := tl (nt_replies nt),
      nt_acts := nt_acts nt @ [Request (ep_url ep) (ep_key ep) gz (next_reply nt)]\<rparr>"
  have n: "nat (cl_max_tries c) - 1 = nat (cl_max_tries c - 1)" using assms(4) by simp
  have ladder: "rungs ep gz (nat (cl_max_tries c) - 1) (cl_backoff c) =
      concat (map (\<lambda>i. [Slept (if i = 0 then cl_backoff c else min (cl_backoff c * 2 ^ i) (30 * second)),
                        Request (ep_url ep) (ep_key ep) gz None]) [0..<nat (cl_max_tries c) - 1])"
    using rungs_closed [OF assms(2,3), of ep gz "nat (cl_max_tries c) - 1" 0]
    unfolding backoff_max_def [symmetric] wait_at_def by simp
  have step: "send c ep gz nt =
      (if transient (next_reply nt) then send_try c ep gz 1 (cl_backoff c) (outcome (next_reply nt)) nt2
       else (outcome (next_reply nt), nt2))"
    using assms send_try_rung [of nt ep 0 c gz "cl_backoff c" "(0, None)"]
    by (simp add: send_def nt2_def Let_def)
  have acts: "map shape (nt_acts nt2) = map shape (nt_acts nt) @ [Request (ep_url ep) (ep_key ep) gz None]"
    by (simp add: nt2_def)
  have "\<exists>m. map shape (nt_acts (snd (send c ep gz nt))) = map shape (nt_acts nt2)
      @ take m (rungs ep gz (nat (cl_max_tries c) - 1) (cl_backoff c))"
  proof (cases "transient (next_reply nt)")
    case True
    then show ?thesis
      using send_try_rungs [of nt2 ep 1 _ c gz "cl_backoff c" "outcome (next_reply nt)"
          "fst (send c ep gz nt)" "snd (send c ep gz nt)"] assms(1) step n
      by (auto simp: nt2_def url_ok_def)
  next
    case False
    with step show ?thesis by (auto intro: exI [of _ 0])
  qed
  then obtain m where "map shape (nt_acts (snd (send c ep gz nt))) = map shape (nt_acts nt)
      @ take (Suc m) (Request (ep_url ep) (ep_key ep) gz None
          # rungs ep gz (nat (cl_max_tries c) - 1) (cl_backoff c))"
    using acts by auto
  then show ?thesis unfolding ladder by blast
qed

lemma send_ladder_witness:
  "\<exists>m. map shape (nt_acts (snd (send (new_client 3 0) ep_example (Gz ''x'') (net_example []))))
     = take m [Request ''https://a'' ''k1'' (Gz ''x'') None, Slept second,
         Request ''https://a'' ''k1'' (Gz ''x'') None, Slept (2 * second),
         Request ''https://a'' ''k1'' (Gz ''x'') None]"
  using send_ladder [of "net_example []" ep_example "new_client 3 0" "Gz ''x''"]
  by (simp add: net_example_def ep_example_def new_client_def url_ok_def second_def
      upt_conv_Cons del: upt_Suc)

section \<open>The fan-out\<close>

lemma post_additional_acked:
  "acked d (post_additional c (Gz b) ep nt) = acked d nt
     \<or> d = dest ep \<and> acked d (post_additional c (Gz b) ep nt) = acked d nt @ [b]"
proof -
  obtain st er nt' where "send c ep (Gz b) nt = ((st, er), nt')" by (metis prod.exhaust)
  with send_acked [OF this, of d] show ?thesis by (auto simp: post_additional_def)
qed

lemma post_additional_other:
  "d \<noteq> dest ep \<Longrightarrow> acked d (post_additional c (Gz b) ep nt) = acked d nt"
  using post_additional_acked [of d c b ep nt] by auto

lemma post_additionals_other:
  "d \<notin> dest ` set eps \<Longrightarrow> acked d (fold (post_additional c (Gz b)) eps nt) = acked d nt"
  by (induction eps arbitrary: nt) (auto simp: post_additional_other)

lemma post_built_other:
  "d \<noteq> dest ep \<Longrightarrow> acked d (post_built c build ep nt) = acked d nt"
  by (auto simp: post_built_def compress_def post_additional_other split: option.split)

lemma post_builts_other:
  "d \<notin> dest ` set eps \<Longrightarrow> acked d (fold (post_built c build) eps nt) = acked d nt"
  by (induction eps arbitrary: nt) (auto simp: post_built_other)

lemma post_all_primary:
  assumes "dest ep \<notin> dest ` set eps" "post_all c (ep # eps) b nt = ((st, er), nt')"
  shows "acked (dest ep) nt' = acked (dest ep) nt @ (if er = None then [b] else [])"
proof -
  obtain st1 er1 nt1 where s: "send c ep (Gz b) nt = ((st1, er1), nt1)" by (metis prod.exhaust)
  with assms(2) have "st1 = st" "er1 = er" "nt' = fold (post_additional c (Gz b)) eps nt1"
    by (auto simp: post_all_def compress_def)
  with send_acked [OF s, of "dest ep"] post_additionals_other [OF assms(1), of c b nt1]
  show ?thesis by auto
qed

text \<open>
  \<open>PostAll\<close> returns no error exactly when the primary endpoint acknowledged the body, which
  it then did once: whatever happens to the other organisations, in whatever order the answers
  come, no failure of theirs is reported and no success of theirs stands in for the primary's.
\<close>

theorem post_all_primary_gates:
  assumes "dest ep \<notin> dest ` set eps"
  shows "fst (post_all c (ep # eps) b nt) = fst (send c ep (Gz b) nt)
    \<and> acked (dest ep) (snd (post_all c (ep # eps) b nt))
      = acked (dest ep) nt @ (if snd (fst (post_all c (ep # eps) b nt)) = None then [b] else [])"
proof -
  obtain st er nt' where p: "post_all c (ep # eps) b nt = ((st, er), nt')" by (metis prod.exhaust)
  moreover have "(st, er) = fst (send c ep (Gz b) nt)"
    using p by (auto simp: post_all_def compress_def split: prod.splits)
  ultimately show ?thesis using post_all_primary [OF assms p] by (metis fst_conv snd_conv)
qed

definition ep_second :: endpoint where
  "ep_second = \<lparr>ep_url = ''https://b'', ep_key = ''k2'', ep_reliable = False\<rparr>"

lemma post_all_primary_gates_witness:
  "let r = post_all (new_client 1 0) [ep_example, ep_second] ''x'' (net_example [Some 500, Some 200])
   in snd (fst r) \<noteq> None \<and> acked (dest ep_example) (snd r) = []"
proof -
  have ne: "dest ep_example \<notin> dest ` set [ep_second]"
    by (simp add: dest_def ep_example_def ep_second_def)
  have er: "snd (fst (send (new_client 1 0) ep_example (Gz ''x'') (net_example [Some 500, Some 200]))) \<noteq> None"
    by code_simp
  have nil: "acked (dest ep_example) (net_example [Some 500, Some 200]) = []"
    by (simp add: acked_def net_example_def)
  show ?thesis
    using post_all_primary_gates [OF ne, of "new_client 1 0" "''x''" "net_example [Some 500, Some 200]"] er nil
    by (simp add: Let_def)
qed

section \<open>Keys stay with their own organisation\<close>

text \<open>Every request in the log carries an endpoint's own URL and key, and the body built for it.\<close>

definition keyed :: "endpoint list \<Rightarrow> (string \<Rightarrow> 'b option) \<Rightarrow> 'b act \<Rightarrow> bool" where
  "keyed eps build a \<longleftrightarrow>
     (case a of Slept w \<Rightarrow> True
      | Request u k z r \<Rightarrow> (\<exists>ep \<in> set eps. u = ep_url ep \<and> k = ep_key ep \<and> (case z of Gz b \<Rightarrow> build k = Some b)))"

lemma send_try_keyed:
  "send_try c ep gz attempt wait prev nt = (r, nt') \<Longrightarrow> list_all P (nt_acts nt) \<Longrightarrow>
   (\<And>w. P (Slept w)) \<Longrightarrow> (\<And>rep. P (Request (ep_url ep) (ep_key ep) gz rep)) \<Longrightarrow> list_all P (nt_acts nt')"
proof (induction c ep gz attempt wait prev nt rule: send_try.induct)
  case (1 c ep gz attempt wait prev nt)
  show ?case
  proof (cases "attempt < cl_max_tries c")
    case False
    with "1.prems" show ?thesis by (auto simp: send_try.simps)
  next
    case lt: True
    obtain fired nt1 where sl: "(if attempt > 0 then sleep wait nt else (True, nt)) = (fired, nt1)"
      by fastforce
    then have f1: "list_all P (nt_acts nt1)"
      using "1.prems" by (auto simp: sleep_def split: if_splits list.splits bool.splits)
    obtain st er nt2 where rq: "do_request ep gz nt1 = ((st, er), nt2)"
      by (metis prod.exhaust)
    then have f2: "list_all P (nt_acts nt2)"
      using f1 "1.prems" by (auto simp: do_request_def Let_def split: if_splits option.splits)
    show ?thesis
    proof (cases "fired \<and> (\<exists>e. er = Some e) \<and> \<not> permanent st")
      case True
      then obtain e where e: "er = Some e" by blast
      have "send_try c ep gz (attempt + 1) (if attempt > 0 then next_wait wait else wait) (st, Some e) nt2 = (r, nt')"
        using "1.prems" lt sl rq True e by (simp add: send_try.simps [of c ep _ attempt] Let_def)
      from "1.IH" [OF lt refl sl [symmetric] _ refl refl rq [symmetric] refl e _ this f2] True "1.prems"
      show ?thesis by simp
    next
      case False
      then show ?thesis
        using "1.prems" lt sl rq f1 f2
        by (cases fired; cases er) (auto simp: send_try.simps [of c ep _ attempt] Let_def)
    qed
  qed
qed

lemma send_keyed:
  assumes "list_all (keyed eps build) (nt_acts nt)" "ep \<in> set eps" "build (ep_key ep) = Some b"
  shows "list_all (keyed eps build) (nt_acts (snd (send c ep (Gz b) nt)))"
proof (cases "url_ok nt ep")
  case True
  have "list_all (keyed eps build) (nt_acts (snd (send_try c ep (Gz b) 0 (cl_backoff c) (0, None) nt)))"
    by (rule send_try_keyed [OF surjective_pairing])
      (use assms in \<open>auto simp: keyed_def\<close>)
  with True show ?thesis by (simp add: send_def)
qed (use assms in \<open>simp add: send_def\<close>)

lemma post_built_keyed:
  "list_all (keyed eps build) (nt_acts nt) \<Longrightarrow> ep \<in> set eps \<Longrightarrow>
     list_all (keyed eps build) (nt_acts (post_built c build ep nt))"
  by (auto simp: post_built_def compress_def post_additional_def intro: send_keyed split: option.split)

text \<open>Where a permanent status comes from, and what a post leaves of the script.\<close>

lemma send_try_status:
  "send_try c ep gz attempt wait prev nt = ((st, er), nt') \<Longrightarrow>
     (permanent (fst prev) \<longrightarrow> Some (fst prev) \<in> A) \<Longrightarrow> set (nt_replies nt) \<subseteq> A \<Longrightarrow>
     (permanent st \<longrightarrow> Some st \<in> A) \<and> set (nt_replies nt') \<subseteq> A"
proof (induction c ep gz attempt wait prev nt rule: send_try.induct)
  case (1 c ep gz attempt wait prev nt)
  show ?case
  proof (cases "attempt < cl_max_tries c")
    case False
    with "1.prems" show ?thesis by (auto simp: send_try.simps)
  next
    case lt: True
    obtain fired nt1 where sl: "(if attempt > 0 then sleep wait nt else (True, nt)) = (fired, nt1)"
      by fastforce
    then have f1: "set (nt_replies nt1) \<subseteq> A"
      using "1.prems" by (auto simp: sleep_def split: if_splits list.splits bool.splits)
    obtain s1 er1 nt2 where rq: "do_request ep gz nt1 = ((s1, er1), nt2)"
      by (metis prod.exhaust)
    have zero: "\<not> permanent 0" by (simp add: permanent_def)
    have f2: "set (nt_replies nt2) \<subseteq> A" "permanent s1 \<longrightarrow> Some s1 \<in> A"
      using rq f1 zero
      by (auto simp: do_request_def Let_def next_reply_def split: if_splits option.splits list.splits)
    show ?thesis
    proof (cases "fired \<and> (\<exists>e. er1 = Some e) \<and> \<not> permanent s1")
      case True
      then obtain e where e: "er1 = Some e" by blast
      have "send_try c ep gz (attempt + 1) (if attempt > 0 then next_wait wait else wait) (s1, Some e) nt2
          = ((st, er), nt')"
        using "1.prems" lt sl rq True e by (simp add: send_try.simps [of c ep _ attempt] Let_def)
      from "1.IH" [OF lt refl sl [symmetric] _ refl refl rq [symmetric] refl e _ this] True f2
      show ?thesis by simp
    next
      case False
      then show ?thesis
        using "1.prems" lt sl rq f1 f2
        by (cases fired; cases er1) (auto simp: send_try.simps [of c ep _ attempt] Let_def)
    qed
  qed
qed

lemma send_status:
  assumes "set (nt_replies nt) \<subseteq> A"
  shows "(permanent (fst (fst (send c ep gz nt))) \<longrightarrow> Some (fst (fst (send c ep gz nt))) \<in> A)
    \<and> set (nt_replies (snd (send c ep gz nt))) \<subseteq> A"
proof (cases "url_ok nt ep")
  case True
  obtain st er nt' where "send_try c ep gz 0 (cl_backoff c) (0, None) nt = ((st, er), nt')"
    by (metis prod.exhaust)
  with send_try_status [OF this, of A] assms True show ?thesis
    by (simp add: send_def permanent_def)
qed (use assms in \<open>simp add: send_def permanent_def\<close>)

lemma post_all_status:
  assumes "set (nt_replies nt) \<subseteq> A" "post_all c eps b nt = ((st, er), nt')"
  shows "(permanent st \<longrightarrow> Some st \<in> A) \<and> set (nt_replies nt') \<subseteq> A"
proof (cases eps)
  case Nil
  with assms show ?thesis by (simp add: post_all_def permanent_def)
next
  case (Cons ep rest)
  obtain r nt1 where s: "send c ep (Gz b) nt = (r, nt1)" by fastforce
  with assms Cons have "r = (st, er)" "nt' = fold (post_additional c (Gz b)) rest nt1"
    by (auto simp: post_all_def compress_def)
  moreover have "set (nt_replies (fold (post_additional c (Gz b)) rest nt1)) \<subseteq> A"
    by (rule fold_invariant [where P = "\<lambda>n. set (nt_replies n) \<subseteq> A"])
      (use send_status [OF assms(1), of c ep "Gz b"] s in
        \<open>simp_all add: post_additional_def conjunct2 [OF send_status]\<close>)
  ultimately show ?thesis using send_status [OF assms(1), of c ep "Gz b"] s by simp
qed

text \<open>
  The fan-out of a payload that embeds the API key never sends one organisation's envelope,
  or its key, to another: every request goes to an endpoint of the list under that endpoint's
  own key, and carries the body built from that key, also when builds and posts fail in between.
\<close>

theorem post_all_func_keys:
  assumes "nt_acts nt = []"
  shows "list_all (keyed eps build) (nt_acts (snd (post_all_func c eps build nt)))"
proof (cases eps)
  case Nil
  then show ?thesis using assms by (simp add: post_all_func_def)
next
  case (Cons ep rest)
  show ?thesis
  proof (cases "build (ep_key ep)")
    case None
    then show ?thesis using assms Cons by (simp add: post_all_func_def)
  next
    case (Some b)
    define nt1 where "nt1 = snd (send c ep (Gz b) nt)"
    have 1: "list_all (keyed eps build) (nt_acts nt1)"
      unfolding nt1_def by (rule send_keyed) (use Cons Some assms in auto)
    have "list_all (keyed eps build) (nt_acts (fold (post_built c build) rest nt1))"
      by (rule fold_invariant [where P = "\<lambda>n. list_all (keyed eps build) (nt_acts n)"])
        (use 1 Cons in \<open>auto intro: post_built_keyed\<close>)
    moreover obtain r where "send c ep (Gz b) nt = (r, nt1)"
      by (metis nt1_def surjective_pairing)
    ultimately show ?thesis
      using Cons Some by (simp add: post_all_func_def post_def compress_def)
  qed
qed

lemma post_all_func_keys_witness:
  "list_all (keyed [ep_second, ep_example] (\<lambda>k. if k = ''k1'' then None else Some (''for '' @ k)))
     (nt_acts (snd (post_all_func (new_client 2 0) [ep_second, ep_example]
        (\<lambda>k. if k = ''k1'' then None else Some (''for '' @ k)) (net_example [Some 503, Some 202]))))"
  using post_all_func_keys [of "net_example [Some 503, Some 202]" "[ep_second, ep_example]"
      "\<lambda>k. if k = ''k1'' then None else Some (''for '' @ k)" "new_client 2 0"]
  by (simp add: net_example_def)

section \<open>The contract the senders rely on\<close>

text \<open>
  What a sender needs from its transport: a post that returns no error has added its body to what
  the destination accepted, and one that returns an error has not. The senders' lemmas are proved
  here once, over any such transport.
\<close>

fun post_chunks :: "('b \<Rightarrow> 'n \<Rightarrow> post_result \<times> 'n) \<Rightarrow> 'b list \<Rightarrow> 'n \<Rightarrow> net_error option \<times> 'n" where
  "post_chunks pst [] n = (None, n)"
| "post_chunks pst (b # bs) n =
     (case pst b n of
        ((st, None), n') \<Rightarrow> post_chunks pst bs n'
      | ((st, Some e), n') \<Rightarrow> (Some e, n'))"

locale poster =
  fixes pst :: "'b \<Rightarrow> 'n \<Rightarrow> post_result \<times> 'n"
    and delivered :: "'n \<Rightarrow> 'b list"
  assumes delivers: "pst b n = ((st, None), n') \<Longrightarrow> delivered n' = delivered n @ [b]"
    and refuses: "pst b n = ((st, Some e), n') \<Longrightarrow> delivered n' = delivered n"
begin

lemma post_cases:
  "pst b n = ((st, er), n') \<Longrightarrow> delivered n' = delivered n @ (if er = None then [b] else [])"
  by (cases er) (auto dest: delivers refuses)

lemma chunks_prefix:
  "post_chunks pst bs n = (er, n') \<Longrightarrow>
     \<exists>k. delivered n' = delivered n @ take k bs \<and> (er = None \<longleftrightarrow> k = length bs) \<and> k \<le> length bs"
proof (induction bs arbitrary: n)
  case (Cons b bs)
  obtain st e1 n1 where p: "pst b n = ((st, e1), n1)" by (metis prod.exhaust)
  note d = post_cases [OF p]
  show ?case
  proof (cases e1)
    case None
    with Cons.prems p have "post_chunks pst bs n1 = (er, n')" by simp
    from Cons.IH [OF this] obtain k where k: "delivered n' = delivered n1 @ take k bs"
      "er = None \<longleftrightarrow> k = length bs" "k \<le> length bs" by blast
    then have "delivered n' = delivered n @ take (Suc k) (b # bs)" using None d by simp
    with k show ?thesis by (metis Suc_inject Suc_le_mono length_Cons)
  next
    case (Some e)
    with Cons.prems p d have "delivered n' = delivered n @ take 0 (b # bs)" "er \<noteq> None" by auto
    then show ?thesis by (intro exI [of _ 0]) simp
  qed
qed simp

lemma chunks_all: "post_chunks pst bs n = (None, n') \<Longrightarrow> delivered n' = delivered n @ bs"
  by (drule chunks_prefix) auto

end

text \<open>
  The fan-out keeps the contract for the primary, as long as no additional endpoint repeats the
  primary's URL and key.
\<close>

locale fan_out =
  fixes c :: client
    and primary :: endpoint
    and additional :: "endpoint list"
  assumes no_repeat: "dest primary \<notin> dest ` set additional"
begin

lemma fan_out_delivers:
  "post_all c (primary # additional) b n = ((st, None), n') \<Longrightarrow>
     acked (dest primary) n' = acked (dest primary) n @ [b]"
  by (drule post_all_primary [OF no_repeat]) simp

lemma fan_out_refuses:
  "post_all c (primary # additional) b n = ((st, Some e), n') \<Longrightarrow>
     acked (dest primary) n' = acked (dest primary) n"
  by (drule post_all_primary [OF no_repeat]) simp

end

sublocale fan_out \<subseteq> gate: poster "post_all c (primary # additional)" "acked (dest primary)"
  by unfold_locales (fact fan_out_delivers fan_out_refuses)+

text \<open>A configuration without additional endpoints.\<close>

interpretation single_org: fan_out c primary "[]" for c primary
  by unfold_locales simp

lemma fan_out_poster:
  "dest ep \<notin> dest ` set eps \<Longrightarrow> poster (post_all c (ep # eps)) (acked (dest ep))"
  by unfold_locales (auto dest: fan_out.fan_out_delivers [OF fan_out.intro] fan_out.fan_out_refuses [OF fan_out.intro])

end
