(* ===== verification/MetricSubmit.thy ===== *)
theory MetricSubmit
  imports MetricTypes Intake
begin

text \<open>
  What the metrics package sends and how: series payloads and their chunking
  (\<^verbatim>\<open>internal/metrics/series.go\<close>), service-check arrays (\<^verbatim>\<open>servicecheck.go\<close>), event envelopes
  (\<^verbatim>\<open>event.go\<close>) and the heartbeat (\<^verbatim>\<open>heartbeat.go\<close>). The senders run over the transport of
  Intake; their delivery lemmas come from its interface.
\<close>

section \<open>Series payloads\<close>

text \<open>The second loop of \<open>liftDevice\<close>: the tags kept so far and the device found so far.\<close>

definition lift_step :: "string \<Rightarrow> string list \<times> string \<Rightarrow> string list \<times> string" where
  "lift_step t acc =
     (case acc of (clean, device) \<Rightarrow>
        (case cut_prefix ''device:'' t of
           Some dev \<Rightarrow> (clean, if device = [] then dev else device)
         | None \<Rightarrow> (clean @ [t], device)))"

definition lift_device :: "string list \<Rightarrow> string list \<times> string" where
  "lift_device tags =
     (if \<not> list_ex (has_prefix ''device:'') tags then (tags, [])
      else fold lift_step tags ([], []))"

definition serie_item :: "serie \<Rightarrow> json list" where
  "serie_item s =
     (if \<not> finite_points (se_points s) then []
      else let (tags, device) =
             (if se_device s = [] then lift_device (se_tags s) else (se_tags s, se_device s))
           in [serie_json (s\<lparr>se_tags := tags, se_device := device\<rparr>)])"

definition marshal_series :: "serie list \<Rightarrow> json option" where
  "marshal_series ss = json_marshal (JObj [(''series'', JArr (concat (map serie_item ss)))])"

definition max_series_per_payload :: nat where "max_series_per_payload = 1000"

text \<open>The loop of \<open>SendSeries\<close>; the argument is what is left from \<open>start\<close> on.\<close>

function send_series ::
  "client \<Rightarrow> endpoint list \<Rightarrow> serie list \<Rightarrow> json net \<Rightarrow> net_error option \<times> json net" where
  "send_series c eps ss nt =
     (if ss = [] then (None, nt)
      else case marshal_series (take max_series_per_payload ss) of
        None \<Rightarrow> (Some BuildFailed, nt)
      | Some body \<Rightarrow>
          (case post_all c eps body nt of
             ((st, Some e), nt') \<Rightarrow> (Some e, nt')
           | ((st, None), nt') \<Rightarrow> send_series c eps (drop max_series_per_payload ss) nt'))"
  by pat_completeness auto
termination
  by (relation "measure (\<lambda>(c, eps, ss, nt). length ss)") (auto simp: max_series_per_payload_def)

declare send_series.simps [simp del]

section \<open>Service checks and events\<close>

definition send_service_checks ::
  "client \<Rightarrow> endpoint list \<Rightarrow> service_check list \<Rightarrow> json net \<Rightarrow> net_error option \<times> json net" where
  "send_service_checks c eps checks nt =
     (if checks = [] then (None, nt)
      else case json_marshal (JArr (map service_check_json checks)) of
        None \<Rightarrow> (Some BuildFailed, nt)
      | Some body \<Rightarrow> (let ((st, er), nt') = post_all c eps body nt in (er, nt')))"

definition event_group :: "event \<Rightarrow> string" where
  "event_group e = (if ev_source_type_name e = [] then ''api'' else ev_source_type_name e)"

text \<open>The map of groups, an association list here; the JSON encoder sorts its keys.\<close>

fun group_add :: "event \<Rightarrow> (string \<times> event list) list \<Rightarrow> (string \<times> event list) list" where
  "group_add e [] = [(event_group e, [e])]"
| "group_add e ((k, es) # gs) =
     (if k = event_group e then (k, es @ [e]) # gs else (k, es) # group_add e gs)"

definition group_events :: "event list \<Rightarrow> (string \<times> event list) list" where
  "group_events es = fold group_add es []"

definition marshal_events :: "event list \<Rightarrow> string \<Rightarrow> string \<Rightarrow> json option" where
  "marshal_events es api_key hostname = json_marshal (JObj
     [(''apiKey'', JStr api_key),
      (''events'', JObj (map (\<lambda>(k, g). (k, JArr (map event_json g)))
                      (sort_by (\<lambda>a b. fst a < fst b) (group_events es)))),
      (''internalHostname'', JStr hostname)])"

definition send_events ::
  "client \<Rightarrow> endpoint list \<Rightarrow> string \<Rightarrow> event list \<Rightarrow> json net \<Rightarrow> net_error option \<times> json net" where
  "send_events c eps hostname es nt =
     (if es = [] then (None, nt)
      else let ((st, er), nt') = post_all_func c eps (\<lambda>key. marshal_events es key hostname) nt
           in (er, nt'))"

section \<open>The heartbeat\<close>

definition heartbeat_collect :: "int \<Rightarrow> serie list" where
  "heartbeat_collect now =
     [\<lparr>se_name = ''datadog.agent.running'', se_points = [\<lparr>pt_ts = now, pt_value = Fin 1\<rparr>],
       se_type = TypeGauge, se_interval = 0, se_tags = [''version:'' @ agent_version],
       se_host = [], se_device = [], se_source = []\<rparr>]"

section \<open>Series payloads: nothing finite is lost\<close>

lemma lift_fold:
  "fold lift_step tags (clean, device) =
     (clean @ filter (\<lambda>t. \<not> has_prefix ''device:'' t) tags,
      if device \<noteq> [] then device
      else case filter (\<lambda>d. d \<noteq> []) (map (drop 7) (filter (has_prefix ''device:'') tags)) of
             [] \<Rightarrow> [] | d # _ \<Rightarrow> d)"
  by (induction tags arbitrary: clean device)
    (auto simp: lift_step_def cut_prefix_def eval_nat_numeral simp del: has_prefix.simps)

lemma lift_device_eq:
  "lift_device tags =
     (filter (\<lambda>t. \<not> has_prefix ''device:'' t) tags,
      case filter (\<lambda>d. d \<noteq> []) (map (drop 7) (filter (has_prefix ''device:'') tags)) of
        [] \<Rightarrow> [] | d # _ \<Rightarrow> d)"
proof (cases "list_ex (has_prefix ''device:'') tags")
  case True
  then show ?thesis by (simp add: lift_device_def lift_fold)
next
  case False
  then have "filter (\<lambda>t. \<not> has_prefix ''device:'' t) tags = tags" "filter (has_prefix ''device:'') tags = []"
    by (auto simp: list_ex_iff filter_id_conv filter_empty_conv)
  with False show ?thesis by (simp add: lift_device_def)
qed

lemma serie_item_ok: "list_all json_ok (serie_item s)"
  by (auto simp: serie_item_def json_ok_serie split: prod.split)

lemma json_ok_concat: "(\<And>x. list_all json_ok (f x)) \<Longrightarrow> list_all json_ok (concat (map f xs))"
  by (induction xs) auto

lemma marshal_series_some:
  "marshal_series ss = Some (JObj [(''series'', JArr (concat (map serie_item ss)))])"
proof -
  have "list_all json_ok (concat (map serie_item ss))"
    by (rule json_ok_concat) (rule serie_item_ok)
  then show ?thesis by (simp add: marshal_series_def json_marshal_def)
qed

text \<open>
  The series payload is always rendered, whatever floating-point values the points hold: the
  series with a NaN or an infinity are skipped, every other one is in the payload once and in
  order, its \<open>device:\<close> tags turned into its device unless it has one already.
\<close>

theorem marshal_series_keeps_finite:
  "marshal_series ss = Some (JObj [(''series'', JArr (map
      (\<lambda>s. serie_json (if se_device s \<noteq> [] then s
         else s\<lparr>se_tags := filter (\<lambda>t. \<not> has_prefix ''device:'' t) (se_tags s),
                se_device := (case filter (\<lambda>d. d \<noteq> []) (map (drop 7) (filter (has_prefix ''device:'') (se_tags s)))
                              of [] \<Rightarrow> [] | d # _ \<Rightarrow> d)\<rparr>))
      (filter (\<lambda>s. finite_points (se_points s)) ss)))])"
proof -
  have "concat (map serie_item ss) = map
      (\<lambda>s. serie_json (if se_device s \<noteq> [] then s
         else s\<lparr>se_tags := filter (\<lambda>t. \<not> has_prefix ''device:'' t) (se_tags s),
                se_device := (case filter (\<lambda>d. d \<noteq> []) (map (drop 7) (filter (has_prefix ''device:'') (se_tags s)))
                              of [] \<Rightarrow> [] | d # _ \<Rightarrow> d)\<rparr>))
      (filter (\<lambda>s. finite_points (se_points s)) ss)"
    by (induction ss) (simp_all add: serie_item_def lift_device_eq)
  then show ?thesis by (simp only: marshal_series_some)
qed

section \<open>Delivery of series\<close>

definition series_body :: "serie list \<Rightarrow> json" where
  "series_body ss = JObj [(''series'', JArr (concat (map serie_item ss)))]"

text \<open>The items a payload carries.\<close>

definition body_items :: "json \<Rightarrow> json list" where
  "body_items b = (case b of JObj [(k, JArr items)] \<Rightarrow> items | _ \<Rightarrow> [])"

lemma body_items_series [simp]: "body_items (series_body ss) = concat (map serie_item ss)"
  by (simp add: body_items_def series_body_def)

lemma marshal_series_body: "marshal_series ss = Some (series_body ss)"
  by (simp add: marshal_series_some series_body_def)

lemma send_series_chunks:
  "send_series c eps ss nt = post_chunks (post_all c eps) (map series_body (runs max_series_per_payload ss)) nt"
proof (induction c eps ss nt rule: send_series.induct)
  case (1 c eps ss nt)
  show ?case
  proof (cases "ss = []")
    case True
    then show ?thesis by (simp add: send_series.simps)
  next
    case False
    obtain st er nt' where p: "post_all c eps (series_body (take max_series_per_payload ss)) nt = ((st, er), nt')"
      by (metis prod.exhaust)
    have r: "runs max_series_per_payload ss
        = take max_series_per_payload ss # runs max_series_per_payload (drop max_series_per_payload ss)"
      using False by (subst runs.simps) (simp add: max_series_per_payload_def)
    show ?thesis
      using "1.IH" [OF False marshal_series_body p [symmetric] refl] False p
      by (subst send_series.simps) (auto simp: marshal_series_body r split: option.split)
  qed
qed

text \<open>
  C7. A flush that reports success has had every serie with finite points acknowledged by the
  primary exactly once and in order, in requests of at most 1000 series; one that reports an
  error stopped at the first refused request, and everything before it was acknowledged.
\<close>

theorem send_series_delivers:
  assumes "dest ep \<notin> dest ` set eps" "send_series c (ep # eps) ss nt = (er, nt')"
  shows "\<exists>k. acked (dest ep) nt' = acked (dest ep) nt @ take k (map series_body (runs 1000 ss))
      \<and> (er = None \<longleftrightarrow> k = length (runs 1000 ss)) \<and> k \<le> length (runs 1000 ss)
      \<and> (er = None \<longrightarrow> concat (map body_items (drop (length (acked (dest ep) nt)) (acked (dest ep) nt')))
                       = concat (map serie_item ss))"
proof -
  have runs: "map body_items (map series_body rs) = map (\<lambda>r. concat (map serie_item r)) rs" for rs
    by simp
  have flat: "concat (map (\<lambda>r. concat (map serie_item r)) rs) = concat (map serie_item (concat rs))" for rs
    by (induction rs) simp_all
  obtain k where k: "acked (dest ep) nt' = acked (dest ep) nt @ take k (map series_body (runs 1000 ss))"
      "er = None \<longleftrightarrow> k = length (map series_body (runs 1000 ss))" "k \<le> length (map series_body (runs 1000 ss))"
    using poster.chunks_prefix [OF fan_out_poster [OF assms(1)]] assms(2)
    unfolding send_series_chunks max_series_per_payload_def by blast
  have "concat (map body_items (drop (length (acked (dest ep) nt)) (acked (dest ep) nt')))
      = concat (map serie_item ss)" if "er = None"
    using that k by (simp add: flat concat_runs comp_def)
  with k show ?thesis by (intro exI [of _ k]) simp
qed

definition serie_example :: "gofloat \<Rightarrow> serie" where
  "serie_example v = \<lparr>se_name = ''m'', se_points = [\<lparr>pt_ts = 1, pt_value = v\<rparr>], se_type = TypeGauge,
     se_interval = 15, se_tags = [''device:sda'', ''x''], se_host = ''h'', se_device = [], se_source = []\<rparr>"

lemma send_series_delivers_witness:
  "\<exists>k er. acked (dest ep_example)
       (snd (send_series (new_client 1 0) [ep_example, ep_second] [serie_example NaN, serie_example (Fin 2)]
          \<lparr>nt_replies = [Some 202, Some 500], nt_timers = [], nt_bad_urls = [], nt_acts = []\<rparr>))
     = take k [series_body [serie_example NaN, serie_example (Fin 2)]] \<and> (er = None \<longleftrightarrow> k = 1)"
proof -
  let ?nt = "\<lparr>nt_replies = [Some 202, Some 500], nt_timers = [], nt_bad_urls = [], nt_acts = []\<rparr> :: json net"
  let ?ss = "[serie_example NaN, serie_example (Fin 2)]"
  have ne: "dest ep_example \<notin> dest ` set [ep_second]"
    by (simp add: dest_def ep_example_def ep_second_def)
  have nil: "acked (dest ep_example) ?nt = []" by (simp add: acked_def)
  have runs: "runs 1000 ?ss = [?ss]" by (rule runs_short) simp_all
  show ?thesis
    using send_series_delivers [OF ne surjective_pairing, of "new_client 1 0" ?ss ?nt] nil runs
    by auto
qed

section \<open>Events reach the envelope once, in order\<close>

lemma group_add_of:
  "map_of (group_add e gs) k = (if k = event_group e
     then Some ((case map_of gs k of None \<Rightarrow> [] | Some es \<Rightarrow> es) @ [e]) else map_of gs k)"
  by (induction e gs rule: group_add.induct) auto

lemma group_add_keys: "fst ` set (group_add e gs) = insert (event_group e) (fst ` set gs)"
  by (induction e gs rule: group_add.induct) auto

lemma group_add_distinct: "distinct (map fst gs) \<Longrightarrow> distinct (map fst (group_add e gs))"
  by (induction e gs rule: group_add.induct) (auto simp: group_add_keys)

lemma group_fold:
  "map_of (fold group_add es gs) k =
     (case map_of gs k of
        None \<Rightarrow> if filter (\<lambda>e. event_group e = k) es = [] then None else Some (filter (\<lambda>e. event_group e = k) es)
      | Some fs \<Rightarrow> Some (fs @ filter (\<lambda>e. event_group e = k) es))"
  by (induction es arbitrary: gs) (auto simp: group_add_of split: option.splits)

lemma group_fold_distinct: "distinct (map fst gs) \<Longrightarrow> distinct (map fst (fold group_add es gs))"
  by (induction es arbitrary: gs) (auto simp: group_add_distinct)

lemma distinct_sort_by_fst:
  "distinct (map fst (sort_by lt gs)) \<longleftrightarrow> distinct (map fst gs)"
  by (rule mset_eq_imp_distinct_iff) simp

lemma map_of_sort_by: "distinct (map fst gs) \<Longrightarrow> map_of (sort_by lt gs) = map_of gs"
  by (subst map_of_inject_set) (simp_all add: distinct_sort_by_fst)

lemma sorted_fst_sort_by:
  fixes gs :: "('k::linorder \<times> 'v) list"
  shows "sorted (map fst (sort_by (\<lambda>a b. fst a < fst b) gs))"
  unfolding sorted_map by (rule sorted_sort_by) auto

lemma json_ok_groups: "list_all (\<lambda>(k, v). json_ok v) (map (\<lambda>(k, g). (k, JArr (map event_json g))) gs)"
  by (auto simp: list_all_iff)

text \<open>
  The event envelope is always rendered and holds every queued event exactly once: under its
  source type, \<open>api\<close> when it names none, in the order the events arrived, with the types as
  distinct, sorted keys.
\<close>

theorem marshal_events_groups:
  "\<exists>gs. marshal_events es api_key hostname = Some (JObj
      [(''apiKey'', JStr api_key),
       (''events'', JObj (map (\<lambda>(k, g). (k, JArr (map event_json g))) gs)),
       (''internalHostname'', JStr hostname)])
    \<and> distinct (map fst gs) \<and> sorted (map fst gs)
    \<and> (\<forall>k. map_of gs k = (if filter (\<lambda>e. event_group e = k) es = [] then None
                          else Some (filter (\<lambda>e. event_group e = k) es)))"
proof -
  let ?gs = "sort_by (\<lambda>a b. fst a < fst b) (group_events es)"
  have d: "distinct (map fst (group_events es))"
    unfolding group_events_def by (rule group_fold_distinct) simp
  have "map_of ?gs k = (if filter (\<lambda>e. event_group e = k) es = [] then None
      else Some (filter (\<lambda>e. event_group e = k) es))" for k
    using map_of_sort_by [OF d] group_fold [of es "[]" k] by (simp add: group_events_def)
  moreover have "marshal_events es api_key hostname = Some (JObj
      [(''apiKey'', JStr api_key),
       (''events'', JObj (map (\<lambda>(k, g). (k, JArr (map event_json g))) ?gs)),
       (''internalHostname'', JStr hostname)])"
    using json_ok_groups by (simp add: marshal_events_def json_marshal_def)
  ultimately show ?thesis
    using d sorted_fst_sort_by distinct_sort_by_fst by blast
qed

end
