(* ===== verification/Aggregator.thy ===== *)
theory Aggregator
  imports DogstatsdParse MetricSubmit "HOL-Library.AList"
begin

text \<open>
  The DogStatsD aggregator, \<^verbatim>\<open>internal/metrics/aggregator.go\<close>: accumulation of samples into
  contexts, the series a flush makes of them, and the queued service checks and events. The map
  of contexts is an association list; the order in which Go ranges over it and the sort of
  \<open>sort.Slice\<close> are parameters, constrained by what Go documents of them. The loop of \<open>Run\<close> is in
  AggregatorRun. Floating-point operations are IEEE's, each rounded once, as on targets whose Go
  compiler does not fuse a product and a sum.
\<close>

section \<open>State\<close>

record hist_sample =
  hs_value :: f64
  hs_weight :: f64

record agg_context =
  cx_name :: string
  cx_type :: sample_type
  cx_tags :: "string list"
  cx_value :: f64
  cx_samples :: "hist_sample list"
  cx_count :: f64
  cx_members :: "string list"

type_synonym contexts = "(string \<times> agg_context) list"

text \<open>What \<open>AggregatorOptions\<close> fixes for the life of the aggregator.\<close>

record agg_conf =
  ac_interval_s :: int
  ac_hostname :: string
  ac_tags :: "string list"
  ac_client :: client
  ac_endpoints :: "endpoint list"
  ac_check_endpoints :: "endpoint list"
  ac_event_endpoints :: "endpoint list"

text \<open>\<open>NewAggregator\<close>: the interval in nanoseconds, 15 s when zero, at least one second.\<close>

definition interval_seconds :: "int \<Rightarrow> int" where
  "interval_seconds interval =
     (let s = go_quot (if interval = 0 then 15 * second else interval) second
      in if s < 1 then 1 else s)"

record aggregator =
  ag_contexts :: contexts
  ag_checks :: "service_check list"
  ag_events :: "event list"

definition new_aggregator :: aggregator where
  "new_aggregator = \<lparr>ag_contexts = [], ag_checks = [], ag_events = []\<rparr>"

section \<open>Accumulation\<close>

definition context_key :: "string \<Rightarrow> sample_type \<Rightarrow> string list \<Rightarrow> string" where
  "context_key name ty tags =
     name @ ''|'' @ [char_of (48 + sample_code ty)] @ ''|'' @ join_with '','' (sort tags)"

definition sample_key :: "sample \<Rightarrow> string" where
  "sample_key s = context_key (smp_name s) (smp_type s) (smp_tags s)"

text \<open>The sample's value and weight, or \<open>None\<close> for a type that is dropped.\<close>

definition contribution :: "sample \<Rightarrow> (f64 \<times> f64) option" where
  "contribution s =
     (let rate = (if fle (smp_rate s) (Fin 0) then Fin 1 else smp_rate s) in
      case smp_type s of
        SampleGauge \<Rightarrow> Some (smp_value s, Fin 0)
      | SampleCounter \<Rightarrow> Some (fdiv (smp_value s) rate, Fin 0)
      | SampleHistogram \<Rightarrow> Some (smp_value s, fdiv (Fin 1) rate)
      | SampleTiming \<Rightarrow> Some (smp_value s, fdiv (Fin 1) rate)
      | SampleSet \<Rightarrow> Some (Fin 0, Fin 0)
      | SampleDistribution \<Rightarrow> None)"

definition new_context :: "sample \<Rightarrow> agg_context" where
  "new_context s = \<lparr>cx_name = smp_name s, cx_type = smp_type s, cx_tags = smp_tags s,
     cx_value = Fin 0, cx_samples = [], cx_count = Fin 0, cx_members = []\<rparr>"

definition update_context :: "sample \<Rightarrow> f64 \<Rightarrow> f64 \<Rightarrow> agg_context \<Rightarrow> agg_context" where
  "update_context s value weight c =
     (case smp_type s of
        SampleGauge \<Rightarrow> c\<lparr>cx_value := value\<rparr>
      | SampleCounter \<Rightarrow> c\<lparr>cx_value := fadd (cx_value c) value\<rparr>
      | SampleHistogram \<Rightarrow> c\<lparr>cx_samples := cx_samples c @ [\<lparr>hs_value = value, hs_weight = weight\<rparr>],
                             cx_count := fadd (cx_count c) weight\<rparr>
      | SampleTiming \<Rightarrow> c\<lparr>cx_samples := cx_samples c @ [\<lparr>hs_value = value, hs_weight = weight\<rparr>],
                          cx_count := fadd (cx_count c) weight\<rparr>
      | SampleSet \<Rightarrow> c\<lparr>cx_members := List.insert (smp_str s) (cx_members c)\<rparr>
      | SampleDistribution \<Rightarrow> c)"

definition accumulate :: "sample \<Rightarrow> contexts \<Rightarrow> contexts" where
  "accumulate s cs =
     (case contribution s of
        None \<Rightarrow> cs
      | Some (value, weight) \<Rightarrow>
          if \<not> is_finite value \<or> \<not> is_finite weight then cs
          else let key = sample_key s;
                   c = (case map_of cs key of None \<Rightarrow> new_context s | Some c \<Rightarrow> c)
               in AList.update key (update_context s value weight c) cs)"

section \<open>Series of a context\<close>

definition mk_serie :: "agg_context \<Rightarrow> int \<Rightarrow> int \<Rightarrow> string \<Rightarrow> serie_type \<Rightarrow> f64 \<Rightarrow> serie" where
  "mk_serie c ts interval name ty v =
     \<lparr>se_name = name, se_points = [\<lparr>pt_ts = ts, pt_value = v\<rparr>], se_type = ty, se_interval = interval,
      se_tags = cx_tags c, se_host = [], se_device = [], se_source = []\<rparr>"

text \<open>The loop of \<open>weightedQuantile\<close>, with the weight so far.\<close>

fun quantile_from :: "f64 \<Rightarrow> f64 \<Rightarrow> hist_sample list \<Rightarrow> f64 option" where
  "quantile_from target weight [] = None"
| "quantile_from target weight (s # ss) =
     (let w = fadd weight (hs_weight s) in
      if flt target w then Some (hs_value s) else quantile_from target w ss)"

definition weighted_quantile :: "hist_sample list \<Rightarrow> f64 \<Rightarrow> f64" where
  "weighted_quantile ss target =
     (case quantile_from target (Fin 0) ss of Some v \<Rightarrow> v | None \<Rightarrow> hs_value (last ss))"

type_synonym slice_sort = "(hist_sample \<Rightarrow> hist_sample \<Rightarrow> bool) \<Rightarrow> hist_sample list \<Rightarrow> hist_sample list"

definition less_value :: "hist_sample \<Rightarrow> hist_sample \<Rightarrow> bool" where
  "less_value a b \<longleftrightarrow> flt (hs_value a) (hs_value b)"

definition histogram_series :: "slice_sort \<Rightarrow> int \<Rightarrow> int \<Rightarrow> agg_context \<Rightarrow> serie list" where
  "histogram_series srt ts interval c =
     (if cx_samples c = [] then []
      else let ss = srt less_value (cx_samples c);
               sum = fold (\<lambda>s acc. fadd acc (fmul (hs_value s) (hs_weight s))) ss (Fin 0);
               n = cx_count c;
               mk = mk_serie c ts interval
           in [mk (cx_name c @ ''.count'') TypeRate (fdiv n (f64_of_int interval)),
               mk (cx_name c @ ''.avg'') TypeGauge (fdiv sum n),
               mk (cx_name c @ ''.median'') TypeGauge
                 (weighted_quantile ss (fdiv (fsub n (Fin 1)) (Fin 2))),
               mk (cx_name c @ ''.max'') TypeGauge (hs_value (last ss)),
               mk (cx_name c @ ''.95percentile'') TypeGauge
                 (weighted_quantile ss (fdiv (fsub (fmul (Fin 95) n) (Fin 1)) (Fin 100)))])"

definition to_series :: "slice_sort \<Rightarrow> int \<Rightarrow> int \<Rightarrow> agg_context \<Rightarrow> serie list" where
  "to_series srt ts interval c =
     (case cx_type c of
        SampleCounter \<Rightarrow>
          [mk_serie c ts interval (cx_name c) TypeRate (fdiv (cx_value c) (f64_of_int interval))]
      | SampleHistogram \<Rightarrow> histogram_series srt ts interval c
      | SampleTiming \<Rightarrow> histogram_series srt ts interval c
      | SampleSet \<Rightarrow>
          [mk_serie c ts interval (cx_name c) TypeGauge (f64_of_int (int (length (cx_members c))))]
      | _ \<Rightarrow> [mk_serie c ts interval (cx_name c) TypeGauge (cx_value c)])"

section \<open>Flush\<close>

definition append_tags :: "string list \<Rightarrow> string list \<Rightarrow> string list" where
  "append_tags a b = (if b = [] then a else a @ b)"

definition stamp_source :: "serie \<Rightarrow> serie" where
  "stamp_source s = (if se_source s = [] then s\<lparr>se_source := ''System''\<rparr> else s)"

definition finish_serie :: "agg_conf \<Rightarrow> serie \<Rightarrow> serie" where
  "finish_serie conf s =
     s\<lparr>se_host := (if se_host s = [] then ac_hostname conf else se_host s),
       se_interval := (if se_interval s = 0 then ac_interval_s conf else se_interval s),
       se_tags := append_tags (se_tags s) (ac_tags conf)\<rparr>"

type_synonym map_range = "contexts \<Rightarrow> contexts"

text \<open>\<open>collect\<close>: the series, and the aggregator with its contexts cleared. \<open>sources\<close> are the batches the pulled sources return.\<close>

definition collect ::
  "slice_sort \<Rightarrow> map_range \<Rightarrow> agg_conf \<Rightarrow> serie list list \<Rightarrow> int \<Rightarrow> aggregator \<Rightarrow> serie list \<times> aggregator" where
  "collect srt rng conf sources ts ag =
     (let own = concat (map (\<lambda>(k, c). to_series srt ts (ac_interval_s conf) c) (rng (ag_contexts ag)));
          pulled = concat (map (map stamp_source) sources)
      in (map (finish_serie conf) (own @ pulled), ag\<lparr>ag_contexts := []\<rparr>))"

definition finish_check :: "agg_conf \<Rightarrow> int \<Rightarrow> service_check \<Rightarrow> service_check" where
  "finish_check conf ts c =
     c\<lparr>sc_host := (if sc_host c = [] then ac_hostname conf else sc_host c),
       sc_timestamp := (if sc_timestamp c = 0 then ts else sc_timestamp c),
       sc_tags := append_tags (sc_tags c) (ac_tags conf)\<rparr>"

definition finish_event :: "agg_conf \<Rightarrow> int \<Rightarrow> event \<Rightarrow> event" where
  "finish_event conf ts e =
     e\<lparr>ev_host := (if ev_host e = [] then ac_hostname conf else ev_host e),
       ev_timestamp := (if ev_timestamp e = 0 then ts else ev_timestamp e),
       ev_tags := append_tags (ev_tags e) (ac_tags conf)\<rparr>"

definition flush_checks :: "agg_conf \<Rightarrow> int \<Rightarrow> aggregator \<Rightarrow> json net \<Rightarrow> aggregator \<times> json net" where
  "flush_checks conf ts ag nt =
     (if ag_checks ag = [] then (ag, nt)
      else let checks = ag_checks ag; ag' = ag\<lparr>ag_checks := []\<rparr> in
           if ac_check_endpoints conf = [] then (ag', nt)
           else (ag', snd (send_service_checks (ac_client conf) (ac_check_endpoints conf)
                        (map (finish_check conf ts) checks) nt)))"

definition flush_events :: "agg_conf \<Rightarrow> int \<Rightarrow> aggregator \<Rightarrow> json net \<Rightarrow> aggregator \<times> json net" where
  "flush_events conf ts ag nt =
     (if ag_events ag = [] then (ag, nt)
      else let evs = ag_events ag; ag' = ag\<lparr>ag_events := []\<rparr> in
           if ac_event_endpoints conf = [] then (ag', nt)
           else (ag', snd (send_events (ac_client conf) (ac_event_endpoints conf) (ac_hostname conf)
                        (map (finish_event conf ts) evs) nt)))"

definition flush ::
  "slice_sort \<Rightarrow> map_range \<Rightarrow> agg_conf \<Rightarrow> serie list list \<Rightarrow> int \<Rightarrow> aggregator \<Rightarrow> json net
     \<Rightarrow> aggregator \<times> json net" where
  "flush srt rng conf sources ts ag nt =
     (let (series, ag1) = collect srt rng conf sources ts ag;
          nt1 = (if series \<noteq> [] then snd (send_series (ac_client conf) (ac_endpoints conf) series nt) else nt);
          (ag2, nt2) = flush_checks conf ts ag1 nt1
      in flush_events conf ts ag2 nt2)"

section \<open>Context keys\<close>

lemma sort_mset_eq: "sort (xs::string list) = sort ys \<longleftrightarrow> mset xs = mset ys"
  by (metis mset_sort properties_for_sort sorted_sort)

lemma context_key_perm: "mset tags = mset tags' \<Longrightarrow> context_key n t tags = context_key n t tags'"
  using sort_mset_eq [of tags tags'] by (simp add: context_key_def)

lemma join_tags_inj:
  assumes "join_with '','' a = join_with '','' b"
    and "list_all (\<lambda>t. CHR '','' \<notin> set t) a" "list_all (\<lambda>t. CHR '','' \<notin> set t) b" "a \<noteq> [[]]" "b \<noteq> [[]]"
  shows "a = b"
proof (cases "a = [] \<or> b = []")
  case True
  with assms show ?thesis by (metis join_with_eq_Nil)
next
  case False
  then have "split_on CHR '','' (join_with '','' a) = a"
    using assms(2) by (intro split_join) (auto simp: list_all_iff)
  moreover have "split_on CHR '','' (join_with '','' b) = b"
    using False assms(3) by (intro split_join) (auto simp: list_all_iff)
  ultimately show ?thesis using assms(1) by metis
qed

lemma type_digit_inject: "(48 + sample_code a) mod 256 = (48 + sample_code b) mod 256 \<longleftrightarrow> a = b"
  by (cases a; cases b) simp_all

text \<open>
  C34. Two samples parsed from the wire share a context exactly when they agree on the name, the
  type and the tags up to order: the order of the tags on the wire does not split a metric, and
  no two different metrics are merged, whatever characters their names and tags hold.
\<close>

theorem context_key_exact:
  assumes "sample_wf s" "sample_wf t"
  shows "sample_key s = sample_key t \<longleftrightarrow>
    smp_name s = smp_name t \<and> smp_type s = smp_type t \<and> mset (smp_tags s) = mset (smp_tags t)"
proof
  assume "smp_name s = smp_name t \<and> smp_type s = smp_type t \<and> mset (smp_tags s) = mset (smp_tags t)"
  then show "sample_key s = sample_key t" by (auto simp: sample_key_def intro: context_key_perm)
next
  assume k: "sample_key s = sample_key t"
  have "str_cut ''|'' (sample_key u)
      = (smp_name u, [char_of (48 + sample_code (smp_type u))] @ ''|'' @ join_with '','' (sort (smp_tags u)), True)"
    if "sample_wf u" for u
    using that cut_present [of "CHR ''|''" "smp_name u"] by (simp add: sample_key_def context_key_def sample_wf_def)
  from this [OF assms(1)] this [OF assms(2)] k
  have eq: "smp_name s = smp_name t" "smp_type s = smp_type t"
      "join_with '','' (sort (smp_tags s)) = join_with '','' (sort (smp_tags t))"
    by (auto simp: type_digit_inject)
  have "list_all (\<lambda>t. CHR '','' \<notin> set t) (sort (smp_tags u)) \<and> sort (smp_tags u) \<noteq> [[]]"
    if "sample_wf u" for u
  proof -
    have "smp_tags u \<noteq> [[]]" "list_all (\<lambda>t. CHR '','' \<notin> set t) (smp_tags u)"
      using that by (auto simp: sample_wf_def list_all_iff)
    then show ?thesis
      by (metis list_all_iff set_sort sort_mset_eq mset_sort mset_single_iff_right mset.simps(2) mset_zero_iff_right)
  qed
  with eq(3) join_tags_inj [of "sort (smp_tags s)" "sort (smp_tags t)"] assms
  have "sort (smp_tags s) = sort (smp_tags t)" by blast
  with eq show "smp_name s = smp_name t \<and> smp_type s = smp_type t \<and> mset (smp_tags s) = mset (smp_tags t)"
    by (simp add: sort_mset_eq)
qed

definition key_example :: "string list \<Rightarrow> sample" where
  "key_example tags = \<lparr>smp_name = ''page.views'', smp_value = Fin 1, smp_str = [],
     smp_type = SampleCounter, smp_tags = tags, smp_rate = Fin 1\<rparr>"

theorem context_key_exact_witness:
  "sample_key (key_example [''env:b'', ''a'']) = sample_key (key_example [''a'', ''env:b''])
   \<and> sample_key (key_example [''a'']) \<noteq> sample_key (key_example [''a'', ''a''])"
  using context_key_exact [of "key_example [''env:b'', ''a'']" "key_example [''a'', ''env:b'']"]
    context_key_exact [of "key_example [''a'']" "key_example [''a'', ''a'']"]
  by (simp add: key_example_def sample_wf_def)

section \<open>What a context holds\<close>

definition admissible :: "sample \<Rightarrow> bool" where
  "admissible s \<longleftrightarrow> (case contribution s of None \<Rightarrow> False | Some (v, w) \<Rightarrow> is_finite v \<and> is_finite w)"

definition apply_sample :: "sample \<Rightarrow> agg_context \<Rightarrow> agg_context" where
  "apply_sample s c = (case contribution s of None \<Rightarrow> c | Some (v, w) \<Rightarrow> update_context s v w c)"

text \<open>The context that a list of samples, seen alone, makes.\<close>

definition context_of :: "sample list \<Rightarrow> agg_context" where
  "context_of ss = fold apply_sample ss (new_context (hd ss))"

lemma accumulate_of:
  "map_of (accumulate s cs) k =
     (if admissible s \<and> sample_key s = k
      then Some (apply_sample s (case map_of cs k of None \<Rightarrow> new_context s | Some c \<Rightarrow> c))
      else map_of cs k)"
  by (auto simp: accumulate_def admissible_def apply_sample_def Let_def update_conv' split: option.splits)

lemma accumulate_distinct: "distinct (map fst cs) \<Longrightarrow> distinct (map fst (accumulate s cs))"
  by (auto simp: accumulate_def Let_def distinct_update split: option.splits)

lemma accumulate_fold_of:
  "map_of (fold accumulate ss cs) k =
     (let here = filter (\<lambda>s. admissible s \<and> sample_key s = k) ss in
      case map_of cs k of
        None \<Rightarrow> if here = [] then None else Some (context_of here)
      | Some c \<Rightarrow> Some (fold apply_sample here c))"
  by (induction ss arbitrary: cs)
    (auto simp: accumulate_of Let_def context_of_def split: option.splits)

lemma accumulate_fold_distinct: "distinct (map fst cs) \<Longrightarrow> distinct (map fst (fold accumulate ss cs))"
  by (induction ss arbitrary: cs) (auto simp: accumulate_distinct)

text \<open>
  C6. Contexts do not interfere: after any sequence of samples, interleaved in any way, there is
  exactly one context per key that received an admissible sample, and it holds what its own
  samples, taken alone and in order, make. Distributions and samples whose contribution is not
  finite leave no trace.
\<close>

theorem accumulate_separates:
  "distinct (map fst (fold accumulate ss [])) \<and>
   map_of (fold accumulate ss []) k =
     (if filter (\<lambda>s. admissible s \<and> sample_key s = k) ss = [] then None
      else Some (context_of (filter (\<lambda>s. admissible s \<and> sample_key s = k) ss)))"
  using accumulate_fold_of [of ss "[]" k] accumulate_fold_distinct [of "[]" ss] by (simp add: Let_def)

lemma apply_sample_frame [frame]:
  "cx_name (apply_sample s c) = cx_name c" "cx_type (apply_sample s c) = cx_type c"
  "cx_tags (apply_sample s c) = cx_tags c"
  by (auto simp: apply_sample_def update_context_def split: option.split sample_type.split)

lemma context_of_frame [frame]:
  "cx_name (context_of ss) = smp_name (hd ss)" "cx_type (context_of ss) = smp_type (hd ss)"
  "cx_tags (context_of ss) = smp_tags (hd ss)"
proof -
  have "cx_name (fold apply_sample ss c) = cx_name c \<and> cx_type (fold apply_sample ss c) = cx_type c
      \<and> cx_tags (fold apply_sample ss c) = cx_tags c" for c
    by (induction ss arbitrary: c) (simp_all add: frame)
  then show "cx_name (context_of ss) = smp_name (hd ss)" "cx_type (context_of ss) = smp_type (hd ss)"
    "cx_tags (context_of ss) = smp_tags (hd ss)"
    by (simp_all add: context_of_def new_context_def)
qed

lemma fold_gauge:
  "\<forall>s \<in> set ss. smp_type s = SampleGauge \<Longrightarrow>
     cx_value (fold apply_sample ss c) = (if ss = [] then cx_value c else smp_value (last ss))"
  by (induction ss arbitrary: c) (auto simp: apply_sample_def contribution_def update_context_def Let_def)

lemma fold_set:
  "\<forall>s \<in> set ss. smp_type s = SampleSet \<Longrightarrow> distinct (cx_members c) \<Longrightarrow>
     set (cx_members (fold apply_sample ss c)) = set (cx_members c) \<union> smp_str ` set ss
     \<and> distinct (cx_members (fold apply_sample ss c))"
  by (induction ss arbitrary: c)
    (auto simp: apply_sample_def contribution_def update_context_def Let_def)

lemma fold_counter:
  assumes "\<forall>s \<in> set ss. smp_type s = SampleCounter \<and> smp_rate s = Fin 1 \<and> (\<exists>n. smp_value s = Fin (of_int n))"
    and "cx_value c = Fin (of_int m)"
    and "\<bar>m\<bar> + (\<Sum>s\<leftarrow>ss. \<bar>\<lfloor>fval (smp_value s)\<rfloor>\<bar>) \<le> 2 ^ 53"
  shows "cx_value (fold apply_sample ss c) = Fin (of_int (m + (\<Sum>s\<leftarrow>ss. \<lfloor>fval (smp_value s)\<rfloor>)))"
  using assms
proof (induction ss arbitrary: c m)
  case (Cons s ss)
  obtain n where n: "smp_value s = Fin (of_int n)" "smp_type s = SampleCounter" "smp_rate s = Fin 1"
    using Cons.prems by auto
  have pos: "0 \<le> (\<Sum>s\<leftarrow>ss. \<bar>\<lfloor>fval (smp_value s)\<rfloor>\<bar>)"
    by (rule sum_list_nonneg) auto
  have le: "\<bar>m\<bar> + (\<bar>n\<bar> + (\<Sum>s\<leftarrow>ss. \<bar>\<lfloor>fval (smp_value s)\<rfloor>\<bar>)) \<le> 2 ^ 53"
    using Cons.prems(3) n by simp
  have "cx_value (apply_sample s c) = Fin (of_int (m + n))"
    using n le pos Cons.prems(2) fadd_int [of m n] fdiv_int_one [of n]
    by (simp add: apply_sample_def contribution_def update_context_def)
  with le pos Cons.prems(1) have "cx_value (fold apply_sample ss (apply_sample s c))
      = Fin (of_int ((m + n) + (\<Sum>s\<leftarrow>ss. \<lfloor>fval (smp_value s)\<rfloor>)))"
    by (intro Cons.IH) auto
  then show ?case by (simp add: n algebra_simps)
qed simp

text \<open>
  Counters are exact: when every increment a counter gets between two flushes is a whole
  number sent unsampled and their absolute values add up to at most \<open>2^53\<close>, the rate it reports is
  the true sum divided by the interval, rounded once.
\<close>

theorem counter_rate_exact:
  assumes "ss \<noteq> []"
    and "\<forall>s \<in> set ss. smp_type s = SampleCounter \<and> smp_rate s = Fin 1 \<and> (\<exists>n. smp_value s = Fin (of_int n))"
    and "(\<Sum>s\<leftarrow>ss. \<bar>\<lfloor>fval (smp_value s)\<rfloor>\<bar>) \<le> 2 ^ 53"
  shows "to_series srt ts interval (context_of ss) =
    [\<lparr>se_name = smp_name (hd ss),
      se_points = [\<lparr>pt_ts = ts, pt_value = fdiv (Fin (of_int (\<Sum>s\<leftarrow>ss. \<lfloor>fval (smp_value s)\<rfloor>))) (f64_of_int interval)\<rparr>],
      se_type = TypeRate, se_interval = interval, se_tags = smp_tags (hd ss), se_host = [],
      se_device = [], se_source = []\<rparr>]"
proof -
  have "smp_type (hd ss) = SampleCounter" using assms(1,2) by simp
  moreover have "cx_value (context_of ss) = Fin (of_int (\<Sum>s\<leftarrow>ss. \<lfloor>fval (smp_value s)\<rfloor>))"
    using fold_counter [OF assms(2), of "new_context (hd ss)" 0] assms(3)
    by (simp add: context_of_def new_context_def)
  ultimately show ?thesis by (simp add: to_series_def mk_serie_def frame)
qed

definition counter_example :: "int \<Rightarrow> sample" where
  "counter_example n = \<lparr>smp_name = ''hits'', smp_value = Fin (of_int n), smp_str = [],
     smp_type = SampleCounter, smp_tags = [''a''], smp_rate = Fin 1\<rparr>"

lemma counter_rate_exact_witness:
  "to_series (\<lambda>lt xs. xs) 100 15 (context_of [counter_example 40, counter_example (- 10)]) =
    [\<lparr>se_name = ''hits'', se_points = [\<lparr>pt_ts = 100, pt_value = fdiv (Fin 30) (f64_of_int 15)\<rparr>],
      se_type = TypeRate, se_interval = 15, se_tags = [''a''], se_host = [], se_device = [], se_source = []\<rparr>]"
  using counter_rate_exact [of "[counter_example 40, counter_example (- 10)]" "\<lambda>lt xs. xs" 100 15]
  by (simp add: counter_example_def Ball_def) (metis of_int_numeral of_int_minus)

text \<open>
  A set reports the number of distinct members it saw, and a gauge the last value.
\<close>

theorem set_and_gauge_series:
  assumes "ss \<noteq> []" "\<forall>s \<in> set ss. smp_type s = (if is_set then SampleSet else SampleGauge)"
  shows "map (\<lambda>s. map pt_value (se_points s)) (to_series srt ts interval (context_of ss)) =
    [[if is_set then f64_of_int (int (card (smp_str ` set ss))) else smp_value (last ss)]]"
proof (cases is_set)
  case True
  then have "set (cx_members (context_of ss)) = smp_str ` set ss \<and> distinct (cx_members (context_of ss))"
    using fold_set [of ss "new_context (hd ss)"] assms by (simp add: context_of_def new_context_def)
  then have "length (cx_members (context_of ss)) = card (smp_str ` set ss)"
    by (metis distinct_card)
  moreover have "cx_type (context_of ss) = SampleSet" using True assms by (simp add: frame)
  ultimately show ?thesis using True by (simp add: to_series_def mk_serie_def)
next
  case False
  then have "cx_value (context_of ss) = smp_value (last ss)"
    using fold_gauge [of ss "new_context (hd ss)"] assms by (simp add: context_of_def)
  moreover have "cx_type (context_of ss) = SampleGauge" using False assms by (simp add: frame)
  ultimately show ?thesis using False by (simp add: to_series_def mk_serie_def)
qed

definition set_example :: "string \<Rightarrow> sample" where
  "set_example v = \<lparr>smp_name = ''users'', smp_value = Fin 0, smp_str = v,
     smp_type = SampleSet, smp_tags = [], smp_rate = Fin 1\<rparr>"

lemma set_and_gauge_series_witness:
  "map (\<lambda>s. map pt_value (se_points s))
     (to_series (\<lambda>lt xs. xs) 0 15 (context_of [set_example ''u'', set_example ''v'', set_example ''u''])) = [[Fin 2]]"
  using set_and_gauge_series [of "[set_example ''u'', set_example ''v'', set_example ''u'']" True "\<lambda>lt xs. xs" 0 15]
    f64_of_int_exact [of 2]
  by (simp add: set_example_def card_insert_if)

section \<open>Order statistics\<close>

lemma fold_histogram:
  assumes "\<forall>s \<in> set ss. smp_type s \<in> {SampleHistogram, SampleTiming} \<and> smp_rate s = Fin 1"
    and "cx_count c = Fin (of_int (int (length (cx_samples c))))"
    and "length (cx_samples c) + length ss \<le> 2 ^ 53"
  shows "cx_samples (fold apply_sample ss c)
      = cx_samples c @ map (\<lambda>s. \<lparr>hs_value = smp_value s, hs_weight = Fin 1\<rparr>) ss
    \<and> cx_count (fold apply_sample ss c) = Fin (of_int (int (length (cx_samples c) + length ss)))"
  using assms
proof (induction ss arbitrary: c)
  case (Cons s ss)
  have "fadd (Fin (of_int (int (length (cx_samples c))))) (Fin (of_int 1))
      = Fin (of_int (int (length (cx_samples c)) + 1))"
    using Cons.prems(3) by (intro fadd_int) simp
  then have "apply_sample s c = c\<lparr>cx_samples := cx_samples c @ [\<lparr>hs_value = smp_value s, hs_weight = Fin 1\<rparr>],
      cx_count := Fin (of_int (int (length (cx_samples c)) + 1))\<rparr>"
    using Cons.prems(1,2) fdiv_one
    by (auto simp: apply_sample_def contribution_def update_context_def split: sample_type.split)
  with Cons.prems Cons.IH [of "apply_sample s c"] show ?case by (simp add: add_ac)
qed simp

text \<open>With unit weights the cumulative weight of the first \<open>i\<close> samples is \<open>i\<close>.\<close>

lemma quantile_index:
  assumes "\<forall>s \<in> set ss. hs_weight s = Fin 1" "0 \<le> w" "w + int (length ss) \<le> 2 ^ 53"
    and "nat (\<lfloor>q\<rfloor> - w) < length ss"
  shows "quantile_from (Fin q) (Fin (of_int w)) ss = Some (hs_value (ss ! nat (\<lfloor>q\<rfloor> - w)))"
  using assms
proof (induction ss arbitrary: w)
  case (Cons s ss)
  have w: "fadd (Fin (of_int w)) (Fin (of_int 1)) = Fin (of_int (w + 1))"
    using Cons.prems by (intro fadd_int) simp
  have lt: "q < of_int (w + 1) \<longleftrightarrow> \<lfloor>q\<rfloor> \<le> w"
    by (metis floor_less_iff zless_add1_eq order_le_less)
  show ?case
  proof (cases "\<lfloor>q\<rfloor> \<le> w")
    case True
    with w lt Cons.prems(1) show ?thesis by simp
  next
    case False
    then have "nat (\<lfloor>q\<rfloor> - w) = Suc (nat (\<lfloor>q\<rfloor> - (w + 1)))" by simp
    with False w lt Cons.prems Cons.IH [of "w + 1"] show ?thesis by simp
  qed
qed simp

lemma median_target:
  assumes "0 < n" "n \<le> 2 ^ 53"
  shows "\<exists>q. fdiv (fsub (Fin (of_int n)) (Fin 1)) (Fin 2) = Fin q \<and> \<lfloor>q\<rfloor> = (n - 1) div 2"
proof -
  have "fsub (Fin (of_int n)) (Fin (of_int 1)) = Fin (of_int (n - 1))"
    using assms by (intro fsub_int) simp
  moreover have "rnd64 False (of_int (n - 1) / 2) = Fin (of_int (n - 1) / 2)"
  proof (cases "n = 1")
    case False
    with assms show ?thesis by (intro rnd64_exact [where m = "n - 1" and k = "- 1"]) (auto simp: power_int_minus)
  qed simp
  moreover have "\<lfloor>rat_of_int (n - 1) / 2\<rfloor> = (n - 1) div 2"
    by (metis floor_divide_of_int_eq of_int_numeral)
  ultimately show ?thesis
    using assms by (intro exI [of _ "rat_of_int (n - 1) / 2"]) (simp add: fdiv_def)
qed

lemma p95_target:
  assumes "0 < n" "95 * n \<le> 2 ^ 40"
  shows "\<exists>q. fdiv (fsub (fmul (Fin 95) (Fin (of_int n))) (Fin 1)) (Fin 100) = Fin q \<and> \<lfloor>q\<rfloor> = (95 * n - 1) div 100"
proof -
  have "fmul (Fin (of_int 95)) (Fin (of_int n)) = Fin (of_int (95 * n))"
    using assms by (intro fmul_int) simp_all
  moreover have "fsub (Fin (of_int (95 * n))) (Fin (of_int 1)) = Fin (of_int (95 * n - 1))"
    using assms by (intro fsub_int) simp
  moreover obtain q where "rnd64 False (of_int (95 * n - 1) / 100) = Fin q" "\<lfloor>q\<rfloor> = (95 * n - 1) div 100"
    using rnd64_hundredths [of "95 * n - 1"] assms by auto
  ultimately show ?thesis using assms by (simp add: fdiv_def)
qed

text \<open>
  C4. For an unsampled histogram or timing the flush reports true order statistics, however the
  sort arranges equal values: with \<open>n\<close> finite values the median is the sorted value number
  \<open>(n - 1) div 2\<close>, the 95th percentile number \<open>(95 n - 1) div 100\<close>, the maximum the greatest, and
  the count \<open>n\<close> over the interval. The rounding of the targets never moves an index.
\<close>

theorem histogram_order_statistics:
  assumes srt: "slice_sorter srt" and ne: "ss \<noteq> []"
    and ok: "\<forall>s \<in> set ss. smp_type s \<in> {SampleHistogram, SampleTiming} \<and> smp_rate s = Fin 1
                \<and> is_finite (smp_value s)"
    and few: "95 * int (length ss) \<le> 2 ^ 40"
  shows "\<exists>count avg median maxv p95.
    to_series srt ts interval (context_of ss) =
      (let c = context_of ss; mk = mk_serie c ts interval; name = smp_name (hd ss) in
       [mk (name @ ''.count'') TypeRate count, mk (name @ ''.avg'') TypeGauge avg,
        mk (name @ ''.median'') TypeGauge median, mk (name @ ''.max'') TypeGauge maxv,
        mk (name @ ''.95percentile'') TypeGauge p95])
    \<and> count = fdiv (Fin (of_nat (length ss))) (f64_of_int interval)
    \<and> fval median = sort (map (\<lambda>s. fval (smp_value s)) ss) ! ((length ss - 1) div 2)
    \<and> fval p95 = sort (map (\<lambda>s. fval (smp_value s)) ss) ! ((95 * length ss - 1) div 100)
    \<and> fval maxv = Max (set (map (\<lambda>s. fval (smp_value s)) ss))"
proof -
  define n where "n = length ss"
  define c where "c = context_of ss"
  define xs where "xs = srt less_value (cx_samples c)"
  define vs where "vs = sort (map (\<lambda>s. fval (smp_value s)) ss)"
  have small: "length ss \<le> 2 ^ 53" "0 < int n" "int n \<le> 2 ^ 53" "95 * int n \<le> 2 ^ 40"
    using few ne by (simp_all add: n_def)
  have samples: "cx_samples c = map (\<lambda>s. \<lparr>hs_value = smp_value s, hs_weight = Fin 1\<rparr>) ss"
    and count: "cx_count c = Fin (of_int (int n))"
    using fold_histogram [of ss "new_context (hd ss)"] ok small(1)
    by (auto simp: c_def context_of_def new_context_def n_def)
  have fin: "is_finite (hs_value a)" if "a \<in> set (cx_samples c)" for a
    using that ok by (auto simp: samples)
  have set: "set xs = set (cx_samples c)" and len: "length xs = n"
    using slice_sorter.same_set [OF srt] slice_sorter.same_length [OF srt]
    by (simp_all add: xs_def samples n_def)
  have weights: "\<forall>a \<in> set xs. hs_weight a = Fin 1" by (auto simp: set samples)
  have "map (\<lambda>a. fval (hs_value a)) xs = sort (map (\<lambda>a. fval (hs_value a)) (cx_samples c))"
    unfolding xs_def
    by (rule slice_sorter.keys_sorted [OF srt]) (simp add: less_value_def fin flt_finite)
  then have vals: "map (\<lambda>a. fval (hs_value a)) xs = vs" by (simp add: samples vs_def comp_def)
  have at: "fval (hs_value (xs ! i)) = vs ! i" if "i < n" for i
    using that len by (simp flip: vals)
  have quant: "fval (weighted_quantile xs (Fin q)) = vs ! nat j"
    if "\<lfloor>q\<rfloor> = j" "0 \<le> j" "nat j < n" for q j
    using quantile_index [of xs 0 q] weights small len that at [of "nat j"]
    by (simp add: weighted_quantile_def)
  obtain qm where qm: "fdiv (fsub (Fin (of_int (int n))) (Fin 1)) (Fin 2) = Fin qm" "\<lfloor>qm\<rfloor> = (int n - 1) div 2"
    using median_target [OF small(2,3)] by blast
  obtain qp where qp: "fdiv (fsub (fmul (Fin 95) (Fin (of_int (int n)))) (Fin 1)) (Fin 100) = Fin qp"
      "\<lfloor>qp\<rfloor> = (95 * int n - 1) div 100"
    using p95_target [OF small(2,4)] by blast
  have "fval (hs_value (last xs)) = last vs"
    using len ne by (simp add: n_def flip: vals) (metis last_map length_0_conv)
  also have "last vs = Max (set (map (\<lambda>s. fval (smp_value s)) ss))"
    unfolding vs_def using ne by (intro last_sort) simp
  finally have mx: "fval (hs_value (last xs)) = Max (set (map (\<lambda>s. fval (smp_value s)) ss))" .
  have im: "nat ((int n - 1) div 2) = (n - 1) div 2" and ip: "nat ((95 * int n - 1) div 100) = (95 * n - 1) div 100"
    using small(2) by (simp_all add: nat_div_distrib nat_diff_distrib' nat_mult_distrib)
  have med: "fval (weighted_quantile xs (Fin qm)) = vs ! ((n - 1) div 2)"
    using quant [OF qm(2)] im small(2) by simp
  have p95: "fval (weighted_quantile xs (Fin qp)) = vs ! ((95 * n - 1) div 100)"
    using quant [OF qp(2)] ip small(2) by (simp add: div_less_iff_less_mult)
  have "cx_type c \<in> {SampleHistogram, SampleTiming}" using ok ne by (simp add: c_def frame)
  then have "to_series srt ts interval c = histogram_series srt ts interval c"
    by (auto simp: to_series_def)
  moreover have "cx_samples c \<noteq> []" using samples ne by simp
  moreover have "cx_name c = smp_name (hd ss)" by (simp add: c_def frame)
  ultimately have series: "to_series srt ts interval c =
      (let mk = mk_serie c ts interval; name = smp_name (hd ss) in
       [mk (name @ ''.count'') TypeRate (fdiv (Fin (of_nat n)) (f64_of_int interval)),
        mk (name @ ''.avg'') TypeGauge (fdiv (fold (\<lambda>s acc. fadd acc (fmul (hs_value s) (hs_weight s))) xs (Fin 0)) (cx_count c)),
        mk (name @ ''.median'') TypeGauge (weighted_quantile xs (Fin qm)),
        mk (name @ ''.max'') TypeGauge (hs_value (last xs)),
        mk (name @ ''.95percentile'') TypeGauge (weighted_quantile xs (Fin qp))])"
    using count qm(1) qp(1) by (simp add: histogram_series_def xs_def Let_def)
  show ?thesis
    unfolding c_def [symmetric] n_def [symmetric] vs_def [symmetric]
    by (intro exI conjI) (subst Let_def, rule series, use med p95 mx in simp_all)
qed

definition timing_example :: "int \<Rightarrow> sample" where
  "timing_example v = \<lparr>smp_name = ''lat'', smp_value = Fin (of_int v), smp_str = [],
     smp_type = SampleTiming, smp_tags = [], smp_rate = Fin 1\<rparr>"

lemma histogram_order_statistics_witness:
  "\<exists>count avg median maxv p95.
    to_series sort_by 0 15 (context_of (map timing_example [5, 9, 1, 7])) =
      (let c = context_of (map timing_example [5, 9, 1, 7]); mk = mk_serie c 0 15 in
       [mk ''lat.count'' TypeRate count, mk ''lat.avg'' TypeGauge avg, mk ''lat.median'' TypeGauge median,
        mk ''lat.max'' TypeGauge maxv, mk ''lat.95percentile'' TypeGauge p95])
    \<and> fval median = 5 \<and> fval p95 = 9 \<and> fval maxv = 9"
proof -
  have vs: "sort (map (\<lambda>s. fval (smp_value s)) (map timing_example [5, 9, 1, 7])) = [1, 5, 7, 9]"
    by (simp add: timing_example_def)
  show ?thesis
    using histogram_order_statistics [of sort_by "map timing_example [5, 9, 1, 7]" 0 15]
      insertion.slice_sorter_axioms
    unfolding vs by (simp add: timing_example_def Let_def) blast
qed

section \<open>What a flush hands over\<close>

lemma mset_concat_map: "mset xs = mset ys \<Longrightarrow> mset (concat (map f xs)) = mset (concat (map f ys))"
proof -
  have "mset (concat (map f zs)) = \<Sum>\<^sub># (image_mset (\<lambda>z. mset (f z)) (mset zs))" for zs
    by (induction zs) simp_all
  then show "mset xs = mset ys \<Longrightarrow> ?thesis" by metis
qed

lemma finish_serie_simps [simp]:
  "se_host (finish_serie conf s) = (if se_host s = [] then ac_hostname conf else se_host s)"
  "se_interval (finish_serie conf s) = (if se_interval s = 0 then ac_interval_s conf else se_interval s)"
  "se_tags (finish_serie conf s) = se_tags s @ ac_tags conf"
  by (simp_all add: finish_serie_def append_tags_def)

text \<open>
  The order in which Go ranges over the contexts decides only the order of the series: any two
  orders hand over the same series, as many times. Each leaves with a host, a non-zero interval and
  the global tags after its own, and the contexts are empty afterwards.
\<close>

theorem collect_finalizes:
  assumes "\<And>cs. mset (rng cs) = mset cs" "\<And>cs. mset (rng' cs) = mset cs"
    and "ac_hostname conf \<noteq> []" "ac_interval_s conf \<noteq> 0"
  shows "mset (fst (collect srt rng conf sources ts ag)) = mset (fst (collect srt rng' conf sources ts ag))
    \<and> list_all (\<lambda>s. se_host s \<noteq> [] \<and> se_interval s \<noteq> 0 \<and> (\<exists>own. se_tags s = own @ ac_tags conf))
        (fst (collect srt rng conf sources ts ag))
    \<and> ag_contexts (snd (collect srt rng conf sources ts ag)) = []"
proof -
  have "mset (rng (ag_contexts ag)) = mset (rng' (ag_contexts ag))" using assms(1,2) by simp
  from mset_concat_map [OF this, of "\<lambda>(k, c). to_series srt ts (ac_interval_s conf) c"]
  have "mset (fst (collect srt rng conf sources ts ag)) = mset (fst (collect srt rng' conf sources ts ag))"
    unfolding collect_def Let_def fst_conv mset_map mset_append by simp
  then show ?thesis using assms(3,4) by (auto simp: collect_def Let_def list_all_iff split: if_splits)
qed

definition conf_example :: agg_conf where
  "conf_example = \<lparr>ac_interval_s = 15, ac_hostname = ''h'', ac_tags = [''env:dev''], ac_client = new_client 0 0,
     ac_endpoints = [], ac_check_endpoints = [], ac_event_endpoints = []\<rparr>"

lemma collect_finalizes_witness:
  "mset (fst (collect sort_by (\<lambda>cs. cs) conf_example [] 5
      (new_aggregator\<lparr>ag_contexts := fold accumulate [counter_example 1, set_example ''u''] []\<rparr>)))
   = mset (fst (collect sort_by rev conf_example [] 5
      (new_aggregator\<lparr>ag_contexts := fold accumulate [counter_example 1, set_example ''u''] []\<rparr>)))"
  using collect_finalizes [of "\<lambda>cs. cs" rev conf_example] by (simp add: conf_example_def)

end
