(* ===== verification/AggregatorRun.thy ===== *)
theory AggregatorRun
  imports Aggregator
begin

text \<open>
  The aggregator's goroutine and its callers, \<^verbatim>\<open>Add\<close>, \<^verbatim>\<open>AddServiceCheck\<close>, \<^verbatim>\<open>AddEvent\<close>, \<^verbatim>\<open>Run\<close> and
  \<^verbatim>\<open>drain\<close> of \<^verbatim>\<open>internal/metrics/aggregator.go\<close>, as a labelled step relation. The channels are
  bounded queues; listeners and the goroutine interleave freely, and a ready \<open>select\<close> picks any
  of its ready cases. Cancellation may come at any moment. The samples a flush covers are read
  off the labels of the run.
\<close>

section \<open>State and steps\<close>

datatype phase = Running | Draining | Stopped

record run_env =
  re_buffer :: nat
  re_srt :: slice_sort
  re_rng :: map_range
  re_conf :: agg_conf

record run_state =
  rn_samples :: "sample list"
  rn_checks :: "service_check list"
  rn_events :: "event list"
  rn_dropped :: nat
  rn_agg :: aggregator
  rn_net :: "json net"
  rn_phase :: phase

definition check_buffer :: nat where "check_buffer = 1024"

definition new_run :: "json net \<Rightarrow> run_state" where
  "new_run nt = \<lparr>rn_samples = [], rn_checks = [], rn_events = [], rn_dropped = 0,
     rn_agg = new_aggregator, rn_net = nt, rn_phase = Running\<rparr>"

text \<open>Handing in a value never blocks: the flag says whether the buffer had room.\<close>

definition add_sample :: "run_env \<Rightarrow> sample \<Rightarrow> run_state \<Rightarrow> bool \<times> run_state" where
  "add_sample e s r =
     (if length (rn_samples r) < re_buffer e then (True, r\<lparr>rn_samples := rn_samples r @ [s]\<rparr>)
      else (False, r\<lparr>rn_dropped := rn_dropped r + 1\<rparr>))"

definition add_service_check :: "service_check \<Rightarrow> run_state \<Rightarrow> bool \<times> run_state" where
  "add_service_check c r =
     (if length (rn_checks r) < check_buffer then (True, r\<lparr>rn_checks := rn_checks r @ [c]\<rparr>)
      else (False, r\<lparr>rn_dropped := rn_dropped r + 1\<rparr>))"

definition add_event :: "event \<Rightarrow> run_state \<Rightarrow> bool \<times> run_state" where
  "add_event v r =
     (if length (rn_events r) < check_buffer then (True, r\<lparr>rn_events := rn_events r @ [v]\<rparr>)
      else (False, r\<lparr>rn_dropped := rn_dropped r + 1\<rparr>))"

definition take_sample :: "sample \<Rightarrow> sample list \<Rightarrow> run_state \<Rightarrow> run_state" where
  "take_sample s q r = r\<lparr>rn_samples := q,
     rn_agg := (rn_agg r)\<lparr>ag_contexts := accumulate s (ag_contexts (rn_agg r))\<rparr>\<rparr>"

definition take_check :: "service_check \<Rightarrow> service_check list \<Rightarrow> run_state \<Rightarrow> run_state" where
  "take_check c q r = r\<lparr>rn_checks := q,
     rn_agg := (rn_agg r)\<lparr>ag_checks := ag_checks (rn_agg r) @ [c]\<rparr>\<rparr>"

definition take_event :: "event \<Rightarrow> event list \<Rightarrow> run_state \<Rightarrow> run_state" where
  "take_event v q r = r\<lparr>rn_events := q,
     rn_agg := (rn_agg r)\<lparr>ag_events := ag_events (rn_agg r) @ [v]\<rparr>\<rparr>"

definition run_flush :: "run_env \<Rightarrow> serie list list \<Rightarrow> int \<Rightarrow> run_state \<Rightarrow> run_state" where
  "run_flush e sources ts r =
     (let (ag, nt) = flush (re_srt e) (re_rng e) (re_conf e) sources ts (rn_agg r) (rn_net r)
      in r\<lparr>rn_agg := ag, rn_net := nt\<rparr>)"

datatype run_label =
    Accepted sample | AcceptedCheck service_check | AcceptedEvent event
  | Dropped
  | Took sample | TookCheck service_check | TookEvent event
  | Cancel
  | Flushed int "serie list list"

inductive run_step :: "run_env \<Rightarrow> run_label \<Rightarrow> run_state \<Rightarrow> run_state \<Rightarrow> bool"
  for e :: run_env where
  accept: "add_sample e s r = (True, r') \<Longrightarrow> run_step e (Accepted s) r r'"
| accept_check: "add_service_check c r = (True, r') \<Longrightarrow> run_step e (AcceptedCheck c) r r'"
| accept_event: "add_event v r = (True, r') \<Longrightarrow> run_step e (AcceptedEvent v) r r'"
| drop_sample: "add_sample e s r = (False, r') \<Longrightarrow> run_step e Dropped r r'"
| drop_check: "add_service_check c r = (False, r') \<Longrightarrow> run_step e Dropped r r'"
| drop_event: "add_event v r = (False, r') \<Longrightarrow> run_step e Dropped r r'"
| take_s: "rn_phase r \<noteq> Stopped \<Longrightarrow> rn_samples r = s # q \<Longrightarrow> run_step e (Took s) r (take_sample s q r)"
| take_c: "rn_phase r \<noteq> Stopped \<Longrightarrow> rn_checks r = c # q \<Longrightarrow> run_step e (TookCheck c) r (take_check c q r)"
| take_e: "rn_phase r \<noteq> Stopped \<Longrightarrow> rn_events r = v # q \<Longrightarrow> run_step e (TookEvent v) r (take_event v q r)"
| cancel: "rn_phase r = Running \<Longrightarrow> run_step e Cancel r (r\<lparr>rn_phase := Draining\<rparr>)"
| tick: "rn_phase r = Running \<Longrightarrow>
    run_step e (Flushed ts sources) r ((run_flush e sources ts r)\<lparr>rn_dropped := 0\<rparr>)"
| finish: "rn_phase r = Draining \<Longrightarrow> rn_samples r = [] \<Longrightarrow> rn_checks r = [] \<Longrightarrow> rn_events r = [] \<Longrightarrow>
    run_step e (Flushed ts sources) r ((run_flush e sources ts r)\<lparr>rn_phase := Stopped\<rparr>)"

code_pred run_step .

inductive_cases run_step_elims:
  "run_step e (Accepted s) r r'" "run_step e (AcceptedCheck c) r r'" "run_step e (AcceptedEvent v) r r'"
  "run_step e Dropped r r'" "run_step e (Took s) r r'" "run_step e (TookCheck c) r r'"
  "run_step e (TookEvent v) r r'" "run_step e Cancel r r'" "run_step e (Flushed ts sources) r r'"

inductive run_trace :: "run_env \<Rightarrow> run_state \<Rightarrow> run_label list \<Rightarrow> run_state \<Rightarrow> bool"
  for e :: run_env and r0 :: run_state where
  start: "run_trace e r0 [] r0"
| more_steps: "run_trace e r0 ls r \<Longrightarrow> run_step e l r r' \<Longrightarrow> run_trace e r0 (ls @ [l]) r'"

section \<open>What the labels say\<close>

primrec accepted_of :: "run_label \<Rightarrow> sample list" where
  "accepted_of (Accepted s) = [s]"
| "accepted_of (AcceptedCheck c) = []" | "accepted_of (AcceptedEvent v) = []"
| "accepted_of Dropped = []"
| "accepted_of (Took s) = []" | "accepted_of (TookCheck c) = []" | "accepted_of (TookEvent v) = []"
| "accepted_of Cancel = []" | "accepted_of (Flushed ts sources) = []"

primrec taken_of :: "run_label \<Rightarrow> sample list" where
  "taken_of (Accepted s) = []"
| "taken_of (AcceptedCheck c) = []" | "taken_of (AcceptedEvent v) = []"
| "taken_of Dropped = []"
| "taken_of (Took s) = [s]" | "taken_of (TookCheck c) = []" | "taken_of (TookEvent v) = []"
| "taken_of Cancel = []" | "taken_of (Flushed ts sources) = []"

primrec is_flush :: "run_label \<Rightarrow> bool" where
  "is_flush (Accepted s) = False"
| "is_flush (AcceptedCheck c) = False" | "is_flush (AcceptedEvent v) = False"
| "is_flush Dropped = False"
| "is_flush (Took s) = False" | "is_flush (TookCheck c) = False" | "is_flush (TookEvent v) = False"
| "is_flush Cancel = False" | "is_flush (Flushed ts sources) = True"

definition accepted_samples :: "run_label list \<Rightarrow> sample list" where
  "accepted_samples ls = concat (map accepted_of ls)"

definition taken_samples :: "run_label list \<Rightarrow> sample list" where
  "taken_samples ls = concat (map taken_of ls)"

text \<open>The samples of each flush window; the last is the window still open.\<close>

definition window_step :: "run_label \<Rightarrow> sample list list \<times> sample list \<Rightarrow> sample list list \<times> sample list" where
  "window_step l w = (case w of (past, cur) \<Rightarrow>
     if is_flush l then (past @ [cur], []) else (past, cur @ taken_of l))"

definition windows :: "run_label list \<Rightarrow> sample list list \<times> sample list" where
  "windows ls = fold window_step ls ([], [])"

lemma labels_snoc [simp]:
  "accepted_samples (ls @ [l]) = accepted_samples ls @ accepted_of l"
  "taken_samples (ls @ [l]) = taken_samples ls @ taken_of l"
  "windows (ls @ [l]) = window_step l (windows ls)"
  by (simp_all add: accepted_samples_def taken_samples_def windows_def)

lemma labels_Nil [simp]:
  "accepted_samples [] = []" "taken_samples [] = []" "windows [] = ([], [])"
  by (simp_all add: accepted_samples_def taken_samples_def windows_def)

lemma windows_cover: "concat (fst (windows ls)) @ snd (windows ls) = taken_samples ls"
proof (induction ls rule: rev_induct)
  case (snoc l ls)
  then show ?case
    by (cases "windows ls"; cases l) (auto simp: window_step_def)
qed simp

section \<open>Invariants of a run\<close>

lemma flush_clears:
  "ag_contexts (fst (flush srt rng conf sources ts ag nt)) = []"
  "ag_checks (fst (flush srt rng conf sources ts ag nt)) = []"
  "ag_events (fst (flush srt rng conf sources ts ag nt)) = []"
  by (auto simp: flush_def collect_def flush_checks_def flush_events_def Let_def split: prod.splits)

lemma run_flush_frame [frame]:
  "rn_samples (run_flush e sources ts r) = rn_samples r" "rn_checks (run_flush e sources ts r) = rn_checks r"
  "rn_events (run_flush e sources ts r) = rn_events r" "rn_phase (run_flush e sources ts r) = rn_phase r"
  "rn_agg (run_flush e sources ts r)
     = fst (flush (re_srt e) (re_rng e) (re_conf e) sources ts (rn_agg r) (rn_net r))"
  by (simp_all add: run_flush_def split: prod.split)

definition run_inv :: "run_env \<Rightarrow> run_label list \<Rightarrow> run_state \<Rightarrow> bool" where
  "run_inv e ls r \<longleftrightarrow>
     accepted_samples ls = taken_samples ls @ rn_samples r
     \<and> ag_contexts (rn_agg r) = fold accumulate (snd (windows ls)) []
     \<and> length (rn_samples r) \<le> re_buffer e
     \<and> length (rn_checks r) \<le> check_buffer \<and> length (rn_events r) \<le> check_buffer"

lemma run_step_inv:
  assumes "run_step e l r r'" "run_inv e ls r"
  shows "run_inv e (ls @ [l]) r'"
  using assms
  by (cases rule: run_step.cases; cases "windows ls")
    (auto simp: run_inv_def window_step_def frame flush_clears
      add_sample_def add_service_check_def add_event_def take_sample_def take_check_def take_event_def
      split: if_splits)

lemma run_trace_inv:
  "run_trace e (new_run nt) ls r \<Longrightarrow> run_inv e ls r"
proof (induction rule: run_trace.induct)
  case start
  then show ?case by (simp add: run_inv_def new_run_def new_aggregator_def)
next
  case (more_steps ls r l r')
  then show ?case by (blast intro: run_step_inv)
qed

text \<open>After the stop nothing is taken or flushed any more.\<close>

lemma run_step_stopped:
  "run_step e l r r' \<Longrightarrow> rn_phase r = Stopped \<Longrightarrow> rn_phase r' = Stopped \<and> rn_agg r' = rn_agg r \<and> rn_net r' = rn_net r"
  by (cases rule: run_step.cases)
    (auto simp: add_sample_def add_service_check_def add_event_def split: if_splits)

text \<open>
  C1. No accepted sample is lost or counted twice, at any interleaving of listeners, ticks and
  cancellation: at the moment the goroutine stops, the flush windows laid end to end are exactly
  the samples \<open>Add\<close> accepted, in order, and every flush, the final one included, was made from the
  contexts its own window accumulates.
\<close>

theorem run_loses_no_sample:
  assumes "run_trace e (new_run nt) ls r" "run_step e (Flushed ts sources) r r'"
  shows "ag_contexts (rn_agg r) = fold accumulate (snd (windows ls)) []
    \<and> concat (fst (windows (ls @ [Flushed ts sources]))) @ rn_samples r' = accepted_samples ls
    \<and> (rn_phase r' = Stopped \<longrightarrow> concat (fst (windows (ls @ [Flushed ts sources]))) = accepted_samples ls)"
proof -
  have inv: "run_inv e ls r" using assms(1) by (rule run_trace_inv)
  have same: "rn_samples r' = rn_samples r" and stop: "rn_phase r' = Stopped \<Longrightarrow> rn_samples r' = []"
    using assms(2) by (auto elim!: run_step_elims simp: frame)
  have "concat (fst (windows (ls @ [Flushed ts sources]))) = taken_samples ls"
    using windows_cover [of ls] by (auto simp: window_step_def split: prod.split)
  with inv same stop show ?thesis by (auto simp: run_inv_def)
qed

definition env_example :: run_env where
  "env_example = \<lparr>re_buffer = 8, re_srt = sort_by, re_rng = (\<lambda>cs. cs), re_conf =
     \<lparr>ac_interval_s = 15, ac_hostname = ''h'', ac_tags = [], ac_client = new_client 0 0, ac_endpoints = [],
      ac_check_endpoints = [], ac_event_endpoints = []\<rparr>\<rparr>"

definition net_quiet :: "json net" where
  "net_quiet = \<lparr>nt_replies = [], nt_timers = [], nt_bad_urls = [], nt_acts = []\<rparr>"

lemma run_loses_no_sample_witness:
  "\<exists>r r'. run_trace env_example (new_run net_quiet) [Accepted (counter_example 1), Cancel, Took (counter_example 1)] r
     \<and> run_step env_example (Flushed 7 []) r r' \<and> rn_phase r' = Stopped
     \<and> concat (fst (windows [Accepted (counter_example 1), Cancel, Took (counter_example 1), Flushed 7 []]))
       = [counter_example 1]"
proof -
  let ?s = "counter_example 1" and ?r0 = "new_run net_quiet"
  let ?r1 = "?r0\<lparr>rn_samples := [?s]\<rparr>"
  let ?r2 = "?r1\<lparr>rn_phase := Draining\<rparr>"
  let ?r3 = "take_sample ?s [] ?r2"
  let ?r4 = "(run_flush env_example [] 7 ?r3)\<lparr>rn_phase := Stopped\<rparr>"
  have s1: "run_step env_example (Accepted ?s) ?r0 ?r1"
    by (rule run_step.accept) (simp add: add_sample_def env_example_def new_run_def)
  have s2: "run_step env_example Cancel ?r1 ?r2" by (rule run_step.cancel) (simp add: new_run_def)
  have s3: "run_step env_example (Took ?s) ?r2 ?r3" by (rule run_step.take_s) simp_all
  have t: "run_trace env_example ?r0 [Accepted ?s, Cancel, Took ?s] ?r3"
    using run_trace.more_steps [OF run_trace.more_steps [OF run_trace.more_steps [OF run_trace.start s1] s2] s3]
    by simp
  have f: "run_step env_example (Flushed 7 []) ?r3 ?r4"
    by (rule run_step.finish) (simp_all add: take_sample_def new_run_def)
  have "accepted_samples [Accepted ?s, Cancel, Took ?s] = [?s]" by (simp add: accepted_samples_def)
  with run_loses_no_sample [OF t f] t f show ?thesis by (intro exI conjI) auto
qed

end
