(* ===== verification/DogstatsdServer.thy ===== *)
theory DogstatsdServer
  imports DogstatsdParse
begin

text \<open>
  The DogStatsD listeners, \<^verbatim>\<open>internal/dogstatsd/server.go\<close>. A datagram is cut into lines, each
  line is routed by its prefix, and a malformed line is dropped alone. The sinks the server
  is given become the list of values handed to them, in order; a \<open>nil\<close> sink is a flag. The
  sockets are a script of \<open>ReadFrom\<close> results.
\<close>

record server =
  srv_port :: nat
  srv_socket :: string
  srv_non_local :: bool
  srv_has_checks :: bool
  srv_has_events :: bool

datatype routed = RSample sample | RCheck service_check | REvent event

definition newline :: char where "newline = CHR 0x0A"
definition carriage_return :: char where "carriage_return = CHR 0x0D"

definition route_line :: "server \<Rightarrow> string \<Rightarrow> routed list" where
  "route_line s line =
     (let str = trim_right_of [carriage_return] line in
      if str = [] then []
      else if has_prefix ''_sc|'' str then
        (case parse_service_check str of
           Some sc \<Rightarrow> if srv_has_checks s then [RCheck sc] else []
         | None \<Rightarrow> [])
      else if has_prefix ''_e{'' str then
        (case parse_event str of
           Some ev \<Rightarrow> if srv_has_events s then [REvent ev] else []
         | None \<Rightarrow> [])
      else
        (case parse str of Some samples \<Rightarrow> map RSample samples | None \<Rightarrow> []))"

definition handle_packet :: "server \<Rightarrow> string \<Rightarrow> routed list" where
  "handle_packet s packet = concat (map (route_line s) (split_on newline packet))"

text \<open>
  What \<open>ReadFrom\<close> returns: a datagram, cut to the buffer; the socket closed at shutdown; any
  other error, after which the loop goes on.
\<close>

datatype read_result = Datagram string | ReadClosed | ReadFailed

definition max_packet_size :: nat where "max_packet_size = 65536"

fun read_loop :: "server \<Rightarrow> read_result list \<Rightarrow> routed list" where
  "read_loop s [] = []"
| "read_loop s (ReadClosed # rs) = []"
| "read_loop s (ReadFailed # rs) = read_loop s rs"
| "read_loop s (Datagram d # rs) = handle_packet s (take max_packet_size d) @ read_loop s rs"

section \<open>Routing\<close>

lemma handle_packet_append:
  "handle_packet s (p @ newline # q) = handle_packet s p @ handle_packet s q"
  by (simp add: handle_packet_def split_on_append)

lemma route_line_Nil [simp]: "route_line s [] = []"
  by (simp add: route_line_def)

lemma handle_packet_line: "newline \<notin> set l \<Longrightarrow> handle_packet s l = route_line s l"
  by (simp add: handle_packet_def split_on_absent)

lemma handle_packet_lines:
  "\<forall>l \<in> set ls. newline \<notin> set l \<Longrightarrow>
     handle_packet s (join_with [newline] ls) = concat (map (route_line s) ls)"
  by (induction ls) (auto simp: handle_packet_line handle_packet_append handle_packet_def [of s "[]"])

lemma route_line_cr: "route_line s (l @ [carriage_return]) = route_line s l"
  by (simp add: route_line_def trim_right_of_snoc)

lemma wire_line_trim:
  "l \<noteq> [] \<Longrightarrow> last l \<noteq> carriage_return \<Longrightarrow> trim_right_of [carriage_return] l = l"
  by (rule trim_right_of_last) auto

lemma check_line_prefix: "has_prefix ''_sc|'' (check_line c)"
  by (simp add: check_line_def has_prefix_iff)

lemma event_line_prefix: "has_prefix ''_e{'' (event_line e)" "\<not> has_prefix ''_sc|'' (event_line e)"
  by (simp_all add: event_line_def)

text \<open>
  Lines of one datagram do not disturb each other: whatever the other lines hold, well formed
  or not and ended by a bare newline or by CR LF, each line of a packet is routed as if it had
  arrived alone, in the packet's order.
\<close>

theorem handle_packet_isolation:
  assumes "\<forall>l \<in> set ls. newline \<notin> set (fst l)"
  shows "handle_packet s (join_with [newline] (map (\<lambda>(l, crlf). if crlf then l @ [carriage_return] else l) ls))
       = concat (map (route_line s) (map fst ls))"
proof -
  have "\<forall>l \<in> set (map (\<lambda>(l, crlf). if crlf then l @ [carriage_return] else l) ls). newline \<notin> set l"
    using assms by (auto simp: newline_def carriage_return_def)
  then have "handle_packet s (join_with [newline] (map (\<lambda>(l, crlf). if crlf then l @ [carriage_return] else l) ls))
      = concat (map (route_line s) (map (\<lambda>(l, crlf). if crlf then l @ [carriage_return] else l) ls))"
    by (rule handle_packet_lines)
  also have "map (route_line s) (map (\<lambda>(l, crlf). if crlf then l @ [carriage_return] else l) ls)
      = map (route_line s) (map fst ls)"
    by (auto simp: route_line_cr)
  finally show ?thesis .
qed

definition server_example :: server where
  "server_example = \<lparr>srv_port = 8125, srv_socket = [], srv_non_local = False,
     srv_has_checks = True, srv_has_events = True\<rparr>"

lemma handle_packet_isolation_witness:
  "handle_packet server_example
     (join_with [newline] (map (\<lambda>(l, crlf). if crlf then l @ [carriage_return] else l)
        [(''garbage'', True), (''a:1|c'', False), (''_sc|x'', True), (''b:zz|g'', False)]))
   = route_line server_example ''a:1|c''
   \<and> route_line server_example ''a:1|c'' \<noteq> []"
proof -
  have gone: "route_line server_example ''garbage'' = [] \<and> route_line server_example ''_sc|x'' = []
      \<and> route_line server_example ''b:zz|g'' = []"
    by code_simp
  have kept: "route_line server_example ''a:1|c'' \<noteq> []" by code_simp
  show ?thesis
    using handle_packet_isolation [of "[(''garbage'', True), (''a:1|c'', False), (''_sc|x'', True), (''b:zz|g'', False)]"
        server_example] gone kept
    by (simp add: newline_def)
qed

section \<open>The read loop\<close>

primrec datagram :: "read_result \<Rightarrow> string list" where
  "datagram (Datagram d) = [take max_packet_size d]"
| "datagram ReadClosed = []"
| "datagram ReadFailed = []"

text \<open>
  C40. A failed read costs nothing: every datagram received before the socket is closed is
  handled, whatever transient errors come between, and nothing after the close is.
\<close>

theorem read_loop_survives_errors:
  "read_loop s rs = concat (map (handle_packet s) (concat (map datagram (takeWhile (\<lambda>r. r \<noteq> ReadClosed) rs))))"
  by (induction s rs rule: read_loop.induct) simp_all

section \<open>Starting the listeners\<close>

datatype listener = UdpListener bool nat | UnixListener string

text \<open>
  \<open>Run\<close> up to the read loops: the listeners it leaves open, or the error it returns and the
  listeners it opened and closed again. The two flags are what the kernel answers to the binds.
\<close>

datatype start =
    Serving "listener list"
  | UdpError
  | UnixError "listener list"
  | NoListener

definition run_start :: "server \<Rightarrow> bool \<Rightarrow> bool \<Rightarrow> start" where
  "run_start s udp_ok unix_ok =
     (let udp = 0 < srv_port s; unix = srv_socket s \<noteq> [];
          conns = (if udp then [UdpListener (srv_non_local s) (srv_port s)] else [])
      in if udp \<and> \<not> udp_ok then UdpError
         else if unix \<and> \<not> unix_ok then UnixError conns
         else let conns = conns @ (if unix then [UnixListener (srv_socket s)] else [])
              in if conns = [] then NoListener else Serving conns)"

text \<open>The UDP listener accepts remote hosts only when configured to.\<close>

lemma run_start_loopback:
  "run_start s udp_ok unix_ok = Serving ls \<Longrightarrow> UdpListener nl p \<in> set ls \<Longrightarrow>
     nl = srv_non_local s \<and> p = srv_port s"
  by (auto simp: run_start_def Let_def split: if_splits)

lemma run_start_serving:
  "(\<exists>ls. run_start s udp_ok unix_ok = Serving ls) \<longleftrightarrow>
     (0 < srv_port s \<or> srv_socket s \<noteq> []) \<and> (0 < srv_port s \<longrightarrow> udp_ok) \<and> (srv_socket s \<noteq> [] \<longrightarrow> unix_ok)"
  by (auto simp: run_start_def Let_def)

end
