(* ===== verification/LogRegistry.thy ===== *)
theory LogRegistry
  imports GoStrconv "HOL-Library.AList"
begin

text \<open>
  The registry of delivered positions, \<^verbatim>\<open>internal/logs/registry.go\<close>: byte offsets of files and
  cursors of the journal, advanced by the batcher, read by the tailers, saved to disk by writing
  a temporary file and renaming it. Each operation runs under the registry's mutex and is one
  step here. The maps are association lists. Identifiers are taken to be valid UTF-8, which JSON
  carries unchanged.
\<close>

section \<open>The registry in memory\<close>

record registry =
  rg_offsets :: "(string \<times> int) list"
  rg_cursors :: "(string \<times> string) list"

definition empty_registry :: registry where
  "empty_registry = \<lparr>rg_offsets = [], rg_cursors = []\<rparr>"

definition offset_of :: "string \<Rightarrow> registry \<Rightarrow> int" where
  "offset_of i r = (case map_of (rg_offsets r) i of Some n \<Rightarrow> n | None \<Rightarrow> 0)"

definition position :: "string \<Rightarrow> registry \<Rightarrow> int \<times> bool" where
  "position i r = (case map_of (rg_offsets r) i of Some n \<Rightarrow> (n, True) | None \<Rightarrow> (0, False))"

definition advance :: "string \<Rightarrow> int \<Rightarrow> registry \<Rightarrow> registry" where
  "advance i off r = r\<lparr>rg_offsets := AList.update i off (rg_offsets r)\<rparr>"

definition remove_id :: "string \<Rightarrow> registry \<Rightarrow> registry" where
  "remove_id i r =
     r\<lparr>rg_offsets := AList.delete i (rg_offsets r), rg_cursors := AList.delete i (rg_cursors r)\<rparr>"

definition position_cursor :: "string \<Rightarrow> registry \<Rightarrow> string \<times> bool" where
  "position_cursor i r = (case map_of (rg_cursors r) i of Some c \<Rightarrow> (c, True) | None \<Rightarrow> ([], False))"

definition advance_cursor :: "string \<Rightarrow> string \<Rightarrow> registry \<Rightarrow> registry" where
  "advance_cursor i c r = (if c = [] then r else r\<lparr>rg_cursors := AList.update i c (rg_cursors r)\<rparr>)"

section \<open>The registry on disk\<close>

record registry_record =
  rr_offset :: string
  rr_cursor :: string

text \<open>What a file holds: a registry as JSON, or bytes that do not parse as one.\<close>

datatype blob = RegistryFile int "(string \<times> registry_record) list" | Torn

record disk =
  dk_main :: "blob option"
  dk_tmp :: "blob option"

definition registry_version :: int where "registry_version = 2"

definition load_entry :: "string \<times> registry_record \<Rightarrow> registry \<Rightarrow> registry" where
  "load_entry e r =
     (case e of (i, rc) \<Rightarrow>
        if rr_cursor rc \<noteq> [] then r\<lparr>rg_cursors := AList.update i (rr_cursor rc) (rg_cursors r)\<rparr>
        else (case parse_int 10 64 (rr_offset rc) of
                Parsed n \<Rightarrow> r\<lparr>rg_offsets := AList.update i n (rg_offsets r)\<rparr>
              | _ \<Rightarrow> r))"

definition load_registry :: "disk \<Rightarrow> registry" where
  "load_registry d =
     (case dk_main d of
        Some (RegistryFile v es) \<Rightarrow> fold load_entry es empty_registry
      | _ \<Rightarrow> empty_registry)"

text \<open>
  The map \<open>Flush\<close> builds: the offsets, then the cursors, which replace an offset under the same
  identifier.
\<close>

definition registry_records :: "registry \<Rightarrow> (string \<times> registry_record) list" where
  "registry_records r =
     fold (\<lambda>(i, c). AList.update i \<lparr>rr_offset = [], rr_cursor = c\<rparr>) (rg_cursors r)
       (fold (\<lambda>(i, n). AList.update i \<lparr>rr_offset = fmt_int n, rr_cursor = []\<rparr>) (rg_offsets r) [])"

definition registry_blob :: "registry \<Rightarrow> blob" where
  "registry_blob r = RegistryFile registry_version (registry_records r)"

text \<open>Which of the system calls of \<open>Flush\<close> succeed.\<close>

record flush_io =
  fi_mkdir :: bool
  fi_write :: bool
  fi_rename :: bool

text \<open>
  The states the disk goes through during a \<open>Flush\<close>, any of which a crash may leave: while
  \<open>WriteFile\<close> runs the temporary file is torn, and the rename is one step.
\<close>

definition flush_states :: "flush_io \<Rightarrow> registry \<Rightarrow> disk \<Rightarrow> disk list" where
  "flush_states io r d =
     (if \<not> fi_mkdir io then [d]
      else if \<not> fi_write io then [d, d\<lparr>dk_tmp := Some Torn\<rparr>]
      else let written = d\<lparr>dk_tmp := Some (registry_blob r)\<rparr> in
        [d, d\<lparr>dk_tmp := Some Torn\<rparr>, written]
        @ (if fi_rename io then [\<lparr>dk_main = dk_tmp written, dk_tmp = None\<rparr>] else []))"

definition flush_registry :: "flush_io \<Rightarrow> registry \<Rightarrow> disk \<Rightarrow> disk" where
  "flush_registry io r d = last (flush_states io r d)"

section \<open>Lookups after operations\<close>

lemma offset_lookup [simp]:
  "map_of (rg_offsets (advance i n r)) j = (if i = j then Some n else map_of (rg_offsets r) j)"
  "rg_cursors (advance i n r) = rg_cursors r"
  by (simp_all add: advance_def update_conv')

lemma cursor_lookup [simp]:
  "map_of (rg_cursors (advance_cursor i c r)) j
     = (if i = j \<and> c \<noteq> [] then Some c else map_of (rg_cursors r) j)"
  "rg_offsets (advance_cursor i c r) = rg_offsets r"
  by (simp_all add: advance_cursor_def update_conv')

lemma remove_lookup [simp]:
  "map_of (rg_offsets (remove_id i r)) j = (if i = j then None else map_of (rg_offsets r) j)"
  "map_of (rg_cursors (remove_id i r)) j = (if i = j then None else map_of (rg_cursors r) j)"
  by (simp_all add: remove_id_def delete_conv')

lemma position_simps [simp]:
  "position i (advance j n r) = (if i = j then (n, True) else position i r)"
  "position i (remove_id j r) = (if i = j then (0, False) else position i r)"
  "position i (advance_cursor j c r) = position i r"
  by (simp_all add: position_def)

text \<open>The invariant every operation keeps.\<close>

definition registry_ok :: "registry \<Rightarrow> bool" where
  "registry_ok r \<longleftrightarrow>
     distinct (map fst (rg_offsets r)) \<and> distinct (map fst (rg_cursors r))
     \<and> (\<forall>(i, n) \<in> set (rg_offsets r). in_i64 n) \<and> (\<forall>(i, c) \<in> set (rg_cursors r). c \<noteq> [])"

lemma update_in: "p \<in> set (AList.update k v al) \<Longrightarrow> p = (k, v) \<or> p \<in> set al"
  by (induction al) (auto split: if_splits)

lemma registry_ok_empty [simp]: "registry_ok empty_registry"
  by (simp add: registry_ok_def empty_registry_def)

lemma registry_ok_advance: "registry_ok r \<Longrightarrow> in_i64 n \<Longrightarrow> registry_ok (advance i n r)"
  by (auto simp: registry_ok_def advance_def distinct_update dest!: update_in)

lemma registry_ok_cursor: "registry_ok r \<Longrightarrow> registry_ok (advance_cursor i c r)"
  by (auto simp: registry_ok_def advance_cursor_def distinct_update dest!: update_in)

lemma registry_ok_remove: "registry_ok r \<Longrightarrow> registry_ok (remove_id i r)"
  by (auto simp: registry_ok_def remove_id_def AList.delete_eq distinct_map_filter)

lemma load_entry_eq:
  "load_entry (i, rc) r =
     (if rr_cursor rc \<noteq> [] then advance_cursor i (rr_cursor rc) r
      else case ok_val (parse_int 10 64 (rr_offset rc)) of Some n \<Rightarrow> advance i n r | None \<Rightarrow> r)"
  by (auto simp: load_entry_def advance_cursor_def advance_def split: parsed.split)

lemma registry_ok_load_entry: "registry_ok r \<Longrightarrow> registry_ok (load_entry e r)"
  using parse_int_range [of 10 64]
  by (cases e) (auto simp: load_entry_eq ok_val_Some in_i64_def intro: registry_ok_cursor
      intro!: registry_ok_advance split: option.split)

lemma registry_ok_load: "registry_ok (load_registry d)"
proof -
  have "registry_ok (fold load_entry es empty_registry)" for es
    by (rule fold_invariant) (auto intro: registry_ok_load_entry)
  then show ?thesis by (auto simp: load_registry_def split: option.split blob.split)
qed

lemmas registry_ok_ops = registry_ok_empty registry_ok_advance registry_ok_cursor registry_ok_remove registry_ok_load

section \<open>Saving and loading\<close>

lemma fold_update_of:
  "distinct (map fst xs) \<Longrightarrow>
     map_of (fold (\<lambda>(i, v). AList.update i (f v)) xs al) j =
       (case map_of xs j of Some v \<Rightarrow> Some (f v) | None \<Rightarrow> map_of al j)"
proof (induction xs arbitrary: al)
  case (Cons x xs)
  then show ?case by (cases x) (auto simp: update_conv' map_of_eq_None_iff rev_image_eqI split: option.split)
qed simp

lemma fold_update_distinct:
  "distinct (map fst al) \<Longrightarrow> distinct (map fst (fold (\<lambda>(i, v). AList.update i (f v)) xs al))"
  by (induction xs arbitrary: al) (auto simp: distinct_update)

lemma records_of:
  assumes "registry_ok r"
  shows "map_of (registry_records r) i =
    (case map_of (rg_cursors r) i of
       Some c \<Rightarrow> Some \<lparr>rr_offset = [], rr_cursor = c\<rparr>
     | None \<Rightarrow> map_option (\<lambda>n. \<lparr>rr_offset = fmt_int n, rr_cursor = []\<rparr>) (map_of (rg_offsets r) i))"
    and "distinct (map fst (registry_records r))"
  using assms
    fold_update_of [of "rg_cursors r" "\<lambda>c. \<lparr>rr_offset = [], rr_cursor = c\<rparr>"]
    fold_update_of [of "rg_offsets r" "\<lambda>n. \<lparr>rr_offset = fmt_int n, rr_cursor = []\<rparr>" "[]"]
    fold_update_distinct [of _ "\<lambda>c. \<lparr>rr_offset = [], rr_cursor = c\<rparr>" "rg_cursors r"]
    fold_update_distinct [of "[]" "\<lambda>n. \<lparr>rr_offset = fmt_int n, rr_cursor = []\<rparr>" "rg_offsets r"]
  by (auto simp: registry_records_def registry_ok_def split: option.split)

lemma load_entries_of:
  "distinct (map fst es) \<Longrightarrow>
     map_of (rg_cursors (fold load_entry es r)) i =
       (case map_of es i of Some rc \<Rightarrow> if rr_cursor rc \<noteq> [] then Some (rr_cursor rc) else map_of (rg_cursors r) i
        | None \<Rightarrow> map_of (rg_cursors r) i)
     \<and> map_of (rg_offsets (fold load_entry es r)) i =
       (case map_of es i of
          Some rc \<Rightarrow> if rr_cursor rc \<noteq> [] then map_of (rg_offsets r) i
                     else (case ok_val (parse_int 10 64 (rr_offset rc)) of Some n \<Rightarrow> Some n
                           | None \<Rightarrow> map_of (rg_offsets r) i)
        | None \<Rightarrow> map_of (rg_offsets r) i)"
proof (induction es arbitrary: r)
  case (Cons e es)
  obtain k rc where e: "e = (k, rc)" by (cases e)
  with Cons.prems have "map_of es k = None" by (simp add: map_of_eq_None_iff)
  with Cons e show ?case
    by (auto simp: load_entry_eq split: option.split)
qed simp

lemma load_saved:
  assumes "registry_ok r" "dk_main d = Some (registry_blob r)"
  shows "map_of (rg_cursors (load_registry d)) i = map_of (rg_cursors r) i"
    and "map_of (rg_offsets (load_registry d)) i
       = (if map_of (rg_cursors r) i = None then map_of (rg_offsets r) i else None)"
proof -
  have c: "map_of (rg_cursors r) i = Some x \<Longrightarrow> x \<noteq> []" for x
    using assms(1) by (auto simp: registry_ok_def dest: map_of_SomeD)
  have o: "map_of (rg_offsets r) i = Some n \<Longrightarrow> parse_int 10 64 (fmt_int n) = Parsed n" for n
    using assms(1) by (intro parse_i64_fmt_int) (auto simp: registry_ok_def dest: map_of_SomeD)
  have es: "load_registry d = fold load_entry (registry_records r) empty_registry"
    by (simp add: load_registry_def assms(2) registry_blob_def)
  show "map_of (rg_cursors (load_registry d)) i = map_of (rg_cursors r) i"
    and "map_of (rg_offsets (load_registry d)) i
       = (if map_of (rg_cursors r) i = None then map_of (rg_offsets r) i else None)"
    unfolding es
    using load_entries_of [OF records_of(2) [OF assms(1)], of empty_registry i] c o
    by (auto simp: records_of(1) [OF assms(1)] empty_registry_def split: option.splits)
qed

text \<open>
  C38. The registry survives a crash at any moment of a save, and any failure of its system calls:
  a restart loads either what the file held before or exactly what was being saved, every cursor
  and the offset of every identifier that has no cursor; no torn file is ever read. A save whose
  calls succeed is the one loaded.
\<close>

theorem registry_flush_atomic:
  assumes "registry_ok r" "d' \<in> set (flush_states io r d)"
  shows "(load_registry d' = load_registry d
      \<or> (\<forall>i. map_of (rg_cursors (load_registry d')) i = map_of (rg_cursors r) i
             \<and> map_of (rg_offsets (load_registry d')) i
               = (if map_of (rg_cursors r) i = None then map_of (rg_offsets r) i else None)))
    \<and> (fi_mkdir io \<and> fi_write io \<and> fi_rename io
        \<longrightarrow> dk_main (flush_registry io r d) = Some (registry_blob r))"
proof -
  have "dk_main d' = dk_main d \<or> dk_main d' = Some (registry_blob r)"
    using assms(2) by (auto simp: flush_states_def Let_def split: if_splits)
  moreover have "load_registry d' = load_registry d" if "dk_main d' = dk_main d"
    using that by (simp add: load_registry_def)
  moreover have "dk_main (flush_registry io r d) = Some (registry_blob r)"
    if "fi_mkdir io \<and> fi_write io \<and> fi_rename io"
    using that by (simp add: flush_registry_def flush_states_def Let_def)
  ultimately show ?thesis using load_saved [OF assms(1), of d'] by blast
qed

definition registry_example :: registry where
  "registry_example = advance_cursor ''journald:u'' ''s=1;i=2'' (advance ''file:/a'' 42 empty_registry)"

lemma registry_flush_atomic_witness:
  "load_registry \<lparr>dk_main = None, dk_tmp = Some Torn\<rparr> = empty_registry
   \<and> offset_of ''file:/a'' (load_registry (flush_registry \<lparr>fi_mkdir = True, fi_write = True, fi_rename = True\<rparr>
        registry_example \<lparr>dk_main = None, dk_tmp = Some Torn\<rparr>)) = 42"
proof -
  let ?d = "\<lparr>dk_main = None, dk_tmp = Some Torn\<rparr>"
  let ?io = "\<lparr>fi_mkdir = True, fi_write = True, fi_rename = True\<rparr>"
  have ok: "registry_ok registry_example"
    by (simp add: registry_example_def registry_ok_ops in_i64_def)
  have "flush_registry ?io registry_example ?d \<in> set (flush_states ?io registry_example ?d)"
    unfolding flush_registry_def by (rule last_in_set) (simp add: flush_states_def Let_def)
  from registry_flush_atomic [OF ok this] load_saved [OF ok, of "flush_registry ?io registry_example ?d"]
  show ?thesis
    by (simp add: offset_of_def load_registry_def registry_example_def empty_registry_def)
qed

section \<open>Position stores\<close>

text \<open>
  What the batcher and the tailers need of the registry: reading back the last position written
  under an identifier, and nothing else disturbed.
\<close>

locale position_store =
  fixes pos :: "'s \<Rightarrow> string \<Rightarrow> 'p option"
    and put :: "string \<Rightarrow> 'p \<Rightarrow> 's \<Rightarrow> 's"
    and valid :: "'p \<Rightarrow> bool"
  assumes put_pos: "valid p \<Longrightarrow> pos (put i p s) j = (if i = j then Some p else pos s j)"
begin

lemma puts_pos:
  "list_all (\<lambda>(i, p). valid p) ms \<Longrightarrow>
     pos (fold (\<lambda>(i, p). put i p) ms s) j =
       (case filter (\<lambda>(i, p). i = j) ms of [] \<Rightarrow> pos s j | qs \<Rightarrow> Some (snd (last qs)))"
proof (induction ms arbitrary: s)
  case (Cons m ms)
  then show ?case by (cases m) (auto simp: put_pos split: list.split)
qed simp

lemma puts_other:
  "list_all (\<lambda>(i, p). valid p) ms \<Longrightarrow> j \<notin> fst ` set ms \<Longrightarrow> pos (fold (\<lambda>(i, p). put i p) ms s) j = pos s j"
  by (induction ms arbitrary: s) (auto simp: put_pos)

end

interpretation offsets: position_store "\<lambda>r. map_of (rg_offsets r)" advance "\<lambda>n. True"
  by unfold_locales simp

interpretation cursors: position_store "\<lambda>r. map_of (rg_cursors r)" advance_cursor "\<lambda>c. c \<noteq> []"
  by unfold_locales simp

end
