(* ===== verification/LogDiscover.thy ===== *)
theory LogDiscover
  imports LogRegistry
begin

text \<open>
  Which files the logs agent tails: \<open>startTailer\<close> and \<open>discover\<close> in \<^verbatim>\<open>internal/logs/agent.go\<close>,
  run at start-up and at every scan. The file system of a scan is given by the answers of
  \<open>filepath.Abs\<close>, \<open>filepath.Glob\<close> and \<open>os.Stat\<close>. Starting and stopping a tailer's goroutine is
  recorded in the result.
\<close>

record log_source =
  ls_type :: string
  ls_path :: string

record scan_fs =
  fs_abs :: "string \<Rightarrow> string option"
  fs_glob :: "string \<Rightarrow> string list option"
  fs_regular :: "string \<Rightarrow> bool"

record handle =
  th_from_glob :: bool
  th_missed :: nat

datatype tail_action = StartTail string bool | StopTail string

record discovery =
  dv_tailed :: "(string \<times> handle) list"
  dv_registry :: registry
  dv_actions :: "tail_action list"

definition start_tailer :: "string \<Rightarrow> bool \<Rightarrow> discovery \<Rightarrow> discovery" where
  "start_tailer path from_glob d =
     (if map_of (dv_tailed d) path \<noteq> None then d
      else d\<lparr>dv_tailed := dv_tailed d @ [(path, \<lparr>th_from_glob = from_glob, th_missed = 0\<rparr>)],
             dv_actions := dv_actions d @ [StartTail path from_glob]\<rparr>)"

definition has_glob_char :: "string \<Rightarrow> bool" where
  "has_glob_char s \<longleftrightarrow> list_ex (\<lambda>c. c = CHR ''*'' \<or> c = CHR ''?'' \<or> c = CHR ''['') s"

text \<open>The body of the loop over the sources; the first component is \<open>matched\<close>.\<close>

definition expand_source :: "scan_fs \<Rightarrow> log_source \<Rightarrow> string list \<times> discovery \<Rightarrow> string list \<times> discovery" where
  "expand_source fs src st =
     (case st of (matched, d) \<Rightarrow>
        if ls_type src = ''journald'' then (matched, d)
        else case fs_abs fs (ls_path src) of
          None \<Rightarrow> (matched, d)
        | Some path \<Rightarrow>
            if \<not> has_glob_char (ls_path src) then (matched, start_tailer path False d)
            else case fs_glob fs path of
              None \<Rightarrow> (matched, d)
            | Some matches \<Rightarrow>
                (let ms = filter (fs_regular fs) matches
                 in (matched @ ms, fold (\<lambda>m. start_tailer m True) ms d)))"

text \<open>The sweep. Every handle is visited once, in whatever order the map is ranged over.\<close>

definition sweep_keep :: "string list \<Rightarrow> string \<times> handle \<Rightarrow> bool" where
  "sweep_keep matched e =
     (case e of (path, h) \<Rightarrow> \<not> th_from_glob h \<or> path \<in> set matched \<or> th_missed h + 1 < 2)"

definition sweep_handle :: "string list \<Rightarrow> string \<times> handle \<Rightarrow> string \<times> handle" where
  "sweep_handle matched e =
     (case e of (path, h) \<Rightarrow>
        if \<not> th_from_glob h \<or> path \<in> set matched then (path, h\<lparr>th_missed := 0\<rparr>)
        else (path, h\<lparr>th_missed := th_missed h + 1\<rparr>))"

definition sweep :: "string list \<Rightarrow> discovery \<Rightarrow> discovery" where
  "sweep matched d =
     (let gone = map fst (filter (\<lambda>e. \<not> sweep_keep matched e) (dv_tailed d)) in
      d\<lparr>dv_tailed := map (sweep_handle matched) (filter (sweep_keep matched) (dv_tailed d)),
        dv_registry := fold (\<lambda>p. remove_id (''file:'' @ p)) gone (dv_registry d),
        dv_actions := dv_actions d @ map StopTail gone\<rparr>)"

definition discover :: "log_source list \<Rightarrow> scan_fs \<Rightarrow> discovery \<Rightarrow> discovery" where
  "discover sources fs d =
     (let (matched, d1) = fold (expand_source fs) sources ([], d) in sweep matched d1)"

section \<open>One tailer per path\<close>

lemma start_tailer_keys:
  "distinct (map fst (dv_tailed d)) \<Longrightarrow> distinct (map fst (dv_tailed (start_tailer p g d)))"
  by (auto simp: start_tailer_def map_of_eq_None_iff)

lemma start_tailer_keeps:
  "map_of (dv_tailed d) q = Some h \<Longrightarrow> map_of (dv_tailed (start_tailer p g d)) q = Some h"
  by (auto simp: start_tailer_def map_add_def)

lemma start_tailers_keep:
  "distinct (map fst (dv_tailed d)) \<Longrightarrow> distinct (map fst (dv_tailed (fold (\<lambda>m. start_tailer m True) ms d)))"
  "map_of (dv_tailed d) q = Some h \<Longrightarrow> map_of (dv_tailed (fold (\<lambda>m. start_tailer m True) ms d)) q = Some h"
  by (induction ms arbitrary: d) (simp_all add: start_tailer_keys start_tailer_keeps)

lemma expand_source_keep:
  assumes "expand_source fs src (m, d) = (m', d')"
  shows "distinct (map fst (dv_tailed d)) \<Longrightarrow> distinct (map fst (dv_tailed d'))"
    and "map_of (dv_tailed d) q = Some h \<Longrightarrow> map_of (dv_tailed d') q = Some h"
  using assms start_tailers_keep [of d]
  by (auto simp: expand_source_def Let_def start_tailer_keys start_tailer_keeps split: if_splits option.splits)

lemma expand_sources_keep:
  "fold (expand_source fs) srcs (m, d) = (m', d') \<Longrightarrow>
     (distinct (map fst (dv_tailed d)) \<longrightarrow> distinct (map fst (dv_tailed d')))
     \<and> (\<forall>q h. map_of (dv_tailed d) q = Some h \<longrightarrow> map_of (dv_tailed d') q = Some h)"
proof (induction srcs arbitrary: m d)
  case (Cons src srcs)
  obtain m1 d1 where e: "expand_source fs src (m, d) = (m1, d1)" by fastforce
  with Cons.prems have "fold (expand_source fs) srcs (m1, d1) = (m', d')" by simp
  from Cons.IH [OF this] expand_source_keep [OF e] show ?case by blast
qed simp

lemma sweep_tailed:
  assumes "distinct (map fst (dv_tailed d))"
  shows "map_of (dv_tailed (sweep matched d)) q =
    (case map_of (dv_tailed d) q of
       None \<Rightarrow> None
     | Some h \<Rightarrow> if sweep_keep matched (q, h) then Some (snd (sweep_handle matched (q, h))) else None)"
proof -
  have *: "distinct (map fst xs) \<Longrightarrow>
      map_of (map (sweep_handle matched) (filter (sweep_keep matched) xs)) q =
      (case map_of xs q of None \<Rightarrow> None
       | Some h \<Rightarrow> if sweep_keep matched (q, h) then Some (snd (sweep_handle matched (q, h))) else None)" for xs
  proof (induction xs)
    case (Cons x xs)
    obtain p h where x: "x = (p, h)" by (cases x)
    have fst: "fst (sweep_handle matched (p, h)) = p" by (auto simp: sweep_handle_def)
    have none: "map_of xs p = None" using Cons.prems x by (simp add: map_of_eq_None_iff)
    show ?case
      using Cons fst none by (cases "sweep_handle matched (p, h)") (auto simp: x)
  qed simp
  show ?thesis using * [OF assms] by (simp add: sweep_def Let_def)
qed

lemma sweep_distinct:
  assumes "distinct (map fst (dv_tailed d))"
  shows "distinct (map fst (dv_tailed (sweep matched d)))"
proof -
  have eq: "map fst (map (sweep_handle matched) xs) = map fst xs" for xs
    by (induction xs) (auto simp: sweep_handle_def split: prod.splits if_splits)
  have "dv_tailed (sweep matched d) = map (sweep_handle matched) (filter (sweep_keep matched) (dv_tailed d))"
    by (simp add: sweep_def Let_def)
  then show ?thesis using assms by (simp only: eq distinct_map_filter)
qed

lemma discover_tailed:
  assumes "distinct (map fst (dv_tailed d))" "map_of (dv_tailed d) q = Some h"
  shows "\<exists>matched. map_of (dv_tailed (discover srcs fs d)) q =
    (if sweep_keep matched (q, h) then Some (snd (sweep_handle matched (q, h))) else None)"
proof -
  obtain m d1 where f: "fold (expand_source fs) srcs ([], d) = (m, d1)" by fastforce
  with expand_sources_keep [OF f] assms
  have "distinct (map fst (dv_tailed d1))" "map_of (dv_tailed d1) q = Some h" by simp_all
  with sweep_tailed [of d1 m q] f show ?thesis by (auto simp: discover_def)
qed

lemma discover_distinct:
  "distinct (map fst (dv_tailed d)) \<Longrightarrow> distinct (map fst (dv_tailed (discover srcs fs d)))"
  using expand_sources_keep [of fs srcs "[]" d] sweep_distinct
  by (cases "fold (expand_source fs) srcs ([], d)") (auto simp: discover_def)

text \<open>
  Over any series of scans a path has at most one tailer, and a path whose tailer was started
  from a literal source keeps it for the agent's life, whatever the file system shows.
\<close>

theorem literal_tailer_kept:
  assumes "distinct (map fst (dv_tailed d))" "map_of (dv_tailed d) q = Some h" "\<not> th_from_glob h"
  shows "distinct (map fst (dv_tailed (fold (discover srcs) scans d)))
    \<and> (\<exists>h'. map_of (dv_tailed (fold (discover srcs) scans d)) q = Some h' \<and> \<not> th_from_glob h')"
  using assms
proof (induction scans arbitrary: d h)
  case (Cons fs scans)
  from discover_tailed [OF Cons.prems(1,2), of srcs fs] Cons.prems(3)
  have "\<exists>h'. map_of (dv_tailed (discover srcs fs d)) q = Some h' \<and> \<not> th_from_glob h'"
    by (auto simp: sweep_keep_def sweep_handle_def)
  with Cons.IH [OF discover_distinct [OF Cons.prems(1)]] show ?case by auto
qed auto

definition fs_example :: "string list \<Rightarrow> scan_fs" where
  "fs_example present = \<lparr>fs_abs = Some, fs_glob = (\<lambda>g. Some present), fs_regular = (\<lambda>p. p \<in> set present)\<rparr>"

definition discovery_example :: discovery where
  "discovery_example = \<lparr>dv_tailed = [], dv_registry = empty_registry, dv_actions = []\<rparr>"

lemma literal_tailer_kept_witness:
  "\<exists>h. map_of (dv_tailed (fold (discover [\<lparr>ls_type = ''file'', ls_path = ''/a.log''\<rparr>])
      [fs_example [], fs_example [], fs_example []]
      (discover [\<lparr>ls_type = ''file'', ls_path = ''/a.log''\<rparr>] (fs_example []) discovery_example))) ''/a.log'' = Some h"
proof -
  let ?d = "discover [\<lparr>ls_type = ''file'', ls_path = ''/a.log''\<rparr>] (fs_example []) discovery_example"
  have d: "distinct (map fst (dv_tailed ?d))" "map_of (dv_tailed ?d) ''/a.log'' = Some \<lparr>th_from_glob = False, th_missed = 0\<rparr>"
    by (simp_all add: discover_def expand_source_def has_glob_char_def fs_example_def discovery_example_def
        start_tailer_def sweep_def sweep_keep_def sweep_handle_def)
  show ?thesis
    using literal_tailer_kept [OF d, of "[\<lparr>ls_type = ''file'', ls_path = ''/a.log''\<rparr>]"
        "[fs_example [], fs_example [], fs_example []]"] by auto
qed

section \<open>The grace of a glob\<close>

text \<open>Whether some glob source of the configuration shows the path in a scan.\<close>

definition glob_shows :: "log_source list \<Rightarrow> scan_fs \<Rightarrow> string \<Rightarrow> bool" where
  "glob_shows srcs fs q \<longleftrightarrow>
     list_ex (\<lambda>src. ls_type src \<noteq> ''journald'' \<and> has_glob_char (ls_path src) \<and> fs_regular fs q
       \<and> (case fs_abs fs (ls_path src) of None \<Rightarrow> False
          | Some path \<Rightarrow> (case fs_glob fs path of None \<Rightarrow> False | Some ms \<Rightarrow> q \<in> set ms))) srcs"

lemma expand_sources_matched:
  "fold (expand_source fs) srcs (m, d) = (m', d') \<Longrightarrow> q \<in> set m' \<longleftrightarrow> q \<in> set m \<or> glob_shows srcs fs q"
proof (induction srcs arbitrary: m d)
  case (Cons src srcs)
  obtain m1 d1 where e: "expand_source fs src (m, d) = (m1, d1)" by fastforce
  then have "q \<in> set m1 \<longleftrightarrow> q \<in> set m \<or> glob_shows [src] fs q"
    by (auto simp: expand_source_def glob_shows_def Let_def split: if_splits option.splits)
  moreover have "q \<in> set m' \<longleftrightarrow> q \<in> set m1 \<or> glob_shows srcs fs q"
    using Cons e by simp
  ultimately show ?case by (auto simp: glob_shows_def)
qed (simp add: glob_shows_def)

lemma discover_glob:
  assumes "distinct (map fst (dv_tailed d))" "map_of (dv_tailed d) q = Some h" "th_from_glob h"
  shows "map_of (dv_tailed (discover srcs fs d)) q =
    (if glob_shows srcs fs q then Some (h\<lparr>th_missed := 0\<rparr>)
     else if th_missed h + 1 < 2 then Some (h\<lparr>th_missed := th_missed h + 1\<rparr>) else None)"
proof -
  obtain m d1 where f: "fold (expand_source fs) srcs ([], d) = (m, d1)" by fastforce
  with expand_sources_keep [OF f] assms
  have "distinct (map fst (dv_tailed d1))" "map_of (dv_tailed d1) q = Some h" by simp_all
  moreover have "q \<in> set m \<longleftrightarrow> glob_shows srcs fs q" using expand_sources_matched [OF f] by simp
  ultimately show ?thesis
    using sweep_tailed [of d1 m q] f assms(3)
    by (simp add: discover_def sweep_keep_def sweep_handle_def)
qed


definition glob_source :: log_source where
  "glob_source = \<lparr>ls_type = ''file'', ls_path = ''/*.log''\<rparr>"

lemma glob_example:
  "dv_tailed (discover [glob_source] (fs_example [''/a.log'']) discovery_example)
     = [(''/a.log'', \<lparr>th_from_glob = True, th_missed = 0\<rparr>)]"
  by (simp add: discover_def expand_source_def has_glob_char_def fs_example_def discovery_example_def
      start_tailer_def sweep_def sweep_keep_def sweep_handle_def glob_source_def)


text \<open>
  A literal source listed after a glob that matches its path does not get a handle of its own, so
  its tailer is the glob's: it stops when the file is away for two scans, and its position is
  forgotten.
\<close>

lemma literal_behind_glob_stops:
  "let srcs = [glob_source, \<lparr>ls_type = ''file'', ls_path = ''/a.log''\<rparr>];
       d = fold (discover srcs) [fs_example [''/a.log''], fs_example [], fs_example []] discovery_example
   in dv_actions d = [StartTail ''/a.log'' True, StopTail ''/a.log''] \<and> dv_tailed d = []"
  by (simp add: discover_def expand_source_def has_glob_char_def fs_example_def discovery_example_def
      start_tailer_def sweep_def sweep_keep_def sweep_handle_def glob_source_def)

end
