(* ===== verification/LogProcessor.thy ===== *)
theory LogProcessor
  imports GoStrings
begin

text \<open>
  The line processor of a log source, \<^verbatim>\<open>internal/logs/processor.go\<close>: aggregation of multi-line
  messages, then the mask, exclude and include rules in their configured order. A compiled
  pattern is given by its two operations, the leftmost match and the replacement of all matches;
  the compiler of patterns is a parameter. Times and durations are nanoseconds.
\<close>

section \<open>Rules\<close>

record regex =
  rx_find :: "string \<Rightarrow> (nat \<times> nat) option"
  rx_replace_all :: "string \<Rightarrow> string \<Rightarrow> string"

definition rx_match :: "regex \<Rightarrow> string \<Rightarrow> bool" where
  "rx_match re s \<longleftrightarrow> rx_find re s \<noteq> None"

record processing_rule =
  rule_type :: string
  rule_pattern :: string
  rule_placeholder :: string

datatype rule = MaskSequences regex string | ExcludeAtMatch regex | IncludeAtMatch regex

record processor =
  pr_multiline :: "regex option"
  pr_flush_timeout :: int
  pr_rules :: "rule list"
  pr_pending :: "string list"
  pr_size :: nat
  pr_off :: int
  pr_ts :: int

definition default_poll_delay :: int where "default_poll_delay = 1000000000"
definition max_line_bytes :: nat where "max_line_bytes = 256 * 1024"

definition add_rule :: "(string \<Rightarrow> regex option) \<Rightarrow> processing_rule \<Rightarrow> processor \<Rightarrow> processor" where
  "add_rule compile r p =
     (if rule_pattern r = [] then p
      else case compile (rule_pattern r) of
        None \<Rightarrow> p
      | Some re \<Rightarrow>
          if rule_type r = ''multi_line'' then p\<lparr>pr_multiline := Some re\<rparr>
          else if rule_type r = ''mask_sequences'' then
            p\<lparr>pr_rules := pr_rules p @ [MaskSequences re (rule_placeholder r)]\<rparr>
          else if rule_type r = ''exclude_at_match'' then p\<lparr>pr_rules := pr_rules p @ [ExcludeAtMatch re]\<rparr>
          else if rule_type r = ''include_at_match'' then p\<lparr>pr_rules := pr_rules p @ [IncludeAtMatch re]\<rparr>
          else p)"

definition new_processor :: "(string \<Rightarrow> regex option) \<Rightarrow> processing_rule list \<Rightarrow> int \<Rightarrow> processor" where
  "new_processor compile rules timeout =
     fold (add_rule compile) rules
       \<lparr>pr_multiline = None, pr_flush_timeout = (if timeout \<le> 0 then default_poll_delay else timeout),
        pr_rules = [], pr_pending = [], pr_size = 0, pr_off = 0, pr_ts = 0\<rparr>"

section \<open>Lines\<close>

text \<open>\<open>finish\<close>: the rules in order; \<open>None\<close> when an exclude hits or an include misses.\<close>

fun finish_rules :: "rule list \<Rightarrow> string \<Rightarrow> int \<Rightarrow> (string \<times> int) option" where
  "finish_rules [] content off = Some (content, off)"
| "finish_rules (MaskSequences re ph # rs) content off = finish_rules rs (rx_replace_all re content ph) off"
| "finish_rules (ExcludeAtMatch re # rs) content off =
     (if rx_match re content then None else finish_rules rs content off)"
| "finish_rules (IncludeAtMatch re # rs) content off =
     (if \<not> rx_match re content then None else finish_rules rs content off)"

definition finish :: "processor \<Rightarrow> string \<Rightarrow> int \<Rightarrow> (string \<times> int) option" where
  "finish p content off = finish_rules (pr_rules p) content off"

definition starts_message :: "regex \<Rightarrow> string \<Rightarrow> bool" where
  "starts_message re raw = (case rx_find re raw of None \<Rightarrow> False | Some (a, b) \<Rightarrow> a = 0)"

definition append_line :: "string \<Rightarrow> int \<Rightarrow> int \<Rightarrow> processor \<Rightarrow> processor" where
  "append_line raw off now p =
     p\<lparr>pr_pending := pr_pending p @ [raw], pr_size := pr_size p + length raw + 1,
       pr_off := off, pr_ts := now\<rparr>"

definition joined :: "processor \<Rightarrow> string" where
  "joined p = join_with [CHR 0x0A] (pr_pending p)"

definition reset :: "processor \<Rightarrow> processor" where
  "reset p = p\<lparr>pr_pending := [], pr_size := 0, pr_off := 0\<rparr>"

definition aggregating :: "processor \<Rightarrow> bool" where
  "aggregating p \<longleftrightarrow> pr_multiline p \<noteq> None"

definition process_line :: "string \<Rightarrow> int \<Rightarrow> int \<Rightarrow> processor \<Rightarrow> (string \<times> int) option \<times> processor" where
  "process_line raw off now p =
     (case pr_multiline p of
        None \<Rightarrow> (finish p raw off, p)
      | Some re \<Rightarrow>
          if starts_message re raw \<and> pr_pending p \<noteq> [] then
            (finish p (joined p) (pr_off p), append_line raw off now (reset p))
          else
            let p1 = append_line raw off now p in
            if max_line_bytes < pr_size p1 then (finish p1 (joined p1) (pr_off p1), reset p1)
            else (None, p1))"

definition process_flush :: "int \<Rightarrow> bool \<Rightarrow> processor \<Rightarrow> (string \<times> int) option \<times> processor" where
  "process_flush now force p =
     (if pr_pending p = [] then (None, p)
      else if \<not> force \<and> now - pr_ts p < pr_flush_timeout p then (None, p)
      else (finish p (joined p) (pr_off p), reset p))"

section \<open>Rules in order\<close>

lemma new_processor_idle [simp]:
  "pr_pending (new_processor compile rules timeout) = []" "pr_size (new_processor compile rules timeout) = 0"
proof -
  have "pr_pending (fold (add_rule compile) rules p) = pr_pending p
      \<and> pr_size (fold (add_rule compile) rules p) = pr_size p" for p
    by (induction rules arbitrary: p) (auto simp: add_rule_def split: option.split)
  then show "pr_pending (new_processor compile rules timeout) = []" "pr_size (new_processor compile rules timeout) = 0"
    by (simp_all add: new_processor_def)
qed

lemma finish_append:
  "finish_rules (rs @ qs) c off =
     (case finish_rules rs c off of None \<Rightarrow> None | Some (c', off') \<Rightarrow> finish_rules qs c' off')"
  by (induction rs c off rule: finish_rules.induct) simp_all

lemma finish_offset: "finish p c off = Some (c', off') \<Longrightarrow> off' = off"
proof -
  have "finish_rules rs c off = Some (c', off') \<Longrightarrow> off' = off" for rs
    by (induction rs c off rule: finish_rules.induct) (auto split: if_splits)
  then show "finish p c off = Some (c', off') \<Longrightarrow> off' = off" by (simp add: finish_def)
qed

section \<open>Aggregation loses nothing\<close>

text \<open>A raw line with its end offset and the time it was read; a run over a list of them.\<close>

type_synonym raw_line = "string \<times> int \<times> int"

fun process_lines :: "raw_line list \<Rightarrow> processor \<Rightarrow> (string \<times> int) list \<times> processor" where
  "process_lines [] p = ([], p)"
| "process_lines ((raw, off, now) # ls) p =
     (let (r, p1) = process_line raw off now p; (rs, p2) = process_lines ls p1
      in ((case r of None \<Rightarrow> [] | Some m \<Rightarrow> [m]) @ rs, p2))"

text \<open>What a group of lines becomes: its lines joined, at the offset of the last, through the rules.\<close>

definition group_out :: "rule list \<Rightarrow> raw_line list \<Rightarrow> (string \<times> int) list" where
  "group_out rules g =
     (case finish_rules rules (join_with [CHR 0x0A] (map fst g)) (fst (snd (last g))) of
        None \<Rightarrow> [] | Some m \<Rightarrow> [m])"

definition pending_is :: "raw_line list \<Rightarrow> processor \<Rightarrow> bool" where
  "pending_is held p \<longleftrightarrow>
     pr_pending p = map fst held \<and> pr_size p = (\<Sum>l\<leftarrow>held. length (fst l) + 1)
     \<and> (held \<noteq> [] \<longrightarrow> pr_off p = fst (snd (last held)))"

definition group_ok :: "regex \<Rightarrow> raw_line list \<Rightarrow> bool" where
  "group_ok re g \<longleftrightarrow> g \<noteq> [] \<and> list_all (\<lambda>l. \<not> starts_message re (fst l)) (tl g)"

lemma group_ok_snoc:
  "group_ok re g \<Longrightarrow> \<not> starts_message re raw \<Longrightarrow> group_ok re (g @ [(raw, off, now)])"
  by (cases g) (auto simp: group_ok_def)

lemma process_line_config [frame]:
  "process_line raw off now p = (r, p') \<Longrightarrow> pr_rules p' = pr_rules p \<and> pr_multiline p' = pr_multiline p"
  by (auto simp: process_line_def append_line_def reset_def Let_def split: option.splits if_splits)

lemma process_line_step:
  assumes ml: "pr_multiline p = Some re" and held: "pending_is held p"
    and ok: "held \<noteq> [] \<Longrightarrow> group_ok re held" and size: "pr_size p \<le> max_line_bytes \<or> length held = 1"
    and step: "process_line raw off now p = (r, p')"
  shows "\<exists>gs held'. concat gs @ held' = held @ [(raw, off, now)]
    \<and> (case r of None \<Rightarrow> [] | Some m \<Rightarrow> [m]) = concat (map (group_out (pr_rules p)) gs)
    \<and> list_all (group_ok re) gs \<and> pending_is held' p' \<and> (held' \<noteq> [] \<longrightarrow> group_ok re held')
    \<and> (pr_size p' \<le> max_line_bytes \<or> length held' = 1)"
proof -
  let ?l = "(raw, off, now)"
  have empty: "pr_pending p = [] \<longleftrightarrow> held = []" using held by (auto simp: pending_is_def)
  have one: "pending_is [?l] (append_line raw off now (reset p))" "group_ok re [?l]"
    by (simp_all add: pending_is_def append_line_def reset_def group_ok_def)
  have more: "pending_is (held @ [?l]) (append_line raw off now p)"
    using held by (simp add: pending_is_def append_line_def)
  consider (start) "starts_message re raw" "held \<noteq> []"
    | (cap) "\<not> (starts_message re raw \<and> held \<noteq> [])" "max_line_bytes < pr_size (append_line raw off now p)"
    | (keep) "\<not> (starts_message re raw \<and> held \<noteq> [])" "pr_size (append_line raw off now p) \<le> max_line_bytes"
    by linarith
  then show ?thesis
  proof cases
    case start
    have "joined p = join_with [CHR 0x0A] (map fst held)" "pr_off p = fst (snd (last held))"
      using held start by (auto simp: pending_is_def joined_def)
    with start step ml empty have "p' = append_line raw off now (reset p)"
        "(case r of None \<Rightarrow> [] | Some m \<Rightarrow> [m]) = concat (map (group_out (pr_rules p)) [held])"
      by (auto simp: process_line_def finish_def group_out_def)
    with one start ok show ?thesis
      by (intro exI [of _ "[held]"] exI [of _ "[?l]"]) simp
  next
    case cap
    let ?p1 = "append_line raw off now p"
    have "joined ?p1 = join_with [CHR 0x0A] (map fst (held @ [?l]))" "pr_off ?p1 = off" "pr_rules ?p1 = pr_rules p"
      using more by (auto simp: pending_is_def joined_def append_line_def)
    with cap step ml empty have "p' = reset ?p1"
        "(case r of None \<Rightarrow> [] | Some m \<Rightarrow> [m]) = concat (map (group_out (pr_rules p)) [held @ [?l]])"
      by (auto simp: process_line_def finish_def group_out_def Let_def)
    moreover have "group_ok re (held @ [?l])"
      using cap ok group_ok_snoc [of re held raw off now] one(2) by (cases "held = []") auto
    moreover have "pending_is [] (reset ?p1)" "pr_size (reset ?p1) = 0" by (simp_all add: pending_is_def reset_def)
    ultimately show ?thesis by (intro exI [of _ "[held @ [?l]]"] exI [of _ "[]"]) simp
  next
    case keep
    with step ml empty have "p' = append_line raw off now p" "r = None"
      by (auto simp: process_line_def Let_def)
    moreover have "group_ok re (held @ [?l])"
      using keep ok group_ok_snoc [of re held raw off now] one(2) by (cases "held = []") auto
    ultimately show ?thesis using more keep by (intro exI [of _ "[]"] exI [of _ "held @ [?l]"]) simp
  qed
qed

lemma process_lines_groups:
  assumes "pr_multiline p = Some re" "pending_is held p" "held \<noteq> [] \<Longrightarrow> group_ok re held"
    "pr_size p \<le> max_line_bytes \<or> length held = 1" "process_lines ls p = (outs, p')"
  shows "\<exists>gs held'. concat gs @ held' = held @ ls \<and> outs = concat (map (group_out (pr_rules p)) gs)
    \<and> list_all (group_ok re) gs \<and> pending_is held' p' \<and> (held' \<noteq> [] \<longrightarrow> group_ok re held')
    \<and> (pr_size p' \<le> max_line_bytes \<or> length held' = 1)"
  using assms
proof (induction ls arbitrary: p held outs p')
  case Nil
  then show ?case by (intro exI [of _ "[]"] exI [of _ held]) auto
next
  case (Cons l ls)
  obtain raw off now where l: "l = (raw, off, now)" by (cases l)
  obtain r p1 where s: "process_line raw off now p = (r, p1)" by fastforce
  obtain rs p2 where t: "process_lines ls p1 = (rs, p2)" by fastforce
  have outs: "outs = (case r of None \<Rightarrow> [] | Some m \<Rightarrow> [m]) @ rs" "p' = p2"
    using Cons.prems(5) l s t by auto
  obtain gs held1 where g: "concat gs @ held1 = held @ [l]"
      "(case r of None \<Rightarrow> [] | Some m \<Rightarrow> [m]) = concat (map (group_out (pr_rules p)) gs)"
      "list_all (group_ok re) gs" "pending_is held1 p1" "held1 \<noteq> [] \<longrightarrow> group_ok re held1"
      "pr_size p1 \<le> max_line_bytes \<or> length held1 = 1"
    using process_line_step [OF Cons.prems(1,2,3,4) s] l by auto
  have cfg: "pr_rules p1 = pr_rules p" "pr_multiline p1 = Some re"
    using process_line_config [OF s] Cons.prems(1) by simp_all
  obtain gs' held' where g': "concat gs' @ held' = held1 @ ls"
      "rs = concat (map (group_out (pr_rules p)) gs')" "list_all (group_ok re) gs'" "pending_is held' p2"
      "held' \<noteq> [] \<longrightarrow> group_ok re held'" "pr_size p2 \<le> max_line_bytes \<or> length held' = 1"
    using Cons.IH [OF cfg(2) g(4) _ g(6) t] g(5) cfg(1) by auto
  show ?case
    using g g' outs by (intro exI [of _ "gs @ gs'"] exI [of _ held']) simp
qed

text \<open>
  Multi-line aggregation neither loses nor reorders a line: the lines read are the groups
  shipped, in order, followed by the lines still buffered; each group ships as its lines joined by
  newlines under the end offset of its last line, through the rules in their configured order; a
  start line only ever begins a group; and the buffer stays within the cap, unless it holds a
  single line.
\<close>

theorem multiline_lossless:
  assumes "pr_multiline p = Some re" "pr_pending p = []" "pr_size p = 0" "process_lines ls p = (outs, p')"
  shows "\<exists>groups held. concat groups @ held = ls \<and> outs = concat (map (group_out (pr_rules p)) groups)
    \<and> list_all (\<lambda>g. g \<noteq> [] \<and> list_all (\<lambda>l. \<not> starts_message re (fst l)) (tl g)) groups
    \<and> pr_pending p' = map fst held \<and> (pr_size p' \<le> max_line_bytes \<or> length held = 1)"
proof -
  have "pending_is [] p" using assms by (simp add: pending_is_def)
  from process_lines_groups [OF assms(1) this _ _ assms(4)] assms(3) show ?thesis
    by (auto simp: pending_is_def group_ok_def [abs_def])
qed

definition bracket_regex :: regex where
  "bracket_regex = \<lparr>rx_find = (\<lambda>s. map_option (\<lambda>i. (i, i + 1)) (index_byte CHR ''['' s)),
     rx_replace_all = (\<lambda>s ph. concat (map (\<lambda>c. if c = CHR ''['' then ph else [c]) s))\<rparr>"

definition processor_example :: processor where
  "processor_example = new_processor (\<lambda>pat. if pat = ''x['' then Some bracket_regex else None)
     [\<lparr>rule_type = ''multi_line'', rule_pattern = ''x['', rule_placeholder = []\<rparr>] 0"

lemma multiline_lossless_witness:
  "\<exists>groups held. concat groups @ held = [(''[a'', 3, 0), ('' at x'', 9, 1), (''[b'', 12, 2)]
     \<and> fst (process_lines [(''[a'', 3, 0), ('' at x'', 9, 1), (''[b'', 12, 2)] processor_example)
         = concat (map (group_out []) groups)
     \<and> list_all (\<lambda>g. list_all (\<lambda>l. \<not> starts_message bracket_regex (fst l)) (tl g)) groups"
proof -
  let ?ls = "[(''[a'', 3, 0), ('' at x'', 9, 1), (''[b'', 12, 2)] :: raw_line list"
  have p: "pr_multiline processor_example = Some bracket_regex" "pr_rules processor_example = []"
      "pr_pending processor_example = []" "pr_size processor_example = 0"
    by (simp_all add: processor_example_def) (simp_all add: new_processor_def add_rule_def)
  from multiline_lossless [OF p(1,3,4) surjective_pairing, of ?ls] p(2) show ?thesis
    by (auto simp: list_all_iff)
qed

end
