(* ===== verification/LogBatcher.thy ===== *)
theory LogBatcher
  imports LogRegistry MetricTypes Intake
begin

text \<open>
  Log messages and their payload (\<^verbatim>\<open>internal/logs/message.go\<close>) and the batcher that ships them
  and acknowledges them in the registry (\<^verbatim>\<open>batcher\<close> in \<^verbatim>\<open>internal/logs/agent.go\<close>). The batcher is a
  state machine over the cases its \<open>select\<close> statements pick; an event a \<open>select\<close> cannot pick in
  its current mode has no step.
\<close>

section \<open>Messages\<close>

record message =
  lm_content :: string
  lm_status :: string
  lm_timestamp :: "int option"
  lm_service :: string
  lm_source :: string
  lm_tags :: "string list"
  lm_source_id :: string
  lm_offset :: int
  lm_cursor :: string

text \<open>Times are nanoseconds since the epoch, the zero time is \<open>None\<close>.\<close>

definition unix_milli :: "int \<Rightarrow> int" where
  "unix_milli t = t div 1000000"

definition log_json :: "string \<Rightarrow> int \<Rightarrow> message \<Rightarrow> json" where
  "log_json hostname now m = JObj
     [(''message'', JStr (lm_content m)),
      (''status'', JStr (if lm_status m = [] then ''info'' else lm_status m)),
      (''timestamp'', JInt (unix_milli (case lm_timestamp m of None \<Rightarrow> now | Some t \<Rightarrow> t))),
      (''hostname'', JStr hostname), (''service'', JStr (lm_service m)),
      (''ddsource'', JStr (lm_source m)), (''ddtags'', JStr (join_with '','' (lm_tags m)))]"

definition marshal_logs :: "string \<Rightarrow> int \<Rightarrow> message list \<Rightarrow> json option" where
  "marshal_logs hostname now msgs = json_marshal (JArr (map (log_json hostname now) msgs))"

definition send_logs ::
  "client \<Rightarrow> endpoint list \<Rightarrow> string \<Rightarrow> int \<Rightarrow> message list \<Rightarrow> json net \<Rightarrow> post_result \<times> json net" where
  "send_logs c eps hostname now msgs nt =
     (if msgs = [] then ((0, None), nt)
      else case marshal_logs hostname now msgs of
        None \<Rightarrow> ((0, Some BuildFailed), nt)
      | Some body \<Rightarrow> post_all c eps body nt)"

section \<open>The batcher\<close>

record batcher_conf =
  bc_client :: client
  bc_endpoints :: "endpoint list"
  bc_hostname :: string
  bc_tags :: "string list"
  bc_max_size :: nat
  bc_max_bytes :: nat

record batcher =
  bt_batch :: "message list"
  bt_bytes :: nat
  bt_stuck :: bool
  bt_registry :: registry
  bt_net :: "json net"
  bt_done :: bool

datatype batch_event = Incoming message | InputClosed | BatchTick | ShutdownDone

definition acknowledge :: "message \<Rightarrow> registry \<Rightarrow> registry" where
  "acknowledge m r =
     (if lm_cursor m \<noteq> [] then advance_cursor (lm_source_id m) (lm_cursor m) r
      else advance (lm_source_id m) (lm_offset m) r)"

text \<open>\<open>send\<close>: whether the batch is settled.\<close>

definition batch_send :: "batcher_conf \<Rightarrow> int \<Rightarrow> message list \<Rightarrow> batcher \<Rightarrow> bool \<times> batcher" where
  "batch_send conf now msgs b =
     (let ((status, err), nt) = send_logs (bc_client conf) (bc_endpoints conf) (bc_hostname conf) now msgs (bt_net b);
          b' = b\<lparr>bt_net := nt\<rparr>
      in if err = None then (True, b'\<lparr>bt_registry := fold acknowledge msgs (bt_registry b)\<rparr>)
         else (permanent status, b'))"

definition batch_flush :: "batcher_conf \<Rightarrow> int \<Rightarrow> batcher \<Rightarrow> batcher" where
  "batch_flush conf now b =
     (if bt_batch b = [] then b
      else let (settled, b') = batch_send conf now (bt_batch b) b in
        if settled then b'\<lparr>bt_stuck := False, bt_batch := [], bt_bytes := 0\<rparr>
        else b'\<lparr>bt_stuck := True\<rparr>)"

definition combine_tags :: "string list \<Rightarrow> string list \<Rightarrow> string list" where
  "combine_tags a b = (if b = [] then a else a @ b)"

definition batch_append :: "message \<Rightarrow> batcher \<Rightarrow> batcher" where
  "batch_append m b =
     b\<lparr>bt_batch := bt_batch b @ [m], bt_bytes := bt_bytes b + length (lm_content m)\<rparr>"

definition batch_receive :: "batcher_conf \<Rightarrow> int \<Rightarrow> message \<Rightarrow> batcher \<Rightarrow> batcher" where
  "batch_receive conf now m0 b =
     (let m = m0\<lparr>lm_tags := combine_tags (lm_tags m0) (bc_tags conf)\<rparr>;
          b1 = (if bt_batch b \<noteq> [] \<and> bc_max_bytes conf < bt_bytes b + length (lm_content m)
                then batch_flush conf now b else b);
          b2 = batch_append m b1
      in if bc_max_size conf \<le> length (bt_batch b2) then batch_flush conf now b2 else b2)"

definition batch_step :: "batcher_conf \<Rightarrow> int \<Rightarrow> batch_event \<Rightarrow> batcher \<Rightarrow> batcher option" where
  "batch_step conf now ev b =
     (if bt_done b then None
      else if bt_stuck b then
        (case ev of
           ShutdownDone \<Rightarrow> Some (b\<lparr>bt_done := True\<rparr>)
         | BatchTick \<Rightarrow> Some (batch_flush conf now b)
         | _ \<Rightarrow> None)
      else
        (case ev of
           Incoming m \<Rightarrow> Some (batch_receive conf now m b)
         | InputClosed \<Rightarrow> Some ((batch_flush conf now b)\<lparr>bt_done := True\<rparr>)
         | BatchTick \<Rightarrow> Some (batch_flush conf now b)
         | ShutdownDone \<Rightarrow> None))"

fun batch_run :: "batcher_conf \<Rightarrow> (int \<times> batch_event) list \<Rightarrow> batcher \<Rightarrow> batcher option" where
  "batch_run conf [] b = Some b"
| "batch_run conf ((now, ev) # evs) b =
     (case batch_step conf now ev b of None \<Rightarrow> None | Some b' \<Rightarrow> batch_run conf evs b')"

definition new_batcher :: "registry \<Rightarrow> json net \<Rightarrow> batcher" where
  "new_batcher r nt = \<lparr>bt_batch = [], bt_bytes = 0, bt_stuck = False, bt_registry = r, bt_net = nt, bt_done = False\<rparr>"

section \<open>Payloads\<close>

lemma json_ok_logs: "list_all json_ok (map (log_json hostname now) msgs)"
  by (induction msgs) (simp_all add: log_json_def)

definition logs_body :: "string \<Rightarrow> int \<Rightarrow> message list \<Rightarrow> json" where
  "logs_body hostname now msgs = JArr (map (log_json hostname now) msgs)"

lemma marshal_logs_some: "marshal_logs hostname now msgs = Some (logs_body hostname now msgs)"
  using json_ok_logs by (simp add: marshal_logs_def json_marshal_def logs_body_def)

section \<open>Limits of a batch\<close>

definition batch_inv :: "batcher_conf \<Rightarrow> batcher \<Rightarrow> bool" where
  "batch_inv conf b \<longleftrightarrow>
     bt_bytes b = (\<Sum>m\<leftarrow>bt_batch b. length (lm_content m))
     \<and> length (bt_batch b) \<le> bc_max_size conf
     \<and> (\<not> bt_stuck b \<longrightarrow> length (bt_batch b) < bc_max_size conf)
     \<and> (bt_stuck b \<longrightarrow> bt_batch b \<noteq> [])"

lemma batch_flush_cases:
  obtains "bt_batch b = []" "batch_flush conf now b = b"
  | "bt_batch b \<noteq> []" "bt_batch (batch_flush conf now b) = []" "bt_bytes (batch_flush conf now b) = 0"
      "\<not> bt_stuck (batch_flush conf now b)" "bt_done (batch_flush conf now b) = bt_done b"
  | "bt_batch b \<noteq> []" "bt_batch (batch_flush conf now b) = bt_batch b" "bt_bytes (batch_flush conf now b) = bt_bytes b"
      "bt_stuck (batch_flush conf now b)" "bt_done (batch_flush conf now b) = bt_done b"
      "bt_registry (batch_flush conf now b) = bt_registry b"
proof (cases "bt_batch b = []")
  case True
  then show thesis by (intro that(1)) (simp_all add: batch_flush_def)
next
  case ne: False
  obtain ok b' where s: "batch_send conf now (bt_batch b) b = (ok, b')" by fastforce
  then have "bt_batch b' = bt_batch b" "bt_bytes b' = bt_bytes b" "bt_done b' = bt_done b"
      "\<not> ok \<Longrightarrow> bt_registry b' = bt_registry b"
    by (auto simp: batch_send_def Let_def split: prod.splits if_splits)
  with ne s show thesis
    by (cases ok) (auto simp: batch_flush_def intro: that)
qed

lemma batch_flush_inv:
  "batch_inv conf b \<or> bt_bytes b = (\<Sum>m\<leftarrow>bt_batch b. length (lm_content m)) \<and> length (bt_batch b) \<le> bc_max_size conf \<Longrightarrow>
     0 < bc_max_size conf \<Longrightarrow> bt_batch b \<noteq> [] \<or> batch_inv conf b \<Longrightarrow> batch_inv conf (batch_flush conf now b)"
  by (cases b rule: batch_flush_cases [of _ conf now]) (auto simp: batch_inv_def)

definition content_bytes :: "message list \<Rightarrow> nat" where
  "content_bytes ms = (\<Sum>m\<leftarrow>ms. length (lm_content m))"

lemma content_bytes_simps [simp]:
  "content_bytes [] = 0" "content_bytes (ms @ ns) = content_bytes ms + content_bytes ns"
  "content_bytes [m] = length (lm_content m)"
  by (simp_all add: content_bytes_def)

definition fits :: "nat \<Rightarrow> message list \<Rightarrow> bool" where
  "fits cap ms \<longleftrightarrow> length ms \<le> 1 \<or> content_bytes ms \<le> cap"

definition limits :: "batcher_conf \<Rightarrow> batcher \<Rightarrow> bool" where
  "limits conf b \<longleftrightarrow>
     bt_bytes b = content_bytes (bt_batch b)
     \<and> length (bt_batch b) \<le> bc_max_size conf
     \<and> fits (bc_max_bytes conf) (butlast (bt_batch b))
     \<and> (\<not> bt_stuck b \<longrightarrow> length (bt_batch b) < bc_max_size conf \<and> fits (bc_max_bytes conf) (bt_batch b))"

lemma fits_butlast: "fits cap ms \<Longrightarrow> fits cap (butlast ms)"
  by (cases ms rule: rev_cases) (auto simp: fits_def)

lemma limits_flush:
  assumes "0 < bc_max_size conf" "bt_bytes b = content_bytes (bt_batch b)"
    "length (bt_batch b) \<le> bc_max_size conf" "fits (bc_max_bytes conf) (butlast (bt_batch b))"
    "bt_batch b = [] \<Longrightarrow> limits conf b"
  shows "limits conf (batch_flush conf now b)"
  using assms by (cases b rule: batch_flush_cases [of _ conf now]) (auto simp: limits_def fits_def)

lemma limits_receive:
  assumes "0 < bc_max_size conf" "limits conf b" "\<not> bt_stuck b"
  shows "limits conf (batch_receive conf now m0 b)"
proof -
  define m where "m = m0\<lparr>lm_tags := combine_tags (lm_tags m0) (bc_tags conf)\<rparr>"
  define b1 where "b1 = (if bt_batch b \<noteq> [] \<and> bc_max_bytes conf < bt_bytes b + length (lm_content m)
                then batch_flush conf now b else b)"
  have b: "bt_bytes b = content_bytes (bt_batch b)" "length (bt_batch b) < bc_max_size conf"
      "fits (bc_max_bytes conf) (bt_batch b)"
    using assms(2,3) by (auto simp: limits_def)
  have b1: "bt_bytes b1 = content_bytes (bt_batch b1) \<and> length (bt_batch b1) < bc_max_size conf
      \<and> fits (bc_max_bytes conf) (bt_batch b1)
      \<and> (\<not> bt_stuck b1 \<longrightarrow> fits (bc_max_bytes conf) (bt_batch b1 @ [m]))"
    unfolding b1_def using b assms(1,3)
    by (cases b rule: batch_flush_cases [of _ conf now]) (auto simp: fits_def)
  then show ?thesis
    unfolding batch_receive_def Let_def m_def [symmetric] b1_def [symmetric]
    using limits_flush [OF assms(1), of "batch_append m b1"]
    by (auto simp: batch_append_def limits_def)
qed

lemma limits_step:
  assumes "0 < bc_max_size conf" "limits conf b" "batch_step conf now ev b = Some b'"
  shows "limits conf b'"
proof -
  have "limits conf (batch_flush conf now b)"
    using assms(1,2) by (intro limits_flush) (auto simp: limits_def)
  with assms limits_receive [OF assms(1,2)] show ?thesis
    by (auto simp: batch_step_def limits_def split: if_splits batch_event.splits)
qed

lemma limits_run:
  "0 < bc_max_size conf \<Longrightarrow> limits conf b \<Longrightarrow> batch_run conf evs b = Some b' \<Longrightarrow> limits conf b'"
  by (induction conf evs b rule: batch_run.induct) (auto split: option.splits intro: limits_step)

text \<open>
  At every moment a batch holds at most \<open>maxSize\<close> messages and, unless it is a single message,
  at most \<open>maxBytes\<close> of content, with one exception: a batch stuck behind a failed send may hold
  one message more than the cap allows.
\<close>

theorem batch_limits:
  assumes "0 < bc_max_size conf" "batch_run conf evs (new_batcher r nt) = Some b"
  shows "length (bt_batch b) \<le> bc_max_size conf
    \<and> (if bt_stuck b then fits (bc_max_bytes conf) (butlast (bt_batch b)) else fits (bc_max_bytes conf) (bt_batch b))"
proof -
  have "limits conf (new_batcher r nt)" using assms(1) by (simp add: limits_def new_batcher_def fits_def)
  from limits_run [OF assms(1) this assms(2)] show ?thesis by (auto simp: limits_def)
qed

definition batcher_example :: batcher_conf where
  "batcher_example = \<lparr>bc_client = new_client 1 0, bc_endpoints = [ep_example], bc_hostname = ''h'',
     bc_tags = [], bc_max_size = 3, bc_max_bytes = 8\<rparr>"

definition message_example :: "string \<Rightarrow> int \<Rightarrow> message" where
  "message_example s off = \<lparr>lm_content = s, lm_status = [], lm_timestamp = Some 0, lm_service = ''svc'',
     lm_source = ''src'', lm_tags = [], lm_source_id = ''file:/a'', lm_offset = off, lm_cursor = []\<rparr>"

definition logs_net :: "int option list \<Rightarrow> json net" where
  "logs_net rs = \<lparr>nt_replies = rs, nt_timers = [], nt_bad_urls = [], nt_acts = []\<rparr>"

lemma batch_limits_witness:
  "\<exists>b. batch_run batcher_example [(0, Incoming (message_example ''hello'' 6)), (1, BatchTick)]
       (new_batcher empty_registry (logs_net [Some 503])) = Some b \<and> bt_stuck b \<and> length (bt_batch b) \<le> 3"
proof -
  have run: "batch_run batcher_example [(0, Incoming (message_example ''hello'' 6)), (1, BatchTick)]
       (new_batcher empty_registry (logs_net [Some 503])) \<noteq> None
    \<and> bt_stuck (the (batch_run batcher_example [(0, Incoming (message_example ''hello'' 6)), (1, BatchTick)]
       (new_batcher empty_registry (logs_net [Some 503]))))"
    by code_simp
  then obtain b where b: "batch_run batcher_example [(0, Incoming (message_example ''hello'' 6)), (1, BatchTick)]
       (new_batcher empty_registry (logs_net [Some 503])) = Some b" "bt_stuck b" by auto
  with batch_limits [of batcher_example, OF _ b(1)] show ?thesis by (simp add: batcher_example_def)
qed

text \<open>
  The exception happens: when the flush that makes room fails, the message that needed the room
  is appended all the same, and the retry posts both.
\<close>

lemma stuck_batch_exceeds_cap:
  "\<exists>b. batch_run batcher_example
      [(0, Incoming (message_example ''hello'' 6)), (1, Incoming (message_example ''world'' 12))]
      (new_batcher empty_registry (logs_net [Some 503])) = Some b
    \<and> bt_stuck b \<and> length (bt_batch b) = 2 \<and> bc_max_bytes batcher_example < content_bytes (bt_batch b)"
proof -
  let ?b = "batch_run batcher_example
      [(0, Incoming (message_example ''hello'' 6)), (1, Incoming (message_example ''world'' 12))]
      (new_batcher empty_registry (logs_net [Some 503]))"
  have "?b \<noteq> None \<and> bt_stuck (the ?b) \<and> length (bt_batch (the ?b)) = 2
      \<and> bc_max_bytes batcher_example < content_bytes (bt_batch (the ?b))"
    by code_simp
  then show ?thesis by auto
qed

section \<open>Delivery and acknowledgement\<close>

definition received :: "batcher_conf \<Rightarrow> (int \<times> batch_event) list \<Rightarrow> message list" where
  "received conf evs = concat (map (\<lambda>(now, ev). case ev of
     Incoming m \<Rightarrow> [m\<lparr>lm_tags := combine_tags (lm_tags m) (bc_tags conf)\<rparr>] | _ \<Rightarrow> []) evs)"

text \<open>The batches settled so far: whether delivered, when, and the messages.\<close>

type_synonym settlement = "bool \<times> int \<times> message list"

definition settled_messages :: "settlement list \<Rightarrow> message list" where
  "settled_messages hist = concat (map (\<lambda>(ok, now, ms). ms) hist)"

definition delivered_messages :: "settlement list \<Rightarrow> message list" where
  "delivered_messages hist = concat (map (\<lambda>(ok, now, ms). if ok then ms else []) hist)"

definition delivered_bodies :: "string \<Rightarrow> settlement list \<Rightarrow> json list" where
  "delivered_bodies host hist = concat (map (\<lambda>(ok, now, ms). if ok then [logs_body host now ms] else []) hist)"

lemma hist_simps [simp]:
  "settled_messages [] = []" "delivered_messages [] = []" "delivered_bodies host [] = []"
  "settled_messages (hist @ [(ok, now, ms)]) = settled_messages hist @ ms"
  "delivered_messages (hist @ [(ok, now, ms)]) = delivered_messages hist @ (if ok then ms else [])"
  "delivered_bodies host (hist @ [(ok, now, ms)])
     = delivered_bodies host hist @ (if ok then [logs_body host now ms] else [])"
  by (simp_all add: settled_messages_def delivered_messages_def delivered_bodies_def)

text \<open>
  \<open>A\<close> bounds the answers the script can still give; a batch is refused only on a permanent one.
\<close>

definition batch_hist ::
  "batcher_conf \<Rightarrow> string \<times> string \<Rightarrow> int option set \<Rightarrow> batcher \<Rightarrow> message list \<Rightarrow> settlement list \<Rightarrow> batcher \<Rightarrow> bool"
  where
  "batch_hist conf d A b0 ms hist b \<longleftrightarrow>
     settled_messages hist @ bt_batch b = ms
     \<and> bt_registry b = fold acknowledge (delivered_messages hist) (bt_registry b0)
     \<and> acked d (bt_net b) = acked d (bt_net b0) @ delivered_bodies (bc_hostname conf) hist
     \<and> set (nt_replies (bt_net b)) \<subseteq> A
     \<and> ((\<exists>h \<in> set hist. \<not> fst h) \<longrightarrow> (\<exists>st. permanent st \<and> Some st \<in> A))"

lemma batch_hist_flush:
  assumes eps: "bc_endpoints conf = ep # eps" "dest ep \<notin> dest ` set eps"
    and h: "batch_hist conf (dest ep) A b0 ms hist b"
  shows "\<exists>hist'. batch_hist conf (dest ep) A b0 ms hist' (batch_flush conf now b)"
proof (cases "bt_batch b = []")
  case True
  with h show ?thesis by (auto simp: batch_flush_def)
next
  case ne: False
  let ?body = "logs_body (bc_hostname conf) now (bt_batch b)"
  obtain st er nt where p: "post_all (bc_client conf) (ep # eps) ?body (bt_net b) = ((st, er), nt)"
    by (metis prod.exhaust)
  have sent: "send_logs (bc_client conf) (bc_endpoints conf) (bc_hostname conf) now (bt_batch b) (bt_net b) = ((st, er), nt)"
    using ne eps p by (simp add: send_logs_def marshal_logs_some)
  note ack = poster.post_cases [OF fan_out_poster [OF eps(2)] p]
  have rep: "(permanent st \<longrightarrow> Some st \<in> A) \<and> set (nt_replies nt) \<subseteq> A"
    using post_all_status [OF _ p, of A] h by (simp add: batch_hist_def)
  show ?thesis
  proof (cases "er = None \<or> permanent st")
    case True
    have "batch_hist conf (dest ep) A b0 ms (hist @ [(er = None, now, bt_batch b)]) (batch_flush conf now b)"
      using True h ack rep ne sent unfolding batch_hist_def
      by (auto simp: batch_flush_def batch_send_def)
    then show ?thesis by blast
  next
    case False
    then have "batch_hist conf (dest ep) A b0 ms hist (batch_flush conf now b)"
      using h ack rep ne sent unfolding batch_hist_def
      by (auto simp: batch_flush_def batch_send_def)
    then show ?thesis by blast
  qed
qed

lemma batch_hist_append:
  "batch_hist conf d A b0 ms hist b \<Longrightarrow> batch_hist conf d A b0 (ms @ [m]) hist (batch_append m b)"
  by (auto simp: batch_hist_def batch_append_def)

lemma batch_hist_done:
  "batch_hist conf d A b0 ms hist (b\<lparr>bt_done := x\<rparr>) \<longleftrightarrow> batch_hist conf d A b0 ms hist b"
  by (simp add: batch_hist_def)

lemma batch_hist_step:
  assumes eps: "bc_endpoints conf = ep # eps" "dest ep \<notin> dest ` set eps"
    and h: "batch_hist conf (dest ep) A b0 ms hist b" and s: "batch_step conf now ev b = Some b'"
  shows "\<exists>hist'. batch_hist conf (dest ep) A b0 (ms @ received conf [(now, ev)]) hist' b'"
proof (cases ev)
  case (Incoming m0)
  define m where "m = m0\<lparr>lm_tags := combine_tags (lm_tags m0) (bc_tags conf)\<rparr>"
  obtain h1 where h1: "batch_hist conf (dest ep) A b0 ms h1
      (if bt_batch b \<noteq> [] \<and> bc_max_bytes conf < bt_bytes b + length (lm_content m)
       then batch_flush conf now b else b)" (is "batch_hist _ _ _ _ _ _ ?b1")
    using h batch_hist_flush [OF eps h] by (cases "bt_batch b \<noteq> [] \<and> bc_max_bytes conf < bt_bytes b + length (lm_content m)") auto
  note h2 = batch_hist_append [OF h1, of m]
  have b': "b' = (if bc_max_size conf \<le> length (bt_batch (batch_append m ?b1))
      then batch_flush conf now (batch_append m ?b1) else batch_append m ?b1)"
    using s Incoming by (auto simp: batch_step_def batch_receive_def m_def Let_def split: if_splits)
  show ?thesis
    unfolding b' using h2 batch_hist_flush [OF eps h2] Incoming by (auto simp: received_def m_def)
next
  case InputClosed
  with s batch_hist_flush [OF eps h] show ?thesis
    by (auto simp: batch_step_def received_def batch_hist_done split: if_splits)
next
  case BatchTick
  with s batch_hist_flush [OF eps h] show ?thesis
    by (auto simp: batch_step_def received_def split: if_splits)
next
  case ShutdownDone
  with s h show ?thesis
    by (auto simp: batch_step_def received_def batch_hist_done split: if_splits)
qed

lemma received_Cons: "received conf (e # evs) = received conf [e] @ received conf evs"
  by (simp add: received_def)

lemma batch_hist_run:
  assumes eps: "bc_endpoints conf = ep # eps" "dest ep \<notin> dest ` set eps"
  shows "batch_hist conf (dest ep) A b0 ms hist b \<Longrightarrow> batch_run conf evs b = Some b' \<Longrightarrow>
    \<exists>hist'. batch_hist conf (dest ep) A b0 (ms @ received conf evs) hist' b'"
proof (induction evs arbitrary: ms hist b)
  case Nil
  then show ?case by (auto simp: received_def)
next
  case (Cons e evs)
  obtain now ev where e: "e = (now, ev)" by (cases e)
  with Cons.prems(2) obtain b1 where s: "batch_step conf now ev b = Some b1" "batch_run conf evs b1 = Some b'"
    by (auto split: option.splits)
  obtain h1 where "batch_hist conf (dest ep) A b0 (ms @ received conf [e]) h1 b1"
    using batch_hist_step [OF eps Cons.prems(1) s(1)] e by blast
  from Cons.IH [OF this s(2)] show ?case
    using received_Cons [of conf e evs] by simp
qed

lemma batch_hist_new:
  "set (nt_replies nt) \<subseteq> A \<Longrightarrow> batch_hist conf d A (new_batcher r nt) [] [] (new_batcher r nt)"
  by (simp add: batch_hist_def new_batcher_def)

text \<open>
  Whatever the network answers and however ticks, arrivals and shutdown interleave, the batcher
  settles the messages it received in order and each once; the messages acknowledged in the
  registry are exactly those of the batches the primary accepted, and the rest are still held.
\<close>

theorem batch_settles_in_order:
  assumes "bc_endpoints conf = ep # eps" "dest ep \<notin> dest ` set eps"
    and "batch_run conf evs (new_batcher r nt) = Some b"
  shows "\<exists>hist. settled_messages hist @ bt_batch b = received conf evs
    \<and> bt_registry b = fold acknowledge (delivered_messages hist) r
    \<and> acked (dest ep) (bt_net b) = acked (dest ep) nt @ delivered_bodies (bc_hostname conf) hist"
  using batch_hist_run [OF assms(1,2) batch_hist_new [OF order_refl] assms(3)]
  by (auto simp: batch_hist_def new_batcher_def)

lemma batch_settles_in_order_witness:
  "\<exists>b hist. batch_run batcher_example [(0, Incoming (message_example ''a'' 2)), (1, BatchTick), (2, BatchTick)]
      (new_batcher empty_registry (logs_net [Some 503, Some 202])) = Some b
    \<and> settled_messages hist @ bt_batch b = [message_example ''a'' 2] \<and> bt_batch b = []
    \<and> bt_registry b = fold acknowledge (delivered_messages hist) empty_registry"
proof -
  let ?evs = "[(0, Incoming (message_example ''a'' 2)), (1, BatchTick), (2, BatchTick)]"
  let ?run = "batch_run batcher_example ?evs (new_batcher empty_registry (logs_net [Some 503, Some 202]))"
  have "?run \<noteq> None \<and> bt_batch (the ?run) = []" by code_simp
  then obtain b where b: "?run = Some b" "bt_batch b = []" by auto
  have "received batcher_example ?evs = [message_example ''a'' 2]"
    by (simp add: received_def batcher_example_def combine_tags_def)
  with b batch_settles_in_order [of batcher_example ep_example "[]" ?evs empty_registry "logs_net [Some 503, Some 202]" b]
  show ?thesis by (auto simp: batcher_example_def)
qed

section \<open>The registry and the stream\<close>

definition offset_acks :: "message list \<Rightarrow> (string \<times> int) list" where
  "offset_acks ms = map (\<lambda>m. (lm_source_id m, lm_offset m)) (filter (\<lambda>m. lm_cursor m = []) ms)"

lemma acks_offsets:
  "(\<And>i. map_of (rg_offsets r) i = map_of (rg_offsets r') i) \<Longrightarrow>
     map_of (rg_offsets (fold acknowledge ms r)) j
       = map_of (rg_offsets (fold (\<lambda>(i, p). advance i p) (offset_acks ms) r')) j"
proof (induction ms arbitrary: r r')
  case (Cons m ms)
  show ?case
  proof (cases "lm_cursor m = []")
    case True
    with Cons.prems show ?thesis
      using Cons.IH [of "advance (lm_source_id m) (lm_offset m) r" "advance (lm_source_id m) (lm_offset m) r'"]
      by (simp add: offset_acks_def acknowledge_def)
  next
    case False
    with Cons.prems show ?thesis
      using Cons.IH [of "advance_cursor (lm_source_id m) (lm_cursor m) r" r']
      by (simp add: offset_acks_def acknowledge_def)
  qed
qed (simp add: offset_acks_def)

lemma acks_position:
  "map_of (rg_offsets (fold acknowledge ms r)) j =
     (case filter (\<lambda>m. lm_source_id m = j \<and> lm_cursor m = []) ms of
        [] \<Rightarrow> map_of (rg_offsets r) j | qs \<Rightarrow> Some (lm_offset (last qs)))"
proof -
  have "filter (\<lambda>(i, p). i = j) (offset_acks ms)
      = map (\<lambda>m. (lm_source_id m, lm_offset m)) (filter (\<lambda>m. lm_source_id m = j \<and> lm_cursor m = []) ms)"
    by (induction ms) (simp_all add: offset_acks_def)
  then show ?thesis
    using acks_offsets [of r r ms j] offsets.puts_pos [of "offset_acks ms" r j]
    by (auto simp: list_all_iff last_map split: list.splits)
qed

text \<open>
  C2. While the intake refuses nothing for good, the registry never runs ahead of delivery: what has
  been delivered is an initial part of the received stream, everything after it is still in the
  batch, and the offset recorded for a file is that of its last delivered line, so a restart from
  the registry re-reads every line that was not delivered.
\<close>

theorem registry_never_ahead:
  assumes "bc_endpoints conf = ep # eps" "dest ep \<notin> dest ` set eps"
    and "batch_run conf evs (new_batcher r nt) = Some b"
    and "\<forall>st. permanent st \<longrightarrow> Some st \<notin> set (nt_replies nt)"
  shows "\<exists>hist. received conf evs = delivered_messages hist @ bt_batch b
    \<and> acked (dest ep) (bt_net b) = acked (dest ep) nt @ delivered_bodies (bc_hostname conf) hist
    \<and> (\<forall>j. map_of (rg_offsets (bt_registry b)) j =
         (case filter (\<lambda>m. lm_source_id m = j \<and> lm_cursor m = []) (delivered_messages hist) of
            [] \<Rightarrow> map_of (rg_offsets r) j | qs \<Rightarrow> Some (lm_offset (last qs))))"
proof -
  obtain hist where h: "batch_hist conf (dest ep) (set (nt_replies nt)) (new_batcher r nt) (received conf evs) hist b"
    using batch_hist_run [OF assms(1,2) batch_hist_new [OF order_refl] assms(3)] by auto
  then have "\<forall>h \<in> set hist. fst h" using assms(4) by (auto simp: batch_hist_def)
  then have "delivered_messages hist = settled_messages hist"
    by (induction hist) (auto simp: delivered_messages_def settled_messages_def)
  with h show ?thesis
    by (intro exI [of _ hist]) (simp add: batch_hist_def new_batcher_def acks_position)
qed

lemma registry_never_ahead_witness:
  "\<exists>b hist. batch_run batcher_example [(0, Incoming (message_example ''a'' 2)), (1, BatchTick)]
      (new_batcher empty_registry (logs_net [Some 202])) = Some b
    \<and> [message_example ''a'' 2] = delivered_messages hist @ bt_batch b"
proof -
  let ?evs = "[(0, Incoming (message_example ''a'' 2)), (1, BatchTick)]"
  let ?run = "batch_run batcher_example ?evs (new_batcher empty_registry (logs_net [Some 202]))"
  have "?run \<noteq> None" by code_simp
  then obtain b where b: "?run = Some b" by auto
  have "received batcher_example ?evs = [message_example ''a'' 2]"
    by (simp add: received_def batcher_example_def combine_tags_def)
  with b registry_never_ahead [of batcher_example ep_example "[]" ?evs empty_registry "logs_net [Some 202]" b]
  show ?thesis by (auto simp: batcher_example_def logs_net_def permanent_def)
qed

text \<open>
  A batch the intake refuses for good is dropped unacknowledged, but the next delivered batch of
  the same file records a later offset, so a restart does not re-read the refused lines.
\<close>

lemma refused_batch_is_skipped:
  "\<exists>b. batch_run batcher_example
      [(0, Incoming (message_example ''lost'' 5)), (1, BatchTick),
       (2, Incoming (message_example ''kept'' 10)), (3, BatchTick)]
      (new_batcher empty_registry (logs_net [Some 413, Some 202])) = Some b
    \<and> acked (dest ep_example) (bt_net b) = [logs_body ''h'' 3 [message_example ''kept'' 10]]
    \<and> offset_of ''file:/a'' (bt_registry b) = 10"
proof -
  let ?run = "batch_run batcher_example
      [(0, Incoming (message_example ''lost'' 5)), (1, BatchTick),
       (2, Incoming (message_example ''kept'' 10)), (3, BatchTick)]
      (new_batcher empty_registry (logs_net [Some 413, Some 202]))"
  have "?run \<noteq> None \<and> acked (dest ep_example) (bt_net (the ?run)) = [logs_body ''h'' 3 [message_example ''kept'' 10]]
      \<and> offset_of ''file:/a'' (bt_registry (the ?run)) = 10"
    by code_simp
  then show ?thesis by auto
qed

end
