(* ===== verification/LogTailer.thy ===== *)
theory LogTailer
  imports LogProcessor LogBatcher
begin

text \<open>
  The tailer of one file, \<^verbatim>\<open>internal/logs/tailer.go\<close>: lines out of read chunks (\<^verbatim>\<open>emit\<close>), the
  channel to the batcher (\<^verbatim>\<open>send\<close>), and the poll loop of \<^verbatim>\<open>run\<close> with its handling of new,
  truncated and rotated files. The channel is a script of whether each send finds room before the
  context ends; once it says no, the tailer stops. The file system answers each poll with what
  opening, reading and stating the file gave.
\<close>

section \<open>Sending\<close>

record source =
  src_service :: string
  src_source :: string
  src_tags :: "string list"

record outbox =
  ob_room :: "bool list"
  ob_sent :: "message list"

record tailer =
  tl_source :: source
  tl_id :: string
  tl_proc :: processor

definition tail_message :: "tailer \<Rightarrow> int \<Rightarrow> string \<Rightarrow> int \<Rightarrow> message" where
  "tail_message t now line off =
     \<lparr>lm_content = line, lm_status = [], lm_timestamp = Some now, lm_service = src_service (tl_source t),
      lm_source = src_source (tl_source t), lm_tags = src_tags (tl_source t), lm_source_id = tl_id t,
      lm_offset = off, lm_cursor = []\<rparr>"

definition tail_send :: "tailer \<Rightarrow> int \<Rightarrow> string \<Rightarrow> int \<Rightarrow> outbox \<Rightarrow> bool \<times> outbox" where
  "tail_send t now line off ob =
     (case ob_room ob of
        True # rs \<Rightarrow> (True, ob\<lparr>ob_room := rs, ob_sent := ob_sent ob @ [tail_message t now line off]\<rparr>)
      | _ \<Rightarrow> (False, ob\<lparr>ob_room := tl (ob_room ob)\<rparr>))"

text \<open>A processed line is sent when the rules kept it.\<close>

definition send_ready :: "tailer \<Rightarrow> int \<Rightarrow> (string \<times> int) option \<Rightarrow> outbox \<Rightarrow> bool \<times> outbox" where
  "send_ready t now ready ob =
     (case ready of None \<Rightarrow> (True, ob) | Some (content, off) \<Rightarrow> tail_send t now content off ob)"

definition feed_line :: "int \<Rightarrow> string \<Rightarrow> int \<Rightarrow> tailer \<Rightarrow> outbox \<Rightarrow> bool \<times> tailer \<times> outbox" where
  "feed_line now line off t ob =
     (let (ready, proc) = process_line line off now (tl_proc t);
          t' = t\<lparr>tl_proc := proc\<rparr>;
          (ok, ob') = send_ready t' now ready ob
      in (ok, t', ob'))"

section \<open>Lines out of chunks\<close>

record emit_state =
  em_tailer :: tailer
  em_offset :: int
  em_partial :: string
  em_outbox :: outbox

function emit_loop :: "int \<Rightarrow> emit_state \<Rightarrow> bool \<times> emit_state" where
  "emit_loop now s =
     (case index_byte CHR 0x0A (em_partial s) of
        None \<Rightarrow> (True, s)
      | Some i \<Rightarrow>
          let line = trim_right_of [CHR 0x0D] (take i (em_partial s));
              s1 = s\<lparr>em_offset := em_offset s + int (i + 1), em_partial := drop (i + 1) (em_partial s)\<rparr>
          in if line = [] \<and> \<not> aggregating (tl_proc (em_tailer s1)) then emit_loop now s1
             else let (ok, t, ob) = feed_line now line (em_offset s1) (em_tailer s1) (em_outbox s1);
                      s2 = s1\<lparr>em_tailer := t, em_outbox := ob\<rparr>
                  in if ok then emit_loop now s2 else (False, s2))"
  by pat_completeness auto
termination
  by (relation "measure (\<lambda>(now, s). length (em_partial s))") (auto dest!: index_byte_Some)

declare emit_loop.simps [simp del]

definition emit_rest :: "int \<Rightarrow> emit_state \<Rightarrow> bool \<times> emit_state" where
  "emit_rest now s =
     (if max_line_bytes < length (em_partial s) then
        (let s1 = s\<lparr>em_offset := em_offset s + int (length (em_partial s))\<rparr>;
             (ok, t, ob) = feed_line now (em_partial s) (em_offset s1) (em_tailer s1) (em_outbox s1);
             s2 = s1\<lparr>em_tailer := t, em_outbox := ob\<rparr>
         in if ok then (True, s2\<lparr>em_partial := []\<rparr>) else (False, s2))
      else (True, s))"

definition emit :: "int \<Rightarrow> string \<Rightarrow> emit_state \<Rightarrow> bool \<times> emit_state" where
  "emit now data s =
     (case emit_loop now (s\<lparr>em_partial := em_partial s @ data\<rparr>) of
        (False, s') \<Rightarrow> (False, s')
      | (True, s') \<Rightarrow> emit_rest now s')"

section \<open>The poll loop\<close>

record tail_state =
  ts_emit :: emit_state
  ts_open :: "nat option"
  ts_resume :: bool
  ts_stopped :: bool

text \<open>
  One pass of the loop as the operating system sees it: what \<open>Open\<close> and \<open>Stat\<close> of the new handle
  give (inode and size; a failed \<open>Stat\<close> counts as size zero), the chunks the reads return up to
  the end of the file, what the path and the handle resolve to afterwards, the clock, and whether
  the sleep ends before the context.
\<close>

record poll =
  po_open :: "(nat \<times> int) option"
  po_reads :: "string list"
  po_path :: "(nat \<times> int) option"
  po_handle :: "nat option"
  po_now :: int
  po_sleep :: bool

definition rotated :: "poll \<Rightarrow> int \<Rightarrow> bool" where
  "rotated p off =
     (case po_path p of
        None \<Rightarrow> True
      | Some (inode, sz) \<Rightarrow>
          (case po_handle p of None \<Rightarrow> True | Some h \<Rightarrow> inode \<noteq> h \<or> sz < off))"

definition open_file :: "poll \<Rightarrow> nat \<Rightarrow> int \<Rightarrow> tail_state \<Rightarrow> tail_state" where
  "open_file p inode sz s =
     (let off = (if \<not> ts_resume s then sz
                 else if sz < em_offset (ts_emit s) then 0 else em_offset (ts_emit s))
      in s\<lparr>ts_open := Some inode, ts_resume := True,
           ts_emit := (ts_emit s)\<lparr>em_offset := off, em_partial := []\<rparr>\<rparr>)"

fun read_chunks :: "int \<Rightarrow> string list \<Rightarrow> emit_state \<Rightarrow> bool \<times> emit_state" where
  "read_chunks now [] s = (True, s)"
| "read_chunks now (c # cs) s =
     (if c = [] then read_chunks now cs s
      else case emit now c s of (False, s') \<Rightarrow> (False, s') | (True, s') \<Rightarrow> read_chunks now cs s')"

definition flush_pending :: "int \<Rightarrow> bool \<Rightarrow> emit_state \<Rightarrow> bool \<times> emit_state" where
  "flush_pending now force s =
     (let (ready, proc) = process_flush now force (tl_proc (em_tailer s));
          t = (em_tailer s)\<lparr>tl_proc := proc\<rparr>;
          (ok, ob) = send_ready t now ready (em_outbox s)
      in (ok, s\<lparr>em_tailer := t, em_outbox := ob\<rparr>))"

definition close_rotated :: "int \<Rightarrow> emit_state \<Rightarrow> bool \<times> emit_state" where
  "close_rotated now s =
     (let (ok, s1) =
            (if em_partial s = [] then (True, s)
             else let off = em_offset s + int (length (em_partial s));
                      (ok, t, ob) = feed_line now (em_partial s) off (em_tailer s) (em_outbox s);
                      s1 = s\<lparr>em_offset := off, em_tailer := t, em_outbox := ob\<rparr>
                  in if ok then (True, s1\<lparr>em_partial := []\<rparr>) else (False, s1))
      in if \<not> ok then (False, s1)
         else let (ok2, s2) = flush_pending now True s1
              in if \<not> ok2 then (False, s2) else (True, s2\<lparr>em_offset := 0\<rparr>))"

definition tail_poll :: "poll \<Rightarrow> tail_state \<Rightarrow> tail_state" where
  "tail_poll p s =
     (if ts_stopped s then s
      else if ts_open s = None \<and> po_open p = None then
        (if po_sleep p then s else s\<lparr>ts_stopped := True\<rparr>)
      else
        let s0 = (case (ts_open s, po_open p) of
                    (None, Some (inode, sz)) \<Rightarrow> open_file p inode sz s
                  | _ \<Rightarrow> s);
            (ok1, e1) = read_chunks (po_now p) (po_reads p) (ts_emit s0)
        in if \<not> ok1 then s0\<lparr>ts_emit := e1, ts_stopped := True\<rparr>
           else let (ok2, e2) = flush_pending (po_now p) False e1
             in if \<not> ok2 then s0\<lparr>ts_emit := e2, ts_stopped := True\<rparr>
                else if rotated p (em_offset e2) then
                  (let (ok3, e3) = close_rotated (po_now p) e2
                   in if \<not> ok3 then s0\<lparr>ts_emit := e3, ts_stopped := True\<rparr>
                      else s0\<lparr>ts_emit := e3, ts_open := None\<rparr>)
                else if po_sleep p then s0\<lparr>ts_emit := e2\<rparr>
                else s0\<lparr>ts_emit := e2, ts_stopped := True\<rparr>)"

definition new_tail :: "(string \<Rightarrow> regex option) \<Rightarrow> processing_rule list \<Rightarrow> int \<Rightarrow> source \<Rightarrow> string \<Rightarrow>
    registry \<Rightarrow> bool list \<Rightarrow> tail_state" where
  "new_tail compile rules poll_delay src ident r room =
     \<lparr>ts_emit = \<lparr>em_tailer = \<lparr>tl_source = src, tl_id = ident,
                               tl_proc = new_processor compile rules poll_delay\<rparr>,
                 em_offset = fst (position ident r), em_partial = [],
                 em_outbox = \<lparr>ob_room = room, ob_sent = []\<rparr>\<rparr>,
      ts_open = None, ts_resume = snd (position ident r), ts_stopped = False\<rparr>"

section \<open>Lines of a text\<close>

text \<open>The complete lines of a text that starts at an offset, each with its end offset.\<close>

fun text_lines :: "int \<Rightarrow> string list \<Rightarrow> (string \<times> int) list" where
  "text_lines off (l # m # ls) =
     (l, off + int (length l) + 1) # text_lines (off + int (length l) + 1) (m # ls)"
| "text_lines off ls = []"

definition nl_split :: "string \<Rightarrow> string list" where
  "nl_split s = split_on CHR 0x0A s"

definition lines_in :: "bool \<Rightarrow> int \<Rightarrow> int \<Rightarrow> string \<Rightarrow> raw_line list" where
  "lines_in agg now off s =
     filter (\<lambda>(l, _). l \<noteq> [] \<or> agg)
       (map (\<lambda>(l, e). (trim_right_of [CHR 0x0D] l, e, now)) (text_lines off (nl_split s)))"

definition rest_of :: "string \<Rightarrow> string" where
  "rest_of s = last (nl_split s)"

lemma text_lines_Cons: "ls \<noteq> [] \<Longrightarrow> text_lines off (l # ls) =
    (l, off + int (length l) + 1) # text_lines (off + int (length l) + 1) ls"
  by (cases ls) auto

lemma nl_split_absent: "CHR 0x0A \<notin> set s \<Longrightarrow> nl_split s = [s]"
  by (simp add: nl_split_def split_on_absent)

lemma nl_split_present: "CHR 0x0A \<notin> set a \<Longrightarrow> nl_split (a @ CHR 0x0A # b) = a # nl_split b"
  by (simp add: nl_split_def split_on_present)

lemma nl_split_not_Nil [simp]: "nl_split s \<noteq> []"
  by (simp add: nl_split_def)

lemma lines_in_absent:
  "CHR 0x0A \<notin> set s \<Longrightarrow> lines_in agg now off s = []" "CHR 0x0A \<notin> set s \<Longrightarrow> rest_of s = s"
  by (simp_all add: lines_in_def rest_of_def nl_split_absent)

lemma lines_in_present:
  "CHR 0x0A \<notin> set a \<Longrightarrow> lines_in agg now off (a @ CHR 0x0A # b) =
     (if trim_right_of [CHR 0x0D] a \<noteq> [] \<or> agg
      then [(trim_right_of [CHR 0x0D] a, off + int (length a) + 1, now)] else [])
     @ lines_in agg now (off + int (length a) + 1) b"
  "CHR 0x0A \<notin> set a \<Longrightarrow> rest_of (a @ CHR 0x0A # b) = rest_of b"
  by (simp_all add: lines_in_def rest_of_def nl_split_present text_lines_Cons)

lemma index_byte_split:
  assumes "index_byte c s = Some i"
  shows "s = take i s @ c # drop (i + 1) s" "c \<notin> set (take i s)" "i < length s"
  using index_byte_Some [OF assms] id_take_nth_drop [of i s] by simp_all

lemma newline_cases:
  obtains "CHR 0x0A \<notin> set s"
  | a b where "s = a @ CHR 0x0A # b" "CHR 0x0A \<notin> set a"
  by (meson split_list_first)

lemma rest_of_length: "length (rest_of s) \<le> length s"
proof (induction s rule: length_induct)
  case (1 s)
  show ?case
  proof (cases s rule: newline_cases)
    case 1
    then show ?thesis by (simp add: lines_in_absent)
  next
    case (2 a b)
    then have "length (rest_of b) \<le> length b" using "1.IH" by simp
    with 2 show ?thesis by (simp add: lines_in_present)
  qed
qed

text \<open>The lines of a text do not depend on where it is cut.\<close>

lemma lines_in_append:
  "lines_in agg now off (s @ t) = lines_in agg now off s
     @ lines_in agg now (off + int (length s) - int (length (rest_of s))) (rest_of s @ t)
   \<and> rest_of (s @ t) = rest_of (rest_of s @ t)"
proof (induction s arbitrary: off rule: length_induct)
  case (1 s)
  show ?case
  proof (cases s rule: newline_cases)
    case 1
    then show ?thesis by (simp add: lines_in_absent)
  next
    case (2 a b)
    then have "lines_in agg now (off + int (length a) + 1) (b @ t) =
        lines_in agg now (off + int (length a) + 1) b
        @ lines_in agg now (off + int (length a) + 1 + int (length b) - int (length (rest_of b))) (rest_of b @ t)
      \<and> rest_of (b @ t) = rest_of (rest_of b @ t)"
      using "1.IH" by simp
    with 2 show ?thesis by (simp add: lines_in_present algebra_simps)
  qed
qed

lemma process_lines_append:
  "process_lines (a @ b) p =
     (let (o1, p1) = process_lines a p; (o2, p2) = process_lines b p1 in (o1 @ o2, p2))"
  by (induction a p rule: process_lines.induct) (auto simp: Let_def split: prod.splits)

section \<open>The emit loop\<close>

definition room_of :: "outbox \<Rightarrow> nat" where
  "room_of ob = length (takeWhile (\<lambda>b. b) (ob_room ob))"

definition messages_of :: "tailer \<Rightarrow> int \<Rightarrow> (string \<times> int) list \<Rightarrow> message list" where
  "messages_of t now outs = map (\<lambda>(c, e). tail_message t now c e) outs"

text \<open>
  What feeding a list of lines does: the messages go out while there is room, and the first one
  without room ends everything.
\<close>

definition fed :: "int \<Rightarrow> raw_line list \<Rightarrow> tailer \<Rightarrow> outbox \<Rightarrow> bool \<Rightarrow> tailer \<Rightarrow> outbox \<Rightarrow> bool" where
  "fed now ls t ob ok t' ob' \<longleftrightarrow>
     (let outs = fst (process_lines ls (tl_proc t)) in
      ob_sent ob' = ob_sent ob @ messages_of t now (take (room_of ob) outs)
      \<and> (ok \<longleftrightarrow> length outs \<le> room_of ob)
      \<and> tl_source t' = tl_source t \<and> tl_id t' = tl_id t
      \<and> (ok \<longrightarrow> tl_proc t' = snd (process_lines ls (tl_proc t)) \<and> room_of ob' + length outs = room_of ob))"

lemma fed_Nil: "fed now [] t ob True t ob"
  by (simp add: fed_def messages_of_def)

lemma messages_of_frame:
  "tl_source t' = tl_source t \<Longrightarrow> tl_id t' = tl_id t \<Longrightarrow> messages_of t' now outs = messages_of t now outs"
  by (simp add: messages_of_def tail_message_def)

lemma messages_of_append: "messages_of t now (a @ b) = messages_of t now a @ messages_of t now b"
  by (simp add: messages_of_def)

lemma feed_line_fed:
  assumes "feed_line now line off t ob = (ok, t', ob')"
  shows "fed now [(line, off, now)] t ob ok t' ob'"
proof -
  obtain ready proc where p: "process_line line off now (tl_proc t) = (ready, proc)" by fastforce
  show ?thesis
  proof (cases ready)
    case None
    with assms p show ?thesis by (auto simp: feed_line_def send_ready_def fed_def messages_of_def)
  next
    case (Some m)
    obtain c e where m: "m = (c, e)" by (cases m)
    show ?thesis
    proof (cases "\<exists>rs. ob_room ob = True # rs")
      case True
      then obtain rs where "ob_room ob = True # rs" by blast
      with assms p Some m show ?thesis
        by (auto simp: feed_line_def send_ready_def tail_send_def fed_def messages_of_def room_of_def tail_message_def)
    next
      case False
      then have r0: "room_of ob = 0" and bad: "tail_send t1 now c e ob = (False, ob\<lparr>ob_room := tl (ob_room ob)\<rparr>)" for t1
        by (cases "ob_room ob"; auto simp: room_of_def tail_send_def split: bool.splits)+
      with assms p Some m show ?thesis
        by (auto simp: feed_line_def send_ready_def fed_def messages_of_def)
    qed
  qed
qed

lemma fed_append:
  assumes "fed now a t ob True t1 ob1" "fed now b t1 ob1 ok t2 ob2"
  shows "fed now (a @ b) t ob ok t2 ob2"
proof -
  obtain o1 p1 where a: "process_lines a (tl_proc t) = (o1, p1)" by fastforce
  obtain o2 p2 where b: "process_lines b p1 = (o2, p2)" by fastforce
  have room: "room_of ob = room_of ob1 + length o1" and "messages_of t1 now outs = messages_of t now outs" for outs
    using assms(1) a messages_of_frame [of t1 t] by (auto simp: fed_def)
  with assms a b show ?thesis
    by (auto simp: fed_def process_lines_append Let_def messages_of_append)
qed

lemma fed_stop:
  assumes "fed now a t ob False t1 ob1"
  shows "fed now (a @ b) t ob False t1 ob1"
proof -
  obtain o1 p1 where a: "process_lines a (tl_proc t) = (o1, p1)" by fastforce
  obtain o2 p2 where b: "process_lines b p1 = (o2, p2)" by fastforce
  from assms a b show ?thesis
    by (auto simp: fed_def process_lines_append Let_def messages_of_def)
qed

lemmas fed_Cons = fed_append [of _ "[x]" for x, simplified]

lemmas fed_stop_Cons = fed_stop [of _ "[x]" for x, simplified]

lemma process_line_aggregating:
  "aggregating (snd (process_line l e n p)) = aggregating p"
  using process_line_config [of l e n p] by (cases "process_line l e n p") (simp add: aggregating_def)

lemma feed_line_aggregating:
  "feed_line now line off t ob = (ok, t', ob') \<Longrightarrow> aggregating (tl_proc t') = aggregating (tl_proc t)"
  using process_line_aggregating [of line off now "tl_proc t"]
  by (auto simp: feed_line_def Let_def split: prod.splits)

text \<open>The loop feeds the lines of the partial buffer and leaves its rest.\<close>

lemma emit_loop_fed:
  assumes "emit_loop now s = (ok, s')"
  shows "fed now (lines_in (aggregating (tl_proc (em_tailer s))) now (em_offset s) (em_partial s))
      (em_tailer s) (em_outbox s) ok (em_tailer s') (em_outbox s')
    \<and> aggregating (tl_proc (em_tailer s')) = aggregating (tl_proc (em_tailer s))
    \<and> (ok \<longrightarrow> em_partial s' = rest_of (em_partial s)
             \<and> em_offset s' = em_offset s + int (length (em_partial s)) - int (length (rest_of (em_partial s))))"
  using assms
proof (induction now s rule: emit_loop.induct)
  case (1 now s)
  let ?agg = "aggregating (tl_proc (em_tailer s))"
  show ?case
  proof (cases "index_byte CHR 0x0A (em_partial s)")
    case None
    then have "ok" "s' = s" using "1.prems" by (auto simp: emit_loop.simps)
    with None show ?thesis by (simp add: index_byte_None lines_in_absent fed_Nil)
  next
    case (Some i)
    define a where "a = take i (em_partial s)"
    define b where "b = drop (i + 1) (em_partial s)"
    have sp: "em_partial s = a @ CHR 0x0A # b" "CHR 0x0A \<notin> set a" "length a = i"
      using index_byte_split [OF Some] by (simp_all add: a_def b_def)
    define line where "line = trim_right_of [CHR 0x0D] a"
    define s1 where "s1 = s\<lparr>em_offset := em_offset s + int (i + 1), em_partial := b\<rparr>"
    have s1: "em_offset s1 = em_offset s + int (length a) + 1" "em_partial s1 = b"
        "em_tailer s1 = em_tailer s" "em_outbox s1 = em_outbox s"
      using sp(3) by (simp_all add: s1_def)
    note lines = lines_in_present(1) [OF sp(2), of ?agg now "em_offset s" b, folded line_def]
      lines_in_present(2) [OF sp(2), of b]
    show ?thesis
    proof (cases "line = [] \<and> \<not> ?agg")
      case True
      have run: "emit_loop now s1 = (ok, s')"
        using "1.prems" True by (simp add: emit_loop.simps [of now s] Some Let_def line_def a_def b_def s1_def)
      have "fed now (lines_in ?agg now (em_offset s1) b) (em_tailer s) (em_outbox s) ok (em_tailer s') (em_outbox s')
        \<and> aggregating (tl_proc (em_tailer s')) = ?agg
        \<and> (ok \<longrightarrow> em_partial s' = rest_of b \<and> em_offset s' = em_offset s1 + int (length b) - int (length (rest_of b)))"
        using "1.IH"(1) [OF Some refl refl _ run [unfolded s1_def b_def]] True
        by (simp add: line_def a_def s1_def b_def)
      then show ?thesis using True sp lines s1 by simp
    next
      case False
      obtain ok1 t ob where f: "feed_line now line (em_offset s1) (em_tailer s1) (em_outbox s1) = (ok1, t, ob)"
        by (metis prod.exhaust)
      note fd = feed_line_fed [OF f]
      have ag: "aggregating (tl_proc t) = ?agg" using feed_line_aggregating [OF f] s1 by simp
      define s2 where "s2 = s1\<lparr>em_tailer := t, em_outbox := ob\<rparr>"
      have l1: "lines_in ?agg now (em_offset s) (em_partial s)
          = [(line, em_offset s1, now)] @ lines_in ?agg now (em_offset s1) b"
        using False sp lines s1 by auto
      have "emit_loop now s = (let (ok, t, ob) = feed_line now line (em_offset s1) (em_tailer s1) (em_outbox s1);
          s2 = s1\<lparr>em_tailer := t, em_outbox := ob\<rparr> in if ok then emit_loop now s2 else (False, s2))"
        using False by (subst emit_loop.simps) (auto simp: Some Let_def line_def a_def b_def s1_def)
      then have step: "(ok, s') = (if ok1 then emit_loop now s2 else (False, s2))"
        using "1.prems" f by (simp add: s2_def)
      show ?thesis
      proof (cases ok1)
        case True
        then have run: "emit_loop now s2 = (ok, s')" using step by simp
        have "fed now (lines_in (aggregating (tl_proc t)) now (em_offset s1) b) t ob ok (em_tailer s') (em_outbox s')
          \<and> aggregating (tl_proc (em_tailer s')) = aggregating (tl_proc t)
          \<and> (ok \<longrightarrow> em_partial s' = rest_of b \<and> em_offset s' = em_offset s1 + int (length b) - int (length (rest_of b)))"
          using "1.IH"(2) [OF Some refl refl _ refl f [unfolded s1_def line_def a_def b_def, symmetric] refl refl _ run
              [unfolded s2_def s1_def b_def]] False True s1
          by (simp add: line_def a_def s1_def s2_def b_def)
        moreover have "fed now [(line, em_offset s1, now)] (em_tailer s) (em_outbox s) True t ob"
          using fd True s1 by simp
        ultimately show ?thesis
          using ag sp lines s1 unfolding l1 by (auto intro: fed_Cons)
      next
        case False
        then have "fed now [(line, em_offset s1, now)] (em_tailer s) (em_outbox s) False t ob"
          using fd s1 by simp
        from fed_stop_Cons [OF this] False show ?thesis
          using step ag unfolding l1 by (simp add: s2_def)
      qed
    qed
  qed
qed

section \<open>Chunk boundaries do not matter\<close>

lemma rest_of_no_newline [simp]: "CHR 0x0A \<notin> set (rest_of s)"
  unfolding rest_of_def nl_split_def by (meson last_in_set split_on_not_Nil split_on_parts)

definition short_lines :: "string \<Rightarrow> bool" where
  "short_lines s \<longleftrightarrow> (\<forall>l \<in> set (nl_split s). length l \<le> max_line_bytes)"

lemma short_lines_append:
  "short_lines (a @ b) \<Longrightarrow> length (rest_of a) \<le> max_line_bytes \<and> short_lines (rest_of a @ b)"
proof (induction a rule: length_induct)
  case (1 a)
  show ?case
  proof (cases a rule: newline_cases)
    case 1
    have "length a \<le> max_line_bytes"
    proof (cases b rule: newline_cases)
      case 1
      with \<open>CHR 0x0A \<notin> set a\<close> "1.prems" show ?thesis by (simp add: short_lines_def nl_split_absent)
    next
      case (2 x y)
      then have "nl_split (a @ b) = (a @ x) # nl_split y"
        using \<open>CHR 0x0A \<notin> set a\<close> nl_split_present [of "a @ x" y] by simp
      with "1.prems" show ?thesis by (simp add: short_lines_def)
    qed
    with 1 "1.prems" show ?thesis by (simp add: lines_in_absent)
  next
    case (2 x y)
    then have "short_lines (y @ b)"
      using "1.prems" by (simp add: short_lines_def nl_split_present)
    with 2 "1.IH" show ?thesis by (simp add: lines_in_present)
  qed
qed

lemma read_chunks_fed:
  assumes "read_chunks now cs s = (ok, s')" "short_lines (em_partial s @ concat cs)" "CHR 0x0A \<notin> set (em_partial s)"
  shows "fed now (lines_in (aggregating (tl_proc (em_tailer s))) now (em_offset s) (em_partial s @ concat cs))
      (em_tailer s) (em_outbox s) ok (em_tailer s') (em_outbox s')
    \<and> (ok \<longrightarrow> em_partial s' = rest_of (em_partial s @ concat cs)
        \<and> em_offset s' = em_offset s + int (length (em_partial s @ concat cs)) - int (length (em_partial s')))"
  using assms
proof (induction now cs s rule: read_chunks.induct)
  case (1 now s)
  then show ?case by (simp add: lines_in_absent fed_Nil)
next
  case (2 now c cs s)
  let ?agg = "aggregating (tl_proc (em_tailer s))"
  show ?case
  proof (cases "c = []")
    case True
    with 2 show ?thesis by simp
  next
    case c: False
    obtain ok1 s1 where l: "emit_loop now (s\<lparr>em_partial := em_partial s @ c\<rparr>) = (ok1, s1)" by fastforce
    note fd = emit_loop_fed [OF l, simplified]
    note app = lines_in_append [of ?agg now "em_offset s" "em_partial s @ c" "concat cs"]
    show ?thesis
    proof (cases ok1)
      case False
      then have "ok = False" "s' = s1" using "2.prems"(1) c l by (simp_all add: emit_def)
      with fd False app fed_stop show ?thesis by auto
    next
      case True
      have sh: "length (rest_of (em_partial s @ c)) \<le> max_line_bytes"
          "short_lines (rest_of (em_partial s @ c) @ concat cs)"
        using short_lines_append [of "em_partial s @ c" "concat cs"] "2.prems"(2) by simp_all
      have p1: "em_partial s1 = rest_of (em_partial s @ c)"
          "em_offset s1 = em_offset s + int (length (em_partial s @ c)) - int (length (rest_of (em_partial s @ c)))"
          "aggregating (tl_proc (em_tailer s1)) = ?agg"
        using fd True by simp_all
      have e: "emit now c s = (True, s1)"
        using l True sh p1 by (simp add: emit_def emit_rest_def)
      have r: "read_chunks now cs s1 = (ok, s')" using "2.prems"(1) c e by simp
      have ih: "fed now (lines_in ?agg now (em_offset s1) (em_partial s1 @ concat cs))
          (em_tailer s1) (em_outbox s1) ok (em_tailer s') (em_outbox s')
        \<and> (ok \<longrightarrow> em_partial s' = rest_of (em_partial s1 @ concat cs)
            \<and> em_offset s' = em_offset s1 + int (length (em_partial s1 @ concat cs)) - int (length (em_partial s')))"
        using "2.IH"(2) [OF c e [symmetric] _ r] sh(2) p1 by simp
      have "fed now (lines_in ?agg now (em_offset s) (em_partial s @ c)) (em_tailer s) (em_outbox s) True
          (em_tailer s1) (em_outbox s1)"
        using fd True by simp
      from fed_append [OF this conjunct1 [OF ih]] ih app p1 show ?thesis
        by simp
    qed
  qed
qed

text \<open>
  C8. How the bytes of a file are cut into reads does not matter, as long as no line outgrows the
  cap: the tailer sends the lines of the whole text, stripped of carriage returns, each at the
  offset just past its newline and through the source's rules. Under a channel that stops
  accepting, what it sends is an initial part of that, so no line outruns one that was dropped; and
  what it holds back at the end is exactly the unterminated rest, which the offset excludes.
\<close>

theorem tail_reads_whole_text:
  assumes "read_chunks now cs s = (ok, s')" "em_partial s = []"
    and "\<forall>l \<in> set (split_on CHR 0x0A (concat cs)). length l \<le> max_line_bytes"
  shows "let ls = lines_in (aggregating (tl_proc (em_tailer s))) now (em_offset s) (concat cs);
             outs = fst (process_lines ls (tl_proc (em_tailer s)));
             room = length (takeWhile (\<lambda>b. b) (ob_room (em_outbox s)))
         in ob_sent (em_outbox s') = ob_sent (em_outbox s)
              @ map (\<lambda>(c, e). tail_message (em_tailer s) now c e) (take room outs)
            \<and> (ok \<longleftrightarrow> length outs \<le> room)
            \<and> (ok \<longrightarrow> em_partial s' = last (split_on CHR 0x0A (concat cs))
                     \<and> em_offset s' + int (length (em_partial s')) = em_offset s + int (length (concat cs)))"
  using read_chunks_fed [OF assms(1)] assms(2,3)
  by (auto simp: short_lines_def nl_split_def rest_of_def fed_def Let_def room_of_def messages_of_def)

definition tailer_example :: tailer where
  "tailer_example = \<lparr>tl_source = \<lparr>src_service = ''web'', src_source = ''nginx'', src_tags = []\<rparr>, tl_id = ''file:/a'',
     tl_proc = new_processor (\<lambda>p. None) [] 0\<rparr>"

definition emit_example :: emit_state where
  "emit_example = \<lparr>em_tailer = tailer_example, em_offset = 100, em_partial = [],
     em_outbox = \<lparr>ob_room = [True, True, True], ob_sent = []\<rparr>\<rparr>"

lemma tail_reads_whole_text_witness:
  "ob_sent (em_outbox (snd (read_chunks 7 [[CHR ''a''], [CHR ''b'', CHR 0x0D, CHR 0x0A, CHR ''c'']] emit_example)))
     = [tail_message tailer_example 7 ''ab'' 104]"
proof -
  let ?cs = "[[CHR ''a''], [CHR ''b'', CHR 0x0D, CHR 0x0A, CHR ''c'']]"
  have p: "tl_proc tailer_example = new_processor (\<lambda>p. None) [] 0" by (simp add: tailer_example_def)
  have small: "\<forall>l \<in> set (split_on CHR 0x0A (concat ?cs)). length l \<le> max_line_bytes"
    by (simp add: max_line_bytes_def)
  have outs: "fst (process_lines (lines_in False 7 100 (concat ?cs)) (new_processor (\<lambda>p. None) [] 0)) = [(''ab'', 104)]"
    by (simp add: lines_in_def nl_split_def new_processor_def process_line_def finish_def trim_right_of_def)
  have agg: "\<not> aggregating (new_processor (\<lambda>p. None) [] 0)"
    by (simp add: aggregating_def new_processor_def)
  show ?thesis
    using tail_reads_whole_text [where now = 7 and s = emit_example, OF surjective_pairing _ small] outs agg p
    by (simp add: emit_example_def Let_def)
qed

section \<open>Resuming after a restart\<close>

definition plain :: "processor \<Rightarrow> bool" where
  "plain p \<longleftrightarrow> pr_multiline p = None \<and> pr_rules p = [] \<and> pr_pending p = []"

lemma plain_lines: "plain p \<Longrightarrow> process_lines ls p = (map (\<lambda>(l, e, n). (l, e)) ls, p)"
  by (induction ls p rule: process_lines.induct)
    (auto simp: plain_def process_line_def finish_def)

lemma plain_new: "plain (new_processor compile [] d)"
  by (simp add: plain_def new_processor_def)

lemma plain_flush: "plain p \<Longrightarrow> process_flush now force p = (None, p)"
  by (simp add: plain_def process_flush_def)

lemma length_lines_in: "length (lines_in agg now off s) \<le> length s"
proof (induction s arbitrary: off rule: length_induct)
  case (1 s)
  show ?case
  proof (cases s rule: newline_cases)
    case 1
    then show ?thesis by (simp add: lines_in_absent)
  next
    case (2 a b)
    then have "length (lines_in agg now (off + int (length a) + 1) b) \<le> length b" using "1.IH" by simp
    with 2 show ?thesis by (auto simp: lines_in_present)
  qed
qed

lemma flush_pending_plain:
  "plain (tl_proc (em_tailer e)) \<Longrightarrow> flush_pending now force e = (True, e)"
  by (simp add: flush_pending_def plain_flush send_ready_def)



section \<open>Rotation\<close>

lemma tail_send_sent:
  "tail_send t now l e ob = (True, ob') \<Longrightarrow> ob_sent ob' = ob_sent ob @ [tail_message t now l e]"
  by (cases "ob_room ob") (auto simp: tail_send_def split: bool.splits)

lemma flush_pending_sent:
  assumes "flush_pending now force s = (True, s')"
  shows "ob_sent (em_outbox s') = ob_sent (em_outbox s) @ messages_of (em_tailer s) now
      (case fst (process_flush now force (tl_proc (em_tailer s))) of None \<Rightarrow> [] | Some m \<Rightarrow> [m])
    \<and> tl_proc (em_tailer s') = snd (process_flush now force (tl_proc (em_tailer s)))
    \<and> em_partial s' = em_partial s \<and> em_offset s' = em_offset s"
proof -
  obtain ready proc where p: "process_flush now force (tl_proc (em_tailer s)) = (ready, proc)" by fastforce
  show ?thesis
  proof (cases ready)
    case None
    with assms p show ?thesis
      by (auto simp: flush_pending_def Let_def send_ready_def messages_of_def)
  next
    case (Some m)
    let ?t = "(em_tailer s)\<lparr>tl_proc := proc\<rparr>"
    obtain ok ob where t: "tail_send ?t now (fst m) (snd m) (em_outbox s) = (ok, ob)" by fastforce
    have "ok" and s': "s' = s\<lparr>em_tailer := ?t, em_outbox := ob\<rparr>"
      using assms p Some t by (auto simp: flush_pending_def Let_def send_ready_def split: prod.splits)
    with t tail_send_sent have "ob_sent ob = ob_sent (em_outbox s) @ [tail_message ?t now (fst m) (snd m)]"
      by simp
    with p Some s' show ?thesis by (simp add: messages_of_def tail_message_def case_prod_unfold)
  qed
qed

lemma forced_flush_empties: "pr_pending (snd (process_flush now True p)) = []"
  by (simp add: process_flush_def reset_def)

text \<open>
  When the path has come to name another file, nothing the old one still held is left behind:
  its unterminated last line goes through the processor, a buffered multi-line message is forced
  out after it, and the tailer starts the new file from its beginning with empty buffers.
\<close>

theorem rotation_ships_everything:
  assumes "close_rotated now s = (True, s')"
  shows "em_partial s' = [] \<and> em_offset s' = 0 \<and> pr_pending (tl_proc (em_tailer s')) = []
    \<and> (let t = em_tailer s;
           line = (if em_partial s = [] then []
                   else [(em_partial s, em_offset s + int (length (em_partial s)), now)]);
           (outs, proc) = process_lines line (tl_proc t);
           held = (case fst (process_flush now True proc) of None \<Rightarrow> [] | Some m \<Rightarrow> [m])
       in ob_sent (em_outbox s') = ob_sent (em_outbox s) @ map (\<lambda>(c, e). tail_message t now c e) (outs @ held))"
proof -
  let ?t = "em_tailer s"
  let ?line = "if em_partial s = [] then []
      else [(em_partial s, em_offset s + int (length (em_partial s)), now)]"
  obtain s1 where s1: "fed now ?line ?t (em_outbox s) True (em_tailer s1) (em_outbox s1)" "em_partial s1 = []"
    and f: "flush_pending now True s1 = (True, snd (flush_pending now True s1))"
    and s': "s' = (snd (flush_pending now True s1))\<lparr>em_offset := 0\<rparr>"
  proof (cases "em_partial s = []")
    case True
    with assms fed_Nil [of now ?t "em_outbox s"] show thesis
      by (intro that [of s]) (auto simp: close_rotated_def Let_def split: prod.splits if_splits)
  next
    case False
    let ?off = "em_offset s + int (length (em_partial s))"
    obtain ok t ob where l: "feed_line now (em_partial s) ?off ?t (em_outbox s) = (ok, t, ob)"
      by (metis prod.exhaust)
    with assms False have "ok" by (auto simp: close_rotated_def Let_def split: prod.splits if_splits)
    with assms False l feed_line_fed [OF l] show thesis
      by (intro that [of "s\<lparr>em_offset := ?off, em_tailer := t, em_outbox := ob, em_partial := []\<rparr>"])
        (auto simp: close_rotated_def Let_def split: prod.splits if_splits)
  qed
  obtain outs proc where p: "process_lines ?line (tl_proc ?t) = (outs, proc)" by fastforce
  have fd: "tl_proc (em_tailer s1) = proc" "ob_sent (em_outbox s1) = ob_sent (em_outbox s) @ messages_of ?t now outs"
      "messages_of (em_tailer s1) now = messages_of ?t now"
    using s1(1) p messages_of_frame [of "em_tailer s1" ?t] by (auto simp: fed_def)
  with flush_pending_sent [OF f] s' s1(2) p forced_flush_empties [of now proc] show ?thesis
    by (simp add: messages_of_def del: map_append) simp
qed

lemma rotation_ships_everything_witness:
  "let s = emit_example\<lparr>em_partial := ''tail''\<rparr>; s' = snd (close_rotated 3 s)
   in map lm_content (ob_sent (em_outbox s')) = [''tail''] \<and> em_partial s' = []"
proof -
  let ?s = "emit_example\<lparr>em_partial := ''tail''\<rparr>"
  have pl: "plain (tl_proc tailer_example)" by (simp add: tailer_example_def plain_new)
  have p: "process_lines ls (tl_proc tailer_example) = (map (\<lambda>(l, e, n). (l, e)) ls, tl_proc tailer_example)"
      "process_flush now f (tl_proc tailer_example) = (None, tl_proc tailer_example)"
      "process_line l e now (tl_proc tailer_example) = (Some (l, e), tl_proc tailer_example)" for ls now f l e
    using plain_lines [OF pl] plain_flush [OF pl] pl
    by (simp_all add: process_line_def finish_def plain_def)
  have ok: "fst (close_rotated 3 ?s)"
    by code_simp
  then have "close_rotated 3 ?s = (True, snd (close_rotated 3 ?s))" by (metis prod.collapse)
  from rotation_ships_everything [OF this] show ?thesis
    by (simp add: emit_example_def p tail_message_def Let_def)
qed

end
