(* ===== verification/LogJournald.thy ===== *)
theory LogJournald
  imports LogTailer
begin

text \<open>
  The journal source, \<^verbatim>\<open>internal/logs/journald.go\<close> and the entry handling of
  \<^verbatim>\<open>journald_linux.go\<close>: decoding of \<open>journalctl\<close>'s JSON lines, the message body, the filters, the
  command line, and the stream of messages. A line is given as the raw values of its JSON object,
  or as text that is not one. Timestamps are nanoseconds.
\<close>

section \<open>Entries\<close>

record journald_source =
  js_path :: string
  js_service :: string
  js_source :: string
  js_tags :: "string list"
  js_start_position :: string
  js_include_units :: "string list"
  js_exclude_units :: "string list"
  js_include_user_units :: "string list"
  js_exclude_user_units :: "string list"
  js_include_matches :: "string list"
  js_exclude_matches :: "string list"

definition priority_status :: "string \<Rightarrow> string" where
  "priority_status p =
     (if p = ''0'' then ''emergency'' else if p = ''1'' then ''alert'' else if p = ''2'' then ''critical''
      else if p = ''3'' then ''error'' else if p = ''4'' then ''warn'' else if p = ''5'' then ''notice''
      else if p = ''6'' then ''info'' else if p = ''7'' then ''debug'' else ''info'')"

definition application_keys :: "string list" where
  "application_keys = [''SYSLOG_IDENTIFIER'', ''_SYSTEMD_USER_UNIT'', ''_SYSTEMD_UNIT'', ''_COMM'']"

type_synonym fields = "(string \<times> string) list"

text \<open>Go reads a missing key of a string map as the empty string.\<close>

definition field :: "fields \<Rightarrow> string \<Rightarrow> string" where
  "field fs k = (case map_of fs k of Some v \<Rightarrow> v | None \<Rightarrow> [])"

definition derive_service :: "fields \<Rightarrow> string" where
  "derive_service fs =
     (case filter (\<lambda>v. v \<noteq> []) (map (field fs) application_keys) of [] \<Rightarrow> [] | v # _ \<Rightarrow> v)"

text \<open>
  A raw JSON value: a string, an array of numbers with its text, or any other text.
\<close>

datatype raw_value = RawString string | RawArray "int list" string | RawOther string

definition field_string :: "raw_value \<Rightarrow> string" where
  "field_string v =
     (case v of
        RawString s \<Rightarrow> s
      | RawArray ns text \<Rightarrow>
          if list_all (\<lambda>n. 0 \<le> n \<and> n < 256) ns then map (\<lambda>n. char_of (nat n)) ns else text
      | RawOther text \<Rightarrow> text)"

datatype journal_line = JournalObject "(string \<times> raw_value) list" | NotJson

record entry =
  en_fields :: fields
  en_cursor :: string
  en_realtime :: int

definition entry_step :: "string \<times> raw_value \<Rightarrow> entry \<Rightarrow> entry" where
  "entry_step kv e =
     (case kv of (k, v) \<Rightarrow>
        let s = field_string v;
            e1 = (if k = ''__CURSOR'' then e\<lparr>en_cursor := s\<rparr>
                  else if k = ''__REALTIME_TIMESTAMP'' then e\<lparr>en_realtime := res_val 0 (parse_int 10 64 s)\<rparr>
                  else e)
        in if has_prefix ''__'' k then e1 else e1\<lparr>en_fields := AList.update k s (en_fields e1)\<rparr>)"

definition parse_entry :: "journal_line \<Rightarrow> entry option" where
  "parse_entry l =
     (case l of
        NotJson \<Rightarrow> None
      | JournalObject kvs \<Rightarrow> Some (fold entry_step kvs \<lparr>en_fields = [], en_cursor = [], en_realtime = 0\<rparr>))"

text \<open>The body as a JSON value; the encoder sorts the keys of both maps.\<close>

definition build_body :: "fields \<Rightarrow> json" where
  "build_body fs = JObj
     ((''journald'', JObj (map (\<lambda>(k, v). (k, JStr v))
         (sort_by (\<lambda>a b. fst a < fst b) (filter (\<lambda>(k, v). k \<noteq> ''MESSAGE'') fs))))
      # (case map_of fs ''MESSAGE'' of None \<Rightarrow> [] | Some m \<Rightarrow> [(''message'', JStr m)]))"

definition split_match :: "string \<Rightarrow> (string \<times> string) option" where
  "split_match m =
     (case index_byte CHR ''='' m of
        None \<Rightarrow> None
      | Some i \<Rightarrow> if i = 0 then None else Some (take i m, drop (i + 1) m))"

definition matches_unit :: "string list \<Rightarrow> string \<Rightarrow> bool" where
  "matches_unit excludes unit \<longleftrightarrow> list_ex (\<lambda>e. e = ''*'' \<or> e = unit) excludes"

definition should_drop :: "journald_source \<Rightarrow> fields \<Rightarrow> bool" where
  "should_drop src fs =
     (if list_ex (\<lambda>m. case split_match m of None \<Rightarrow> False | Some (k, v) \<Rightarrow> field fs k = v) (js_exclude_matches src)
      then True
      else case map_of fs ''_SYSTEMD_USER_UNIT'' of
        Some usr \<Rightarrow> matches_unit (js_exclude_user_units src) usr
      | None \<Rightarrow>
          (case map_of fs ''_SYSTEMD_UNIT'' of
             Some sys \<Rightarrow> matches_unit (js_exclude_units src) sys
           | None \<Rightarrow> False))"

definition unit_matches :: "string \<Rightarrow> string list \<Rightarrow> string list" where
  "unit_matches f units = map (\<lambda>u. f @ ''='' @ u) units"

definition journalctl_args :: "journald_source \<Rightarrow> string \<Rightarrow> string list" where
  "journalctl_args src cursor =
     (let sys = unit_matches ''_SYSTEMD_UNIT'' (js_include_units src);
          usr = unit_matches ''_SYSTEMD_USER_UNIT'' (js_include_user_units src)
      in [''--output=json'', ''--all'', ''--follow'', ''--quiet'', ''--no-pager'']
         @ (if js_path src \<noteq> [] then [''--directory='' @ js_path src] else [])
         @ (if cursor \<noteq> [] then [''--after-cursor='' @ cursor]
            else if js_start_position src = ''beginning'' \<or> js_start_position src = ''forceBeginning''
            then [''--no-tail''] else [''--lines=0''])
         @ js_include_matches src
         @ (if sys \<noteq> [] \<and> usr \<noteq> [] then sys @ [''+''] @ usr else sys @ usr))"

definition journald_id :: "journald_source \<Rightarrow> string" where
  "journald_id src = (if js_path src \<noteq> [] then js_path src else ''default'')"

section \<open>The stream\<close>

text \<open>
  The JSON text of a body is the encoder's; the rules run over it. \<open>render\<close> is the encoder.
\<close>

definition entry_message ::
  "(json \<Rightarrow> string) \<Rightarrow> journald_source \<Rightarrow> processor option \<Rightarrow> journal_line \<Rightarrow> message option" where
  "entry_message render src proc l =
     (case parse_entry l of
        None \<Rightarrow> None
      | Some e \<Rightarrow>
          if should_drop src (en_fields e) then None
          else let body = render (build_body (en_fields e)) in
            (case (case proc of None \<Rightarrow> Some (body, 0) | Some p \<Rightarrow> finish p body 0) of
               None \<Rightarrow> None
             | Some (content, _) \<Rightarrow>
                 let app = derive_service (en_fields e) in
                 Some \<lparr>lm_content = content, lm_status = priority_status (field (en_fields e) ''PRIORITY''),
                       lm_timestamp = (if en_realtime e > 0 then Some (en_realtime e * 1000) else None),
                       lm_service = (if js_service src = [] then app else js_service src),
                       lm_source = (if js_source src = [] then app else js_source src),
                       lm_tags = js_tags src, lm_source_id = ''journald:'' @ journald_id src,
                       lm_offset = 0, lm_cursor = en_cursor e\<rparr>))"

definition journald_handle ::
  "(json \<Rightarrow> string) \<Rightarrow> journald_source \<Rightarrow> processor option \<Rightarrow> journal_line \<Rightarrow> outbox \<Rightarrow> bool \<times> outbox" where
  "journald_handle render src proc l ob =
     (case entry_message render src proc l of
        None \<Rightarrow> (True, ob)
      | Some m \<Rightarrow>
          (case ob_room ob of
             True # rs \<Rightarrow> (True, ob\<lparr>ob_room := rs, ob_sent := ob_sent ob @ [m]\<rparr>)
           | _ \<Rightarrow> (False, ob\<lparr>ob_room := tl (ob_room ob)\<rparr>)))"

text \<open>The read loop of \<open>stream\<close> over the lines one \<open>journalctl\<close> writes.\<close>

fun journald_stream ::
  "(json \<Rightarrow> string) \<Rightarrow> journald_source \<Rightarrow> processor option \<Rightarrow> journal_line list \<Rightarrow> outbox \<Rightarrow> bool \<times> outbox" where
  "journald_stream render src proc [] ob = (True, ob)"
| "journald_stream render src proc (l # ls) ob =
     (case journald_handle render src proc l ob of
        (False, ob') \<Rightarrow> (False, ob')
      | (True, ob') \<Rightarrow> journald_stream render src proc ls ob')"

text \<open>
  The journal stream is a filtered prefix: what reaches the batcher is the messages of the kept
  entries, in journal order, up to the first that found no room; the stream then stops, so no later
  cursor can be stored past an entry that was dropped undelivered.
\<close>

theorem journald_stream_prefix:
  "let msgs = List.map_filter (entry_message render src proc) ls;
       room = length (takeWhile (\<lambda>b. b) (ob_room ob))
   in ob_sent (snd (journald_stream render src proc ls ob)) = ob_sent ob @ take room msgs
      \<and> (fst (journald_stream render src proc ls ob) \<longleftrightarrow> length msgs \<le> room)"
proof (induction ls arbitrary: ob)
  case Nil
  then show ?case by (simp add: List.map_filter_def Let_def)
next
  case (Cons l ls)
  show ?case
  proof (cases "entry_message render src proc l")
    case None
    with Cons show ?thesis by (simp add: journald_handle_def List.map_filter_def Let_def)
  next
    case (Some m)
    show ?thesis
    proof (cases "\<exists>rs. ob_room ob = True # rs")
      case True
      then obtain rs where "ob_room ob = True # rs" by blast
      with Some Cons [of "ob\<lparr>ob_room := rs, ob_sent := ob_sent ob @ [m]\<rparr>"] show ?thesis
        by (simp add: journald_handle_def List.map_filter_def Let_def)
    next
      case False
      then have "takeWhile (\<lambda>b. b) (ob_room ob) = []"
        by (cases "ob_room ob") auto
      moreover have "journald_handle render src proc l ob = (False, ob\<lparr>ob_room := tl (ob_room ob)\<rparr>)"
        using False Some by (auto simp: journald_handle_def split: list.split bool.split)
      ultimately show ?thesis using Some by (simp add: List.map_filter_def Let_def)
    qed
  qed
qed

section \<open>Fields\<close>

lemma entry_step_private:
  "has_prefix ''__'' k \<Longrightarrow> map_of (en_fields (entry_step (k', v) e)) k
     = map_of (en_fields e) k"
  by (auto simp: entry_step_def Let_def update_conv')

text \<open>The journal's own address fields never reach the body.\<close>

lemma parse_entry_private:
  assumes "parse_entry l = Some e" "has_prefix ''__'' k"
  shows "map_of (en_fields e) k = None"
proof -
  have "map_of (en_fields (fold entry_step kvs e0)) k = map_of (en_fields e0) k" for kvs e0
    by (induction kvs arbitrary: e0) (auto simp: entry_step_private [OF assms(2)])
  then show ?thesis using assms(1) by (auto simp: parse_entry_def split: journal_line.splits)
qed

text \<open>
  Two journal sources without a path share one identifier in the registry, whatever their units,
  so the cursor one of them stores is the one the other resumes from.
\<close>

lemma journald_sources_share_cursor:
  assumes "js_path a = []" "js_path b = []"
  shows "position_cursor (''journald:'' @ journald_id a)
           (acknowledge (m\<lparr>lm_source_id := ''journald:'' @ journald_id b, lm_cursor := c # cs\<rparr>) r) = (c # cs, True)"
  using assms by (simp add: journald_id_def acknowledge_def position_cursor_def)

end
