(* ===== verification/JournaldRun.thy ===== *)
theory JournaldRun
  imports LogJournald LogBatcher "HOL-Library.Sublist"
begin

text \<open>
  Running \<open>journalctl\<close>, \<^verbatim>\<open>internal/logs/journald_linux.go\<close>: one process and the error it ends
  with, its last words on standard error, and the respawn loop that resumes from the cursor the
  registry holds. A process is what it does with its arguments; the registry of a round is the one
  loaded at the start with the acknowledgements made so far.
\<close>

section \<open>The last words\<close>

definition tail_write :: "string \<Rightarrow> string \<Rightarrow> string" where
  "tail_write p b = (let b' = b @ p in if 512 < length b' then drop (length b' - 512) b' else b')"

definition tail_string :: "string \<Rightarrow> string" where
  "tail_string b = trim_space b"

text \<open>However the process cuts its output into writes, the buffer holds its last 512 bytes.\<close>

lemma tail_write_take: "tail_write p b = rev (take 512 (rev (b @ p)))"
proof -
  have "rev (take 512 (rev xs)) = (if 512 < length xs then drop (length xs - 512) xs else xs)" for xs :: string
    by (simp add: rev_take)
  from this [of "b @ p"] show ?thesis unfolding tail_write_def Let_def by (rule sym)
qed

lemma tail_writes: "fold tail_write ws b = rev (take 512 (rev (b @ concat ws)))" if "length b \<le> 512"
  using that
proof (induction ws arbitrary: b)
  case (Cons w ws)
  have "length (tail_write w b) \<le> 512" by (simp add: tail_write_take)
  with Cons.IH have "fold tail_write (w # ws) b = rev (take 512 (rev (tail_write w b @ concat ws)))" by simp
  also have "\<dots> = rev (take 512 (rev (b @ concat (w # ws))))"
    by (simp add: tail_write_take take_append min_def)
  finally show ?case .
qed simp

section \<open>One process\<close>

datatype read_end = ReadEOF | ReadFailed string

record journal_proc =
  jp_pipe_err :: "string option"
  jp_start_err :: "string option"
  jp_lines :: "journal_line list"
  jp_end :: read_end
  jp_stderr :: "string list"
  jp_wait_err :: "string option"

text \<open>\<open>read_all\<close>: the loop went on until a read failed, rather than being left by a full channel.\<close>

definition stream_error :: "bool \<Rightarrow> journal_proc \<Rightarrow> string option" where
  "stream_error read_all p =
     (case jp_wait_err p of
        Some w \<Rightarrow>
          let s = tail_string (fold tail_write (jp_stderr p) []) in
          Some (if s \<noteq> [] then w @ '': '' @ s else w)
      | None \<Rightarrow>
          if \<not> read_all then None
          else (case jp_end p of ReadEOF \<Rightarrow> None | ReadFailed e \<Rightarrow> Some e))"

definition journald_key :: "journald_source \<Rightarrow> string" where
  "journald_key src = ''journald:'' @ journald_id src"

definition stream_args :: "journald_source \<Rightarrow> registry \<Rightarrow> string list" where
  "stream_args src r = journalctl_args src (fst (position_cursor (journald_key src) r))"

definition stream_process ::
  "(json \<Rightarrow> string) \<Rightarrow> journald_source \<Rightarrow> processor option \<Rightarrow> journal_proc \<Rightarrow> outbox \<Rightarrow> string option \<times> bool \<times> outbox" where
  "stream_process render src proc p ob =
     (case jp_pipe_err p of
        Some e \<Rightarrow> (Some e, True, ob)
      | None \<Rightarrow>
        (case jp_start_err p of
           Some e \<Rightarrow> (Some e, True, ob)
         | None \<Rightarrow>
             let (read_all, ob') = journald_stream render src proc (jp_lines p) ob
             in (stream_error read_all p, read_all, ob')))"

section \<open>The respawn loop\<close>

text \<open>
  A round: the messages acknowledged before it, how the next process behaves, and whether the
  context is over when it ends and after the pause. A message that found no room was dropped
  because the context is over.
\<close>

record journal_round =
  jr_acked :: "message list"
  jr_spawn :: "string list \<Rightarrow> journal_proc"
  jr_over :: bool
  jr_slept :: bool

definition round_registry :: "registry \<Rightarrow> journal_round \<Rightarrow> registry" where
  "round_registry r0 rd = fold acknowledge (jr_acked rd) r0"

definition round_stream ::
  "(json \<Rightarrow> string) \<Rightarrow> journald_source \<Rightarrow> processor option \<Rightarrow> registry \<Rightarrow> journal_round \<Rightarrow> outbox \<Rightarrow> string option \<times> bool \<times> outbox" where
  "round_stream render src proc r0 rd ob =
     stream_process render src proc (jr_spawn rd (stream_args src (round_registry r0 rd))) ob"

record journald_state =
  jd_outbox :: outbox
  jd_warnings :: "string option list"
  jd_stopped :: bool

fun journald_run ::
  "(json \<Rightarrow> string) \<Rightarrow> journald_source \<Rightarrow> processor option \<Rightarrow> registry \<Rightarrow> journal_round list \<Rightarrow> journald_state \<Rightarrow> journald_state"
  where
  "journald_run render src proc r0 [] st = st"
| "journald_run render src proc r0 (rd # rds) st =
     (let (err, read_all, ob) = round_stream render src proc r0 rd (jd_outbox st);
          st1 = st\<lparr>jd_outbox := ob\<rparr>
      in if jr_over rd \<or> \<not> read_all then st1\<lparr>jd_stopped := True\<rparr>
         else let st2 = st1\<lparr>jd_warnings := jd_warnings st @ [err]\<rparr> in
           if \<not> jr_slept rd then st2\<lparr>jd_stopped := True\<rparr>
           else journald_run render src proc r0 rds st2)"

text \<open>\<open>startJournald\<close>; without rules there is no processor.\<close>

definition start_journald ::
  "(string \<Rightarrow> regex option) \<Rightarrow> processing_rule list \<Rightarrow> journald_source \<Rightarrow> string \<times> processor option" where
  "start_journald compile rules src =
     (journald_key src, if rules \<noteq> [] then Some (new_processor compile rules 0) else None)"

section \<open>No gap\<close>

definition entry_cursor :: "journal_line \<Rightarrow> string" where
  "entry_cursor l = (case parse_entry l of Some e \<Rightarrow> en_cursor e | None \<Rightarrow> [])"

lemma entry_message_cursor: "entry_message render src proc l = Some m \<Longrightarrow> lm_cursor m = entry_cursor l"
  by (auto simp: entry_message_def entry_cursor_def Let_def split: option.splits if_splits)

lemma entry_message_id: "entry_message render src proc l = Some m \<Longrightarrow> lm_source_id m = journald_key src"
  by (auto simp: entry_message_def journald_key_def Let_def split: option.splits if_splits)

text \<open>What \<open>journalctl --after-cursor\<close> is to write of a journal; without a cursor, all of it.\<close>

definition journal_after :: "string \<Rightarrow> journal_line list \<Rightarrow> journal_line list" where
  "journal_after c J = (if c = [] then J else tl (dropWhile (\<lambda>l. entry_cursor l \<noteq> c) J))"

text \<open>
  The rounds a run can see: nothing is acknowledged under the source's identifier before it was
  sent, and \<open>journalctl\<close> writes the journal from the place it is asked for, up to wherever it ends.
\<close>

definition round_ok ::
  "journald_source \<Rightarrow> registry \<Rightarrow> journal_line list \<Rightarrow> journal_round \<Rightarrow> outbox \<Rightarrow> bool" where
  "round_ok src r0 J rd ob \<longleftrightarrow>
     list_all (\<lambda>m. lm_source_id m = journald_key src \<longrightarrow> lm_cursor m \<in> set (map lm_cursor (ob_sent ob))) (jr_acked rd)
     \<and> (let r = round_registry r0 rd in
        prefix (jp_lines (jr_spawn rd (stream_args src r)))
          (journal_after (fst (position_cursor (journald_key src) r)) J))"

fun rounds_ok ::
  "(json \<Rightarrow> string) \<Rightarrow> journald_source \<Rightarrow> processor option \<Rightarrow> registry \<Rightarrow> journal_line list \<Rightarrow> journal_round list \<Rightarrow> outbox \<Rightarrow> bool" where
  "rounds_ok render src proc r0 J [] ob = True"
| "rounds_ok render src proc r0 J (rd # rds) ob =
     (round_ok src r0 J rd ob
      \<and> rounds_ok render src proc r0 J rds (snd (snd (round_stream render src proc r0 rd ob))))"

lemma acks_cursor:
  "fst (position_cursor i (fold acknowledge ms r)) = fst (position_cursor i r)
   \<or> (\<exists>m \<in> set ms. lm_source_id m = i \<and> fst (position_cursor i (fold acknowledge ms r)) = lm_cursor m)"
proof (induction ms arbitrary: r)
  case (Cons m ms)
  have "fst (position_cursor i (acknowledge m r)) = fst (position_cursor i r)
      \<or> lm_source_id m = i \<and> fst (position_cursor i (acknowledge m r)) = lm_cursor m"
    by (auto simp: acknowledge_def position_cursor_def)
  with Cons [of "acknowledge m r"] show ?case by auto
qed simp

lemma map_filter_append: "List.map_filter f (xs @ ys) = List.map_filter f xs @ List.map_filter f ys"
  by (simp add: List.map_filter_def)

lemma map_filter_take: "\<exists>k. take n (List.map_filter f xs) = List.map_filter f (take k xs)"
proof (induction xs arbitrary: n)
  case (Cons x xs)
  show ?case
  proof (cases "f x")
    case None
    obtain k where "take n (List.map_filter f xs) = List.map_filter f (take k xs)" using Cons by blast
    with None have "take n (List.map_filter f (x # xs)) = List.map_filter f (take (Suc k) (x # xs))"
      by (simp add: map_filter_simps)
    then show ?thesis by blast
  next
    case (Some y)
    show ?thesis
    proof (cases n)
      case 0
      then have "take n (List.map_filter f (x # xs)) = List.map_filter f (take 0 (x # xs))"
        by (simp add: map_filter_simps)
      then show ?thesis by blast
    next
      case (Suc n')
      obtain k where "take n' (List.map_filter f xs) = List.map_filter f (take k xs)" using Cons by blast
      with Some Suc have "take n (List.map_filter f (x # xs)) = List.map_filter f (take (Suc k) (x # xs))"
        by (simp add: map_filter_simps)
      then show ?thesis by blast
    qed
  qed
qed (simp add: map_filter_simps)

lemma stream_sends:
  "\<exists>k. ob_sent (snd (snd (stream_process render src proc p ob)))
     = ob_sent ob @ List.map_filter (entry_message render src proc) (take k (jp_lines p))"
proof -
  obtain ok ob' where s: "journald_stream render src proc (jp_lines p) ob = (ok, ob')" by fastforce
  let ?f = "entry_message render src proc"
  have sent: "ob_sent ob' = ob_sent ob @ take (length (takeWhile (\<lambda>b. b) (ob_room ob))) (List.map_filter ?f (jp_lines p))"
    using journald_stream_prefix [of render src proc "jp_lines p" ob] s by (simp add: Let_def)
  obtain k where "take (length (takeWhile (\<lambda>b. b) (ob_room ob))) (List.map_filter ?f (jp_lines p))
      = List.map_filter ?f (take k (jp_lines p))" using map_filter_take by blast
  with s sent have "ob_sent (snd (snd (stream_process render src proc p ob))) = ob_sent ob
      \<or> ob_sent (snd (snd (stream_process render src proc p ob))) = ob_sent ob @ List.map_filter ?f (take k (jp_lines p))"
    by (auto simp: stream_process_def split: option.splits)
  then show ?thesis by (auto simp: map_filter_simps intro: exI [of _ k] exI [of _ 0])
qed

lemma round_sends:
  "\<exists>k. ob_sent (snd (snd (round_stream render src proc r0 rd ob))) = ob_sent ob
     @ List.map_filter (entry_message render src proc)
         (take k (jp_lines (jr_spawn rd (stream_args src (round_registry r0 rd)))))"
  unfolding round_stream_def by (rule stream_sends)

text \<open>In a journal of distinct cursors, the entries after the one at \<open>i\<close> are those from \<open>i + 1\<close>.\<close>

lemma journal_after_nth:
  assumes "distinct (map entry_cursor J)" "[] \<notin> entry_cursor ` set J" "i < length J"
  shows "journal_after (entry_cursor (J ! i)) J = drop (Suc i) J"
proof -
  have ne: "entry_cursor (J ! i) \<noteq> []" using assms(2,3) nth_mem by (metis image_eqI)
  have J: "J = take i J @ J ! i # drop (Suc i) J" using assms(3) by (rule id_take_nth_drop)
  have "entry_cursor l \<noteq> entry_cursor (J ! i)" if "l \<in> set (take i J)" for l
  proof -
    have "\<exists>j<i. l = J ! j" using that assms(3) by (fastforce simp: in_set_conv_nth)
    then obtain j where "j < i" "l = J ! j" by blast
    with assms(1,3) show ?thesis by (auto simp: distinct_conv_nth)
  qed
  then have "dropWhile (\<lambda>l. entry_cursor l \<noteq> entry_cursor (J ! i)) (take i J @ J ! i # drop (Suc i) J)
      = J ! i # drop (Suc i) J" by (subst dropWhile_append2) auto
  with J ne show ?thesis by (simp add: journal_after_def)
qed

text \<open>\<open>sent\<close> is, duplicates aside, the messages of the first entries from place \<open>s\<close> of the journal on.\<close>

definition covers ::
  "(journal_line \<Rightarrow> message option) \<Rightarrow> journal_line list \<Rightarrow> nat \<Rightarrow> nat \<Rightarrow> message list \<Rightarrow> bool" where
  "covers f J s n sent \<longleftrightarrow> s \<le> n \<and> n \<le> length J \<and> set sent = set (List.map_filter f (drop s (take n J)))"

lemma covers_extend:
  assumes "covers f J s n sent" "s \<le> i" "i \<le> n" "prefix ls (drop i J)"
  shows "\<exists>n'. covers f J s n' (sent @ List.map_filter f (take k ls))"
proof -
  obtain zs where zs: "drop i J = ls @ zs" using assms(4) by (auto simp: prefix_def)
  define m where "m = i + length (take k ls)"
  have "length (drop i J) = length ls + length zs" by (simp add: zs)
  then have m: "i \<le> m" "m \<le> length J" using assms(1,3) by (auto simp: m_def covers_def)
  have "drop i (take m J) = take (length (take k ls)) (ls @ zs)"
    using zs by (simp add: drop_take m_def)
  also have "\<dots> = take k ls" by (simp add: min_def)
  finally have ls: "take k ls = drop i (take m J)" ..
  have *: "set (drop s (take n J)) \<union> set (drop i (take m J)) = set (drop s (take (max n m) J))"
  proof (cases "m \<le> n")
    case True
    then have "set (drop i (take m J)) \<subseteq> set (drop s (take n J))"
      using assms(2) by (metis drop_drop le_add_diff_inverse2 min.absorb1 order_trans set_drop_subset set_take_subset take_take take_drop drop_take)
    with True show ?thesis by (auto simp: max_def)
  next
    case False
    have "drop s (take m J) = drop s (take n J) @ drop n (take m J)"
    proof -
      have "take m J = take n J @ drop n (take m J)"
        using False by (metis append_take_drop_id linear min.absorb2 min.commute take_take)
      then show ?thesis using assms(1) by (metis covers_def drop_append append_Nil2 diff_is_0_eq drop0 length_take min.absorb2)
    qed
    moreover have "set (drop n (take m J)) \<subseteq> set (drop i (take m J))"
      using assms(3) by (metis le_add_diff_inverse2 drop_drop set_drop_subset)
    moreover have "set (drop i (take m J)) \<subseteq> set (drop s (take m J))"
      using assms(2) by (metis le_add_diff_inverse2 drop_drop set_drop_subset)
    ultimately show ?thesis using False by (auto simp: max_def)
  qed
  have mf: "set (List.map_filter f xs) = {y. \<exists>x \<in> set xs. f x = Some y}" for xs
    by (force simp: List.map_filter_def)
  have "covers f J s (max n m) (sent @ List.map_filter f (take k ls))"
    using assms(1) m *[symmetric] by (auto simp: covers_def ls mf)
  then show ?thesis ..
qed

lemma round_covers:
  assumes J: "distinct (map entry_cursor J)" "[] \<notin> entry_cursor ` set J"
    and ok: "round_ok src r0 J rd ob"
    and c0: "journal_after (fst (position_cursor (journald_key src) r0)) J = drop s J"
    and cov: "covers (entry_message render src proc) J s n (ob_sent ob)"
  shows "\<exists>n'. covers (entry_message render src proc) J s n' (ob_sent (snd (snd (round_stream render src proc r0 rd ob))))"
proof -
  let ?f = "entry_message render src proc" and ?r = "round_registry r0 rd"
  let ?c = "fst (position_cursor (journald_key src) ?r)"
  let ?ls = "jp_lines (jr_spawn rd (stream_args src ?r))"
  obtain k where k: "ob_sent (snd (snd (round_stream render src proc r0 rd ob)))
      = ob_sent ob @ List.map_filter ?f (take k ?ls)" using round_sends by blast
  have pre: "prefix ?ls (journal_after ?c J)" using ok by (simp add: round_ok_def Let_def)
  have "\<exists>i. s \<le> i \<and> i \<le> n \<and> journal_after ?c J = drop i J"
  proof (cases "?c = fst (position_cursor (journald_key src) r0)")
    case True
    with c0 cov show ?thesis by (auto simp: covers_def)
  next
    case False
    then obtain m where "m \<in> set (jr_acked rd)" "lm_source_id m = journald_key src" "?c = lm_cursor m"
      using acks_cursor [of "journald_key src" "jr_acked rd" r0] by (auto simp: round_registry_def)
    with ok obtain m' where m': "m' \<in> set (ob_sent ob)" "?c = lm_cursor m'"
      by (auto simp: round_ok_def list_all_iff)
    with cov obtain l where l: "l \<in> set (drop s (take n J))" "?f l = Some m'"
      by (auto simp: covers_def List.map_filter_def)
    then obtain j where j0: "j < length (drop s (take n J))" "drop s (take n J) ! j = l"
      by (auto simp: in_set_conv_nth)
    then have j: "s + j < n" "s + j < length J" by auto
    with j0(2) have j3: "J ! (s + j) = l" by simp
    have "?c = entry_cursor (J ! (s + j))" using m'(2) entry_message_cursor [OF l(2)] j3 by simp
    with journal_after_nth [OF J j(2)] j(1) show ?thesis by (intro exI [of _ "Suc (s + j)"]) simp
  qed
  then obtain i where "s \<le> i" "i \<le> n" "journal_after ?c J = drop i J" by blast
  with covers_extend [OF cov, of i ?ls k] pre k show ?thesis by simp
qed


definition journald_example :: journald_source where
  "journald_example = \<lparr>js_path = [], js_service = [], js_source = [], js_tags = [], js_start_position = ''beginning'',
     js_include_units = [], js_exclude_units = [], js_include_user_units = [], js_exclude_user_units = [],
     js_include_matches = [], js_exclude_matches = []\<rparr>"

definition line_example :: "string \<Rightarrow> journal_line" where
  "line_example c = JournalObject [(''__CURSOR'', RawString c), (''MESSAGE'', RawString (''m'' @ c))]"

definition round_example :: "message list \<Rightarrow> journal_line list \<Rightarrow> journal_round" where
  "round_example ms ls = \<lparr>jr_acked = ms,
     jr_spawn = (\<lambda>args. \<lparr>jp_pipe_err = None, jp_start_err = None, jp_lines = ls, jp_end = ReadEOF, jp_stderr = [],
       jp_wait_err = Some ''exit status 1''\<rparr>), jr_over = False, jr_slept = True\<rparr>"

definition rounds_example :: "journal_round list" where
  "rounds_example =
     [round_example [] [line_example ''a''], round_example [] [line_example ''a'', line_example ''b''],
      round_example (List.map_filter (entry_message (\<lambda>_. []) journald_example None) [line_example ''a'']) [line_example ''b'']]"

definition outbox_example :: journald_state where
  "outbox_example = \<lparr>jd_outbox = \<lparr>ob_room = replicate 9 True, ob_sent = []\<rparr>, jd_warnings = [], jd_stopped = False\<rparr>"


end
