(* ===== verification/LogsRun.thy ===== *)
theory LogsRun
  imports LogDiscover JournaldRun
begin

text \<open>
  The logs agent as a whole: \<open>Agent.Run\<close> of \<^verbatim>\<open>internal/logs/agent.go\<close>. Its goroutines, the scan, the
  tailers, the batcher and the registry's flusher, share the channel of messages and the registry;
  a step is one thing one of them does, or one statement of the shutdown sequence, and a step that
  the code blocks on has no successor. The registry is the one the batcher acknowledges in and the
  sweep removes from.
\<close>

section \<open>State and steps\<close>

record logs_run =
  lr_tailed :: "(string \<times> handle) list"
  lr_live :: "string list"
  lr_stopping :: "string list"
  lr_forgotten :: "string list"
  lr_queue :: "message list"
  lr_sent :: "message list"
  lr_batcher :: batcher
  lr_disk :: disk
  lr_cancelled :: bool
  lr_scanning :: bool
  lr_closed :: bool
  lr_persisting :: bool
  lr_finished :: bool

text \<open>
  \<open>lr_live\<close> are the identifiers of the running tailers, \<open>lr_stopping\<close> of those the sweep has
  cancelled; \<open>lr_forgotten\<close> and \<open>lr_sent\<close> record what the sweep removed and the tailers sent.
\<close>

datatype logs_event =
    Rescan scan_fs | CancelRun | ScanStops | TailerSends message | TailerEnds string | CloseInput
  | BatcherTakes int | BatcherEnds int | BatcherTick int | BatcherAbandons int
  | PersistTick flush_io | PersistEnds flush_io | FinalFlush flush_io

definition channel_size :: nat where "channel_size = 1000"

definition started_ids :: "tail_action list \<Rightarrow> string list" where
  "started_ids acts = concat (map (\<lambda>a. case a of StartTail p g \<Rightarrow> [''file:'' @ p] | StopTail p \<Rightarrow> []) acts)"

definition stopped_ids :: "tail_action list \<Rightarrow> string list" where
  "stopped_ids acts = concat (map (\<lambda>a. case a of StartTail p g \<Rightarrow> [] | StopTail p \<Rightarrow> [''file:'' @ p]) acts)"

definition rescan :: "log_source list \<Rightarrow> scan_fs \<Rightarrow> logs_run \<Rightarrow> logs_run" where
  "rescan srcs fs s =
     (let d = discover srcs fs \<lparr>dv_tailed = lr_tailed s, dv_registry = bt_registry (lr_batcher s), dv_actions = []\<rparr>
      in s\<lparr>lr_tailed := dv_tailed d, lr_live := lr_live s @ started_ids (dv_actions d),
           lr_stopping := lr_stopping s @ stopped_ids (dv_actions d),
           lr_forgotten := lr_forgotten s @ stopped_ids (dv_actions d),
           lr_batcher := (lr_batcher s)\<lparr>bt_registry := dv_registry d\<rparr>\<rparr>)"

definition journald_ids :: "log_source list \<Rightarrow> string list" where
  "journald_ids srcs = map (\<lambda>src. ''journald:'' @ (if ls_path src \<noteq> [] then ls_path src else ''default''))
     (filter (\<lambda>src. ls_type src = ''journald'') srcs)"

text \<open>\<open>Run\<close> up to the wait for cancellation: the journald tailers, then the initial expansion.\<close>

definition logs_start :: "log_source list \<Rightarrow> scan_fs \<Rightarrow> disk \<Rightarrow> json net \<Rightarrow> logs_run" where
  "logs_start srcs fs dk nt = rescan srcs fs
     \<lparr>lr_tailed = [], lr_live = journald_ids srcs, lr_stopping = [], lr_forgotten = [], lr_queue = [], lr_sent = [],
      lr_batcher = new_batcher (load_registry dk) nt, lr_disk = dk, lr_cancelled = False, lr_scanning = True,
      lr_closed = False, lr_persisting = True, lr_finished = False\<rparr>"

definition batcher_does :: "batcher_conf \<Rightarrow> int \<Rightarrow> batch_event \<Rightarrow> logs_run \<Rightarrow> logs_run option" where
  "batcher_does conf now ev s =
     (case batch_step conf now ev (lr_batcher s) of None \<Rightarrow> None | Some b \<Rightarrow> Some (s\<lparr>lr_batcher := b\<rparr>))"

definition persist :: "flush_io \<Rightarrow> logs_run \<Rightarrow> logs_run" where
  "persist io s = s\<lparr>lr_disk := flush_registry io (bt_registry (lr_batcher s)) (lr_disk s)\<rparr>"

definition logs_step :: "batcher_conf \<Rightarrow> log_source list \<Rightarrow> logs_event \<Rightarrow> logs_run \<Rightarrow> logs_run option" where
  "logs_step conf srcs ev s =
     (case ev of
        Rescan fs \<Rightarrow> if lr_scanning s then Some (rescan srcs fs s) else None
      | CancelRun \<Rightarrow> Some (s\<lparr>lr_cancelled := True\<rparr>)
      | ScanStops \<Rightarrow> if lr_cancelled s \<and> lr_scanning s then Some (s\<lparr>lr_scanning := False\<rparr>) else None
      | TailerSends m \<Rightarrow>
          if lm_source_id m \<in> set (lr_live s) \<and> length (lr_queue s) < channel_size
          then Some (s\<lparr>lr_queue := lr_queue s @ [m], lr_sent := lr_sent s @ [m]\<rparr>) else None
      | TailerEnds i \<Rightarrow>
          if i \<in> set (lr_live s) \<and> (lr_cancelled s \<or> i \<in> set (lr_stopping s))
          then Some (s\<lparr>lr_live := remove1 i (lr_live s), lr_stopping := remove1 i (lr_stopping s)\<rparr>) else None
      | CloseInput \<Rightarrow>
          if lr_cancelled s \<and> \<not> lr_scanning s \<and> lr_live s = [] \<and> \<not> lr_closed s
          then Some (s\<lparr>lr_closed := True\<rparr>) else None
      | BatcherTakes now \<Rightarrow>
          (case lr_queue s of
             [] \<Rightarrow> None
           | m # q \<Rightarrow> batcher_does conf now (Incoming m) (s\<lparr>lr_queue := q\<rparr>))
      | BatcherEnds now \<Rightarrow> if lr_closed s \<and> lr_queue s = [] then batcher_does conf now InputClosed s else None
      | BatcherTick now \<Rightarrow> batcher_does conf now BatchTick s
      | BatcherAbandons now \<Rightarrow> if lr_cancelled s then batcher_does conf now ShutdownDone s else None
      | PersistTick io \<Rightarrow> if lr_persisting s then Some (persist io s) else None
      | PersistEnds io \<Rightarrow>
          if lr_closed s \<and> bt_done (lr_batcher s) \<and> lr_persisting s
          then Some ((persist io s)\<lparr>lr_persisting := False\<rparr>) else None
      | FinalFlush io \<Rightarrow>
          if lr_closed s \<and> bt_done (lr_batcher s) \<and> \<not> lr_persisting s \<and> \<not> lr_finished s
          then Some ((persist io s)\<lparr>lr_finished := True\<rparr>) else None)"

fun logs_trace :: "batcher_conf \<Rightarrow> log_source list \<Rightarrow> logs_event list \<Rightarrow> logs_run \<Rightarrow> logs_run option" where
  "logs_trace conf srcs [] s = Some s"
| "logs_trace conf srcs (ev # evs) s =
     (case logs_step conf srcs ev s of None \<Rightarrow> None | Some s' \<Rightarrow> logs_trace conf srcs evs s')"

lemma logs_trace_append:
  "logs_trace conf srcs (xs @ ys) s = (case logs_trace conf srcs xs s of None \<Rightarrow> None | Some s' \<Rightarrow> logs_trace conf srcs ys s')"
  by (induction xs arbitrary: s) (auto split: option.splits)

section \<open>The batcher under a registry that others change\<close>

text \<open>What the batcher does does not depend on the registry: it only adds acknowledgements to it.\<close>

definition same_but_registry :: "string set \<Rightarrow> batcher \<Rightarrow> batcher \<Rightarrow> bool" where
  "same_but_registry F b b0 \<longleftrightarrow>
     b0 = b\<lparr>bt_registry := bt_registry b0\<rparr>
     \<and> (\<forall>j. j \<notin> F \<longrightarrow> map_of (rg_offsets (bt_registry b)) j = map_of (rg_offsets (bt_registry b0)) j
        \<and> map_of (rg_cursors (bt_registry b)) j = map_of (rg_cursors (bt_registry b0)) j)"

lemma same_acks:
  assumes "\<forall>j. j \<notin> F \<longrightarrow> map_of (rg_offsets r) j = map_of (rg_offsets r0) j \<and> map_of (rg_cursors r) j = map_of (rg_cursors r0) j"
    and "j \<notin> F"
  shows "map_of (rg_offsets (fold acknowledge ms r)) j = map_of (rg_offsets (fold acknowledge ms r0)) j
    \<and> map_of (rg_cursors (fold acknowledge ms r)) j = map_of (rg_cursors (fold acknowledge ms r0)) j"
  using assms(1)
proof (induction ms arbitrary: r r0)
  case (Cons m ms)
  have "\<forall>j. j \<notin> F \<longrightarrow> map_of (rg_offsets (acknowledge m r)) j = map_of (rg_offsets (acknowledge m r0)) j
      \<and> map_of (rg_cursors (acknowledge m r)) j = map_of (rg_cursors (acknowledge m r0)) j"
    using Cons.prems by (auto simp: acknowledge_def)
  from Cons.IH [OF this] show ?case by simp
qed (use assms(2) in auto)

lemma same_flush:
  assumes "same_but_registry F b b0"
  shows "same_but_registry F (batch_flush conf now b) (batch_flush conf now b0)"
proof -
  obtain r0 where b0: "b0 = b\<lparr>bt_registry := r0\<rparr>" using assms by (auto simp: same_but_registry_def)
  obtain st er nt where s: "send_logs (bc_client conf) (bc_endpoints conf) (bc_hostname conf) now (bt_batch b) (bt_net b) = ((st, er), nt)"
    by (metis prod.exhaust)
  have "\<forall>j. j \<notin> F \<longrightarrow> map_of (rg_offsets (fold acknowledge (bt_batch b) (bt_registry b))) j = map_of (rg_offsets (fold acknowledge (bt_batch b) r0)) j
      \<and> map_of (rg_cursors (fold acknowledge (bt_batch b) (bt_registry b))) j = map_of (rg_cursors (fold acknowledge (bt_batch b) r0)) j"
    using same_acks [of F "bt_registry b" r0] assms b0 by (auto simp: same_but_registry_def)
  with assms s b0 show ?thesis
    by (auto simp: batch_flush_def batch_send_def same_but_registry_def Let_def)
qed

lemma same_fields:
  "same_but_registry F b b0 \<Longrightarrow> bt_batch b0 = bt_batch b \<and> bt_bytes b0 = bt_bytes b \<and> bt_stuck b0 = bt_stuck b
     \<and> bt_done b0 = bt_done b \<and> bt_net b0 = bt_net b"
  by (metis (no_types, lifting) batcher.select_convs batcher.surjective batcher.update_convs(4) same_but_registry_def)

lemma same_update:
  assumes "same_but_registry F b b0"
  shows "same_but_registry F (b\<lparr>bt_done := x\<rparr>) (b0\<lparr>bt_done := x\<rparr>)" "same_but_registry F (batch_append m b) (batch_append m b0)"
proof -
  obtain r0 where "b0 = b\<lparr>bt_registry := r0\<rparr>" using assms by (auto simp: same_but_registry_def)
  with assms show "same_but_registry F (b\<lparr>bt_done := x\<rparr>) (b0\<lparr>bt_done := x\<rparr>)"
      "same_but_registry F (batch_append m b) (batch_append m b0)"
    by (simp_all add: same_but_registry_def batch_append_def)
qed

lemma same_receive:
  assumes "same_but_registry F b b0"
  shows "same_but_registry F (batch_receive conf now m b) (batch_receive conf now m b0)"
  using same_fields [OF assms] same_fields [OF same_update(2) [OF same_flush [OF assms]]] same_fields [OF same_update(2) [OF assms]]
    same_update(2) [OF same_flush [OF assms]] same_update(2) [OF assms]
    same_flush [OF same_update(2) [OF same_flush [OF assms]]] same_flush [OF same_update(2) [OF assms]]
  by (auto simp: batch_receive_def Let_def)

lemma same_step:
  assumes "same_but_registry F b b0" "batch_step conf now ev b = Some b'"
  obtains b0' where "batch_step conf now ev b0 = Some b0'" "same_but_registry F b' b0'"
  using assms same_fields [OF assms(1)] same_flush [OF assms(1)] same_receive [OF assms(1)]
    same_update(1) [OF assms(1)] same_update(1) [OF same_flush [OF assms(1)]]
  by (auto simp: batch_step_def split: if_splits batch_event.splits)

section \<open>Nothing is lost\<close>

definition tagged :: "batcher_conf \<Rightarrow> message \<Rightarrow> message" where
  "tagged conf m = m\<lparr>lm_tags := combine_tags (lm_tags m) (bc_tags conf)\<rparr>"

lemma batch_run_snoc:
  "batch_run conf evs b = Some b1 \<Longrightarrow> batch_step conf now ev b1 = Some b2 \<Longrightarrow> batch_run conf (evs @ [(now, ev)]) b = Some b2"
  by (induction conf evs b rule: batch_run.induct) (auto split: option.splits)

lemma received_snoc:
  "received conf (evs @ [(now, ev)]) = received conf evs @ (case ev of Incoming m \<Rightarrow> [tagged conf m] | _ \<Rightarrow> [])"
  by (simp add: received_def tagged_def split: batch_event.split)

lemma stopped_ids_simps:
  "stopped_ids [] = []" "stopped_ids (xs @ ys) = stopped_ids xs @ stopped_ids ys"
  "stopped_ids (map (\<lambda>x. StopTail (f x)) zs) = map (\<lambda>x. ''file:'' @ f x) zs"
  by (induction zs) (simp_all add: stopped_ids_def)

lemma start_tailer_stops:
  "dv_registry (start_tailer p g d) = dv_registry d"
  "stopped_ids (dv_actions (start_tailer p g d)) = stopped_ids (dv_actions d)"
  by (simp_all add: start_tailer_def stopped_ids_def)

lemma expand_source_registry:
  "dv_registry (snd (expand_source fs src st)) = dv_registry (snd st)
   \<and> stopped_ids (dv_actions (snd (expand_source fs src st))) = stopped_ids (dv_actions (snd st))"
proof -
  have "dv_registry (fold (\<lambda>m. start_tailer m True) ms d) = dv_registry d
      \<and> stopped_ids (dv_actions (fold (\<lambda>m. start_tailer m True) ms d)) = stopped_ids (dv_actions d)" for ms d
    by (induction ms arbitrary: d) (simp_all add: start_tailer_stops)
  then show ?thesis
    by (simp add: expand_source_def start_tailer_stops Let_def split: prod.split option.split)
qed

lemma expand_sources_registry:
  "dv_registry (snd (fold (expand_source fs) srcs st)) = dv_registry (snd st)
   \<and> stopped_ids (dv_actions (snd (fold (expand_source fs) srcs st))) = stopped_ids (dv_actions (snd st))"
  by (induction srcs arbitrary: st) (simp_all add: expand_source_registry)

lemma discover_registry:
  "dv_registry (discover srcs fs (d\<lparr>dv_actions := []\<rparr>))
     = fold remove_id (stopped_ids (dv_actions (discover srcs fs (d\<lparr>dv_actions := []\<rparr>)))) (dv_registry d)"
proof -
  obtain m d1 where e: "fold (expand_source fs) srcs ([], d\<lparr>dv_actions := []\<rparr>) = (m, d1)" by fastforce
  then have "dv_registry d1 = dv_registry d" "stopped_ids (dv_actions d1) = []"
    using expand_sources_registry [of fs srcs "([], d\<lparr>dv_actions := []\<rparr>)"] by (simp_all add: stopped_ids_simps)
  then show ?thesis
    using e by (simp add: discover_def sweep_def Let_def stopped_ids_simps fold_map comp_def)
qed

lemma remove_ids_lookup:
  "j \<notin> set is \<Longrightarrow> map_of (rg_offsets (fold remove_id is r)) j = map_of (rg_offsets r) j
     \<and> map_of (rg_cursors (fold remove_id is r)) j = map_of (rg_cursors r) j"
  by (induction "is" arbitrary: r) auto

definition accounted :: "batcher_conf \<Rightarrow> registry \<Rightarrow> json net \<Rightarrow> logs_run \<Rightarrow> bool" where
  "accounted conf r0 nt s \<longleftrightarrow>
     (\<exists>evs b0. batch_run conf evs (new_batcher r0 nt) = Some b0
        \<and> same_but_registry (set (lr_forgotten s)) (lr_batcher s) b0
        \<and> received conf evs @ map (tagged conf) (lr_queue s) = map (tagged conf) (lr_sent s))"

lemma rescan_fields:
  "lr_queue (rescan srcs fs s) = lr_queue s" "lr_sent (rescan srcs fs s) = lr_sent s"
  "lr_batcher (rescan srcs fs s) = (lr_batcher s)\<lparr>bt_registry := bt_registry (lr_batcher (rescan srcs fs s))\<rparr>"
  "\<exists>is. lr_forgotten (rescan srcs fs s) = lr_forgotten s @ is
     \<and> bt_registry (lr_batcher (rescan srcs fs s)) = fold remove_id is (bt_registry (lr_batcher s))"
  using discover_registry [of srcs fs "\<lparr>dv_tailed = lr_tailed s, dv_registry = bt_registry (lr_batcher s), dv_actions = []\<rparr>"]
  by (simp_all add: rescan_def Let_def)

lemma accounted_rescan: "accounted conf r0 nt s \<Longrightarrow> accounted conf r0 nt (rescan srcs fs s)"
proof -
  assume "accounted conf r0 nt s"
  then obtain evs b0 where a: "batch_run conf evs (new_batcher r0 nt) = Some b0"
      "same_but_registry (set (lr_forgotten s)) (lr_batcher s) b0"
      "received conf evs @ map (tagged conf) (lr_queue s) = map (tagged conf) (lr_sent s)"
    by (auto simp: accounted_def)
  obtain gone where gone: "lr_forgotten (rescan srcs fs s) = lr_forgotten s @ gone"
     "bt_registry (lr_batcher (rescan srcs fs s)) = fold remove_id gone (bt_registry (lr_batcher s))"
    using rescan_fields(4) by blast
  have "b0 = (lr_batcher s)\<lparr>bt_registry := bt_registry b0\<rparr>" using a(2) by (simp add: same_but_registry_def)
  then have "b0 = (lr_batcher (rescan srcs fs s))\<lparr>bt_registry := bt_registry b0\<rparr>" by (subst rescan_fields(3)) simp
  moreover have "\<forall>j. j \<notin> set (lr_forgotten (rescan srcs fs s)) \<longrightarrow>
      map_of (rg_offsets (bt_registry (lr_batcher (rescan srcs fs s)))) j = map_of (rg_offsets (bt_registry b0)) j
      \<and> map_of (rg_cursors (bt_registry (lr_batcher (rescan srcs fs s)))) j = map_of (rg_cursors (bt_registry b0)) j"
    using a(2)[unfolded same_but_registry_def, THEN conjunct2] by (simp add: gone remove_ids_lookup)
  ultimately have "same_but_registry (set (lr_forgotten (rescan srcs fs s))) (lr_batcher (rescan srcs fs s)) b0"
    unfolding same_but_registry_def by (rule conjI)
  with a(1,3) show ?thesis unfolding accounted_def rescan_fields(1,2) by blast
qed

lemma accounted_batcher:
  assumes "accounted conf r0 nt s" "batch_step conf now ev (lr_batcher s) = Some b"
    and "case ev of Incoming m \<Rightarrow> lr_queue s = m # q | _ \<Rightarrow> lr_queue s = q"
  shows "accounted conf r0 nt (s\<lparr>lr_queue := q, lr_batcher := b\<rparr>)"
proof -
  obtain evs b0 where a: "batch_run conf evs (new_batcher r0 nt) = Some b0"
      "same_but_registry (set (lr_forgotten s)) (lr_batcher s) b0"
      "received conf evs @ map (tagged conf) (lr_queue s) = map (tagged conf) (lr_sent s)"
    using assms(1) by (auto simp: accounted_def)
  obtain b0' where "batch_step conf now ev b0 = Some b0'" "same_but_registry (set (lr_forgotten s)) b b0'"
    using same_step [OF a(2) assms(2)] .
  with batch_run_snoc [OF a(1)] a(3) assms(3) show ?thesis
    unfolding accounted_def
    by (intro exI [of _ "evs @ [(now, ev)]"] exI [of _ b0']) (auto simp: received_snoc split: batch_event.splits)
qed

lemma accounted_step:
  assumes "accounted conf r0 nt s" "logs_step conf srcs ev s = Some s'"
  shows "accounted conf r0 nt s'"
proof -
  have same: "accounted conf r0 nt t"
    if "lr_queue t = lr_queue s" "lr_sent t = lr_sent s" "lr_batcher t = lr_batcher s" "lr_forgotten t = lr_forgotten s" for t
    using assms(1) that by (simp add: accounted_def)
  show ?thesis
  proof (cases ev)
    case (TailerSends m)
    with assms(2) have s': "s' = s\<lparr>lr_queue := lr_queue s @ [m], lr_sent := lr_sent s @ [m]\<rparr>"
      by (simp add: logs_step_def split: if_splits)
    obtain evs b0 where "batch_run conf evs (new_batcher r0 nt) = Some b0"
        "same_but_registry (set (lr_forgotten s)) (lr_batcher s) b0"
        "received conf evs @ map (tagged conf) (lr_queue s) = map (tagged conf) (lr_sent s)"
      using assms(1) by (auto simp: accounted_def)
    then show ?thesis unfolding accounted_def s' by (intro exI [of _ evs] exI [of _ b0]) simp
  next
    case (Rescan fs)
    with assms(2) accounted_rescan [OF assms(1), of srcs fs] show ?thesis by (simp add: logs_step_def split: if_splits)
  next
    case (BatcherTakes now)
    with assms obtain m q b where "lr_queue s = m # q" "batch_step conf now (Incoming m) (lr_batcher s) = Some b"
        "s' = s\<lparr>lr_queue := q, lr_batcher := b\<rparr>"
      by (auto simp: logs_step_def batcher_does_def split: list.splits option.splits)
    with accounted_batcher [OF assms(1)] show ?thesis by auto
  next
    case (BatcherEnds now)
    with assms accounted_batcher [OF assms(1), of now InputClosed _ "lr_queue s"] show ?thesis
      by (auto simp: logs_step_def batcher_does_def split: if_splits option.splits)
  next
    case (BatcherTick now)
    with assms accounted_batcher [OF assms(1), of now BatchTick _ "lr_queue s"] show ?thesis
      by (auto simp: logs_step_def batcher_does_def split: if_splits option.splits)
  next
    case (BatcherAbandons now)
    with assms accounted_batcher [OF assms(1), of now ShutdownDone _ "lr_queue s"] show ?thesis
      by (auto simp: logs_step_def batcher_does_def split: if_splits option.splits)
  qed (rule same, use assms(2) in \<open>auto simp: logs_step_def persist_def split: if_splits\<close>)+
qed

section \<open>The order of the shutdown\<close>

definition ordered :: "logs_run \<Rightarrow> bool" where
  "ordered s \<longleftrightarrow>
     (lr_closed s \<longrightarrow> lr_cancelled s \<and> \<not> lr_scanning s \<and> lr_live s = [])
     \<and> (bt_done (lr_batcher s) \<longrightarrow> bt_stuck (lr_batcher s) \<or> lr_closed s \<and> lr_queue s = [] \<and> bt_batch (lr_batcher s) = [])
     \<and> (\<not> lr_persisting s \<longrightarrow> lr_closed s \<and> bt_done (lr_batcher s))
     \<and> (lr_finished s \<longrightarrow> \<not> lr_persisting s)
     \<and> (\<not> lr_scanning s \<longrightarrow> lr_cancelled s)"

lemma ordered_rescan: "ordered s \<Longrightarrow> lr_scanning s \<Longrightarrow> ordered (rescan srcs fs s)"
  by (auto simp: ordered_def rescan_def Let_def)

lemma flush_empties: "\<not> bt_stuck b \<Longrightarrow> bt_stuck (batch_flush conf now b) \<or> bt_batch (batch_flush conf now b) = []"
  by (cases b rule: batch_flush_cases [of _ conf now]) auto

lemma flush_done: "bt_done (batch_flush conf now b) = bt_done b"
  by (cases b rule: batch_flush_cases [of _ conf now]) auto

lemma receive_done: "bt_done (batch_receive conf now m b) = bt_done b"
  by (simp add: batch_receive_def Let_def flush_done batch_append_def)

lemma batch_step_done:
  assumes "batch_step conf now ev b = Some b'"
  shows "\<not> bt_done b"
    and "bt_done b' \<Longrightarrow> ev = InputClosed \<and> (bt_stuck b' \<or> bt_batch b' = []) \<or> ev = ShutdownDone \<and> bt_stuck b'"
  using assms flush_empties [of b conf now]
  by (auto simp: batch_step_def flush_done receive_done split: if_splits batch_event.splits)

lemma ordered_batcher:
  assumes "ordered s" "batch_step conf now ev (lr_batcher s) = Some b"
    and "ev = InputClosed \<Longrightarrow> lr_closed s \<and> q = []"
  shows "ordered (s\<lparr>lr_queue := q, lr_batcher := b\<rparr>)"
  using assms(1,3) batch_step_done [OF assms(2)] by (auto simp: ordered_def)

lemma batcher_does_some:
  "batcher_does conf now ev s = Some s' \<Longrightarrow>
     \<exists>b. batch_step conf now ev (lr_batcher s) = Some b \<and> s' = s\<lparr>lr_batcher := b\<rparr>"
  by (auto simp: batcher_does_def split: option.splits)

lemma ordered_does:
  assumes "ordered s" "batcher_does conf now ev s = Some s'" "ev = InputClosed \<Longrightarrow> lr_closed s \<and> lr_queue s = []"
  shows "ordered s'"
proof -
  obtain b where "batch_step conf now ev (lr_batcher s) = Some b" "s' = s\<lparr>lr_batcher := b\<rparr>"
    using batcher_does_some [OF assms(2)] by blast
  with ordered_batcher [OF assms(1), of conf now ev b "lr_queue s"] assms(3) show ?thesis by simp
qed

lemma ordered_step:
  assumes "ordered s" "logs_step conf srcs ev s = Some s'"
  shows "ordered s'"
proof (cases ev)
  case (BatcherTakes now)
  with assms obtain m q b where "batch_step conf now (Incoming m) (lr_batcher s) = Some b"
      "s' = s\<lparr>lr_queue := q, lr_batcher := b\<rparr>"
    by (auto simp: logs_step_def dest!: batcher_does_some split: list.splits)
  with ordered_batcher [OF assms(1), of conf now "Incoming m" b q] show ?thesis by simp
next
  case (BatcherEnds now)
  with assms ordered_does [OF assms(1)] show ?thesis by (auto simp: logs_step_def split: if_splits)
next
  case (BatcherTick now)
  with assms ordered_does [OF assms(1)] show ?thesis by (auto simp: logs_step_def)
next
  case (BatcherAbandons now)
  with assms ordered_does [OF assms(1)] show ?thesis by (auto simp: logs_step_def split: if_splits)
next
  case (Rescan fs)
  with assms ordered_rescan [OF assms(1)] show ?thesis by (auto simp: logs_step_def split: if_splits)
next
  case (TailerSends m)
  with assms(2) have "s' = s\<lparr>lr_queue := lr_queue s @ [m], lr_sent := lr_sent s @ [m]\<rparr>" "lr_live s \<noteq> []"
    by (auto simp: logs_step_def split: if_splits)
  with assms(1) show ?thesis by (auto simp: ordered_def)
qed (use assms in \<open>auto simp: logs_step_def ordered_def persist_def split: if_splits\<close>)

lemma accounted_start: "accounted conf (load_registry dk) nt (logs_start srcs fs dk nt)"
  unfolding logs_start_def
  by (rule accounted_rescan)
    (auto simp: accounted_def same_but_registry_def new_batcher_def received_def intro!: exI [of _ "[]"])

lemma ordered_start: "ordered (logs_start srcs fs dk nt)"
  unfolding logs_start_def by (rule ordered_rescan) (simp_all add: ordered_def new_batcher_def)

lemma logs_trace_keeps:
  "logs_trace conf srcs evs s = Some s' \<Longrightarrow> accounted conf r0 nt s \<Longrightarrow> ordered s \<Longrightarrow>
     accounted conf r0 nt s' \<and> ordered s'"
  by (induction evs arbitrary: s) (auto split: option.splits intro: accounted_step ordered_step)

text \<open>
  C3. Whatever order the scan, the tailers, the batcher and the flusher run in, every message a
  tailer sent is, in order, settled, in the batch, or still in the channel; the offset the registry
  holds for a file that no scan removed is that of its last delivered message; and once \<open>Run\<close> has
  returned no tailer is left, and everything sent is settled unless a refused batch was abandoned.
\<close>

theorem logs_run_accounts:
  assumes "bc_endpoints conf = ep # eps" "dest ep \<notin> dest ` set eps"
    and "logs_trace conf srcs evs (logs_start srcs fs dk nt) = Some s"
  shows "\<exists>hist. map (tagged conf) (lr_sent s)
       = settled_messages hist @ bt_batch (lr_batcher s) @ map (tagged conf) (lr_queue s)
    \<and> acked (dest ep) (bt_net (lr_batcher s)) = acked (dest ep) nt @ delivered_bodies (bc_hostname conf) hist
    \<and> (\<forall>j. j \<notin> set (lr_forgotten s) \<longrightarrow> map_of (rg_offsets (bt_registry (lr_batcher s))) j =
         (case filter (\<lambda>m. lm_source_id m = j \<and> lm_cursor m = []) (delivered_messages hist) of
            [] \<Rightarrow> map_of (rg_offsets (load_registry dk)) j | qs \<Rightarrow> Some (lm_offset (last qs))))
    \<and> (lr_finished s \<longrightarrow> lr_live s = [] \<and> (bt_stuck (lr_batcher s) \<or> bt_batch (lr_batcher s) = [] \<and> lr_queue s = []))"
proof -
  have i: "accounted conf (load_registry dk) nt s" "ordered s"
    using logs_trace_keeps [OF assms(3) accounted_start ordered_start] by blast+
  obtain evs' b0 where a: "batch_run conf evs' (new_batcher (load_registry dk) nt) = Some b0"
      "same_but_registry (set (lr_forgotten s)) (lr_batcher s) b0"
      "received conf evs' @ map (tagged conf) (lr_queue s) = map (tagged conf) (lr_sent s)"
    using i(1) by (auto simp: accounted_def)
  obtain hist where h: "batch_hist conf (dest ep) (set (nt_replies nt)) (new_batcher (load_registry dk) nt) (received conf evs') hist b0"
    using batch_hist_run [OF assms(1,2) batch_hist_new [OF order_refl] a(1)] by auto
  have "map_of (rg_offsets (bt_registry (lr_batcher s))) j =
         (case filter (\<lambda>m. lm_source_id m = j \<and> lm_cursor m = []) (delivered_messages hist) of
            [] \<Rightarrow> map_of (rg_offsets (load_registry dk)) j | qs \<Rightarrow> Some (lm_offset (last qs)))"
    if "j \<notin> set (lr_forgotten s)" for j
  proof -
    have "map_of (rg_offsets (bt_registry (lr_batcher s))) j = map_of (rg_offsets (bt_registry b0)) j"
      using a(2) that unfolding same_but_registry_def by blast
    also have "bt_registry b0 = fold acknowledge (delivered_messages hist) (load_registry dk)"
      using h by (simp add: batch_hist_def new_batcher_def)
    finally show ?thesis by (simp add: acks_position)
  qed
  moreover have "map (tagged conf) (lr_sent s)
       = settled_messages hist @ bt_batch (lr_batcher s) @ map (tagged conf) (lr_queue s)"
    using h a(3) same_fields [OF a(2)] unfolding batch_hist_def by (metis append_assoc)
  moreover have "acked (dest ep) (bt_net (lr_batcher s)) = acked (dest ep) nt @ delivered_bodies (bc_hostname conf) hist"
    using h same_fields [OF a(2)] by (simp add: batch_hist_def new_batcher_def)
  moreover have "lr_finished s \<longrightarrow> lr_live s = [] \<and> (bt_stuck (lr_batcher s) \<or> bt_batch (lr_batcher s) = [] \<and> lr_queue s = [])"
    using i(2) by (auto simp: ordered_def)
  ultimately show ?thesis by blast
qed

section \<open>The shutdown completes\<close>

definition reaches :: "batcher_conf \<Rightarrow> log_source list \<Rightarrow> logs_run \<Rightarrow> logs_run \<Rightarrow> bool" where
  "reaches conf srcs s s' \<longleftrightarrow> (\<exists>evs. logs_trace conf srcs evs s = Some s')"

lemma reaches_trans: "reaches conf srcs s t \<Longrightarrow> reaches conf srcs t u \<Longrightarrow> reaches conf srcs s u"
  unfolding reaches_def by (metis logs_trace_append option.simps(5))

lemma reaches_refl: "reaches conf srcs s s"
  unfolding reaches_def by (rule exI [of _ "[]"]) simp

lemma reaches_step: "logs_step conf srcs ev s = Some t \<Longrightarrow> reaches conf srcs t u \<Longrightarrow> reaches conf srcs s u"
  unfolding reaches_def by (metis logs_trace.simps(2) option.simps(5))

lemma scan_can_stop:
  assumes "lr_cancelled s"
  shows "reaches conf srcs s (s\<lparr>lr_scanning := False\<rparr>)"
proof (cases "lr_scanning s")
  case True
  with assms have "logs_step conf srcs ScanStops s = Some (s\<lparr>lr_scanning := False\<rparr>)" by (simp add: logs_step_def)
  from reaches_step [OF this reaches_refl] show ?thesis .
next
  case l: False
  have "reaches conf srcs s (s\<lparr>lr_scanning := lr_scanning s\<rparr>)" by (simp add: reaches_refl)
  with l show ?thesis by simp
qed

lemma tailers_can_end:
  "lr_cancelled s \<Longrightarrow> \<exists>st. reaches conf srcs s (s\<lparr>lr_live := [], lr_stopping := st\<rparr>)"
proof (induction "length (lr_live s)" arbitrary: s)
  case 0
  then have l: "lr_live s = []" by simp
  have "reaches conf srcs s (s\<lparr>lr_live := lr_live s, lr_stopping := lr_stopping s\<rparr>)" by (simp add: reaches_refl)
  then show ?case unfolding l by blast
next
  case (Suc n)
  then obtain i "is" where l: "lr_live s = i # is" by (cases "lr_live s") auto
  let ?t = "s\<lparr>lr_live := is, lr_stopping := remove1 i (lr_stopping s)\<rparr>"
  have "logs_step conf srcs (TailerEnds i) s = Some ?t" using Suc.prems l by (simp add: logs_step_def)
  moreover obtain st where "reaches conf srcs ?t (?t\<lparr>lr_live := [], lr_stopping := st\<rparr>)"
    using Suc.hyps(1) [of ?t] Suc.hyps(2) Suc.prems l by auto
  ultimately show ?case using reaches_step by fastforce
qed

lemma batcher_can_end:
  "lr_cancelled s \<Longrightarrow> lr_closed s \<Longrightarrow>
     \<exists>q b. bt_done b \<and> reaches conf srcs s (s\<lparr>lr_queue := q, lr_batcher := b\<rparr>)"
proof (induction "length (lr_queue s)" arbitrary: s rule: less_induct)
  case less
  let ?b = "lr_batcher s"
  consider "bt_done ?b" | "\<not> bt_done ?b" "bt_stuck ?b" | "\<not> bt_done ?b" "\<not> bt_stuck ?b" "lr_queue s = []"
    | m q where "\<not> bt_done ?b" "\<not> bt_stuck ?b" "lr_queue s = m # q"
    by (cases "lr_queue s") auto
  then show ?case
  proof cases
    case 1
    then show ?thesis
      by (intro exI [of _ "lr_queue s"] exI [of _ ?b]) (simp add: reaches_refl)
  next
    case 2
    have "logs_step conf srcs (BatcherAbandons 0) s = Some (s\<lparr>lr_queue := lr_queue s, lr_batcher := ?b\<lparr>bt_done := True\<rparr>\<rparr>)"
      using 2 less.prems by (simp add: logs_step_def batcher_does_def batch_step_def)
    from reaches_step [OF this reaches_refl] show ?thesis
      by (intro exI [of _ "lr_queue s"] exI [of _ "?b\<lparr>bt_done := True\<rparr>"]) simp
  next
    case 3
    have "logs_step conf srcs (BatcherEnds 0) s
        = Some (s\<lparr>lr_queue := [], lr_batcher := (batch_flush conf 0 ?b)\<lparr>bt_done := True\<rparr>\<rparr>)"
      using 3 less.prems by (simp add: logs_step_def batcher_does_def batch_step_def)
    from reaches_step [OF this reaches_refl] show ?thesis
      by (intro exI [of _ "[]"] exI [of _ "(batch_flush conf 0 ?b)\<lparr>bt_done := True\<rparr>"]) simp
  next
    case 4
    let ?t = "s\<lparr>lr_queue := q, lr_batcher := batch_receive conf 0 m ?b\<rparr>"
    have "logs_step conf srcs (BatcherTakes 0) s = Some ?t"
      using 4 by (simp add: logs_step_def batcher_does_def batch_step_def)
    moreover obtain q' b' where "bt_done b'" "reaches conf srcs ?t (?t\<lparr>lr_queue := q', lr_batcher := b'\<rparr>)"
      using less.hyps [of ?t] less.prems 4 by auto
    ultimately show ?thesis using reaches_step by fastforce
  qed
qed

definition io_ok :: flush_io where
  "io_ok = \<lparr>fi_mkdir = True, fi_write = True, fi_rename = True\<rparr>"

lemma persist_ok: "dk_main (lr_disk (persist io_ok s)) = Some (registry_blob (bt_registry (lr_batcher s)))"
  by (simp add: persist_def io_ok_def flush_registry_def flush_states_def Let_def)


section \<open>A run\<close>

definition sources_example :: "log_source list" where
  "sources_example = [\<lparr>ls_type = ''file'', ls_path = ''/a.log''\<rparr>]"

definition start_example :: logs_run where
  "start_example = logs_start sources_example (fs_example []) \<lparr>dk_main = None, dk_tmp = None\<rparr> (logs_net [Some 202])"

definition sending_example :: "logs_event list" where
  "sending_example = [TailerSends ((message_example ''a'' 2)\<lparr>lm_source_id := ''file:/a.log''\<rparr>), CancelRun]"

definition stopping_example :: "logs_event list" where
  "stopping_example = [BatcherTakes 0, ScanStops, TailerEnds ''file:/a.log'', CloseInput, BatcherEnds 1, PersistEnds io_ok, FinalFlush io_ok]"

lemma logs_run_accounts_witness:
  "\<exists>s hist. logs_trace batcher_example sources_example (sending_example @ stopping_example) start_example = Some s
    \<and> map (tagged batcher_example) (lr_sent s) = settled_messages hist
    \<and> lr_finished s \<and> length (lr_sent s) = 1"
proof -
  let ?run = "logs_trace batcher_example sources_example (sending_example @ stopping_example) start_example"
  have "?run \<noteq> None \<and> lr_finished (the ?run) \<and> length (lr_sent (the ?run)) = 1 \<and> \<not> bt_stuck (lr_batcher (the ?run))"
    by code_simp
  then obtain s where s: "?run = Some s" "lr_finished s" "length (lr_sent s) = 1" "\<not> bt_stuck (lr_batcher s)" by auto
  have "bc_endpoints batcher_example = ep_example # []" by (simp add: batcher_example_def)
  from logs_run_accounts [OF this _ s(1)[unfolded start_example_def]] s show ?thesis by auto
qed


end
