(* ===== verification/ProcSubmit.thy ===== *)
theory ProcSubmit
  imports Intake
begin

text \<open>
  The transport of the process intake, \<^verbatim>\<open>internal/process/submit.go\<close>: one request, whose accepted
  answer carries a body, and the retry ladder. The code says the ladder mirrors the one of
  \<^verbatim>\<open>internal/intake\<close>; here that is a refinement, under the abstraction that forgets the bodies.
\<close>

section \<open>Submitter and network\<close>

record submitter =
  sb_max_tries :: int
  sb_backoff :: int

definition new_submitter :: submitter where
  "new_submitter = \<lparr>sb_max_tries = 4, sb_backoff = second\<rparr>"

definition proc_backoff_max :: int where
  "proc_backoff_max = 30 * second"

text \<open>An answer is a status and a body; the framed message travels as it is.\<close>

datatype proc_act =
    ProcRequest string string bytes "(int \<times> bytes) option"
  | ProcSlept int

record proc_net =
  pn_replies :: "(int \<times> bytes) option list"
  pn_timers :: "bool list"
  pn_bad_urls :: "string list"
  pn_acts :: "proc_act list"

definition proc_permanent :: "int \<Rightarrow> bool" where
  "proc_permanent status \<longleftrightarrow> status = 400 \<or> status = 401 \<or> status = 403 \<or> status = 413"

definition proc_sleep :: "int \<Rightarrow> proc_net \<Rightarrow> bool \<times> proc_net" where
  "proc_sleep d nt =
     (case pn_timers nt of
        True # ts \<Rightarrow> (True, nt\<lparr>pn_timers := ts, pn_acts := pn_acts nt @ [ProcSlept d]\<rparr>)
      | _ \<Rightarrow> (False, nt\<lparr>pn_timers := tl (pn_timers nt)\<rparr>))"

definition next_answer :: "proc_net \<Rightarrow> (int \<times> bytes) option" where
  "next_answer nt = (case pn_replies nt of [] \<Rightarrow> None | r # _ \<Rightarrow> r)"

text \<open>Status, body (at most 64 KiB of it) and error.\<close>

definition proc_do :: "endpoint \<Rightarrow> bytes \<Rightarrow> proc_net \<Rightarrow> (int \<times> bytes \<times> net_error option) \<times> proc_net" where
  "proc_do ep framed nt =
     (if ep_url ep \<in> set (pn_bad_urls nt) then ((0, [], Some BadUrl), nt)
      else let reply = next_answer nt;
               nt' = nt\<lparr>pn_replies := tl (pn_replies nt),
                        pn_acts := pn_acts nt @ [ProcRequest (ep_url ep) (ep_key ep) framed reply]\<rparr>
           in (case reply of
                 None \<Rightarrow> ((0, [], Some NoResponse), nt')
               | Some (status, body) \<Rightarrow>
                   if go_quot status 100 = 2 then ((status, take 65536 body, None), nt')
                   else ((status, [], Some (Unexpected status)), nt')))"

definition proc_next_wait :: "int \<Rightarrow> int" where
  "proc_next_wait wait = (let w = wrap_i64 (wait * 2) in if w > proc_backoff_max then proc_backoff_max else w)"

function post_try ::
  "submitter \<Rightarrow> endpoint \<Rightarrow> bytes \<Rightarrow> int \<Rightarrow> int \<Rightarrow> net_error option \<Rightarrow> proc_net
     \<Rightarrow> (net_error + bytes) \<times> proc_net" where
  "post_try s ep framed attempt wait err nt =
     (if attempt < sb_max_tries s then
        (let (fired, nt1) = (if attempt > 0 then proc_sleep wait nt else (True, nt)) in
         if \<not> fired then (Inl Cancelled, nt1)
         else let wait' = (if attempt > 0 then proc_next_wait wait else wait);
                  ((status, body, err), nt2) = proc_do ep framed nt1
              in (case err of
                    None \<Rightarrow> (Inr body, nt2)
                  | Some e \<Rightarrow>
                      if proc_permanent status then (Inl e, nt2)
                      else post_try s ep framed (attempt + 1) wait' (Some e) nt2))
      else (Inl (GaveUp (sb_max_tries s) err), nt))"
  by pat_completeness auto
termination
  by (relation "measure (\<lambda>(s, ep, framed, attempt, wait, err, nt). nat (sb_max_tries s - attempt))") auto

declare post_try.simps [simp del]

definition proc_post :: "submitter \<Rightarrow> endpoint \<Rightarrow> bytes \<Rightarrow> proc_net \<Rightarrow> (net_error + bytes) \<times> proc_net" where
  "proc_post s ep framed nt = post_try s ep framed 0 (sb_backoff s) None nt"

section \<open>The same ladder as the intake client\<close>

primrec abs_act :: "proc_act \<Rightarrow> bytes act" where
  "abs_act (ProcRequest u k b r) = Request u k (Gz b) (map_option fst r)"
| "abs_act (ProcSlept d) = Slept d"

definition abs_net :: "proc_net \<Rightarrow> bytes net" where
  "abs_net nt = \<lparr>nt_replies = map (map_option fst) (pn_replies nt), nt_timers = pn_timers nt,
     nt_bad_urls = pn_bad_urls nt, nt_acts = map abs_act (pn_acts nt)\<rparr>"

definition abs_client :: "submitter \<Rightarrow> client" where
  "abs_client s = \<lparr>cl_max_tries = sb_max_tries s, cl_backoff = sb_backoff s\<rparr>"

definition abs_error :: "net_error + bytes \<Rightarrow> net_error option" where
  "abs_error r = (case r of Inl e \<Rightarrow> Some e | Inr _ \<Rightarrow> None)"

lemma same_conditions:
  "proc_permanent = permanent" "proc_next_wait = next_wait"
  by (auto simp: proc_permanent_def permanent_def proc_next_wait_def next_wait_def proc_backoff_max_def
      backoff_max_def Let_def fun_eq_iff)

lemma abs_sleep: "sleep d (abs_net nt) = (fst (proc_sleep d nt), abs_net (snd (proc_sleep d nt)))"
  by (auto simp: sleep_def proc_sleep_def abs_net_def split: list.split bool.split)

lemma abs_reply: "next_reply (abs_net nt) = map_option fst (next_answer nt)"
  by (simp add: next_reply_def next_answer_def abs_net_def split: list.split)

lemma abs_do: "do_request ep (Gz framed) (abs_net nt) =
    ((fst (fst (proc_do ep framed nt)), snd (snd (fst (proc_do ep framed nt)))), abs_net (snd (proc_do ep framed nt)))"
  by (cases "next_answer nt")
    (auto simp: do_request_def proc_do_def abs_reply url_ok_def accepted_def Let_def,
     auto simp: abs_net_def map_tl)

lemma abs_post_try:
  "snd (fst (send_try (abs_client s) ep (Gz framed) attempt wait (st, err) (abs_net nt)))
     = abs_error (fst (post_try s ep framed attempt wait err nt))
   \<and> snd (send_try (abs_client s) ep (Gz framed) attempt wait (st, err) (abs_net nt))
     = abs_net (snd (post_try s ep framed attempt wait err nt))"
proof (induction s ep framed attempt wait err nt arbitrary: st rule: post_try.induct)
  case (1 s ep framed attempt wait err nt)
  show ?case
  proof (cases "attempt < sb_max_tries s")
    case False
    then show ?thesis by (simp add: send_try.simps post_try.simps abs_client_def abs_error_def)
  next
    case True
    obtain fired nt1 where sl: "(if attempt > 0 then proc_sleep wait nt else (True, nt)) = (fired, nt1)"
      by fastforce
    then have asl: "(if attempt > 0 then sleep wait (abs_net nt) else (True, abs_net nt)) = (fired, abs_net nt1)"
      by (auto simp: abs_sleep split: if_splits)
    obtain status body er nt2 where rq: "proc_do ep framed nt1 = ((status, body, er), nt2)"
      by (metis prod.exhaust)
    then have arq: "do_request ep (Gz framed) (abs_net nt1) = ((status, er), abs_net nt2)"
      by (simp add: abs_do)
    have lt: "attempt < cl_max_tries (abs_client s)" using True by (simp add: abs_client_def)
    note step = send_try.simps [of "abs_client s" ep "Gz framed" attempt wait "(st, err)" "abs_net nt"]
      post_try.simps [of s ep framed attempt wait err nt, unfolded same_conditions]
    show ?thesis
    proof (cases "fired \<and> (\<exists>e. er = Some e) \<and> \<not> permanent status")
      case True
      then obtain e where e: "er = Some e" by blast
      have "\<not> \<not> fired" "\<not> proc_permanent status" using True by (simp_all add: same_conditions)
      note ih = "1.IH" [OF \<open>attempt < sb_max_tries s\<close> refl sl [symmetric] this(1) refl refl rq [symmetric]
          refl refl e this(2), of status nt2, unfolded same_conditions]
      with True e lt \<open>attempt < sb_max_tries s\<close> show ?thesis
        by (simp add: step sl asl rq arq same_conditions split del: if_split)
    next
      case False
      with lt \<open>attempt < sb_max_tries s\<close> show ?thesis
        by (cases fired; cases er)
          (auto simp: step sl asl rq arq same_conditions abs_error_def)
    qed
  qed
qed

text \<open>
  C36. The process intake's ladder is the one of the intake client: over the same answers and
  timers it makes the same requests to the same destination, waits as long in between, and ends
  with the same error, or with none and the accepted answer's body.
\<close>

theorem proc_post_mirrors_send:
  assumes "ep_url ep \<notin> set (pn_bad_urls nt)"
  shows "snd (fst (send (abs_client s) ep (Gz framed) (abs_net nt))) = abs_error (fst (proc_post s ep framed nt))
    \<and> snd (send (abs_client s) ep (Gz framed) (abs_net nt)) = abs_net (snd (proc_post s ep framed nt))"
proof -
  have "url_ok (abs_net nt) ep" using assms by (simp add: url_ok_def abs_net_def)
  with abs_post_try [of s ep framed 0 "sb_backoff s" 0 None nt] show ?thesis
    by (simp add: send_def proc_post_def abs_client_def)
qed

definition proc_net_example :: proc_net where
  "proc_net_example = \<lparr>pn_replies = [Some (503, []), Some (202, [3, 0, 23])], pn_timers = [True], pn_bad_urls = [], pn_acts = []\<rparr>"

definition ep_process :: endpoint where
  "ep_process = \<lparr>ep_url = ''https://process'', ep_key = ''k'', ep_reliable = True\<rparr>"

theorem proc_post_mirrors_send_witness:
  "snd (fst (send (abs_client new_submitter) ep_process (Gz [1]) (abs_net proc_net_example))) = None
   \<and> snd (send (abs_client new_submitter) ep_process (Gz [1]) (abs_net proc_net_example))
     = abs_net (snd (proc_post new_submitter ep_process [1] proc_net_example))"
proof -
  have "ep_url ep_process \<notin> set (pn_bad_urls proc_net_example)" by (simp add: proc_net_example_def)
  note same = proc_post_mirrors_send [OF this, of new_submitter "[1]"]
  have "abs_error (fst (proc_post new_submitter ep_process [1] proc_net_example)) = None"
    by (simp add: proc_post_def post_try.simps proc_do_def proc_sleep_def next_answer_def new_submitter_def
        proc_net_example_def proc_permanent_def ep_process_def go_quot_def abs_error_def)
  with same show ?thesis by simp
qed

section \<open>What a post leaves behind\<close>

definition requests_of :: "bytes \<Rightarrow> proc_act \<Rightarrow> bool" where
  "requests_of framed a \<longleftrightarrow> (case a of ProcRequest u k b r \<Rightarrow> b = framed | ProcSlept d \<Rightarrow> True)"

text \<open>A later network: answers used up, requests for \<open>framed\<close> added.\<close>

definition after_posts :: "bytes \<Rightarrow> proc_net \<Rightarrow> proc_net \<Rightarrow> bool" where
  "after_posts framed nt nt' \<longleftrightarrow> set (pn_replies nt') \<subseteq> set (pn_replies nt)
     \<and> pn_bad_urls nt' = pn_bad_urls nt
     \<and> (\<exists>acts. pn_acts nt' = pn_acts nt @ acts \<and> list_all (requests_of framed) acts)"

lemma after_posts_refl [simp]: "after_posts framed nt nt"
  by (simp add: after_posts_def)

lemma after_posts_trans: "after_posts framed a b \<Longrightarrow> after_posts framed b c \<Longrightarrow> after_posts framed a c"
  unfolding after_posts_def by auto

lemma set_tl_subset: "set (tl xs) \<subseteq> set xs"
  by (cases xs) auto

lemma proc_sleep_after: "after_posts framed nt (snd (proc_sleep d nt)) \<and> pn_replies (snd (proc_sleep d nt)) = pn_replies nt"
  by (auto simp: proc_sleep_def after_posts_def requests_of_def split: list.split bool.split)

lemma proc_do_after:
  assumes "proc_do ep framed nt = ((status, body, err), nt')"
  shows "after_posts framed nt nt'"
    and "err = None \<Longrightarrow> \<exists>b. Some (status, b) \<in> set (pn_replies nt) \<and> body = take 65536 b"
  using assms set_tl_subset [of "pn_replies nt"]
  by (auto simp: proc_do_def after_posts_def requests_of_def next_answer_def Let_def
      split: if_splits option.splits prod.splits list.splits)

lemma post_try_after:
  "post_try s ep framed attempt wait err nt = (res, nt') \<Longrightarrow> after_posts framed nt nt'
     \<and> (\<forall>resp. res = Inr resp \<longrightarrow> (\<exists>st b. Some (st, b) \<in> set (pn_replies nt) \<and> resp = take 65536 b))"
proof (induction s ep framed attempt wait err nt rule: post_try.induct)
  case (1 s ep framed attempt wait err nt)
  obtain fired nt1 where sl: "(if attempt > 0 then proc_sleep wait nt else (True, nt)) = (fired, nt1)"
    by fastforce
  then have a1: "after_posts framed nt nt1" "pn_replies nt1 = pn_replies nt"
    using proc_sleep_after [of framed nt wait] by (auto split: if_splits)
  obtain status body er nt2 where rq: "proc_do ep framed nt1 = ((status, body, er), nt2)"
    by (metis prod.exhaust)
  note a2 = proc_do_after [OF rq]
  note step = post_try.simps [of s ep framed attempt wait err nt]
  show ?case
  proof (cases "attempt < sb_max_tries s \<and> fired \<and> (\<exists>e. er = Some e) \<and> \<not> proc_permanent status")
    case True
    then obtain e where e: "er = Some e" by blast
    have "post_try s ep framed (attempt + 1) (if attempt > 0 then proc_next_wait wait else wait) (Some e) nt2 = (res, nt')"
      using "1.prems" True e by (simp add: step sl rq split del: if_split)
    with "1.IH" [OF _ refl sl [symmetric] _ refl refl rq [symmetric] refl refl e, of nt2] True
    have "after_posts framed nt2 nt'"
        "\<forall>resp. res = Inr resp \<longrightarrow> (\<exists>st b. Some (st, b) \<in> set (pn_replies nt2) \<and> resp = take 65536 b)"
      by auto
    moreover have nt2: "after_posts framed nt nt2" using a1(1) a2(1) by (rule after_posts_trans)
    ultimately have "after_posts framed nt nt'" by (blast intro: after_posts_trans)
    moreover have "set (pn_replies nt2) \<subseteq> set (pn_replies nt)" using nt2 by (simp add: after_posts_def)
    ultimately show ?thesis
      using \<open>\<forall>resp. res = Inr resp \<longrightarrow> (\<exists>st b. Some (st, b) \<in> set (pn_replies nt2) \<and> resp = take 65536 b)\<close> by blast
  next
    case False
    consider "\<not> attempt < sb_max_tries s" | "attempt < sb_max_tries s" "\<not> fired"
      | "attempt < sb_max_tries s" "fired" "er = None"
      | e where "attempt < sb_max_tries s" "fired" "er = Some e" "proc_permanent status"
      using False by (cases er) auto
    then have "nt' = nt \<and> (\<exists>e. res = Inl e) \<or> nt' = nt1 \<and> (\<exists>e. res = Inl e)
        \<or> nt' = nt2 \<and> (\<exists>e. res = Inl e) \<or> nt' = nt2 \<and> res = Inr body \<and> er = None"
      by cases (use "1.prems" in \<open>auto simp: step sl rq split del: if_split\<close>)
    moreover have "after_posts framed nt nt2" using a1(1) a2(1) by (rule after_posts_trans)
    ultimately show ?thesis using a1 a2(2) by auto
  qed
qed

lemma proc_post_after:
  assumes "proc_post s ep framed nt = (res, nt')"
  shows "after_posts framed nt nt'"
    and "res = Inr resp \<Longrightarrow> \<exists>st b. Some (st, b) \<in> set (pn_replies nt) \<and> resp = take 65536 b"
  using post_try_after [OF assms [unfolded proc_post_def]] by auto

text \<open>What a destination has accepted, through the abstraction.\<close>

lemma proc_post_acked:
  assumes "proc_post s ep framed nt = (res, nt')"
  shows "acked d (abs_net nt') = acked d (abs_net nt) @ (if (\<exists>resp. res = Inr resp) \<and> d = dest ep then [framed] else [])"
proof -
  obtain st er where t: "send_try (abs_client s) ep (Gz framed) 0 (sb_backoff s) (0, None) (abs_net nt) = ((st, er), abs_net nt')"
      "er = abs_error res"
    using abs_post_try [of s ep framed 0 "sb_backoff s" 0 None nt] assms
    by (metis fst_conv proc_post_def prod.exhaust_sel snd_conv)
  from send_try_acked [OF t(1), of d] t(2) show ?thesis
    by (cases res) (auto simp: abs_error_def)
qed

text \<open>A script that accepts the next \<open>m\<close> requests.\<close>

definition accepting :: "nat \<Rightarrow> proc_net \<Rightarrow> bool" where
  "accepting m nt \<longleftrightarrow> pn_bad_urls nt = [] \<and> m \<le> length (pn_replies nt)
     \<and> list_all (\<lambda>a. \<exists>st b. a = Some (st, b) \<and> go_quot st 100 = 2) (take m (pn_replies nt))"

lemma accepting_post:
  assumes "accepting (Suc m) nt" "0 < sb_max_tries s"
  shows "\<exists>resp nt'. proc_post s ep framed nt = (Inr resp, nt') \<and> accepting m nt'"
proof -
  obtain st b rs where r: "pn_replies nt = Some (st, b) # rs" "go_quot st 100 = 2"
      "m \<le> length rs" "list_all (\<lambda>a. \<exists>st b. a = Some (st, b) \<and> go_quot st 100 = 2) (take m rs)"
    using assms(1) by (cases "pn_replies nt") (auto simp: accepting_def)
  then show ?thesis
    using assms by (simp add: proc_post_def post_try.simps [of s ep framed 0] proc_do_def next_answer_def accepting_def)
qed

end
