(* ===== verification/ProtoWire.thy ===== *)
theory ProtoWire
  imports GoFloat GoStrings "HOL-Library.Word"
begin

unbundle bit_operations_syntax

text \<open>
  The protobuf wire codec of \<^verbatim>\<open>internal/process/proto.go\<close>: the append-only writer \<^verbatim>\<open>pbuf\<close> (here
  its byte slice, given and returned), the field walker \<^verbatim>\<open>pread\<close> with its position, and the
  reading of a collector response. A message is also given abstractly, as a list of fields; the
  writers append the encoding of such a list and the walker gives the list back.
\<close>

section \<open>The writer\<close>

lemma unat_shift7: "unat (drop_bit 7 (v::u64)) = unat v div 128"
  by (simp only: unat_drop_bit_eq) (simp add: drop_bit_eq_div del: unat_div_distrib)

lemma unat_big: "0x80 \<le> (v::u64) \<longleftrightarrow> 128 \<le> unat v"
  by (simp add: word_le_nat_alt)

function put_uvarint :: "u64 \<Rightarrow> bytes \<Rightarrow> bytes" where
  "put_uvarint v w =
     (if 0x80 \<le> v then put_uvarint (drop_bit 7 v) (w @ [ucast v OR 0x80]) else w @ [ucast v])"
  by pat_completeness auto

termination
  by (relation "measure (\<lambda>(v, w). unat v)") (auto simp: unat_shift7 unat_big)

declare put_uvarint.simps [simp del]

definition put_tag :: "nat \<Rightarrow> nat \<Rightarrow> bytes \<Rightarrow> bytes" where
  "put_tag field wire = put_uvarint (push_bit 3 (word_of_nat field) OR word_of_nat wire)"

definition put_uint :: "nat \<Rightarrow> u64 \<Rightarrow> bytes \<Rightarrow> bytes" where
  "put_uint field v w = (if v = 0 then w else put_uvarint v (put_tag field 0 w))"

text \<open>The bytes of a Go string.\<close>

definition str_bytes :: "string \<Rightarrow> bytes" where
  "str_bytes s = map (\<lambda>c. word_of_nat (byte c)) s"

definition put_str :: "nat \<Rightarrow> string \<Rightarrow> bytes \<Rightarrow> bytes" where
  "put_str field s w =
     (if s = [] then w else put_uvarint (word_of_nat (length s)) (put_tag field 2 w) @ str_bytes s)"

text \<open>\<open>math.Float32bits\<close>; the pattern of a NaN is the usual quiet one.\<close>

definition f32_bits :: "f32 \<Rightarrow> u32" where
  "f32_bits x =
     (case x of
        NaN \<Rightarrow> 0x7FC00000
      | Inf s \<Rightarrow> if s then 0xFF800000 else 0x7F800000
      | NegZero \<Rightarrow> 0x80000000
      | Fin q \<Rightarrow> if q = 0 then 0
          else let e = max (ilog2 \<bar>q\<bar>) (- 126) in
            word_of_int ((if q < 0 then 2 ^ 31 else 0) + (e + 126) * 2 ^ 23
                         + \<lfloor>\<bar>q\<bar> / 2 powi (e - 23)\<rfloor>))"

definition put_f32 :: "nat \<Rightarrow> f32 \<Rightarrow> bytes \<Rightarrow> bytes" where
  "put_f32 field v w =
     (if feq v (Fin 0) then w
      else let bits = f32_bits v in
        put_tag field 5 w
          @ [ucast bits, ucast (drop_bit 8 bits), ucast (drop_bit 16 bits), ucast (drop_bit 24 bits)])"

definition put_msg :: "nat \<Rightarrow> bytes \<Rightarrow> bytes \<Rightarrow> bytes" where
  "put_msg field body w =
     (if length body = 0 then w else put_uvarint (word_of_nat (length body)) (put_tag field 2 w) @ body)"

section \<open>The reader\<close>

record pread =
  rd_b :: bytes
  rd_i :: nat

function varint_loop :: "u64 \<Rightarrow> nat \<Rightarrow> pread \<Rightarrow> (u64 \<times> bool) \<times> pread" where
  "varint_loop v shift r =
     (if rd_i r < length (rd_b r) then
        let c = rd_b r ! rd_i r;
            r' = r\<lparr>rd_i := rd_i r + 1\<rparr>;
            v' = v OR push_bit shift (ucast (c AND 0x7F))
        in if c < 0x80 then ((v', True), r')
           else if 63 \<le> shift then ((0, False), r')
           else varint_loop v' (shift + 7) r'
      else ((0, False), r))"
  by pat_completeness auto
termination
  by (relation "measure (\<lambda>(v, shift, r). length (rd_b r) - rd_i r)") auto

declare varint_loop.simps [simp del]

definition read_varint :: "pread \<Rightarrow> (u64 \<times> bool) \<times> pread" where
  "read_varint r = varint_loop 0 0 r"

text \<open>
  The named results of \<open>next\<close>: field, wire type, data, value and the flag. A position never
  runs past the end, so \<open>r.i + 8 > len(r.b)\<close> does not overflow.
\<close>

record field_result =
  fr_field :: nat
  fr_wire :: nat
  fr_data :: bytes
  fr_val :: u64
  fr_ok :: bool

definition no_field :: field_result where
  "no_field = \<lparr>fr_field = 0, fr_wire = 0, fr_data = [], fr_val = 0, fr_ok = False\<rparr>"

definition take_data :: "nat \<Rightarrow> nat \<Rightarrow> nat \<Rightarrow> pread \<Rightarrow> field_result \<times> pread" where
  "take_data field wire n r =
     (\<lparr>fr_field = field, fr_wire = wire, fr_data = take n (drop (rd_i r) (rd_b r)), fr_val = 0, fr_ok = True\<rparr>,
      r\<lparr>rd_i := rd_i r + n\<rparr>)"

definition next_field :: "pread \<Rightarrow> field_result \<times> pread" where
  "next_field r =
     (case read_varint r of
        ((t, False), r1) \<Rightarrow> (no_field, r1)
      | ((t, True), r1) \<Rightarrow>
          let field = unat (drop_bit 3 t); wire = unat (t AND 7) in
          if wire = 0 then
            (case read_varint r1 of ((v, ok), r2) \<Rightarrow>
               (\<lparr>fr_field = field, fr_wire = wire, fr_data = [], fr_val = v, fr_ok = ok\<rparr>, r2))
          else if wire = 1 then
            if length (rd_b r1) < rd_i r1 + 8 then (no_field, r1) else take_data field wire 8 r1
          else if wire = 2 then
            (case read_varint r1 of ((n, ok), r2) \<Rightarrow>
               if \<not> ok \<or> word_of_nat (length (rd_b r2) - rd_i r2) < n then (no_field, r2)
               else take_data field wire (unat n) r2)
          else if wire = 5 then
            if length (rd_b r1) < rd_i r1 + 4 then (no_field, r1) else take_data field wire 4 r1
          else (no_field, r1))"

section \<open>The walker always moves and never leaves the buffer\<close>

definition in_buffer :: "pread \<Rightarrow> bool" where
  "in_buffer r \<longleftrightarrow> rd_i r \<le> length (rd_b r) \<and> length (rd_b r) < 2 ^ 63"

lemma varint_loop_moves:
  "varint_loop v shift r = ((x, ok), r') \<Longrightarrow>
     rd_b r' = rd_b r \<and> rd_i r \<le> rd_i r' \<and> rd_i r' \<le> max (rd_i r) (length (rd_b r))
     \<and> (ok \<longrightarrow> rd_i r < rd_i r' \<and> rd_i r < length (rd_b r))"
proof (induction v shift r arbitrary: x ok r' rule: varint_loop.induct)
  case (1 v shift r)
  let ?c = "rd_b r ! rd_i r" and ?r = "r\<lparr>rd_i := rd_i r + 1\<rparr>"
  let ?v = "v OR push_bit shift (ucast (?c AND 0x7F))"
  show ?case
  proof (cases "rd_i r < length (rd_b r) \<and> \<not> ?c < 0x80 \<and> \<not> 63 \<le> shift")
    case True
    then have "varint_loop ?v (shift + 7) ?r = ((x, ok), r')"
      using "1.prems" by (simp add: varint_loop.simps [of v shift r] Let_def)
    then show ?thesis using "1.IH" [OF _ refl refl refl, of x ok r'] True by auto
  next
    case False
    with "1.prems" show ?thesis
      by (auto simp: varint_loop.simps [of v shift r] Let_def split: if_splits)
  qed
qed

lemma read_varint_moves:
  "read_varint r = ((x, ok), r') \<Longrightarrow>
     rd_b r' = rd_b r \<and> rd_i r \<le> rd_i r' \<and> rd_i r' \<le> max (rd_i r) (length (rd_b r))
     \<and> (ok \<longrightarrow> rd_i r < rd_i r' \<and> rd_i r < length (rd_b r))"
  unfolding read_varint_def by (rule varint_loop_moves)

lemma in_buffer_data: "in_buffer r \<Longrightarrow> \<not> word_of_nat (length (rd_b r) - rd_i r) < n
    \<Longrightarrow> rd_i r + unat (n::u64) \<le> length (rd_b r)"
proof -
  assume r: "in_buffer r" and n: "\<not> word_of_nat (length (rd_b r) - rd_i r) < n"
  have "length (rd_b r) - rd_i r < 2 ^ LENGTH(64)"
    using r unfolding in_buffer_def by (auto intro: le_less_trans [of _ "length (rd_b r)"])
  then have "unat (word_of_nat (length (rd_b r) - rd_i r) :: u64) = length (rd_b r) - rd_i r"
    by (simp add: unsigned_of_nat take_bit_nat_eq_self)
  with n have "unat n \<le> length (rd_b r) - rd_i r" by (simp only: word_less_nat_alt not_less)
  with r show ?thesis unfolding in_buffer_def by linarith
qed

lemma next_field_moves:
  assumes "next_field r = (f, r')"
  shows "rd_b r' = rd_b r \<and> rd_i r \<le> rd_i r'
    \<and> (fr_ok f \<longrightarrow> rd_i r < rd_i r' \<and> rd_i r < length (rd_b r))"
proof -
  obtain t ok1 r1 where v1: "read_varint r = ((t, ok1), r1)" by (metis prod.exhaust)
  obtain n ok2 r2 where v2: "read_varint r1 = ((n, ok2), r2)" by (metis prod.exhaust)
  from assms v1 v2 read_varint_moves [OF v1] read_varint_moves [OF v2] show ?thesis
    by (auto simp: next_field_def take_data_def no_field_def Let_def split: if_splits bool.splits)
qed

lemma next_field_less:
  "(f, r') = next_field r \<Longrightarrow> fr_ok f \<Longrightarrow> length (rd_b r') - rd_i r' < length (rd_b r) - rd_i r"
  using next_field_moves [of r f r'] by auto

lemma next_field_inside:
  assumes "in_buffer r" "next_field r = (f, r')"
  shows "in_buffer r' \<and> fr_data f = take (length (fr_data f)) (drop (rd_i r' - length (fr_data f)) (rd_b r))
    \<and> length (fr_data f) \<le> rd_i r' - rd_i r"
proof -
  obtain t ok1 r1 where v1: "read_varint r = ((t, ok1), r1)" by (metis prod.exhaust)
  obtain n ok2 r2 where v2: "read_varint r1 = ((n, ok2), r2)" by (metis prod.exhaust)
  from assms v1 v2 read_varint_moves [OF v1] read_varint_moves [OF v2] in_buffer_data [of r2 n] show ?thesis
    by (auto simp: next_field_def take_data_def no_field_def in_buffer_def Let_def split: if_splits bool.splits)
qed

section \<open>Messages as lists of fields\<close>

datatype wire_field = VarintF nat u64 | LenF nat bytes | Fixed32F nat u32

definition uvarint :: "u64 \<Rightarrow> bytes" where
  "uvarint v = put_uvarint v []"

definition tag_bytes :: "nat \<Rightarrow> nat \<Rightarrow> bytes" where
  "tag_bytes field wire = put_tag field wire []"

definition le32 :: "u32 \<Rightarrow> bytes" where
  "le32 x = [ucast x, ucast (drop_bit 8 x), ucast (drop_bit 16 x), ucast (drop_bit 24 x)]"

lemma length_le32 [simp]: "length (le32 x) = 4"
  by (simp add: le32_def)

fun field_bytes :: "wire_field \<Rightarrow> bytes" where
  "field_bytes (VarintF n v) = tag_bytes n 0 @ uvarint v"
| "field_bytes (LenF n b) = tag_bytes n 2 @ uvarint (word_of_nat (length b)) @ b"
| "field_bytes (Fixed32F n x) = tag_bytes n 5 @ le32 x"

abbreviation fields_bytes :: "wire_field list \<Rightarrow> bytes" where
  "fields_bytes fs \<equiv> concat (map field_bytes fs)"

fun field_wf :: "wire_field \<Rightarrow> bool" where
  "field_wf (VarintF n v) \<longleftrightarrow> n < 2 ^ 61"
| "field_wf (LenF n b) \<longleftrightarrow> n < 2 ^ 61 \<and> length b < 2 ^ 63"
| "field_wf (Fixed32F n x) \<longleftrightarrow> n < 2 ^ 61"

lemma put_uvarint_append: "put_uvarint v (u @ w) = u @ put_uvarint v w"
proof (induction v w rule: put_uvarint.induct)
  case (1 v w)
  then show ?case by (simp add: put_uvarint.simps [of v])
qed

lemma put_uvarint_acc: "put_uvarint v w = w @ uvarint v"
  using put_uvarint_append [of v w "[]"] by (simp add: uvarint_def)

lemma uvarint_rec:
  "uvarint v = (if 0x80 \<le> v then (ucast v OR 0x80) # uvarint (drop_bit 7 v) else [ucast v])"
proof -
  have "uvarint v = (if 0x80 \<le> v then put_uvarint (drop_bit 7 v) [ucast v OR 0x80] else [ucast v])"
    by (simp add: uvarint_def put_uvarint.simps [of v])
  then show ?thesis by (simp add: put_uvarint_acc)
qed

lemma uvarint_not_Nil [simp]: "uvarint v \<noteq> []"
  by (subst uvarint_rec) simp

lemma put_uvarint_nonempty [simp]: "put_uvarint v w \<noteq> []"
  by (simp add: put_uvarint_acc)

lemma put_tag_acc: "put_tag n t w = w @ tag_bytes n t"
  by (simp add: put_tag_def tag_bytes_def put_uvarint_acc)

text \<open>What each writer appends.\<close>

lemma put_fields:
  "put_uint n v w = w @ fields_bytes (if v = 0 then [] else [VarintF n v])"
  "put_str n s w = w @ fields_bytes (if s = [] then [] else [LenF n (str_bytes s)])"
  "put_f32 n x w = w @ fields_bytes (if feq x (Fin 0) then [] else [Fixed32F n (f32_bits x)])"
  "put_msg n b w = w @ fields_bytes (if b = [] then [] else [LenF n b])"
  by (simp_all add: put_uint_def put_str_def put_f32_def put_msg_def put_tag_acc put_uvarint_acc
      le32_def str_bytes_def Let_def)

section \<open>Reading back what was written\<close>

text \<open>A reader whose unread bytes begin with \<open>w\<close>.\<close>

definition at_bytes :: "pread \<Rightarrow> bytes \<Rightarrow> bool" where
  "at_bytes r w \<longleftrightarrow> (\<exists>rest. drop (rd_i r) (rd_b r) = w @ rest)"

abbreviation skip_bytes :: "nat \<Rightarrow> pread \<Rightarrow> pread" where
  "skip_bytes n r \<equiv> r\<lparr>rd_i := rd_i r + n\<rparr>"

lemma at_bytes_append: "at_bytes r (u @ w) \<longleftrightarrow> at_bytes r u \<and> at_bytes (skip_bytes (length u) r) w"
  by (fastforce simp: at_bytes_def drop_drop [symmetric] add.commute [of "rd_i r"] simp del: drop_drop)

lemma at_bytes_Cons:
  "at_bytes r (c # w) \<longleftrightarrow> rd_i r < length (rd_b r) \<and> rd_b r ! rd_i r = c \<and> at_bytes (skip_bytes 1 r) w"
proof (cases "drop (rd_i r) (rd_b r)")
  case (Cons a list)
  then have "rd_i r < length (rd_b r)" "rd_b r ! rd_i r = a" "drop (rd_i r + 1) (rd_b r) = list"
    by (metis drop_all linorder_not_le list.distinct(1), metis hd_drop_conv_nth drop_all linorder_not_le list.distinct(1) list.sel(1),
        simp add: drop_Suc drop_tl)
  with Cons show ?thesis by (auto simp: at_bytes_def)
qed (simp add: at_bytes_def)

lemma at_bytes_length: "at_bytes r w \<Longrightarrow> rd_i r + length w \<le> length (rd_b r) \<or> w = []"
  unfolding at_bytes_def
  by (metis append_is_Nil_conv drop_all le_add1 length_append length_drop linorder_le_cases le_diff_conv2 add.commute)

lemma low7: "(0x7F::'a::len word) = mask 7"
  by (simp add: mask_eq_exp_minus_1)

lemma bit_0x80: "bit (0x80::8 word) n \<longleftrightarrow> n = 7" "bit (0x80::u64) n \<longleftrightarrow> n = 7"
  using bit_exp_iff [where 'a="8 word", of 7 n] bit_exp_iff [where 'a=u64, of 7 n] by auto

lemma lt_0x80:
  "(v::u64) < 0x80 \<longleftrightarrow> take_bit 7 v = v" "(c::8 word) < 0x80 \<longleftrightarrow> take_bit 7 c = c"
  by (simp_all add: word_less_nat_alt word_unat_eq_iff unsigned_take_bit_eq take_bit_nat_eq_self_iff)

lemma low7_bits:
  "ucast ((ucast (v::u64) OR 0x80 :: 8 word) AND 0x7F) = v AND 0x7F"
  "v < 0x80 \<Longrightarrow> ucast ((ucast v :: 8 word) AND 0x7F) = v"
proof -
  show "ucast ((ucast v OR 0x80 :: 8 word) AND 0x7F) = v AND 0x7F"
    unfolding low7
    by (rule bit_word_eqI, auto simp only: bit_or_iff bit_and_iff bit_unsigned_iff bit_mask_iff bit_0x80 possible_bit_word)
      simp_all
  assume "v < 0x80"
  then have "v = take_bit 7 v" by (simp add: lt_0x80)
  then have b: "bit v n \<Longrightarrow> n < 7" for n by (metis bit_take_bit_iff)
  show "ucast ((ucast v :: 8 word) AND 0x7F) = v"
    unfolding low7 by (intro bit_word_eqI) (auto simp: bit_simps dest: b)
qed

lemma low7_flag:
  "\<not> (ucast (v::u64) OR 0x80 :: 8 word) < 0x80" "v < 0x80 \<Longrightarrow> (ucast v :: 8 word) < 0x80"
proof -
  have "bit (ucast v OR 0x80 :: 8 word) 7" by (simp add: bit_simps bit_0x80)
  then show "\<not> (ucast v OR 0x80 :: 8 word) < 0x80"
    by (metis lt_0x80(2) bit_take_bit_iff less_irrefl)
  assume "v < 0x80"
  then have "v = take_bit 7 v" by (simp add: lt_0x80)
  then have "bit v n \<Longrightarrow> n < 7" for n by (metis bit_take_bit_iff)
  then show "(ucast v :: 8 word) < 0x80"
    unfolding lt_0x80 by (intro bit_word_eqI) (auto simp: bit_simps)
qed

lemma low7_join:
  "(acc OR push_bit s (v AND 0x7F)) OR push_bit (s + 7) (drop_bit 7 (v::u64)) = acc OR push_bit s v"
  unfolding low7
proof (rule bit_word_eqI)
  fix n
  have "s + 7 \<le> n \<Longrightarrow> 7 + (n - (s + 7)) = n - s" by simp
  then show "bit ((acc OR push_bit s (v AND mask 7)) OR push_bit (s + 7) (drop_bit 7 v)) n = bit (acc OR push_bit s v) n"
    if "n < LENGTH(64)" using that by (cases "s + 7 \<le> n") (auto simp: bit_simps)
qed

lemma varint_loop_uvarint:
  assumes "at_bytes r (uvarint v)" "unat v < 2 ^ (64 - shift)" "shift \<le> 63"
  shows "varint_loop acc shift r = ((acc OR push_bit shift v, True), skip_bytes (length (uvarint v)) r)"
  using assms
proof (induction "unat v" arbitrary: v acc shift r rule: less_induct)
  case less
  show ?case
  proof (cases "0x80 \<le> v")
    case False
    then have "v < 0x80" "uvarint v = [ucast v]" by (simp_all add: uvarint_rec [of v])
    with less.prems low7_bits(2) low7_flag(2) show ?thesis
      by (simp add: at_bytes_Cons varint_loop.simps [of acc shift r] Let_def)
  next
    case True
    then have v: "128 \<le> unat v" by (simp only: unat_big)
    have sh: "shift < 57"
    proof (rule ccontr)
      assume "\<not> shift < 57"
      then have "(2::nat) ^ (64 - shift) \<le> 2 ^ 7" by (intro power_increasing) auto
      with less.prems(2) v show False by simp
    qed
    let ?r = "skip_bytes 1 r" and ?acc = "acc OR push_bit shift (v AND 0x7F)"
    have at: "rd_i r < length (rd_b r)" "rd_b r ! rd_i r = ucast v OR 0x80" "at_bytes ?r (uvarint (drop_bit 7 v))"
      using less.prems(1) True by (simp_all add: uvarint_rec [of v] at_bytes_Cons)
    have "unat (drop_bit 7 v) < unat v" using v by (simp only: unat_shift7)
    moreover have "unat (drop_bit 7 v) < 2 ^ (64 - (shift + 7))"
    proof -
      have "64 - shift = (64 - (shift + 7)) + 7" using sh by simp
      then have "(2::nat) ^ (64 - shift) = 2 ^ (64 - (shift + 7)) * 2 ^ 7" by (metis power_add)
      with less.prems(2) show ?thesis unfolding unat_shift7 by (simp add: less_mult_imp_div_less)
    qed
    ultimately have "varint_loop ?acc (shift + 7) ?r
        = ((?acc OR push_bit (shift + 7) (drop_bit 7 v), True), skip_bytes (length (uvarint (drop_bit 7 v))) ?r)"
      using at sh by (intro less.hyps) auto
    then show ?thesis
      using at sh True low7_flag(1) [of v]
      by (simp add: varint_loop.simps [of acc shift r] uvarint_rec [of v] low7_bits low7_join del: push_bit_and)
  qed
qed

lemma read_varint_uvarint:
  "at_bytes r (uvarint v) \<Longrightarrow> read_varint r = ((v, True), skip_bytes (length (uvarint v)) r)"
proof -
  have "unat v < 2 ^ (64 - 0)" using unsigned_less [of v] by simp
  then show "at_bytes r (uvarint v) \<Longrightarrow> ?thesis"
    unfolding read_varint_def by (subst varint_loop_uvarint) simp_all
qed

definition tag_word :: "nat \<Rightarrow> nat \<Rightarrow> u64" where
  "tag_word field wire = push_bit 3 (word_of_nat field) OR word_of_nat wire"

lemma tag_bytes_uvarint: "tag_bytes n t = uvarint (tag_word n t)"
  by (simp add: tag_bytes_def put_tag_def tag_word_def put_uvarint_acc)

lemma tag_word_parts:
  assumes "n < 2 ^ 61" "t < 8"
  shows "unat (drop_bit 3 (tag_word n t)) = n" "unat (tag_word n t AND 7) = t"
proof -
  have n: "bit n k \<Longrightarrow> k < 61" and t: "bit t k \<Longrightarrow> k < 3" for k
    using assms bit_take_bit_iff [of 61 n k] bit_take_bit_iff [of 3 t k]
    by (simp_all add: take_bit_nat_eq_self)
  have "drop_bit 3 (tag_word n t) = word_of_nat n"
    unfolding tag_word_def by (rule bit_word_eqI) (auto simp: bit_simps dest: n t)
  then show "unat (drop_bit 3 (tag_word n t)) = n"
    using assms by (simp add: unsigned_of_nat take_bit_nat_eq_self)
  have "tag_word n t AND mask 3 = word_of_nat t"
    unfolding tag_word_def by (intro bit_word_eqI) (auto simp: bit_simps dest: n t)
  moreover have "(7::u64) = mask 3" by (simp add: mask_eq_exp_minus_1)
  ultimately show "unat (tag_word n t AND 7) = t"
    using assms by (simp add: unsigned_of_nat take_bit_nat_eq_self)
qed

lemma read_tag:
  assumes "at_bytes r (tag_bytes n t)" "n < 2 ^ 61" "t < 8"
  shows "\<exists>w. read_varint r = ((w, True), skip_bytes (length (tag_bytes n t)) r)
    \<and> unat (drop_bit 3 w) = n \<and> unat (w AND 7) = t"
  using read_varint_uvarint assms tag_word_parts by (metis tag_bytes_uvarint)

fun field_tuple :: "wire_field \<Rightarrow> field_result" where
  "field_tuple (VarintF n v) = \<lparr>fr_field = n, fr_wire = 0, fr_data = [], fr_val = v, fr_ok = True\<rparr>"
| "field_tuple (LenF n b) = \<lparr>fr_field = n, fr_wire = 2, fr_data = b, fr_val = 0, fr_ok = True\<rparr>"
| "field_tuple (Fixed32F n x) = \<lparr>fr_field = n, fr_wire = 5, fr_data = le32 x, fr_val = 0, fr_ok = True\<rparr>"

lemma at_bytes_data:
  "at_bytes r w \<Longrightarrow> take (length w) (drop (rd_i r) (rd_b r)) = w \<and> length w \<le> length (rd_b r) - rd_i r"
  by (auto simp: at_bytes_def) (metis length_append length_drop le_add1)

lemma next_field_reads:
  assumes "at_bytes r (field_bytes f)" "field_wf f" "length (rd_b r) < 2 ^ 63"
  shows "next_field r = (field_tuple f, skip_bytes (length (field_bytes f)) r)"
proof (cases f)
  case (VarintF n v)
  then show ?thesis
    using assms read_tag [of r n 0] read_varint_uvarint [of "skip_bytes (length (tag_bytes n 0)) r" v]
    by (auto simp: next_field_def at_bytes_append add.assoc)
next
  case (LenF n b)
  define r1 where "r1 = skip_bytes (length (tag_bytes n 2)) r"
  define l :: u64 where "l = word_of_nat (length b)"
  define r2 where "r2 = skip_bytes (length (uvarint l)) r1"
  have at: "at_bytes r (tag_bytes n 2)" "at_bytes r1 (uvarint l)" "at_bytes r2 b"
    using assms(1) LenF by (simp_all add: at_bytes_append r1_def r2_def l_def)
  obtain w where w: "read_varint r = ((w, True), r1)" "unat (drop_bit 3 w) = n" "unat (w AND 7) = 2"
    using read_tag [OF at(1)] assms(2) LenF by (auto simp: r1_def)
  have l: "unat l = length b" using assms(2) LenF by (simp add: l_def unsigned_of_nat take_bit_nat_eq_self)
  note b = at_bytes_data [OF at(3)]
  have "length (rd_b r2) - rd_i r2 < 2 ^ 63" using assms(3) by (simp add: r1_def r2_def)
  then have "unat (word_of_nat (length (rd_b r2) - rd_i r2) :: u64) = length (rd_b r2) - rd_i r2"
    by (simp add: unsigned_of_nat take_bit_nat_eq_self)
  with b l have "\<not> word_of_nat (length (rd_b r2) - rd_i r2) < l"
    by (simp only: word_less_nat_alt) simp
  then show ?thesis
    using w l b read_varint_uvarint [OF at(2)]
    by (simp add: next_field_def LenF take_data_def r2_def [symmetric])
      (simp add: r2_def r1_def l_def)
next
  case (Fixed32F n x)
  then show ?thesis
    using assms read_tag [of r n 5] at_bytes_data [of "skip_bytes (length (tag_bytes n 5)) r" "le32 x"]
    by (auto simp: next_field_def at_bytes_append take_data_def not_less add.assoc)
qed

text \<open>Walking a whole message: what \<open>next\<close> gives until it reports no more.\<close>

function walk :: "pread \<Rightarrow> field_result list" where
  "walk r = (case next_field r of (f, r') \<Rightarrow> if fr_ok f then f # walk r' else [])"
  by pat_completeness auto
termination
  by (relation "measure (\<lambda>r. length (rd_b r) - rd_i r)") (simp_all add: next_field_less)

declare walk.simps [simp del]

lemma next_field_end: "rd_i r = length (rd_b r) \<Longrightarrow> next_field r = (no_field, r)"
  by (simp add: next_field_def read_varint_def varint_loop.simps)

lemma walk_fields:
  assumes "list_all field_wf fs" "length (rd_b r) < 2 ^ 63" "rd_i r \<le> length (rd_b r)"
    and "drop (rd_i r) (rd_b r) = fields_bytes fs"
  shows "walk r = map field_tuple fs"
  using assms
proof (induction fs arbitrary: r)
  case Nil
  then have "rd_i r = length (rd_b r)" by simp
  then show ?case by (subst walk.simps) (simp add: next_field_end no_field_def)
next
  case (Cons f fs)
  let ?r = "skip_bytes (length (field_bytes f)) r"
  have "at_bytes r (field_bytes f)" using Cons.prems(4) by (simp add: at_bytes_def)
  moreover have "drop (rd_i ?r) (rd_b ?r) = fields_bytes fs"
    using Cons.prems(4) by (simp add: drop_drop [symmetric] add.commute [of "rd_i r"] del: drop_drop)
  moreover have "rd_i ?r \<le> length (rd_b ?r)"
    using arg_cong [OF Cons.prems(4), of length] Cons.prems(3) by simp
  moreover have "fr_ok (field_tuple f)" by (cases f) simp_all
  ultimately show ?case
    using Cons.prems Cons.IH [of ?r] by (subst walk.simps) (simp add: next_field_reads)
qed

corollary walk_message:
  assumes "list_all field_wf fs" "length (fields_bytes fs) < 2 ^ 63"
  shows "walk \<lparr>rd_b = fields_bytes fs, rd_i = 0\<rparr> = map field_tuple fs"
  using assms by (intro walk_fields) simp_all

section \<open>Frames and the collector response\<close>

definition type_collector_proc :: nat where "type_collector_proc = 12"
definition type_res_collector :: nat where "type_res_collector = 23"
definition type_collector_real_time :: nat where "type_collector_real_time = 27"

definition frame_msg :: "nat \<Rightarrow> bytes \<Rightarrow> bytes" where
  "frame_msg typ body = [3, 0, word_of_nat typ] @ replicate 13 0 @ body"

definition unframe :: "bytes \<Rightarrow> (bytes \<times> nat) option" where
  "unframe framed = (if length framed < 16 then None else Some (drop 16 framed, unat (framed ! 2)))"

text \<open>Go's \<open>int32(val)\<close> of a \<open>uint64\<close>.\<close>

definition i32_of_u64 :: "u64 \<Rightarrow> int" where
  "i32_of_u64 v = sint (ucast v :: u32)"

function status_loop :: "int \<Rightarrow> int \<Rightarrow> pread \<Rightarrow> int \<times> int" where
  "status_loop active interval r =
     (case next_field r of (f, r') \<Rightarrow>
        if \<not> fr_ok f then (active, interval)
        else if fr_wire f \<noteq> 0 then status_loop active interval r'
        else if fr_field f = 1 then status_loop (i32_of_u64 (fr_val f)) interval r'
        else if fr_field f = 2 then status_loop active (i32_of_u64 (fr_val f)) r'
        else status_loop active interval r')"
  by pat_completeness auto
termination
  by (relation "measure (\<lambda>(a, i, r). length (rd_b r) - rd_i r)") (simp_all add: next_field_less)

definition read_collector_status :: "bytes \<Rightarrow> int \<times> int" where
  "read_collector_status b = status_loop 0 0 \<lparr>rd_b = b, rd_i = 0\<rparr>"

function collector_loop :: "pread \<Rightarrow> int \<times> int \<times> bool" where
  "collector_loop r =
     (case next_field r of (f, r') \<Rightarrow>
        if \<not> fr_ok f then (0, 0, True)
        else if fr_field f = 3 then (case read_collector_status (fr_data f) of (a, i) \<Rightarrow> (a, i, True))
        else collector_loop r')"
  by pat_completeness auto
termination
  by (relation "measure (\<lambda>r. length (rd_b r) - rd_i r)") (simp_all add: next_field_less)

declare status_loop.simps [simp del] collector_loop.simps [simp del]

definition read_res_collector :: "bytes \<Rightarrow> int \<times> int \<times> bool" where
  "read_res_collector framed =
     (case unframe framed of
        None \<Rightarrow> (0, 0, False)
      | Some (body, typ) \<Rightarrow>
          if typ \<noteq> type_res_collector then (0, 0, False)
          else collector_loop \<lparr>rd_b = body, rd_i = 0\<rparr>)"

text \<open>Both loops as folds over the walk.\<close>

definition status_step :: "field_result \<Rightarrow> int \<times> int \<Rightarrow> int \<times> int" where
  "status_step f s = (if fr_wire f \<noteq> 0 then s
     else if fr_field f = 1 then (i32_of_u64 (fr_val f), snd s)
     else if fr_field f = 2 then (fst s, i32_of_u64 (fr_val f)) else s)"

lemma status_loop_walk: "status_loop a i r = fold status_step (walk r) (a, i)"
proof (induction a i r rule: status_loop.induct)
  case (1 a i r)
  obtain f r' where n: "next_field r = (f, r')" by fastforce
  with "1.IH" [OF n [symmetric]] show ?case
    by (auto simp: status_loop.simps [of a i r] walk.simps [of r] status_step_def)
qed

lemma collector_loop_walk:
  "collector_loop r = (case dropWhile (\<lambda>f. fr_field f \<noteq> 3) (walk r) of
     [] \<Rightarrow> (0, 0, True) | f # _ \<Rightarrow> (fst (read_collector_status (fr_data f)), snd (read_collector_status (fr_data f)), True))"
proof (induction r rule: collector_loop.induct)
  case (1 r)
  obtain f r' where n: "next_field r = (f, r')" by fastforce
  with "1.IH" [OF n [symmetric]] show ?case
    by (auto simp: collector_loop.simps [of r] walk.simps [of r] split: prod.split)
qed

lemma unframe_frame: "typ < 256 \<Longrightarrow> unframe (frame_msg typ body) = Some (body, typ)"
  by (simp add: unframe_def frame_msg_def unsigned_of_nat take_bit_nat_eq_self nth_append)

end
