(* ===== verification/Float32.thy ===== *)
theory Float32
  imports ProtoWire
begin

text \<open>
  The bit patterns of \<open>float32\<close> values: the reader's \<open>Float32frombits\<close> inverts \<open>Float32bits\<close> on
  every value a conversion to \<open>float32\<close> can give.
\<close>

definition f32_of_bits :: "u32 \<Rightarrow> f32" where
  "f32_of_bits w =
     (let s = 2 ^ 31 \<le> unat w; e = unat w div 2 ^ 23 mod 256; f = unat w mod 2 ^ 23;
          m = (if e = 0 then of_nat f * 2 powi (- 149) else of_nat (2 ^ 23 + f) * 2 powi (int e - 150))
      in if e = 255 then if f = 0 then Inf s else NaN
         else if m = 0 then if s then NegZero else Fin 0
         else Fin (if s then - m else m))"

definition f32_ok :: "f32 \<Rightarrow> bool" where
  "f32_ok x \<longleftrightarrow> (case x of Fin q \<Rightarrow> q = 0 \<or> round_mag 24 (- 126) \<bar>q\<bar> = \<bar>q\<bar> \<and> \<bar>q\<bar> < 2 powi 128 | _ \<Rightarrow> True)"

lemma round_mag_idem:
  assumes "0 < q" "0 < p" "round_mag p emin q \<noteq> 0"
  shows "round_mag p emin (round_mag p emin q) = round_mag p emin q"
proof -
  define E where "E = max (ilog2 q) emin"
  define k where "k = round_even (q / 2 powi (E - int p + 1))"
  have r: "round_mag p emin q = of_int k * 2 powi (E - int p + 1)"
    by (simp add: round_mag_def E_def k_def Let_def)
  have "0 \<le> round_mag p emin q" using assms(1) by (simp add: round_mag_nonneg)
  with assms(3) have pos: "0 < round_mag p emin q" by simp
  have "round_mag p emin q \<le> 2 powi (E + 1)"
    unfolding E_def using assms(1) by (rule round_mag_upper)
  also have "(2::rat) powi (E + 1) = of_int (2 ^ p) * 2 powi (E - int p + 1)"
    using powi_mult2 [of "int p" "E - int p + 1"] by simp
  finally have "rat_of_int k \<le> of_int (2 ^ p)" unfolding r by (simp add: mult_le_cancel_right)
  then have k: "k \<le> 2 ^ p" by (simp only: of_int_le_iff)
  show ?thesis
  proof (cases "k = 2 ^ p")
    case False
    with k have "k < 2 ^ p" by simp
    then show ?thesis using pos r by (intro round_mag_exact [where m = k]) (auto simp: E_def)
  next
    case True
    have "round_mag p emin q = of_int 1 * 2 powi (E + 1)"
      using r True powi_mult2 [of "int p" "E - int p + 1"] by simp
    then show ?thesis
      using pos assms(2) by (intro round_mag_exact [where m = 1 and k = "E + 1"]) (auto simp: E_def)
  qed
qed

lemma f32_ok_rnd32: "f32_ok (rnd32 s q)"
proof -
  let ?m = "round_mag 24 (- 126) \<bar>q\<bar>"
  have "0 \<le> ?m" by (rule round_mag_nonneg) simp
  then show ?thesis
    using round_mag_idem [of "\<bar>q\<bar>" 24 "- 126"]
    by (auto simp: rnd32_def round_to_def f32_ok_def Let_def)
qed

lemma f32_ok_of [simp]: "f32_ok (f32_of y)"
proof (cases y)
  case (Fin q)
  then show ?thesis by (simp add: f32_of_def f32_ok_rnd32)
qed (simp_all add: f32_of_def f32_ok_def)

lemma f32_parts:
  assumes q: "0 < q" "round_mag 24 (- 126) q = q" "q < 2 powi 128"
  defines "e \<equiv> max (ilog2 q) (- 126)"
  shows "\<exists>k. q = of_int k * 2 powi (e - 23) \<and> 0 < k \<and> k < 2 ^ 24 \<and> (2 ^ 23 \<le> k \<or> e = - 126)
    \<and> - 126 \<le> e \<and> e \<le> 127"
proof -
  define k where "k = round_even (q / 2 powi (e - 23))"
  have qk: "q = of_int k * 2 powi (e - 23)"
    using q(2) by (simp add: round_mag_def e_def k_def Let_def)
  have b: "2 powi ilog2 q \<le> q" "q < 2 powi (ilog2 q + 1)" using ilog2_bounds [OF q(1)] by auto
  have up: "rat_of_int k < of_int (2 ^ 24)"
  proof -
    have "q < 2 powi (e + 1)" using b(2) powi_mono2 [of "ilog2 q + 1" "e + 1"] by (simp add: e_def)
    also have "(2::rat) powi (e + 1) = of_int (2 ^ 24) * 2 powi (e - 23)"
      using powi_mult2 [of 24 "e - 23"] by (simp add: add.commute)
    finally show ?thesis unfolding qk by (simp add: mult_less_cancel_right)
  qed
  have "of_int (2 ^ 23) \<le> rat_of_int k" if "e \<noteq> - 126"
  proof -
    have "e = ilog2 q" using that by (simp add: e_def)
    then have "of_int (2 ^ 23) * 2 powi (e - 23) \<le> q" using b(1) powi_mult2 [of 23 "e - 23"] by simp
    then have "of_int (2 ^ 23) * 2 powi (e - 23) \<le> rat_of_int k * 2 powi (e - 23)"
      by (simp only: qk [symmetric])
    then show ?thesis by (simp add: mult_le_cancel_right)
  qed
  moreover have "e \<le> 127"
  proof (rule ccontr)
    assume "\<not> e \<le> 127"
    then have "(2::rat) powi 128 \<le> 2 powi ilog2 q" by (intro powi_mono2) (simp add: e_def)
    with b(1) q(3) show False by simp
  qed
  moreover have "0 < rat_of_int k"
    using q(1) qk zero_less_mult_pos2 [of "rat_of_int k" "2 powi (e - 23)"] by simp
  moreover have "- 126 \<le> e" by (simp add: e_def)
  ultimately show ?thesis using up qk
    by (intro exI [of _ k] conjI) (auto simp only: of_int_le_iff of_int_less_iff of_int_0_less_iff)
qed

text \<open>The three parts of a pattern.\<close>

lemma pattern_parts:
  assumes "0 \<le> e" "e < 256" "0 \<le> f" "f < 2 ^ 23"
  shows "unat (word_of_int ((if s then 2 ^ 31 else 0) + e * 2 ^ 23 + f) :: u32)
    = (if s then 2 ^ 31 else 0) + nat e * 2 ^ 23 + nat f"
proof -
  let ?n = "(if s then 2 ^ 31 else 0) + nat e * 2 ^ 23 + nat f"
  have "nat e \<le> 255" "nat f < 2 ^ 23" using assms by auto
  then have "nat e * 2 ^ 23 \<le> 255 * 2 ^ 23" by (intro mult_right_mono) auto
  with \<open>nat f < 2 ^ 23\<close> have "?n < 2 ^ 32" by auto
  moreover have "(if s then 2 ^ 31 else 0) + e * 2 ^ 23 + f = int ?n" using assms by simp
  ultimately show ?thesis
    by (simp only: of_int_of_nat_eq unsigned_of_nat) (simp add: take_bit_nat_eq_self)
qed

lemma f32_of_pattern:
  assumes "0 \<le> e" "e < 255" "0 \<le> f" "f < 2 ^ 23"
  shows "f32_of_bits (word_of_int ((if s then 2 ^ 31 else 0) + e * 2 ^ 23 + f)) =
    (let m = (if e = 0 then of_int f * 2 powi (- 149) else of_int (2 ^ 23 + f) * 2 powi (e - 150)) in
      if m = 0 then if s then NegZero else Fin 0 else Fin (if s then - m else m))"
proof -
  define w :: u32 where "w = word_of_int ((if s then 2 ^ 31 else 0) + e * 2 ^ 23 + f)"
  have u: "unat w = (if s then 2 ^ 31 else 0) + nat e * 2 ^ 23 + nat f"
    unfolding w_def using assms by (intro pattern_parts) auto
  have f: "nat f < 2 ^ 23" "nat e < 255" using assms by auto
  have u2: "unat w = nat f + ((if s then 256 else 0) + nat e) * 2 ^ 23" unfolding u by simp
  have d: "unat w div 2 ^ 23 = (if s then 256 else 0) + nat e" "unat w mod 2 ^ 23 = nat f"
    unfolding u2 using f(1) by (simp_all only: div_mult_self1 mod_mult_self1) simp_all
  have "unat w div 2 ^ 23 mod 256 = nat e" unfolding d(1) using f(2) by simp
  moreover have "(2 ^ 31 \<le> unat w) = s"
    unfolding u using f by (cases s) auto
  moreover have "rat_of_nat (nat f) = of_int f" "rat_of_nat (2 ^ 23 + nat f) = of_int (2 ^ 23 + f)"
    "int (nat e) = e" "nat e = 0 \<longleftrightarrow> e = 0" "nat e \<noteq> 255"
    using assms by auto
  ultimately have "f32_of_bits w = (let m = (if e = 0 then of_int f * 2 powi (- 149) else of_int (2 ^ 23 + f) * 2 powi (e - 150)) in
      if m = 0 then if s then NegZero else Fin 0 else Fin (if s then - m else m))"
    by (simp only: f32_of_bits_def Let_def d(2) if_False)
  then show ?thesis by (simp only: w_def)
qed

lemma f32_bits_Fin:
  assumes "q \<noteq> 0" "f32_ok (Fin q)"
  shows "f32_of_bits (f32_bits (Fin q)) = Fin q"
proof -
  define e where "e = max (ilog2 \<bar>q\<bar>) (- 126)"
  obtain k where k: "\<bar>q\<bar> = of_int k * 2 powi (e - 23)" "0 < k" "k < 2 ^ 24" "2 ^ 23 \<le> k \<or> e = - 126"
      "- 126 \<le> e" "e \<le> 127"
    using f32_parts [of "\<bar>q\<bar>"] assms unfolding e_def f32_ok_def by auto
  have fl: "\<lfloor>\<bar>q\<bar> / 2 powi (e - 23)\<rfloor> = k" by (simp add: k(1))
  have bits: "f32_bits (Fin q) = word_of_int ((if q < 0 then 2 ^ 31 else 0) + (e + 126) * 2 ^ 23 + k)"
    using assms(1) by (simp only: f32_bits_def gofloat.case e_def [symmetric] fl Let_def if_False)
  show ?thesis
  proof (cases "k < 2 ^ 23")
    case True
    then have e: "e = - 126" using k(4) by auto
    show ?thesis
      using True k assms(1) f32_of_pattern [of 0 k "q < 0"] unfolding bits e by (auto simp: Let_def)
  next
    case False
    have "(e + 126) * 2 ^ 23 + k = (e + 127) * 2 ^ 23 + (k - 2 ^ 23)" by simp
    then have eq: "(if q < 0 then 2 ^ 31 else 0) + (e + 126) * 2 ^ 23 + k
        = (if q < 0 then 2 ^ 31 else 0) + (e + 127) * 2 ^ 23 + (k - 2 ^ 23)" by simp
    have "e + 127 - 150 = e - 23" by simp
    then show ?thesis
      using False k assms(1) f32_of_pattern [of "e + 127" "k - 2 ^ 23" "q < 0"] unfolding bits eq
      by (auto simp: Let_def)
  qed
qed

lemma f32_bits_roundtrip:
  assumes "f32_ok x"
  shows "f32_of_bits (f32_bits x) = x"
proof (cases x)
  case (Fin q)
  show ?thesis
  proof (cases "q = 0")
    case True
    have "f32_of_bits 0 = Fin 0" by (simp add: f32_of_bits_def)
    with True Fin show ?thesis by (simp add: f32_bits_def)
  qed (use Fin assms f32_bits_Fin in blast)
qed (simp_all add: f32_bits_def f32_of_bits_def)

end
