(* ===== verification/ProcPayload.thy ===== *)
theory ProcPayload
  imports Float32
begin

text \<open>
  The process payloads of \<^verbatim>\<open>internal/process/payload.go\<close>: a process, the messages and their
  sub-messages, and a reader of the same messages, built on the code's own field walker, against
  which the encoders are proved.
\<close>

section \<open>Processes\<close>

record proc =
  pc_pid :: int
  pc_ppid :: int
  pc_ns_pid :: int
  pc_name :: string
  pc_exe :: string
  pc_cwd :: string
  pc_args :: "string list"
  pc_user :: string
  pc_uid :: int
  pc_gid :: int
  pc_state :: int
  pc_create_time :: int
  pc_threads :: int
  pc_open_fd :: int
  pc_rss :: u64
  pc_vms :: u64
  pc_swap :: u64
  pc_shared :: u64
  pc_user_time :: f64
  pc_system_time :: f64
  pc_user_pct :: f32
  pc_system_pct :: f32
  pc_total_pct :: f32
  pc_read_count :: u64
  pc_write_count :: u64
  pc_read_bytes :: u64
  pc_write_bytes :: u64
  pc_read_rate :: f32
  pc_write_rate :: f32
  pc_read_bytes_rate :: f32
  pc_write_bytes_rate :: f32
  pc_vol_switches :: u64
  pc_invol_switches :: u64

definition zero_proc :: proc where
  "zero_proc = \<lparr>pc_pid = 0, pc_ppid = 0, pc_ns_pid = 0, pc_name = [], pc_exe = [], pc_cwd = [], pc_args = [],
     pc_user = [], pc_uid = 0, pc_gid = 0, pc_state = 0, pc_create_time = 0, pc_threads = 0, pc_open_fd = 0,
     pc_rss = 0, pc_vms = 0, pc_swap = 0, pc_shared = 0, pc_user_time = Fin 0, pc_system_time = Fin 0,
     pc_user_pct = Fin 0, pc_system_pct = Fin 0, pc_total_pct = Fin 0, pc_read_count = 0, pc_write_count = 0,
     pc_read_bytes = 0, pc_write_bytes = 0, pc_read_rate = Fin 0, pc_write_rate = Fin 0,
     pc_read_bytes_rate = Fin 0, pc_write_bytes_rate = Fin 0, pc_vol_switches = 0, pc_invol_switches = 0\<rparr>"

text \<open>The states, in the order of the wire enum.\<close>

definition state_u :: int where "state_u = 0"
definition state_d :: int where "state_d = 1"
definition state_r :: int where "state_r = 2"
definition state_s :: int where "state_s = 3"
definition state_t :: int where "state_t = 4"
definition state_w :: int where "state_w = 5"
definition state_x :: int where "state_x = 6"
definition state_z :: int where "state_z = 7"

record sys_info =
  si_os :: string
  si_platform :: string
  si_total_memory :: int
  si_num_cpu :: int

text \<open>Go's \<open>uint64(x)\<close> of a signed integer, of an \<open>int32\<close> through \<open>uint32\<close>, and of a \<open>float64\<close>,
  where \<open>cvt\<close> is what the platform gives for a value out of range.\<close>

definition u64_of :: "int \<Rightarrow> u64" where "u64_of x = word_of_int x"
definition u64_of_u32 :: "int \<Rightarrow> u64" where "u64_of_u32 x = word_of_int (wrap_u32 x)"
definition u64_of_f64 :: "(f64 \<Rightarrow> int) \<Rightarrow> f64 \<Rightarrow> u64" where
  "u64_of_f64 cvt x = word_of_int (f64_to_int 0 (2 ^ 64 - 1) cvt x)"

section \<open>Encoders\<close>

definition encode_command :: "proc \<Rightarrow> bytes" where
  "encode_command p =
     (let w = fold (put_str 1) (pc_args p) [];
          w = put_str 3 (pc_cwd p) w;
          w = put_uint 6 (u64_of (pc_ppid p)) w;
          w = put_str 8 (pc_exe p) w
      in put_str 9 (pc_name p) w)"

definition encode_user :: "proc \<Rightarrow> bytes" where
  "encode_user p =
     (let w = put_str 1 (pc_user p) [];
          w = put_uint 2 (u64_of_u32 (pc_uid p)) w
      in put_uint 3 (u64_of_u32 (pc_gid p)) w)"

definition encode_memory :: "proc \<Rightarrow> bytes" where
  "encode_memory p =
     (let w = put_uint 1 (pc_rss p) [];
          w = put_uint 2 (pc_vms p) w;
          w = put_uint 3 (pc_swap p) w
      in put_uint 4 (pc_shared p) w)"

definition encode_cpu :: "(f64 \<Rightarrow> int) \<Rightarrow> proc \<Rightarrow> bytes" where
  "encode_cpu cvt p =
     (let w = put_f32 2 (pc_total_pct p) [];
          w = put_f32 3 (pc_user_pct p) w;
          w = put_f32 4 (pc_system_pct p) w;
          w = put_uint 5 (u64_of (pc_threads p)) w;
          w = put_uint 8 (u64_of_f64 cvt (pc_user_time p)) w
      in put_uint 9 (u64_of_f64 cvt (pc_system_time p)) w)"

definition encode_io :: "proc \<Rightarrow> bytes" where
  "encode_io p =
     (let w = put_f32 1 (pc_read_rate p) [];
          w = put_f32 2 (pc_write_rate p) w;
          w = put_f32 3 (pc_read_bytes_rate p) w
      in put_f32 4 (pc_write_bytes_rate p) w)"

definition encode_process :: "(f64 \<Rightarrow> int) \<Rightarrow> proc \<Rightarrow> bytes" where
  "encode_process cvt p =
     (let w = put_uint 2 (u64_of (pc_pid p)) [];
          w = put_msg 4 (encode_command p) w;
          w = put_msg 5 (encode_user p) w;
          w = put_msg 7 (encode_memory p) w;
          w = put_msg 8 (encode_cpu cvt p) w;
          w = put_uint 9 (u64_of (pc_create_time p)) w;
          w = put_uint 11 (u64_of (pc_open_fd p)) w;
          w = put_uint 12 (u64_of (pc_state p)) w;
          w = put_msg 13 (encode_io p) w;
          w = put_uint 16 (pc_vol_switches p) w;
          w = put_uint 17 (pc_invol_switches p) w
      in put_uint 20 (u64_of (pc_ns_pid p)) w)"

definition encode_process_stat :: "(f64 \<Rightarrow> int) \<Rightarrow> proc \<Rightarrow> bytes" where
  "encode_process_stat cvt p =
     (let w = put_uint 1 (u64_of (pc_pid p)) [];
          w = put_uint 2 (u64_of (pc_create_time p)) w;
          w = put_msg 3 (encode_memory p) w;
          w = put_msg 4 (encode_cpu cvt p) w;
          w = put_uint 7 (u64_of (pc_threads p)) w;
          w = put_uint 8 (u64_of (pc_open_fd p)) w;
          w = put_uint 12 (u64_of (pc_state p)) w;
          w = put_msg 19 (encode_io p) w;
          w = put_uint 24 (pc_vol_switches p) w
      in put_uint 25 (pc_invol_switches p) w)"

definition encode_os_info :: "sys_info \<Rightarrow> bytes" where
  "encode_os_info s = (let w = put_str 1 (si_os s) [] in put_str 2 (si_platform s) w)"

definition encode_system_info :: "sys_info \<Rightarrow> bytes" where
  "encode_system_info s =
     (let w = put_msg 2 (encode_os_info s) [] in put_uint 5 (u64_of (si_total_memory s)) w)"

definition encode_collector_proc ::
  "(f64 \<Rightarrow> int) \<Rightarrow> string \<Rightarrow> sys_info \<Rightarrow> proc list \<Rightarrow> int \<Rightarrow> int \<Rightarrow> bytes" where
  "encode_collector_proc cvt hostname info procs group_id group_size =
     (let w = put_str 2 hostname [];
          w = fold (\<lambda>p. put_msg 3 (encode_process cvt p)) procs w;
          w = put_msg 5 (encode_system_info info) w;
          w = put_uint 6 (u64_of_u32 group_id) w
      in put_uint 7 (u64_of_u32 group_size) w)"

definition encode_collector_real_time ::
  "(f64 \<Rightarrow> int) \<Rightarrow> string \<Rightarrow> proc list \<Rightarrow> int \<Rightarrow> int \<Rightarrow> int \<Rightarrow> int \<Rightarrow> bytes" where
  "encode_collector_real_time cvt hostname stats group_id group_size num_cpu total_mem =
     (let w = put_str 2 hostname [];
          w = fold (\<lambda>p. put_msg 3 (encode_process_stat cvt p)) stats w;
          w = put_uint 6 (u64_of_u32 group_id) w;
          w = put_uint 7 (u64_of_u32 group_size) w;
          w = put_uint 8 (u64_of num_cpu) w
      in put_uint 9 (u64_of total_mem) w)"

section \<open>Reading a message\<close>

text \<open>The readers of a proto3 scalar, string, float and repeated field: the last occurrence, or
  the zero value.\<close>

definition pick :: "(field_result \<Rightarrow> bool) \<Rightarrow> (field_result \<Rightarrow> 'a) \<Rightarrow> field_result list \<Rightarrow> 'a \<Rightarrow> 'a" where
  "pick P g rs d = fold (\<lambda>f acc. if P f then g f else acc) rs d"

definition get_uint :: "nat \<Rightarrow> field_result list \<Rightarrow> u64" where
  "get_uint n rs = pick (\<lambda>f. fr_field f = n \<and> fr_wire f = 0) fr_val rs 0"

definition get_data :: "nat \<Rightarrow> field_result list \<Rightarrow> bytes" where
  "get_data n rs = pick (\<lambda>f. fr_field f = n \<and> fr_wire f = 2) fr_data rs []"

definition un_le32 :: "bytes \<Rightarrow> u32" where
  "un_le32 b = ucast (b ! 0) OR push_bit 8 (ucast (b ! 1)) OR push_bit 16 (ucast (b ! 2)) OR push_bit 24 (ucast (b ! 3))"

definition get_f32 :: "nat \<Rightarrow> field_result list \<Rightarrow> f32" where
  "get_f32 n rs = pick (\<lambda>f. fr_field f = n \<and> fr_wire f = 5) (\<lambda>f. f32_of_bits (un_le32 (fr_data f))) rs (Fin 0)"

definition get_all :: "nat \<Rightarrow> field_result list \<Rightarrow> bytes list" where
  "get_all n rs = map fr_data (filter (\<lambda>f. fr_field f = n \<and> fr_wire f = 2) rs)"

definition bytes_str :: "bytes \<Rightarrow> string" where
  "bytes_str b = map (\<lambda>w. char_of (unat w)) b"

abbreviation message_fields :: "bytes \<Rightarrow> field_result list" where
  "message_fields b \<equiv> walk \<lparr>rd_b = b, rd_i = 0\<rparr>"

lemma bytes_str_bytes [simp]: "bytes_str (str_bytes s) = s"
  by (induction s) (simp_all add: bytes_str_def str_bytes_def byte_def unsigned_of_nat take_bit_nat_eq_self)

lemma length_str_bytes [simp]: "length (str_bytes s) = length s"
  by (simp add: str_bytes_def)

lemma un_le32 [simp]: "un_le32 (le32 x) = x"
proof (rule bit_word_eqI)
  fix n
  assume "n < LENGTH(32)"
  then consider "n < 8" | "8 \<le> n" "n < 16" | "16 \<le> n" "n < 24" | "24 \<le> n" "n < 32" by fastforce
  then show "bit (un_le32 (le32 x)) n = bit x n"
    by cases (simp_all add: un_le32_def le32_def bit_simps nth_Cons' less_diff_conv2)
qed

text \<open>Each optional field, as the writers leave it.\<close>

lemma pick_append: "pick P g (xs @ ys) d = pick P g ys (pick P g xs d)"
  by (simp add: pick_def)

lemma pick_Nil [simp]: "pick P g [] d = d"
  by (simp add: pick_def)

lemma pick_single: "pick P g [f] d = (if P f then g f else d)"
  by (simp add: pick_def)

text \<open>Fields as the encoders list them: small numbers, and data no longer than the message.\<close>

definition numbers_ok :: "wire_field list \<Rightarrow> bool" where
  "numbers_ok fs \<longleftrightarrow> list_all (\<lambda>f. case f of VarintF n _ \<Rightarrow> n < 2 ^ 61 | LenF n _ \<Rightarrow> n < 2 ^ 61 | Fixed32F n _ \<Rightarrow> n < 2 ^ 61) fs"

lemma numbers_ok_simps [simp]:
  "numbers_ok []" "numbers_ok (xs @ ys) \<longleftrightarrow> numbers_ok xs \<and> numbers_ok ys"
  "numbers_ok (if v = (0::u64) then [] else [VarintF k v]) \<longleftrightarrow> v = 0 \<or> k < 2 ^ 61"
  "numbers_ok (if b = [] then [] else [LenF k b']) \<longleftrightarrow> b = [] \<or> k < 2 ^ 61"
  "numbers_ok (if feq x (Fin 0) then [] else [Fixed32F k y]) \<longleftrightarrow> feq x (Fin 0) \<or> k < 2 ^ 61"
  by (simp_all add: numbers_ok_def)

lemma length_field_in: "f \<in> set fs \<Longrightarrow> length (field_bytes f) \<le> length (fields_bytes fs)"
  by (induction fs) auto

lemma length_data_in: "LenF n b \<in> set fs \<Longrightarrow> length b \<le> length (fields_bytes fs)"
  using length_field_in [of "LenF n b" fs] by simp

lemma walk_numbers:
  assumes "numbers_ok fs" "length (fields_bytes fs) < 2 ^ 63"
  shows "message_fields (fields_bytes fs) = map field_tuple fs"
proof (rule walk_message)
  have "field_wf f" if f: "f \<in> set fs" for f
  proof (cases f)
    case (LenF n b)
    with f length_data_in [of n b fs] assms show ?thesis by (auto simp: numbers_ok_def list_all_iff)
  qed (use f assms(1) in \<open>auto simp: numbers_ok_def list_all_iff\<close>)
  then show "list_all field_wf fs" by (simp add: list_all_iff)
qed fact

section \<open>The fields each encoder writes\<close>

abbreviation opt_uint :: "nat \<Rightarrow> u64 \<Rightarrow> wire_field list" where
  "opt_uint n v \<equiv> (if v = 0 then [] else [VarintF n v])"

abbreviation opt_str :: "nat \<Rightarrow> string \<Rightarrow> wire_field list" where
  "opt_str n s \<equiv> (if s = [] then [] else [LenF n (str_bytes s)])"

abbreviation opt_f32 :: "nat \<Rightarrow> f32 \<Rightarrow> wire_field list" where
  "opt_f32 n x \<equiv> (if feq x (Fin 0) then [] else [Fixed32F n (f32_bits x)])"

abbreviation opt_msg :: "nat \<Rightarrow> bytes \<Rightarrow> wire_field list" where
  "opt_msg n b \<equiv> (if b = [] then [] else [LenF n b])"

definition command_fields :: "proc \<Rightarrow> wire_field list" where
  "command_fields p = concat (map (opt_str 1) (pc_args p)) @ opt_str 3 (pc_cwd p)
     @ opt_uint 6 (u64_of (pc_ppid p)) @ opt_str 8 (pc_exe p) @ opt_str 9 (pc_name p)"

definition user_fields :: "proc \<Rightarrow> wire_field list" where
  "user_fields p = opt_str 1 (pc_user p) @ opt_uint 2 (u64_of_u32 (pc_uid p)) @ opt_uint 3 (u64_of_u32 (pc_gid p))"

definition memory_fields :: "proc \<Rightarrow> wire_field list" where
  "memory_fields p = opt_uint 1 (pc_rss p) @ opt_uint 2 (pc_vms p) @ opt_uint 3 (pc_swap p) @ opt_uint 4 (pc_shared p)"

definition cpu_fields :: "(f64 \<Rightarrow> int) \<Rightarrow> proc \<Rightarrow> wire_field list" where
  "cpu_fields cvt p = opt_f32 2 (pc_total_pct p) @ opt_f32 3 (pc_user_pct p) @ opt_f32 4 (pc_system_pct p)
     @ opt_uint 5 (u64_of (pc_threads p)) @ opt_uint 8 (u64_of_f64 cvt (pc_user_time p))
     @ opt_uint 9 (u64_of_f64 cvt (pc_system_time p))"

definition io_fields :: "proc \<Rightarrow> wire_field list" where
  "io_fields p = opt_f32 1 (pc_read_rate p) @ opt_f32 2 (pc_write_rate p)
     @ opt_f32 3 (pc_read_bytes_rate p) @ opt_f32 4 (pc_write_bytes_rate p)"

definition process_fields :: "(f64 \<Rightarrow> int) \<Rightarrow> proc \<Rightarrow> wire_field list" where
  "process_fields cvt p = opt_uint 2 (u64_of (pc_pid p)) @ opt_msg 4 (encode_command p)
     @ opt_msg 5 (encode_user p) @ opt_msg 7 (encode_memory p) @ opt_msg 8 (encode_cpu cvt p)
     @ opt_uint 9 (u64_of (pc_create_time p)) @ opt_uint 11 (u64_of (pc_open_fd p))
     @ opt_uint 12 (u64_of (pc_state p)) @ opt_msg 13 (encode_io p) @ opt_uint 16 (pc_vol_switches p)
     @ opt_uint 17 (pc_invol_switches p) @ opt_uint 20 (u64_of (pc_ns_pid p))"

definition stat_fields :: "(f64 \<Rightarrow> int) \<Rightarrow> proc \<Rightarrow> wire_field list" where
  "stat_fields cvt p = opt_uint 1 (u64_of (pc_pid p)) @ opt_uint 2 (u64_of (pc_create_time p))
     @ opt_msg 3 (encode_memory p) @ opt_msg 4 (encode_cpu cvt p) @ opt_uint 7 (u64_of (pc_threads p))
     @ opt_uint 8 (u64_of (pc_open_fd p)) @ opt_uint 12 (u64_of (pc_state p)) @ opt_msg 19 (encode_io p)
     @ opt_uint 24 (pc_vol_switches p) @ opt_uint 25 (pc_invol_switches p)"

lemma fold_put_str: "fold (put_str n) ss w = w @ fields_bytes (concat (map (opt_str n) ss))"
  by (induction ss arbitrary: w) (simp_all add: put_fields)

lemma fold_put_msg: "fold (\<lambda>p. put_msg n (f p)) ps w = w @ fields_bytes (concat (map (\<lambda>p. opt_msg n (f p)) ps))"
  by (induction ps arbitrary: w) (simp_all add: put_fields)

lemma encode_fields:
  "encode_command p = fields_bytes (command_fields p)"
  "encode_user p = fields_bytes (user_fields p)"
  "encode_memory p = fields_bytes (memory_fields p)"
  "encode_cpu cvt p = fields_bytes (cpu_fields cvt p)"
  "encode_io p = fields_bytes (io_fields p)"
  "encode_process cvt p = fields_bytes (process_fields cvt p)"
  "encode_process_stat cvt p = fields_bytes (stat_fields cvt p)"
  by (simp_all only: encode_command_def encode_user_def encode_memory_def encode_cpu_def encode_io_def
      encode_process_def encode_process_stat_def command_fields_def user_fields_def memory_fields_def
      cpu_fields_def io_fields_def process_fields_def stat_fields_def
      Let_def put_fields fold_put_str map_append concat_append append_Nil append_assoc)

lemma numbers_concat: "(\<And>x. numbers_ok (f x)) \<Longrightarrow> numbers_ok (concat (map f xs))"
  by (induction xs) simp_all

lemma numbers_fields:
  "numbers_ok (command_fields p)" "numbers_ok (user_fields p)" "numbers_ok (memory_fields p)"
  "numbers_ok (cpu_fields cvt p)" "numbers_ok (io_fields p)" "numbers_ok (process_fields cvt p)"
  "numbers_ok (stat_fields cvt p)"
  by (simp_all add: command_fields_def user_fields_def memory_fields_def cpu_fields_def io_fields_def
      process_fields_def stat_fields_def numbers_concat)

lemmas message_reads = encode_fields numbers_fields walk_numbers

section \<open>Numbers on the wire\<close>

lemma i32_of_u64_of: "i32_of_u64 (u64_of x) = wrap_i32 x"
  by (rule bit_eqI) (simp add: i32_of_u64_def u64_of_def wrap_i32_def bit_simps min_def)

lemma i32_of_u64_u32: "i32_of_u64 (u64_of_u32 x) = wrap_i32 x"
  by (rule bit_eqI) (simp add: i32_of_u64_def u64_of_u32_def wrap_i32_def wrap_u32_def bit_simps min_def)

lemma sint_u64_of: "in_i64 x \<Longrightarrow> sint (u64_of x) = x"
  by (simp add: u64_of_def in_i64_def signed_of_int signed_take_bit_int_eq_self)

lemma u64_of_zero: "in_i32 x \<Longrightarrow> u64_of x = 0 \<longleftrightarrow> x = 0"
  using i32_of_u64_of [of x] by (auto simp: u64_of_def i32_of_u64_def)

section \<open>What the intake reads\<close>

definition read_memory :: "field_result list \<Rightarrow> proc \<Rightarrow> proc" where
  "read_memory m p = p\<lparr>pc_rss := get_uint 1 m, pc_vms := get_uint 2 m, pc_swap := get_uint 3 m, pc_shared := get_uint 4 m\<rparr>"

definition read_cpu :: "field_result list \<Rightarrow> proc \<Rightarrow> proc" where
  "read_cpu c p = p\<lparr>pc_total_pct := get_f32 2 c, pc_user_pct := get_f32 3 c, pc_system_pct := get_f32 4 c,
     pc_threads := i32_of_u64 (get_uint 5 c), pc_user_time := f64_of_int (uint (get_uint 8 c)),
     pc_system_time := f64_of_int (uint (get_uint 9 c))\<rparr>"

definition read_io :: "field_result list \<Rightarrow> proc \<Rightarrow> proc" where
  "read_io i p = p\<lparr>pc_read_rate := get_f32 1 i, pc_write_rate := get_f32 2 i,
     pc_read_bytes_rate := get_f32 3 i, pc_write_bytes_rate := get_f32 4 i\<rparr>"

definition read_command :: "field_result list \<Rightarrow> proc \<Rightarrow> proc" where
  "read_command c p = p\<lparr>pc_args := map bytes_str (get_all 1 c), pc_cwd := bytes_str (get_data 3 c),
     pc_ppid := i32_of_u64 (get_uint 6 c), pc_exe := bytes_str (get_data 8 c), pc_name := bytes_str (get_data 9 c)\<rparr>"

definition read_user :: "field_result list \<Rightarrow> proc \<Rightarrow> proc" where
  "read_user u p = p\<lparr>pc_user := bytes_str (get_data 1 u), pc_uid := i32_of_u64 (get_uint 2 u),
     pc_gid := i32_of_u64 (get_uint 3 u)\<rparr>"

definition decode_process :: "bytes \<Rightarrow> proc" where
  "decode_process b = (let rs = message_fields b in
     read_command (message_fields (get_data 4 rs)) (read_user (message_fields (get_data 5 rs))
       (read_memory (message_fields (get_data 7 rs)) (read_cpu (message_fields (get_data 8 rs))
         (read_io (message_fields (get_data 13 rs)) (zero_proc
           \<lparr>pc_pid := i32_of_u64 (get_uint 2 rs), pc_create_time := sint (get_uint 9 rs),
            pc_open_fd := i32_of_u64 (get_uint 11 rs), pc_state := i32_of_u64 (get_uint 12 rs),
            pc_vol_switches := get_uint 16 rs, pc_invol_switches := get_uint 17 rs,
            pc_ns_pid := i32_of_u64 (get_uint 20 rs)\<rparr>))))))"

definition decode_process_stat :: "bytes \<Rightarrow> proc" where
  "decode_process_stat b = (let rs = message_fields b in
     read_memory (message_fields (get_data 3 rs)) (read_cpu (message_fields (get_data 4 rs))
       (read_io (message_fields (get_data 19 rs)) (zero_proc
         \<lparr>pc_pid := i32_of_u64 (get_uint 1 rs), pc_create_time := sint (get_uint 2 rs),
          pc_open_fd := i32_of_u64 (get_uint 8 rs), pc_state := i32_of_u64 (get_uint 12 rs),
          pc_vol_switches := get_uint 24 rs, pc_invol_switches := get_uint 25 rs\<rparr>))))"

text \<open>
  What survives the wire: the cumulative counters stay behind, the CPU times are cut to whole
  seconds, and empty arguments are lost (the writer omits them although the field repeats).
\<close>

definition wire_view :: "(f64 \<Rightarrow> int) \<Rightarrow> proc \<Rightarrow> proc" where
  "wire_view cvt p = p\<lparr>pc_args := filter (\<lambda>a. a \<noteq> []) (pc_args p),
     pc_user_time := f64_of_int (uint (u64_of_f64 cvt (pc_user_time p))),
     pc_system_time := f64_of_int (uint (u64_of_f64 cvt (pc_system_time p))),
     pc_read_count := 0, pc_write_count := 0, pc_read_bytes := 0, pc_write_bytes := 0\<rparr>"

definition stat_view :: "(f64 \<Rightarrow> int) \<Rightarrow> proc \<Rightarrow> proc" where
  "stat_view cvt p = (wire_view cvt p)\<lparr>pc_args := [], pc_cwd := [], pc_ppid := 0, pc_exe := [], pc_name := [],
     pc_user := [], pc_uid := 0, pc_gid := 0, pc_ns_pid := 0\<rparr>"

definition rate_ok :: "f32 \<Rightarrow> bool" where
  "rate_ok x \<longleftrightarrow> f32_ok x \<and> x \<noteq> NegZero"

definition proc_ok :: "proc \<Rightarrow> bool" where
  "proc_ok p \<longleftrightarrow> list_all in_i32 [pc_pid p, pc_ppid p, pc_ns_pid p, pc_uid p, pc_gid p, pc_state p, pc_threads p, pc_open_fd p]
     \<and> in_i64 (pc_create_time p)
     \<and> list_all rate_ok [pc_user_pct p, pc_system_pct p, pc_total_pct p, pc_read_rate p, pc_write_rate p,
         pc_read_bytes_rate p, pc_write_bytes_rate p]"

lemma get_f32_opt:
  assumes "rate_ok x"
  shows "(if \<not> feq x (Fin 0) then f32_of_bits (f32_bits x) else Fin 0) = x"
  using assms f32_bits_roundtrip [of x] unfolding rate_ok_def by (cases x) (auto simp: feq_def)

lemma pick_varint:
  "pick (\<lambda>f. fr_field f = n \<and> fr_wire f = 0) fr_val (map field_tuple (opt_uint k v)) d = (if k = n \<and> v \<noteq> 0 then v else d)"
  "pick (\<lambda>f. fr_field f = n \<and> fr_wire f = 0) fr_val (map field_tuple (if b = [] then [] else [LenF k b'])) d = d"
  "pick (\<lambda>f. fr_field f = n \<and> fr_wire f = 0) fr_val (map field_tuple (opt_f32 k x)) d = d"
  by (simp_all add: pick_def)

lemma pick_data:
  "pick (\<lambda>f. fr_field f = n \<and> fr_wire f = 2) fr_data (map field_tuple (opt_uint k v)) d = d"
  "pick (\<lambda>f. fr_field f = n \<and> fr_wire f = 2) fr_data (map field_tuple (if b = [] then [] else [LenF k b'])) d
    = (if k = n \<and> b \<noteq> [] then b' else d)"
  "pick (\<lambda>f. fr_field f = n \<and> fr_wire f = 2) fr_data (map field_tuple (opt_f32 k x)) d = d"
  by (simp_all add: pick_def)

lemma pick_float:
  "pick (\<lambda>f. fr_field f = n \<and> fr_wire f = 5) h (map field_tuple (opt_uint k v)) d = d"
  "pick (\<lambda>f. fr_field f = n \<and> fr_wire f = 5) h (map field_tuple (if b = [] then [] else [LenF k b'])) d = d"
  "pick (\<lambda>f. fr_field f = n \<and> fr_wire f = 5) (\<lambda>f. f32_of_bits (un_le32 (fr_data f))) (map field_tuple (opt_f32 k x)) d
    = (if k = n \<and> \<not> feq x (Fin 0) then f32_of_bits (f32_bits x) else d)"
  by (simp_all add: pick_def)

lemma opt_defaults:
  "(if v \<noteq> 0 then v else 0) = (v::u64)" "(if b \<noteq> [] then b else []) = (b::bytes)"
  "(if s \<noteq> [] then str_bytes s else []) = str_bytes s"
  by (simp_all add: str_bytes_def)

lemmas get_defs = get_uint_def get_data_def get_f32_def pick_append pick_varint pick_data pick_float opt_defaults

lemma get_all_fields:
  "get_all n (xs @ ys) = get_all n xs @ get_all n ys"
  "get_all n (map field_tuple (concat (map (opt_str k) ss)))
    = (if k = n then map str_bytes (filter (\<lambda>s. s \<noteq> []) ss) else [])"
  "get_all n (map field_tuple (opt_str k s)) = (if s \<noteq> [] \<and> k = n then [str_bytes s] else [])"
  "get_all n (map field_tuple (opt_msg k b)) = (if b \<noteq> [] \<and> k = n then [b] else [])"
  "get_all n (map field_tuple (opt_uint k v)) = []"
  by (simp_all add: get_all_def) (induction ss, simp_all)

lemma pick_strs:
  "(\<And>b. \<not> P (field_tuple (LenF n b))) \<Longrightarrow> pick P g (map field_tuple (concat (map (opt_str n) ss))) d = d"
  by (induction ss) (simp_all add: pick_append pick_single)

lemma memory_read: "read_memory (map field_tuple (memory_fields p)) q
    = q\<lparr>pc_rss := pc_rss p, pc_vms := pc_vms p, pc_swap := pc_swap p, pc_shared := pc_shared p\<rparr>"
  by (simp add: read_memory_def memory_fields_def get_defs split del: if_split)

lemma cpu_read: "proc_ok p \<Longrightarrow> read_cpu (map field_tuple (cpu_fields cvt p)) q
    = q\<lparr>pc_total_pct := pc_total_pct p, pc_user_pct := pc_user_pct p, pc_system_pct := pc_system_pct p,
       pc_threads := pc_threads p, pc_user_time := f64_of_int (uint (u64_of_f64 cvt (pc_user_time p))),
       pc_system_time := f64_of_int (uint (u64_of_f64 cvt (pc_system_time p)))\<rparr>"
  by (simp add: read_cpu_def cpu_fields_def get_defs proc_ok_def get_f32_opt i32_of_u64_of
      split del: if_split)

lemma io_read: "proc_ok p \<Longrightarrow> read_io (map field_tuple (io_fields p)) q
    = q\<lparr>pc_read_rate := pc_read_rate p, pc_write_rate := pc_write_rate p,
       pc_read_bytes_rate := pc_read_bytes_rate p, pc_write_bytes_rate := pc_write_bytes_rate p\<rparr>"
  by (simp add: read_io_def io_fields_def get_defs proc_ok_def get_f32_opt split del: if_split)

lemma command_read: "proc_ok p \<Longrightarrow> read_command (map field_tuple (command_fields p)) q
    = q\<lparr>pc_args := filter (\<lambda>a. a \<noteq> []) (pc_args p), pc_cwd := pc_cwd p, pc_ppid := pc_ppid p,
       pc_exe := pc_exe p, pc_name := pc_name p\<rparr>"
  by (simp add: read_command_def command_fields_def get_defs pick_strs get_all_fields
      proc_ok_def i32_of_u64_of comp_def del: One_nat_def split del: if_split)

lemma user_read: "proc_ok p \<Longrightarrow> read_user (map field_tuple (user_fields p)) q
    = q\<lparr>pc_user := pc_user p, pc_uid := pc_uid p, pc_gid := pc_gid p\<rparr>"
  by (simp add: read_user_def user_fields_def get_defs proc_ok_def i32_of_u64_u32 split del: if_split)

lemmas part_reads = memory_read cpu_read io_read command_read user_read

text \<open>A sub-message is no longer than its message.\<close>

lemma opt_msg_length:
  "set (opt_msg n b) \<subseteq> set fs \<Longrightarrow> length (fields_bytes fs) < 2 ^ 63 \<Longrightarrow> length b < 2 ^ 63"
  using length_data_in [of n b fs] by (auto split: if_splits)

lemma decode_encode_process:
  assumes "proc_ok p" "length (encode_process cvt p) < 2 ^ 63"
  shows "decode_process (encode_process cvt p) = wire_view cvt p"
proof -
  have len: "length (fields_bytes (process_fields cvt p)) < 2 ^ 63"
    using assms(2) by (simp only: encode_fields)
  have "set (opt_msg 4 (encode_command p)) \<union> set (opt_msg 5 (encode_user p)) \<union> set (opt_msg 7 (encode_memory p))
      \<union> set (opt_msg 8 (encode_cpu cvt p)) \<union> set (opt_msg 13 (encode_io p)) \<subseteq> set (process_fields cvt p)"
    by (auto simp only: process_fields_def set_append)
  with opt_msg_length [OF _ len]
  have sub: "length (encode_command p) < 2 ^ 63" "length (encode_user p) < 2 ^ 63"
      "length (encode_memory p) < 2 ^ 63" "length (encode_cpu cvt p) < 2 ^ 63" "length (encode_io p) < 2 ^ 63"
    by (metis Un_subset_iff)+
  let ?rs = "map field_tuple (process_fields cvt p)"
  have rs: "message_fields (encode_process cvt p) = ?rs"
    using len by (simp only: message_reads)
  have parts: "message_fields (encode_command p) = map field_tuple (command_fields p)"
      "message_fields (encode_user p) = map field_tuple (user_fields p)"
      "message_fields (encode_memory p) = map field_tuple (memory_fields p)"
      "message_fields (encode_cpu cvt p) = map field_tuple (cpu_fields cvt p)"
      "message_fields (encode_io p) = map field_tuple (io_fields p)"
    using sub by (simp_all only: message_reads)
  have data: "get_data 4 ?rs = encode_command p" "get_data 5 ?rs = encode_user p" "get_data 7 ?rs = encode_memory p"
      "get_data 8 ?rs = encode_cpu cvt p" "get_data 13 ?rs = encode_io p"
    by (simp_all add: process_fields_def get_defs split del: if_split)
  have nums: "get_uint 2 ?rs = u64_of (pc_pid p)" "get_uint 9 ?rs = u64_of (pc_create_time p)"
      "get_uint 11 ?rs = u64_of (pc_open_fd p)" "get_uint 12 ?rs = u64_of (pc_state p)"
      "get_uint 16 ?rs = pc_vol_switches p" "get_uint 17 ?rs = pc_invol_switches p" "get_uint 20 ?rs = u64_of (pc_ns_pid p)"
    by (simp_all add: process_fields_def get_defs split del: if_split)
  show ?thesis
    unfolding decode_process_def Let_def rs data nums parts command_read [OF assms(1)] user_read [OF assms(1)]
      memory_read cpu_read [OF assms(1)] io_read [OF assms(1)]
    using assms(1) by (simp add: wire_view_def zero_proc_def proc_ok_def i32_of_u64_of sint_u64_of)
qed

lemma decode_encode_stat:
  assumes "proc_ok p" "length (encode_process_stat cvt p) < 2 ^ 63"
  shows "decode_process_stat (encode_process_stat cvt p) = stat_view cvt p"
proof -
  have len: "length (fields_bytes (stat_fields cvt p)) < 2 ^ 63"
    using assms(2) by (simp only: encode_fields)
  have "set (opt_msg 3 (encode_memory p)) \<union> set (opt_msg 4 (encode_cpu cvt p)) \<union> set (opt_msg 19 (encode_io p))
      \<subseteq> set (stat_fields cvt p)"
    by (auto simp only: stat_fields_def set_append)
  with opt_msg_length [OF _ len]
  have sub: "length (encode_memory p) < 2 ^ 63" "length (encode_cpu cvt p) < 2 ^ 63" "length (encode_io p) < 2 ^ 63"
    by (metis Un_subset_iff)+
  let ?rs = "map field_tuple (stat_fields cvt p)"
  have rs: "message_fields (encode_process_stat cvt p) = ?rs"
    using len by (simp only: message_reads)
  have parts: "message_fields (encode_memory p) = map field_tuple (memory_fields p)"
      "message_fields (encode_cpu cvt p) = map field_tuple (cpu_fields cvt p)"
      "message_fields (encode_io p) = map field_tuple (io_fields p)"
    using sub by (simp_all only: message_reads)
  have data: "get_data 3 ?rs = encode_memory p" "get_data 4 ?rs = encode_cpu cvt p" "get_data 19 ?rs = encode_io p"
    by (simp_all add: stat_fields_def get_defs split del: if_split)
  have nums: "get_uint 1 ?rs = u64_of (pc_pid p)" "get_uint 2 ?rs = u64_of (pc_create_time p)"
      "get_uint 8 ?rs = u64_of (pc_open_fd p)" "get_uint 12 ?rs = u64_of (pc_state p)"
      "get_uint 24 ?rs = pc_vol_switches p" "get_uint 25 ?rs = pc_invol_switches p"
    by (simp_all add: stat_fields_def get_defs split del: if_split)
  show ?thesis
    unfolding decode_process_stat_def Let_def rs data nums parts memory_read cpu_read [OF assms(1)] io_read [OF assms(1)]
    using assms(1) by (simp add: wire_view_def stat_view_def zero_proc_def proc_ok_def i32_of_u64_of sint_u64_of)
qed

section \<open>Collector messages\<close>

definition os_fields :: "sys_info \<Rightarrow> wire_field list" where
  "os_fields s = opt_str 1 (si_os s) @ opt_str 2 (si_platform s)"

definition system_fields :: "sys_info \<Rightarrow> wire_field list" where
  "system_fields s = opt_msg 2 (encode_os_info s) @ opt_uint 5 (u64_of (si_total_memory s))"

definition collector_proc_fields where
  "collector_proc_fields cvt hostname info procs group_id group_size =
     opt_str 2 hostname @ concat (map (\<lambda>p. opt_msg 3 (encode_process cvt p)) procs)
     @ opt_msg 5 (encode_system_info info) @ opt_uint 6 (u64_of_u32 group_id) @ opt_uint 7 (u64_of_u32 group_size)"

definition collector_real_time_fields where
  "collector_real_time_fields cvt hostname stats group_id group_size num_cpu total_mem =
     opt_str 2 hostname @ concat (map (\<lambda>p. opt_msg 3 (encode_process_stat cvt p)) stats)
     @ opt_uint 6 (u64_of_u32 group_id) @ opt_uint 7 (u64_of_u32 group_size)
     @ opt_uint 8 (u64_of num_cpu) @ opt_uint 9 (u64_of total_mem)"

lemma collector_fields:
  "encode_os_info s = fields_bytes (os_fields s)"
  "encode_system_info s = fields_bytes (system_fields s)"
  "encode_collector_proc cvt h s ps g n = fields_bytes (collector_proc_fields cvt h s ps g n)"
  "encode_collector_real_time cvt h ps g n c m = fields_bytes (collector_real_time_fields cvt h ps g n c m)"
  by (simp_all only: encode_os_info_def encode_system_info_def encode_collector_proc_def
      encode_collector_real_time_def os_fields_def system_fields_def collector_proc_fields_def
      collector_real_time_fields_def Let_def put_fields fold_put_msg map_append concat_append append_Nil append_assoc)

lemma numbers_collector:
  "numbers_ok (os_fields s)" "numbers_ok (system_fields s)"
  "numbers_ok (collector_proc_fields cvt h s ps g n)"
  "numbers_ok (collector_real_time_fields cvt h ps g n c m)"
  by (simp_all add: os_fields_def system_fields_def collector_proc_fields_def collector_real_time_fields_def
      numbers_concat)

lemma get_all_msgs:
  "get_all n (map field_tuple (concat (map (\<lambda>p. opt_msg k (f p)) ps)))
    = (if k = n then filter (\<lambda>b. b \<noteq> []) (map f ps) else [])"
  by (induction ps) (simp_all add: get_all_def)

lemma pick_msgs:
  "(\<And>b. \<not> P (field_tuple (LenF n b))) \<Longrightarrow> pick P g (map field_tuple (concat (map (\<lambda>p. opt_msg n (f p)) ps))) d = d"
  by (induction ps) (simp_all add: pick_append pick_single)

definition decode_collector_proc :: "bytes \<Rightarrow> string \<times> proc list \<times> (string \<times> string \<times> int) \<times> int \<times> int" where
  "decode_collector_proc b =
     (let rs = message_fields b; sys = message_fields (get_data 5 rs); os = message_fields (get_data 2 sys)
      in (bytes_str (get_data 2 rs), map decode_process (get_all 3 rs),
          (bytes_str (get_data 1 os), bytes_str (get_data 2 os), sint (get_uint 5 sys)),
          i32_of_u64 (get_uint 6 rs), i32_of_u64 (get_uint 7 rs)))"

definition decode_collector_real_time :: "bytes \<Rightarrow> string \<times> proc list \<times> int \<times> int \<times> int \<times> int" where
  "decode_collector_real_time b =
     (let rs = message_fields b
      in (bytes_str (get_data 2 rs), map decode_process_stat (get_all 3 rs),
          i32_of_u64 (get_uint 6 rs), i32_of_u64 (get_uint 7 rs), sint (get_uint 8 rs), sint (get_uint 9 rs)))"

lemma encoded_nonempty:
  "proc_ok p \<Longrightarrow> pc_pid p \<noteq> 0 \<Longrightarrow> encode_process cvt p \<noteq> [] \<and> encode_process_stat cvt p \<noteq> []"
  by (simp add: encode_fields process_fields_def stat_fields_def proc_ok_def u64_of_zero tag_bytes_uvarint)

lemma all_sent:
  assumes "list_all proc_ok procs" "list_all (\<lambda>p. pc_pid p \<noteq> 0) procs"
  shows "filter (\<lambda>b. b \<noteq> []) (map (encode_process cvt) procs) = map (encode_process cvt) procs"
    "filter (\<lambda>b. b \<noteq> []) (map (encode_process_stat cvt) procs) = map (encode_process_stat cvt) procs"
  using assms by (induction procs) (auto simp: encoded_nonempty)

lemma collector_proc_read:
  assumes "list_all proc_ok procs" "list_all (\<lambda>p. pc_pid p \<noteq> 0) procs"
    and "in_i32 group_id" "in_i32 group_size" "in_i64 (si_total_memory info)"
    and "length (encode_collector_proc cvt hostname info procs group_id group_size) < 2 ^ 63"
  shows "decode_collector_proc (encode_collector_proc cvt hostname info procs group_id group_size) =
    (hostname, map (wire_view cvt) procs, (si_os info, si_platform info, si_total_memory info), group_id, group_size)"
proof -
  let ?fs = "collector_proc_fields cvt hostname info procs group_id group_size"
  let ?rs = "map field_tuple ?fs"
  have len: "length (fields_bytes ?fs) < 2 ^ 63" using assms(6) by (simp only: collector_fields)
  have "LenF 3 (encode_process cvt p) \<in> set ?fs" if "p \<in> set procs" for p
    using that assms(1,2) encoded_nonempty [of p cvt]
    by (fastforce simp: collector_proc_fields_def list_all_iff)
  then have each: "map (decode_process \<circ> encode_process cvt) procs = map (wire_view cvt) procs"
    using assms(1) len length_data_in [of 3 _ ?fs]
    by (auto simp: list_all_iff intro!: decode_encode_process) (meson le_less_trans)
  have sys: "length (encode_system_info info) < 2 ^ 63" 
    by (rule opt_msg_length [where n = 5, OF _ len]) (auto simp only: collector_proc_fields_def set_append)
  moreover have os: "length (encode_os_info info) < 2 ^ 63"
    by (rule opt_msg_length [where n = 2 and fs = "system_fields info"])
      (auto simp only: system_fields_def set_append, use sys in \<open>simp only: collector_fields system_fields_def\<close>)
  ultimately have parts: "message_fields (encode_system_info info) = map field_tuple (system_fields info)"
      "message_fields (encode_os_info info) = map field_tuple (os_fields info)"
    by (simp_all only: collector_fields numbers_collector walk_numbers)
  have rs: "message_fields (encode_collector_proc cvt hostname info procs group_id group_size) = ?rs"
    using len by (simp only: collector_fields numbers_collector walk_numbers)
  have "get_data 5 ?rs = encode_system_info info" "get_data 2 ?rs = str_bytes hostname"
      "get_uint 6 ?rs = u64_of_u32 group_id" "get_uint 7 ?rs = u64_of_u32 group_size"
    by (simp_all add: collector_proc_fields_def get_defs pick_msgs split del: if_split)
  moreover have "get_all 3 ?rs = map (encode_process cvt) procs"
    by (simp add: collector_proc_fields_def get_all_fields get_all_msgs all_sent [OF assms(1,2)])
  moreover have "get_data 2 (map field_tuple (system_fields info)) = encode_os_info info"
      "get_uint 5 (map field_tuple (system_fields info)) = u64_of (si_total_memory info)"
      "get_data 1 (map field_tuple (os_fields info)) = str_bytes (si_os info)"
      "get_data 2 (map field_tuple (os_fields info)) = str_bytes (si_platform info)"
    by (simp_all add: system_fields_def os_fields_def get_defs del: One_nat_def split del: if_split)
  ultimately show ?thesis
    using each assms(3-5) unfolding decode_collector_proc_def rs Let_def
    by (simp add: parts sint_u64_of i32_of_u64_u32)
qed

text \<open>
  C16. Whatever the processes hold, the intake reads a process-list message back: the host name,
  every process with its rates bit for bit, the host's description and the place of the chunk in
  its group. What the wire does not carry is what \<open>wire_view\<close> says.
\<close>

theorem collector_proc_roundtrip:
  assumes "list_all proc_ok procs" "list_all (\<lambda>p. pc_pid p \<noteq> 0) procs"
    and "in_i32 group_id" "in_i32 group_size" "in_i64 (si_total_memory info)"
    and "length (encode_collector_proc cvt hostname info procs group_id group_size) < 2 ^ 63"
  shows "decode_collector_proc (encode_collector_proc cvt hostname info procs group_id group_size) =
    (hostname, map (wire_view cvt) procs, (si_os info, si_platform info, si_total_memory info), group_id, group_size)"
  using assms by (rule collector_proc_read)

definition proc_example :: proc where
  "proc_example = zero_proc\<lparr>pc_pid := 42, pc_name := ''sh'', pc_args := [''-c'', [], ''ls''],
     pc_create_time := 1700000000000, pc_rss := 4096, pc_total_pct := Fin (25 / 2)\<rparr>"

definition info_example :: sys_info where
  "info_example = \<lparr>si_os = ''linux'', si_platform = ''linux'', si_total_memory = 8589934592, si_num_cpu = 4\<rparr>"

lemma proc_example_ok: "list_all proc_ok [proc_example]"
proof -
  have "rate_ok (Fin (25 / 2))" by code_simp
  moreover have "rate_ok (Fin 0)" by (simp add: rate_ok_def f32_ok_def)
  ultimately show ?thesis
    by (simp add: proc_ok_def proc_example_def zero_proc_def in_i32_def in_i64_def)
qed

theorem collector_proc_roundtrip_witness:
  "decode_collector_proc (encode_collector_proc (\<lambda>x. 0) ''h'' info_example [proc_example] 7 1) =
    (''h'', [proc_example\<lparr>pc_args := [''-c'', ''ls'']\<rparr>], (''linux'', ''linux'', 8589934592), 7, 1)"
proof -
  have "length (encode_collector_proc (\<lambda>x. 0) ''h'' info_example [proc_example] 7 1) = 68" by code_simp
  then have "decode_collector_proc (encode_collector_proc (\<lambda>x. 0) ''h'' info_example [proc_example] 7 1) =
    (''h'', map (wire_view (\<lambda>x. 0)) [proc_example], (si_os info_example, si_platform info_example, si_total_memory info_example), 7, 1)"
    by (intro collector_proc_roundtrip proc_example_ok)
      (simp_all add: proc_example_def info_example_def in_i32_def in_i64_def)
  moreover have "wire_view (\<lambda>x. 0) proc_example = proc_example\<lparr>pc_args := [''-c'', ''ls'']\<rparr>" by code_simp
  ultimately show ?thesis by (simp add: info_example_def)
qed

lemma collector_real_time_roundtrip:
  assumes "list_all proc_ok stats" "list_all (\<lambda>p. pc_pid p \<noteq> 0) stats"
    and "in_i32 group_id" "in_i32 group_size" "in_i64 num_cpu" "in_i64 total_mem"
    and "length (encode_collector_real_time cvt hostname stats group_id group_size num_cpu total_mem) < 2 ^ 63"
  shows "decode_collector_real_time (encode_collector_real_time cvt hostname stats group_id group_size num_cpu total_mem) =
    (hostname, map (stat_view cvt) stats, group_id, group_size, num_cpu, total_mem)"
proof -
  let ?fs = "collector_real_time_fields cvt hostname stats group_id group_size num_cpu total_mem"
  let ?rs = "map field_tuple ?fs"
  have len: "length (fields_bytes ?fs) < 2 ^ 63" using assms(7) by (simp only: collector_fields)
  have "LenF 3 (encode_process_stat cvt p) \<in> set ?fs" if "p \<in> set stats" for p
    using that assms(1,2) encoded_nonempty [of p cvt]
    by (fastforce simp: collector_real_time_fields_def list_all_iff)
  then have each: "map (decode_process_stat \<circ> encode_process_stat cvt) stats = map (stat_view cvt) stats"
    using assms(1) len length_data_in [of 3 _ ?fs]
    by (auto simp: list_all_iff intro!: decode_encode_stat) (meson le_less_trans)
  have rs: "message_fields (encode_collector_real_time cvt hostname stats group_id group_size num_cpu total_mem) = ?rs"
    using len by (simp only: collector_fields numbers_collector walk_numbers)
  have "get_data 2 ?rs = str_bytes hostname" "get_uint 6 ?rs = u64_of_u32 group_id"
      "get_uint 7 ?rs = u64_of_u32 group_size" "get_uint 8 ?rs = u64_of num_cpu" "get_uint 9 ?rs = u64_of total_mem"
    by (simp_all add: collector_real_time_fields_def get_defs pick_msgs split del: if_split)
  moreover have "get_all 3 ?rs = map (encode_process_stat cvt) stats"
    by (simp add: collector_real_time_fields_def get_all_fields get_all_msgs all_sent [OF assms(1,2)])
  ultimately show ?thesis
    using each assms(3-6) unfolding decode_collector_real_time_def rs Let_def
    by (simp add: sint_u64_of i32_of_u64_u32)
qed

section \<open>The intake's answer\<close>

lemma status_fold: "fold status_step rs (i32_of_u64 a, i32_of_u64 b) =
    (i32_of_u64 (pick (\<lambda>f. fr_field f = 1 \<and> fr_wire f = 0) fr_val rs a),
     i32_of_u64 (pick (\<lambda>f. fr_field f = 2 \<and> fr_wire f = 0) fr_val rs b))"
  by (induction rs arbitrary: a b) (simp_all add: pick_def status_step_def)

lemma read_collector_status_fields:
  assumes "list_all field_wf ss" "length (fields_bytes ss) < 2 ^ 63"
  shows "read_collector_status (fields_bytes ss) =
    (i32_of_u64 (get_uint 1 (map field_tuple ss)), i32_of_u64 (get_uint 2 (map field_tuple ss)))"
proof -
  have z: "(0, 0) = (i32_of_u64 0, i32_of_u64 0)" by (simp add: i32_of_u64_def)
  show ?thesis
    unfolding read_collector_status_def status_loop_walk walk_message [OF assms] get_uint_def z status_fold ..
qed

text \<open>
  The realtime toggle is read out of any well-formed collector response, whatever other fields
  it and its status hold and however they are ordered: the last number of active clients and the
  last interval of the first status.
\<close>

theorem response_read:
  assumes "list_all field_wf (before @ LenF 3 (fields_bytes ss) # after)" "list_all field_wf ss"
    and "list_all (\<lambda>f. fr_field (field_tuple f) \<noteq> 3) before"
    and "length (fields_bytes (before @ LenF 3 (fields_bytes ss) # after)) < 2 ^ 63"
  shows "read_res_collector (frame_msg type_res_collector (fields_bytes (before @ LenF 3 (fields_bytes ss) # after))) =
    (i32_of_u64 (get_uint 1 (map field_tuple ss)), i32_of_u64 (get_uint 2 (map field_tuple ss)), True)"
proof -
  let ?fs = "before @ LenF 3 (fields_bytes ss) # after"
  have "length (fields_bytes ss) \<le> length (fields_bytes ?fs)"
    by (rule length_data_in [of 3]) simp
  from le_less_trans [OF this assms(4)] have len: "length (fields_bytes ss) < 2 ^ 63" .
  have "dropWhile (\<lambda>f. fr_field f \<noteq> 3) (map field_tuple ?fs)
      = field_tuple (LenF 3 (fields_bytes ss)) # map field_tuple after"
    using assms(3) by (induction before) auto
  then have "collector_loop \<lparr>rd_b = fields_bytes ?fs, rd_i = 0\<rparr>
      = (i32_of_u64 (get_uint 1 (map field_tuple ss)), i32_of_u64 (get_uint 2 (map field_tuple ss)), True)"
    unfolding collector_loop_walk walk_message [OF assms(1,4)]
    by (simp add: read_collector_status_fields [OF assms(2) len])
  moreover have "type_res_collector < 256" by (simp add: type_res_collector_def)
  ultimately show ?thesis
    by (simp only: read_res_collector_def unframe_frame option.case prod.case) simp
qed

theorem response_read_witness:
  "read_res_collector (frame_msg type_res_collector (fields_bytes
      ([VarintF 1 5] @ LenF 3 (fields_bytes [VarintF 2 4, LenF 9 [7], VarintF 1 3, VarintF 1 2]) # [VarintF 3 1]))) = (2, 4, True)"
proof -
  let ?ss = "[VarintF 2 4, LenF 9 [7], VarintF 1 3, VarintF 1 2]"
  let ?fs = "[VarintF 1 5] @ LenF 3 (fields_bytes ?ss) # [VarintF 3 1]"
  have l: "length (fields_bytes ?ss) = 9" "length (fields_bytes ?fs) = 15" by code_simp+
  have "list_all field_wf ?ss" "list_all (\<lambda>f. fr_field (field_tuple f) \<noteq> 3) [VarintF 1 5]" by simp_all
  moreover have "list_all field_wf ?fs"
    by (simp only: append_Cons append_Nil list.pred_inject field_wf.simps l) simp
  moreover have "length (fields_bytes ?fs) < 2 ^ 63" by (simp only: l)  simp
  ultimately have "list_all field_wf ?fs" "list_all field_wf ?ss" "list_all (\<lambda>f. fr_field (field_tuple f) \<noteq> 3) [VarintF 1 5]"
      "length (fields_bytes ?fs) < 2 ^ 63"
    by blast+
  from response_read [OF this]
  have "read_res_collector (frame_msg type_res_collector (fields_bytes ?fs))
      = (i32_of_u64 (get_uint 1 (map field_tuple ?ss)), i32_of_u64 (get_uint 2 (map field_tuple ?ss)), True)" .
  moreover have "i32_of_u64 (get_uint 1 (map field_tuple ?ss)) = 2" "i32_of_u64 (get_uint 2 (map field_tuple ?ss)) = 4"
    by code_simp+
  ultimately show ?thesis by simp
qed

end
