(* ===== verification/ProcReporter.thy ===== *)
theory ProcReporter
  imports GoTime ProcSubmit ProcPayload "HOL-Library.AList" "HOL-Library.Sublist"
begin

text \<open>
  The process reporter, \<^verbatim>\<open>internal/process/process.go\<close>: the diffing of two collections into rates,
  the chunked submission, and the schedule of the full list and the realtime stream. Times and
  durations are nanoseconds. What the operating system collects, and what it says of the host,
  are inputs.
\<close>

section \<open>State\<close>

record prev_sample =
  pv_user :: f64
  pv_sys :: f64
  pv_read_bytes :: u64
  pv_write_bytes :: u64
  pv_read_count :: u64
  pv_write_count :: u64
  pv_create_time :: int

record host_env =
  he_os :: string
  he_num_cpu :: int
  he_cvt :: "f64 \<Rightarrow> int"

text \<open>The primary is the first endpoint of the list, which is never empty.\<close>

record reporter =
  rp_sub :: submitter
  rp_primary :: endpoint
  rp_additional :: "endpoint list"
  rp_hostname :: string
  rp_total_mem :: int
  rp_base_tick :: int
  rp_proc_interval :: int
  rp_rt_interval :: int
  rp_rt_enabled :: bool
  rp_last_proc :: int
  rp_last_rt :: int
  rp_prev :: "(int \<times> prev_sample) list"
  rp_prev_ts :: int
  rp_group_id :: int

definition new_reporter :: "endpoint \<Rightarrow> endpoint list \<Rightarrow> string \<Rightarrow> int \<Rightarrow> int \<Rightarrow> int \<Rightarrow> reporter" where
  "new_reporter primary additional hostname total_mem interval now =
     \<lparr>rp_sub = new_submitter, rp_primary = primary, rp_additional = additional, rp_hostname = hostname,
      rp_total_mem = total_mem, rp_base_tick = 2 * second,
      rp_proc_interval = (if interval = 0 then 10 * second else interval), rp_rt_interval = 2 * second,
      rp_rt_enabled = False, rp_last_proc = zero_time, rp_last_rt = zero_time, rp_prev = [],
      rp_prev_ts = zero_time, rp_group_id = wrap_i32 (now div second)\<rparr>"

section \<open>Rates\<close>

text \<open>The addition of two \<open>float32\<close>.\<close>

definition fadd32 :: "f32 \<Rightarrow> f32 \<Rightarrow> f32" where
  "fadd32 x y =
     (case x of NaN \<Rightarrow> NaN
      | Inf s \<Rightarrow> (case y of NaN \<Rightarrow> NaN | Inf t \<Rightarrow> if s = t then Inf s else NaN | _ \<Rightarrow> Inf s)
      | _ \<Rightarrow> (case y of NaN \<Rightarrow> NaN | Inf t \<Rightarrow> Inf t
        | _ \<Rightarrow> if x = NegZero \<and> y = NegZero then NegZero
               else rnd32 (fval x + fval y < 0) (fval x + fval y)))"

definition pct :: "f64 \<Rightarrow> f64 \<Rightarrow> f64 \<Rightarrow> f32" where
  "pct cur old dt =
     (if fle cur old \<or> fle dt (Fin 0) then Fin 0
      else f32_of (fmul (fdiv (fsub cur old) dt) (Fin 100)))"

definition counter_rate :: "u64 \<Rightarrow> u64 \<Rightarrow> f64 \<Rightarrow> f32" where
  "counter_rate cur old dt =
     (if cur \<le> old \<or> fle dt (Fin 0) then Fin 0 else f32_of (fdiv (f64_of_int (uint (cur - old))) dt))"

definition abs64 :: "int \<Rightarrow> int" where
  "abs64 v = (if v < 0 then wrap_i64 (- v) else v)"

definition create_time_slack_ms :: int where "create_time_slack_ms = 2000"

definition pin_create_time :: "(int \<times> prev_sample) list \<Rightarrow> proc \<Rightarrow> proc" where
  "pin_create_time prev p =
     (case map_of prev (pc_pid p) of
        Some old \<Rightarrow>
          if abs64 (wrap_i64 (pv_create_time old - pc_create_time p)) < create_time_slack_ms
          then p\<lparr>pc_create_time := pv_create_time old\<rparr> else p
      | None \<Rightarrow> p)"

definition sample_of :: "proc \<Rightarrow> prev_sample" where
  "sample_of p = \<lparr>pv_user = pc_user_time p, pv_sys = pc_system_time p, pv_read_bytes = pc_read_bytes p,
     pv_write_bytes = pc_write_bytes p, pv_read_count = pc_read_count p, pv_write_count = pc_write_count p,
     pv_create_time = pc_create_time p\<rparr>"

definition fill_rates :: "(int \<times> prev_sample) list \<Rightarrow> f64 \<Rightarrow> proc \<Rightarrow> proc" where
  "fill_rates prev dt p =
     (if flt (Fin 0) dt then
        (case map_of prev (pc_pid p) of
           Some old \<Rightarrow>
             if pv_create_time old = pc_create_time p then
               p\<lparr>pc_user_pct := pct (pc_user_time p) (pv_user old) dt,
                 pc_system_pct := pct (pc_system_time p) (pv_sys old) dt,
                 pc_total_pct := fadd32 (pct (pc_user_time p) (pv_user old) dt) (pct (pc_system_time p) (pv_sys old) dt),
                 pc_read_bytes_rate := counter_rate (pc_read_bytes p) (pv_read_bytes old) dt,
                 pc_write_bytes_rate := counter_rate (pc_write_bytes p) (pv_write_bytes old) dt,
                 pc_read_rate := counter_rate (pc_read_count p) (pv_read_count old) dt,
                 pc_write_rate := counter_rate (pc_write_count p) (pv_write_count old) dt\<rparr>
             else p
         | None \<Rightarrow> p)
      else p)"

definition rate_step ::
  "(int \<times> prev_sample) list \<Rightarrow> f64 \<Rightarrow> proc \<Rightarrow> (int \<times> prev_sample) list \<times> proc list \<Rightarrow> (int \<times> prev_sample) list \<times> proc list" where
  "rate_step prev dt p st =
     (case st of (cur, out) \<Rightarrow>
        let p1 = pin_create_time prev p
        in (AList.update (pc_pid p1) (sample_of p1) cur, out @ [fill_rates prev dt p1]))"

definition rate_procs :: "proc list \<Rightarrow> int \<Rightarrow> reporter \<Rightarrow> proc list \<times> reporter" where
  "rate_procs procs now r =
     (let dt = dur_seconds (time_sub now (rp_prev_ts r));
          (cur, out) = fold (rate_step (rp_prev r) dt) procs ([], [])
      in (out, r\<lparr>rp_prev := cur, rp_prev_ts := now\<rparr>))"

section \<open>Submission\<close>

definition max_per_message :: nat where "max_per_message = 100"

definition chunk_procs :: "proc list \<Rightarrow> nat \<Rightarrow> proc list list" where
  "chunk_procs ps n = runs n ps"

definition sys_info_of :: "host_env \<Rightarrow> reporter \<Rightarrow> sys_info" where
  "sys_info_of e r = \<lparr>si_os = he_os e, si_platform = he_os e, si_total_memory = rp_total_mem r, si_num_cpu = he_num_cpu e\<rparr>"

definition apply_rt :: "bytes \<Rightarrow> reporter \<Rightarrow> reporter" where
  "apply_rt resp r =
     (case read_res_collector resp of (active, interval, ok) \<Rightarrow>
        if \<not> ok then r
        else let r1 = r\<lparr>rp_rt_enabled := 0 < active\<rparr>
             in if 0 < interval then r1\<lparr>rp_rt_interval := wrap_i64 (interval * second)\<rparr> else r1)"

definition post_best_effort :: "submitter \<Rightarrow> bytes \<Rightarrow> endpoint \<Rightarrow> proc_net \<Rightarrow> proc_net" where
  "post_best_effort s framed ep nt = snd (proc_post s ep framed nt)"

definition frame_chunk :: "host_env \<Rightarrow> bool \<Rightarrow> string \<Rightarrow> sys_info \<Rightarrow> int \<Rightarrow> int \<Rightarrow> proc list \<Rightarrow> bytes" where
  "frame_chunk e realtime hostname info gid n ch =
     (if realtime
      then frame_msg type_collector_real_time
             (encode_collector_real_time (he_cvt e) hostname ch gid n (si_num_cpu info) (si_total_memory info))
      else frame_msg type_collector_proc (encode_collector_proc (he_cvt e) hostname info ch gid n))"

definition send_chunk ::
  "host_env \<Rightarrow> bool \<Rightarrow> sys_info \<Rightarrow> int \<Rightarrow> int \<Rightarrow> proc list \<Rightarrow> reporter \<times> proc_net \<Rightarrow> reporter \<times> proc_net" where
  "send_chunk e realtime info gid n ch st =
     (case st of (r, nt) \<Rightarrow>
        let framed = frame_chunk e realtime (rp_hostname r) info gid n ch in
        (case proc_post (rp_sub r) (rp_primary r) framed nt of
           (Inl err, nt') \<Rightarrow> (r, nt')
         | (Inr resp, nt') \<Rightarrow>
             (apply_rt resp r, fold (post_best_effort (rp_sub r) framed) (rp_additional r) nt')))"

text \<open>\<open>collected\<close> is what \<open>collectProcs\<close> returned, \<open>None\<close> for an error.\<close>

definition send_payload ::
  "host_env \<Rightarrow> int \<Rightarrow> bool \<Rightarrow> proc list option \<Rightarrow> reporter \<Rightarrow> proc_net \<Rightarrow> reporter \<times> proc_net" where
  "send_payload e now realtime collected r nt =
     (case collected of
        None \<Rightarrow> (r, nt)
      | Some procs \<Rightarrow>
          let (samples, r1) = rate_procs procs now r in
          if length samples = 0 then (r1, nt)
          else let info = sys_info_of e r1;
                   chunks = chunk_procs samples max_per_message;
                   gid = rp_group_id r1;
                   r2 = r1\<lparr>rp_group_id := wrap_i32 (gid + 1)\<rparr>
               in fold (send_chunk e realtime info gid (wrap_i32 (int (length chunks)))) chunks (r2, nt))"

section \<open>Schedule\<close>

definition maybe_send ::
  "host_env \<Rightarrow> bool \<Rightarrow> int \<Rightarrow> proc list option \<Rightarrow> reporter \<times> proc_net \<Rightarrow> reporter \<times> proc_net" where
  "maybe_send e startup now collected st =
     (case st of (r, nt) \<Rightarrow>
        if startup \<or> rp_proc_interval r \<le> time_sub now (rp_last_proc r) then
          let (r', nt') = send_payload e now False collected r nt
          in (r'\<lparr>rp_last_proc := now, rp_last_rt := now\<rparr>, nt')
        else if rp_rt_enabled r \<and> rp_rt_interval r \<le> time_sub now (rp_last_rt r) then
          let (r', nt') = send_payload e now True collected r nt
          in (r'\<lparr>rp_last_rt := now\<rparr>, nt')
        else (r, nt))"

text \<open>\<open>Run\<close>: the start, then the ticks until the context is done. Each gives its time and what
  the collection at that time would return.\<close>

definition reporter_run ::
  "host_env \<Rightarrow> int \<times> proc list option \<Rightarrow> (int \<times> proc list option) list \<Rightarrow> reporter \<Rightarrow> proc_net \<Rightarrow> reporter \<times> proc_net" where
  "reporter_run e start ticks r nt =
     fold (\<lambda>(now, collected). maybe_send e False now collected) ticks
       (maybe_send e True (fst start) (snd start) (r, nt))"

section \<open>What one collection hands out and remembers\<close>

lemma rate_fold: "fold (rate_step prev dt) ps (cur, out) =
    (fold (\<lambda>p. AList.update (pc_pid p) (sample_of (pin_create_time prev p))) ps cur,
     out @ map (fill_rates prev dt \<circ> pin_create_time prev) ps)"
proof (induction ps arbitrary: cur out)
  case (Cons p ps)
  have "pc_pid (pin_create_time prev p) = pc_pid p"
    by (simp add: pin_create_time_def split: option.split)
  with Cons show ?case by (simp add: rate_step_def Let_def)
qed simp

lemma rate_procs_out:
  "fst (rate_procs ps now r) = map (fill_rates (rp_prev r) (dur_seconds (time_sub now (rp_prev_ts r))) \<circ> pin_create_time (rp_prev r)) ps"
  "snd (rate_procs ps now r) = r\<lparr>rp_prev := fold (\<lambda>p. AList.update (pc_pid p) (sample_of (pin_create_time (rp_prev r) p))) ps [],
     rp_prev_ts := now\<rparr>"
  by (simp_all add: rate_procs_def rate_fold Let_def)

lemma remembered: "map_of (fold (\<lambda>p. AList.update (f p) (g p)) ps al) k =
    (if filter (\<lambda>p. f p = k) ps = [] then map_of al k else Some (g (last (filter (\<lambda>p. f p = k) ps))))"
  by (induction ps arbitrary: al) (auto simp: AList.update_conv)

lemma fill_frame [simp]:
  "pc_create_time (fill_rates prev dt p) = pc_create_time p" "pc_pid (fill_rates prev dt p) = pc_pid p"
  "pc_pid (pin_create_time prev p) = pc_pid p"
  by (simp_all add: fill_rates_def pin_create_time_def split: option.split)

section \<open>The identity of a process\<close>

primrec rate_all :: "(proc list \<times> int) list \<Rightarrow> reporter \<Rightarrow> proc list list" where
  "rate_all [] r = []"
| "rate_all (s # ss) r = (case rate_procs (fst s) (snd s) r of (out, r') \<Rightarrow> out # rate_all ss r')"

lemma rate_all_Cons: "rate_all (s # ss) r = fst (rate_procs (fst s) (snd s) r) # rate_all ss (snd (rate_procs (fst s) (snd s) r))"
  by (simp split: prod.split)

declare rate_all.simps(2) [simp del]

definition near :: "int \<Rightarrow> proc \<Rightarrow> bool" where
  "near c p \<longleftrightarrow> in_i64 (pc_create_time p) \<and> \<bar>c - pc_create_time p\<bar> < 2000"

lemma pin_near:
  assumes "map_of prev (pc_pid p) = Some old" "near (pv_create_time old) p"
  shows "pc_create_time (pin_create_time prev p) = pv_create_time old"
proof -
  have "in_i64 (pv_create_time old - pc_create_time p)" "in_i64 (- (pv_create_time old - pc_create_time p))"
    using assms(2) by (auto simp: near_def in_i64_def)
  then have "abs64 (wrap_i64 (pv_create_time old - pc_create_time p)) = \<bar>pv_create_time old - pc_create_time p\<bar>"
    unfolding abs64_def by simp
  with assms show ?thesis by (simp add: pin_create_time_def near_def create_time_slack_ms_def)
qed

definition anchored :: "int \<Rightarrow> int \<Rightarrow> reporter \<Rightarrow> bool" where
  "anchored q c r \<longleftrightarrow> (\<exists>old. map_of (rp_prev r) q = Some old \<and> pv_create_time old = c)"

lemma anchored_out:
  assumes "anchored q c r" "list_all (\<lambda>p. pc_pid p = q \<longrightarrow> near c p) ps"
  shows "list_all (\<lambda>p. pc_pid p = q \<longrightarrow> pc_create_time p = c) (fst (rate_procs ps now r))"
  using assms pin_near [of "rp_prev r"]
  by (fastforce simp: rate_procs_out list_all_iff anchored_def)

lemma anchored_next:
  assumes "\<And>p. p \<in> set ps \<Longrightarrow> pc_pid p = q \<Longrightarrow> pc_create_time (pin_create_time (rp_prev r) p) = c"
    and "q \<in> pc_pid ` set ps"
  shows "anchored q c (snd (rate_procs ps now r))"
proof -
  have ne: "filter (\<lambda>p. pc_pid p = q) ps \<noteq> []" using assms(2) by (auto simp: filter_empty_conv)
  define p where "p = last (filter (\<lambda>p. pc_pid p = q) ps)"
  from last_in_set [OF ne] have "p \<in> set ps" "pc_pid p = q" by (auto simp: p_def)
  with assms(1) have "pc_create_time (pin_create_time (rp_prev r) p) = c" by blast
  then show ?thesis
    using ne by (simp add: anchored_def rate_procs_out remembered p_def [symmetric] sample_of_def)
qed

lemma anchored_all:
  assumes "anchored q c r" "\<forall>s \<in> set ss. q \<in> pc_pid ` set (fst s) \<and> list_all (\<lambda>p. pc_pid p = q \<longrightarrow> near c p) (fst s)"
  shows "list_all (list_all (\<lambda>p. pc_pid p = q \<longrightarrow> pc_create_time p = c)) (rate_all ss r)"
  using assms
proof (induction ss arbitrary: r)
  case (Cons s ss)
  then have s: "q \<in> pc_pid ` set (fst s)" "list_all (\<lambda>p. pc_pid p = q \<longrightarrow> near c p) (fst s)" by auto
  have "anchored q c (snd (rate_procs (fst s) (snd s) r))"
    using Cons.prems(1) s pin_near [of "rp_prev r"]
    by (intro anchored_next) (fastforce simp: list_all_iff anchored_def)+
  with Cons anchored_out [OF Cons.prems(1) s(2), of "snd s"] show ?case
    by (simp add: rate_all_Cons)
qed simp

text \<open>
  C17. The identity of a process is stable: as long as every collection sees the process, and its
  reported creation time stays within two seconds of the first one, every payload gives the
  process that first creation time, however the reports wobble in between.
\<close>

theorem identity_stable:
  assumes "rp_prev r = []" "q \<in> pc_pid ` set ps"
    and "list_all (\<lambda>p. pc_pid p = q \<longrightarrow> pc_create_time p = c) ps"
    and "\<forall>s \<in> set ss. q \<in> pc_pid ` set (fst s) \<and> list_all (\<lambda>p. pc_pid p = q \<longrightarrow> near c p) (fst s)"
  shows "list_all (list_all (\<lambda>p. pc_pid p = q \<longrightarrow> pc_create_time p = c)) (rate_all ((ps, now) # ss) r)"
proof -
  have pin: "pin_create_time [] p = p" for p by (simp add: pin_create_time_def)
  have "anchored q c (snd (rate_procs ps now r))"
    using assms(1-3) by (intro anchored_next) (auto simp: pin list_all_iff)
  from anchored_all [OF this assms(4)]
  have "list_all (list_all (\<lambda>p. pc_pid p = q \<longrightarrow> pc_create_time p = c)) (rate_all ss (snd (rate_procs ps now r)))" .
  moreover have "list_all (\<lambda>p. pc_pid p = q \<longrightarrow> pc_create_time p = c) (fst (rate_procs ps now r))"
    using assms(1,3) by (simp add: rate_procs_out pin list_all_iff)
  ultimately show ?thesis by (simp add: rate_all_Cons)
qed

definition proc_seen :: "int \<Rightarrow> proc" where
  "proc_seen t = zero_proc\<lparr>pc_pid := 42, pc_create_time := t\<rparr>"

definition reporter_example :: reporter where
  "reporter_example = new_reporter ep_process [] ''h'' 8589934592 0 1700000000000000000"

theorem identity_stable_witness:
  "list_all (list_all (\<lambda>p. pc_pid p = 42 \<longrightarrow> pc_create_time p = 5000))
    (rate_all [([proc_seen 5000], 10), ([proc_seen 5990], 20), ([proc_seen 4010], 30), ([proc_seen 6999], 40)] reporter_example)"
  by (rule identity_stable)
    (auto simp: reporter_example_def new_reporter_def proc_seen_def near_def in_i64_def)

section \<open>Rates are never negative, and only follow the same process\<close>

lemma nonneg_fadd32: "nonneg x \<Longrightarrow> nonneg y \<Longrightarrow> nonneg (fadd32 x y)"
  by (cases x; cases y) (auto simp: fadd32_def rnd32_def not_less intro!: nonneg_round)

lemma rate_ok_nonneg: "nonneg x \<Longrightarrow> f32_ok x \<Longrightarrow> rate_ok x"
  by (auto simp: rate_ok_def)

lemma f32_ok_fadd32: "f32_ok x \<Longrightarrow> f32_ok y \<Longrightarrow> f32_ok (fadd32 x y)"
  by (cases x; cases y) (simp_all add: fadd32_def f32_ok_rnd32, simp_all add: f32_ok_def)

lemma pct_nonneg: "flt (Fin 0) dt \<Longrightarrow> nonneg (pct cur old dt) \<and> f32_ok (pct cur old dt)"
  using nonneg_flt [of dt] nonneg_fsub [of cur old]
  by (auto simp: pct_def nonneg_ops) (simp_all add: f32_ok_def)

lemma counter_rate_nonneg: "flt (Fin 0) dt \<Longrightarrow> nonneg (counter_rate cur old dt) \<and> f32_ok (counter_rate cur old dt)"
  using nonneg_flt [of dt] by (auto simp: counter_rate_def nonneg_ops) (simp_all add: f32_ok_def)

lemma fill_rates_ok: "proc_ok p \<Longrightarrow> proc_ok (fill_rates prev dt p)"
  using pct_nonneg [of dt] counter_rate_nonneg [of dt]
  by (auto simp: fill_rates_def proc_ok_def intro!: rate_ok_nonneg nonneg_ops nonneg_fadd32 f32_ok_fadd32 split: option.split)

lemma pin_ok: "proc_ok p \<Longrightarrow> list_all (\<lambda>e. in_i64 (pv_create_time (snd e))) prev \<Longrightarrow> proc_ok (pin_create_time prev p)"
  by (auto simp: pin_create_time_def proc_ok_def list_all_iff dest!: map_of_SomeD split: option.split)

lemma rates_ok:
  assumes "list_all proc_ok ps" "list_all (\<lambda>e. in_i64 (pv_create_time (snd e))) (rp_prev r)"
  shows "list_all proc_ok (fst (rate_procs ps now r))"
  using assms by (auto simp: rate_procs_out list_all_iff intro!: fill_rates_ok pin_ok)

text \<open>A process with its creation time and its seven rates replaced.\<close>

definition with_rates :: "int \<Rightarrow> f32 list \<Rightarrow> proc \<Rightarrow> proc" where
  "with_rates c rs p = p\<lparr>pc_create_time := c, pc_user_pct := rs ! 0, pc_system_pct := rs ! 1,
     pc_total_pct := rs ! 2, pc_read_bytes_rate := rs ! 3, pc_write_bytes_rate := rs ! 4,
     pc_read_rate := rs ! 5, pc_write_rate := rs ! 6\<rparr>"

definition kept_rates :: "proc \<Rightarrow> f32 list" where
  "kept_rates p = [pc_user_pct p, pc_system_pct p, pc_total_pct p, pc_read_bytes_rate p, pc_write_bytes_rate p,
     pc_read_rate p, pc_write_rate p]"

definition new_rates :: "prev_sample \<Rightarrow> f64 \<Rightarrow> proc \<Rightarrow> f32 list" where
  "new_rates old dt p =
     (let u = pct (pc_user_time p) (pv_user old) dt; s = pct (pc_system_time p) (pv_sys old) dt
      in [u, s, fadd32 u s, counter_rate (pc_read_bytes p) (pv_read_bytes old) dt,
          counter_rate (pc_write_bytes p) (pv_write_bytes old) dt,
          counter_rate (pc_read_count p) (pv_read_count old) dt,
          counter_rate (pc_write_count p) (pv_write_count old) dt])"

lemma new_rates_nonneg: "flt (Fin 0) dt \<Longrightarrow> list_all nonneg (new_rates old dt p)"
  using pct_nonneg [of dt] counter_rate_nonneg [of dt]
  by (simp add: new_rates_def Let_def nonneg_ops nonneg_fadd32)

lemma fill_pin:
  assumes "map_of prev (pc_pid p) = Some old" "abs64 (wrap_i64 (pv_create_time old - pc_create_time p)) < 2000"
  shows "fill_rates prev dt (pin_create_time prev p)
    = with_rates (pv_create_time old) (if flt (Fin 0) dt then new_rates old dt p else kept_rates p) p"
proof -
  have pin: "pin_create_time prev p = p\<lparr>pc_create_time := pv_create_time old\<rparr>"
    using assms by (simp add: pin_create_time_def create_time_slack_ms_def)
  show ?thesis
  proof (cases "flt (Fin 0) dt")
    case True
    then show ?thesis
      unfolding pin using assms(1)
      by (intro proc.equality) (simp_all add: fill_rates_def with_rates_def new_rates_def Let_def)
  next
    case False
    then show ?thesis
      unfolding pin by (intro proc.equality) (simp_all add: fill_rates_def with_rates_def kept_rates_def)
  qed
qed

text \<open>
  C37. The rates of a payload belong to the process they are shown for: a process the last
  collection did not have, or whose identifier went to another process (a creation time two
  seconds or more away), is handed out as collected; one that was there gets only its creation
  time pinned and its seven rates filled in, none of them negative, also when a counter went
  backwards.
\<close>

theorem rates_follow_process:
  fixes r :: reporter and now :: int
  assumes "p \<in> set ps"
  defines "dt \<equiv> dur_seconds (time_sub now (rp_prev_ts r))"
  shows "\<exists>p' \<in> set (fst (rate_procs ps now r)).
    (case map_of (rp_prev r) (pc_pid p) of
       None \<Rightarrow> p' = p
     | Some old \<Rightarrow>
         if abs64 (wrap_i64 (pv_create_time old - pc_create_time p)) \<ge> 2000 then p' = p
         else (\<exists>rates. p' = with_rates (pv_create_time old) rates p
           \<and> (if flt (Fin 0) dt
              then list_all nonneg rates \<and> (pc_read_bytes p \<le> pv_read_bytes old \<longrightarrow> rates ! 3 = Fin 0)
              else rates = kept_rates p)))"
proof
  let ?q = "pin_create_time (rp_prev r) p"
  let ?p' = "fill_rates (rp_prev r) dt ?q"
  show "?p' \<in> set (fst (rate_procs ps now r))"
    using assms(1) by (auto simp: rate_procs_out dt_def)
  show "case map_of (rp_prev r) (pc_pid p) of
       None \<Rightarrow> ?p' = p
     | Some old \<Rightarrow>
         if abs64 (wrap_i64 (pv_create_time old - pc_create_time p)) \<ge> 2000 then ?p' = p
         else (\<exists>rates. ?p' = with_rates (pv_create_time old) rates p
           \<and> (if flt (Fin 0) dt
              then list_all nonneg rates \<and> (pc_read_bytes p \<le> pv_read_bytes old \<longrightarrow> rates ! 3 = Fin 0)
              else rates = kept_rates p))"
  proof (cases "map_of (rp_prev r) (pc_pid p)")
    case None
    then show ?thesis by (simp add: pin_create_time_def fill_rates_def)
  next
    case (Some old)
    show ?thesis
    proof (cases "abs64 (wrap_i64 (pv_create_time old - pc_create_time p)) \<ge> 2000")
      case True
      then have "pv_create_time old \<noteq> pc_create_time p" by (auto simp: abs64_def wrap_i64_def)
      with Some True show ?thesis by (simp add: pin_create_time_def fill_rates_def create_time_slack_ms_def)
    next
      case False
      moreover have "new_rates old dt p ! 3 = Fin 0" if "pc_read_bytes p \<le> pv_read_bytes old"
        using that by (simp add: new_rates_def Let_def counter_rate_def)
      ultimately show ?thesis
        using Some fill_pin [OF Some, of dt] new_rates_nonneg [of dt old p] by auto
    qed
  qed
qed

theorem rates_follow_process_witness:
  "\<exists>p' \<in> set (fst (rate_procs [proc_seen 9000] 20 (snd (rate_procs [proc_seen 5000] 10 reporter_example)))). p' = proc_seen 9000"
  using rates_follow_process [where p = "proc_seen 9000" and ps = "[proc_seen 9000]"
      and r = "snd (rate_procs [proc_seen 5000] 10 reporter_example)" and now = 20]
  by (simp add: rate_procs_out reporter_example_def new_reporter_def pin_create_time_def proc_seen_def
      sample_of_def zero_proc_def abs64_def in_i64_def)

section \<open>No realtime without a viewer\<close>

text \<open>No answer the script holds reports active clients.\<close>

definition nobody_watches :: "proc_net \<Rightarrow> bool" where
  "nobody_watches nt \<longleftrightarrow> (\<forall>st b. Some (st, b) \<in> set (pn_replies nt) \<longrightarrow>
     (case read_res_collector (take 65536 b) of (active, interval, ok) \<Rightarrow> \<not> ok \<or> active \<le> 0))"

definition full_lists_only :: "proc_act \<Rightarrow> bool" where
  "full_lists_only a \<longleftrightarrow> (case a of ProcRequest u k b r \<Rightarrow> map_option snd (unframe b) = Some type_collector_proc | ProcSlept d \<Rightarrow> True)"

definition quiet :: "reporter \<times> proc_net \<Rightarrow> bool" where
  "quiet st \<longleftrightarrow> \<not> rp_rt_enabled (fst st) \<and> nobody_watches (snd st) \<and> list_all full_lists_only (pn_acts (snd st))"

lemma quiet_posts:
  assumes "after_posts framed nt nt'" "map_option snd (unframe framed) = Some type_collector_proc"
    and "nobody_watches nt" "list_all full_lists_only (pn_acts nt)"
  shows "nobody_watches nt' \<and> list_all full_lists_only (pn_acts nt')"
  using assms by (fastforce simp: after_posts_def nobody_watches_def list_all_iff full_lists_only_def requests_of_def
      split: proc_act.splits)

lemma apply_rt_quiet:
  "\<not> rp_rt_enabled r \<Longrightarrow> (case read_res_collector resp of (active, interval, ok) \<Rightarrow> \<not> ok \<or> active \<le> 0)
     \<Longrightarrow> \<not> rp_rt_enabled (apply_rt resp r)"
  by (auto simp: apply_rt_def Let_def split: prod.split)

lemma best_effort_after: "after_posts framed nt (fold (post_best_effort s framed) eps nt)"
proof (induction eps arbitrary: nt)
  case (Cons ep eps)
  have "after_posts framed nt (post_best_effort s framed ep nt)"
    unfolding post_best_effort_def using proc_post_after(1) by (metis prod.collapse)
  with Cons show ?case by (auto intro: after_posts_trans)
qed simp

lemma quiet_chunk: "quiet st \<Longrightarrow> quiet (send_chunk e False info gid n ch st)"
proof -
  obtain r nt where st: "st = (r, nt)" by fastforce
  define framed where "framed = frame_chunk e False (rp_hostname r) info gid n ch"
  have ty: "map_option snd (unframe framed) = Some type_collector_proc"
    by (simp add: framed_def frame_chunk_def unframe_frame type_collector_proc_def)
  obtain res nt1 where p: "proc_post (rp_sub r) (rp_primary r) framed nt = (res, nt1)" by fastforce
  assume q: "quiet st"
  then have q1: "nobody_watches nt1 \<and> list_all full_lists_only (pn_acts nt1)"
    using quiet_posts [OF proc_post_after(1) [OF p] ty] by (simp add: quiet_def st)
  show ?thesis
  proof (cases res)
    case (Inl err)
    with p q1 q show ?thesis by (simp add: st send_chunk_def quiet_def framed_def [symmetric])
  next
    case (Inr resp)
    from proc_post_after(2) [OF p Inr] obtain s b where b: "Some (s, b) \<in> set (pn_replies nt)" "resp = take 65536 b"
      by blast
    have "nobody_watches nt" using q by (simp add: quiet_def st)
    from this [unfolded nobody_watches_def, rule_format, OF b(1)]
    have "case read_res_collector resp of (active, interval, ok) \<Rightarrow> \<not> ok \<or> active \<le> 0" by (simp only: b(2))
    with q have "\<not> rp_rt_enabled (apply_rt resp r)" by (intro apply_rt_quiet) (simp_all add: quiet_def st)
    with p q1 q quiet_posts [OF best_effort_after ty] Inr show ?thesis
      by (simp add: st send_chunk_def quiet_def framed_def [symmetric])
  qed
qed

lemma rate_procs_frame [simp]:
  "rp_rt_enabled (snd (rate_procs ps now r)) = rp_rt_enabled r"
  by (simp add: rate_procs_out)

lemma quiet_payload: "quiet (r, nt) \<Longrightarrow> quiet (send_payload e now False collected r nt)"
proof (cases collected)
  case (Some ps)
  assume q: "quiet (r, nt)"
  obtain samples r1 where s: "rate_procs ps now r = (samples, r1)" by fastforce
  then have "rp_rt_enabled r1 = rp_rt_enabled r" using rate_procs_frame [of ps now r] by simp
  with q have "quiet (r1, nt)" "quiet (r1\<lparr>rp_group_id := g\<rparr>, nt)" for g by (simp_all add: quiet_def)
  moreover have "quiet st \<Longrightarrow> quiet (fold (send_chunk e False info gid n) chs st)" for info gid n chs st
    by (induction chs arbitrary: st) (simp_all add: quiet_chunk)
  ultimately show ?thesis using Some s by (simp add: send_payload_def Let_def)
qed (simp add: send_payload_def)

lemma quiet_maybe: "quiet st \<Longrightarrow> quiet (maybe_send e startup now collected st)"
  using quiet_payload [of "fst st" "snd st" e now collected]
  by (auto simp: maybe_send_def quiet_def Let_def split: prod.split)



section \<open>What the primary receives\<close>

lemma apply_rt_frame [simp]:
  "rp_sub (apply_rt b r) = rp_sub r" "rp_primary (apply_rt b r) = rp_primary r"
  "rp_additional (apply_rt b r) = rp_additional r" "rp_hostname (apply_rt b r) = rp_hostname r"
  by (simp_all add: apply_rt_def Let_def split: prod.split)

lemma best_effort_acked:
  "d \<notin> dest ` set eps \<Longrightarrow> acked d (abs_net (fold (post_best_effort s framed) eps nt)) = acked d (abs_net nt)"
proof (induction eps arbitrary: nt)
  case (Cons ep eps)
  obtain res nt1 where "proc_post s ep framed nt = (res, nt1)" by fastforce
  with Cons proc_post_acked [OF this, of d] show ?case by (auto simp: post_best_effort_def)
qed simp

lemma best_effort_accepting:
  "accepting (m + length eps) nt \<Longrightarrow> 0 < sb_max_tries s \<Longrightarrow> accepting m (fold (post_best_effort s framed) eps nt)"
proof (induction eps arbitrary: nt)
  case (Cons ep eps)
  from Cons.prems(1) have "accepting (Suc (m + length eps)) nt" by simp
  from accepting_post [OF this Cons.prems(2), of ep framed] Cons.IH Cons.prems(2) show ?case
    by (auto simp: post_best_effort_def)
qed simp

lemma chunks_sent:
  assumes "dest (rp_primary r) \<notin> dest ` set (rp_additional r)"
  shows "\<exists>sel. subseq sel chs
    \<and> acked (dest (rp_primary r)) (abs_net (snd (fold (send_chunk e rt info gid n) chs (r, nt))))
      = acked (dest (rp_primary r)) (abs_net nt) @ map (frame_chunk e rt (rp_hostname r) info gid n) sel
    \<and> (accepting (length chs * Suc (length (rp_additional r))) nt \<and> 0 < sb_max_tries (rp_sub r) \<longrightarrow> sel = chs)"
  using assms
proof (induction chs arbitrary: r nt)
  case (Cons ch chs)
  let ?d = "dest (rp_primary r)" and ?f = "frame_chunk e rt (rp_hostname r) info gid n"
  let ?k = "Suc (length (rp_additional r))"
  obtain res nt1 where p: "proc_post (rp_sub r) (rp_primary r) (?f ch) nt = (res, nt1)" by fastforce
  note ack = proc_post_acked [OF p, of ?d]
  show ?case
  proof (cases res)
    case (Inl err)
    have bad: "\<not> (accepting (length (ch # chs) * ?k) nt \<and> 0 < sb_max_tries (rp_sub r))"
      using accepting_post [of "length chs * ?k + length (rp_additional r)" nt "rp_sub r" "rp_primary r" "?f ch"] p Inl
      by (auto simp: ac_simps)
    from Cons.IH [OF Cons.prems, of nt1] obtain sel where
      "subseq sel chs" "acked ?d (abs_net (snd (fold (send_chunk e rt info gid n) chs (r, nt1)))) = acked ?d (abs_net nt1) @ map ?f sel"
      by blast
    moreover have "send_chunk e rt info gid n ch (r, nt) = (r, nt1)"
      using p Inl by (simp add: send_chunk_def)
    ultimately show ?thesis
      using ack Inl bad by (intro exI [of _ sel]) auto
  next
    case (Inr resp)
    define nt2 where "nt2 = fold (post_best_effort (rp_sub r) (?f ch)) (rp_additional r) nt1"
    have step: "send_chunk e rt info gid n ch (r, nt) = (apply_rt resp r, nt2)"
      using p Inr by (simp add: send_chunk_def nt2_def)
    have a2: "acked ?d (abs_net nt2) = acked ?d (abs_net nt) @ [?f ch]"
      using ack Inr best_effort_acked [OF Cons.prems, of "rp_sub r" "?f ch" nt1] by (simp add: nt2_def)
    have acc: "accepting (length chs * ?k) nt2" if "accepting (length (ch # chs) * ?k) nt" "0 < sb_max_tries (rp_sub r)"
    proof -
      have "accepting (Suc (length chs * ?k + length (rp_additional r))) nt" using that(1) by (simp add: ac_simps)
      from accepting_post [OF this that(2), of "rp_primary r" "?f ch"] p
      have "accepting (length chs * ?k + length (rp_additional r)) nt1" by simp
      from best_effort_accepting [OF this that(2)] show ?thesis by (simp add: nt2_def)
    qed
    from Cons.IH [of "apply_rt resp r" nt2] Cons.prems obtain sel where sel:
      "subseq sel chs" "acked ?d (abs_net (snd (fold (send_chunk e rt info gid n) chs (apply_rt resp r, nt2)))) = acked ?d (abs_net nt2) @ map ?f sel"
      "accepting (length chs * ?k) nt2 \<and> 0 < sb_max_tries (rp_sub r) \<longrightarrow> sel = chs"
      by auto
    show ?thesis
      by (intro exI [of _ "ch # sel"] conjI) (use sel acc in \<open>auto simp: step a2\<close>)
  qed
qed simp

text \<open>What the intake makes of an accepted message.\<close>

definition decode_frame :: "bytes \<Rightarrow> (string \<times> proc list \<times> (string \<times> string \<times> int) \<times> int \<times> int) option" where
  "decode_frame f = (case unframe f of
     Some (b, typ) \<Rightarrow> if typ = type_collector_proc then Some (decode_collector_proc b) else None | None \<Rightarrow> None)"

lemma decode_frame_chunk:
  assumes "list_all proc_ok ch" "list_all (\<lambda>p. pc_pid p \<noteq> 0) ch" "in_i32 gid" "in_i32 n" "in_i64 (si_total_memory info)"
    and "length (encode_collector_proc (he_cvt e) hostname info ch gid n) < 2 ^ 63"
  shows "decode_frame (frame_chunk e False hostname info gid n ch) =
    Some (hostname, map (wire_view (he_cvt e)) ch, (si_os info, si_platform info, si_total_memory info), gid, n)"
  using collector_proc_read [OF assms]
  by (simp add: decode_frame_def frame_chunk_def unframe_frame type_collector_proc_def)

lemma set_chunk: "ch \<in> set (runs n xs) \<Longrightarrow> set ch \<subseteq> set xs"
proof (cases "n = 0")
  case False
  then have "set xs = set (concat (runs n xs))" by (simp add: concat_runs)
  then show "ch \<in> set (runs n xs) \<Longrightarrow> ?thesis" by auto
qed (simp add: runs.simps)


definition env_example :: host_env where
  "env_example = \<lparr>he_os = ''linux'', he_num_cpu = 4, he_cvt = \<lambda>x. 0\<rparr>"

definition accepting_example :: proc_net where
  "accepting_example = \<lparr>pn_replies = [Some (202, [])], pn_timers = [], pn_bad_urls = [], pn_acts = []\<rparr>"

lemma proc_seen_ok: "proc_ok (proc_seen 5000)"
proof -
  have "rate_ok (Fin 0)" by (simp add: rate_ok_def f32_ok_def)
  then show ?thesis by (simp add: proc_ok_def proc_seen_def zero_proc_def in_i32_def in_i64_def)
qed


end
