(* ===== verification/Config.thy ===== *)
theory Config
  imports Intake
begin

text \<open>
  The configuration, \<^verbatim>\<open>internal/config/config.go\<close>: its record and defaults, the overlay of file
  and environment, and the endpoint lists every component is given. A Go map from domains to keys
  is an association list with distinct keys, which the code always sorts before use. YAML (not
  part of the repository), JSON and \<^verbatim>\<open>net/url\<close> are operations the definitions take as arguments.
\<close>

section \<open>The configuration\<close>

type_synonym extra_endpoints = "(string \<times> string list) list"

record logs_endpoint =
  le_api_key :: string
  le_host :: string
  le_port :: int
  le_is_reliable :: "bool option"
  le_use_ssl :: "bool option"

record logs_agent_config =
  lg_logs_dd_url :: string
  lg_batch_wait :: int
  lg_batch_max_size :: int
  lg_batch_max_content_size :: int
  lg_additional :: "logs_endpoint list"

record apm_config =
  ap_enabled :: bool
  ap_receiver_host :: string
  ap_receiver_port :: int
  ap_non_local :: bool
  ap_dd_url :: string
  ap_additional :: extra_endpoints
  ap_send_main :: "bool option"

record process_config =
  pg_dd_url :: string
  pg_enabled :: bool
  pg_additional :: extra_endpoints

record config =
  cf_api_key :: string
  cf_site :: string
  cf_dd_url :: string
  cf_additional :: extra_endpoints
  cf_env :: string
  cf_hostname :: string
  cf_hostname_file :: string
  cf_tags :: "string list"
  cf_dogstatsd_port :: int
  cf_dogstatsd_socket :: string
  cf_dogstatsd_non_local :: bool
  cf_logs_enabled :: bool
  cf_logs :: logs_agent_config
  cf_proxy_https :: string
  cf_skip_ssl :: bool
  cf_confd_path :: string
  cf_run_path :: string
  cf_metadata :: bool
  cf_venti_url :: string
  cf_process :: process_config
  cf_apm :: apm_config

definition default_config :: config where
  "default_config = \<lparr>cf_api_key = [], cf_site = ''datadoghq.com'', cf_dd_url = [], cf_additional = [],
     cf_env = [], cf_hostname = [], cf_hostname_file = [], cf_tags = [], cf_dogstatsd_port = 8125,
     cf_dogstatsd_socket = [], cf_dogstatsd_non_local = False, cf_logs_enabled = False,
     cf_logs = \<lparr>lg_logs_dd_url = [], lg_batch_wait = 5, lg_batch_max_size = 1000,
       lg_batch_max_content_size = 5000000, lg_additional = []\<rparr>,
     cf_proxy_https = [], cf_skip_ssl = False, cf_confd_path = ''/etc/datadog-agent/conf.d'',
     cf_run_path = ''/opt/datadog-agent/run'', cf_metadata = True, cf_venti_url = [],
     cf_process = \<lparr>pg_dd_url = [], pg_enabled = False, pg_additional = []\<rparr>,
     cf_apm = \<lparr>ap_enabled = False, ap_receiver_host = ''localhost'', ap_receiver_port = 8126,
       ap_non_local = False, ap_dd_url = [], ap_additional = [], ap_send_main = None\<rparr>\<rparr>"

section \<open>Environment\<close>

type_synonym environ = "string \<Rightarrow> string option"

text \<open>\<open>strconv.ParseBool\<close>.\<close>

definition parse_bool :: "string \<Rightarrow> bool option" where
  "parse_bool s =
     (if s \<in> set [''1'', ''t'', ''T'', ''TRUE'', ''true'', ''True''] then Some True
      else if s \<in> set [''0'', ''f'', ''F'', ''FALSE'', ''false'', ''False''] then Some False
      else None)"

definition env_string :: "environ \<Rightarrow> string \<Rightarrow> string \<Rightarrow> string" where
  "env_string env key dst = (case env key of Some v \<Rightarrow> v | None \<Rightarrow> dst)"

definition env_bool :: "environ \<Rightarrow> string \<Rightarrow> bool \<Rightarrow> bool" where
  "env_bool env key dst =
     (case env key of Some v \<Rightarrow> (case parse_bool v of Some b \<Rightarrow> b | None \<Rightarrow> dst) | None \<Rightarrow> dst)"

definition env_int :: "environ \<Rightarrow> string \<Rightarrow> int \<Rightarrow> int" where
  "env_int env key dst =
     (case env key of Some v \<Rightarrow> (case atoi v of Parsed n \<Rightarrow> n | _ \<Rightarrow> dst) | None \<Rightarrow> dst)"

definition env_bool_ptr :: "environ \<Rightarrow> string \<Rightarrow> bool option \<Rightarrow> bool option" where
  "env_bool_ptr env key dst =
     (case env key of Some v \<Rightarrow> (case parse_bool v of Some b \<Rightarrow> Some b | None \<Rightarrow> dst) | None \<Rightarrow> dst)"

text \<open>\<open>decode\<close> is \<open>json.Unmarshal\<close> into a fresh value.\<close>

definition env_json :: "(string \<Rightarrow> 'a option) \<Rightarrow> environ \<Rightarrow> string \<Rightarrow> 'a \<Rightarrow> 'a" where
  "env_json decode env key dst =
     (case env key of
        Some v \<Rightarrow> if v \<noteq> [] then (case decode v of Some fresh \<Rightarrow> fresh | None \<Rightarrow> dst) else dst
      | None \<Rightarrow> dst)"

primrec split_list_value :: "string \<Rightarrow> string \<Rightarrow> string list" where
  "split_list_value w [] = (if w = [] then [] else [rev w])"
| "split_list_value w (c # cs) =
     (if c \<in> {CHR '','', CHR '' '', CHR 0x09, CHR 0x0A}
      then (if w = [] then [] else [rev w]) @ split_list_value [] cs
      else split_list_value (c # w) cs)"

definition env_list :: "environ \<Rightarrow> string \<Rightarrow> string list \<Rightarrow> string list" where
  "env_list env key dst = (case env key of Some v \<Rightarrow> split_list_value [] v | None \<Rightarrow> dst)"

record json_decoders =
  jd_extra :: "string \<Rightarrow> extra_endpoints option"
  jd_logs :: "string \<Rightarrow> logs_endpoint list option"

definition apply_env_logs :: "json_decoders \<Rightarrow> environ \<Rightarrow> logs_agent_config \<Rightarrow> logs_agent_config" where
  "apply_env_logs jd env l =
     \<lparr>lg_logs_dd_url = env_string env ''DD_LOGS_CONFIG_LOGS_DD_URL'' (lg_logs_dd_url l),
      lg_batch_wait = env_int env ''DD_LOGS_CONFIG_BATCH_WAIT'' (lg_batch_wait l),
      lg_batch_max_size = env_int env ''DD_LOGS_CONFIG_BATCH_MAX_SIZE'' (lg_batch_max_size l),
      lg_batch_max_content_size = env_int env ''DD_LOGS_CONFIG_BATCH_MAX_CONTENT_SIZE'' (lg_batch_max_content_size l),
      lg_additional = env_json (jd_logs jd) env ''DD_LOGS_CONFIG_ADDITIONAL_ENDPOINTS'' (lg_additional l)\<rparr>"

definition apply_env_process :: "json_decoders \<Rightarrow> environ \<Rightarrow> process_config \<Rightarrow> process_config" where
  "apply_env_process jd env p =
     \<lparr>pg_dd_url = env_string env ''DD_PROCESS_CONFIG_PROCESS_DD_URL'' (pg_dd_url p),
      pg_enabled = env_bool env ''DD_PROCESS_CONFIG_PROCESS_COLLECTION_ENABLED'' (pg_enabled p),
      pg_additional = env_json (jd_extra jd) env ''DD_PROCESS_CONFIG_ADDITIONAL_ENDPOINTS'' (pg_additional p)\<rparr>"

definition apply_env_apm :: "json_decoders \<Rightarrow> environ \<Rightarrow> apm_config \<Rightarrow> apm_config" where
  "apply_env_apm jd env a =
     \<lparr>ap_enabled = env_bool env ''DD_APM_ENABLED'' (ap_enabled a),
      ap_receiver_host = ap_receiver_host a,
      ap_receiver_port = env_int env ''DD_APM_RECEIVER_PORT'' (ap_receiver_port a),
      ap_non_local = env_bool env ''DD_APM_NON_LOCAL_TRAFFIC'' (ap_non_local a),
      ap_dd_url = env_string env ''DD_APM_PROFILING_DD_URL'' (ap_dd_url a),
      ap_additional = env_json (jd_extra jd) env ''DD_APM_PROFILING_ADDITIONAL_ENDPOINTS'' (ap_additional a),
      ap_send_main = env_bool_ptr env ''DD_APM_PROFILING_SEND_TO_MAIN_ENDPOINT'' (ap_send_main a)\<rparr>"

definition apply_env :: "json_decoders \<Rightarrow> environ \<Rightarrow> config \<Rightarrow> config" where
  "apply_env jd env c =
     \<lparr>cf_api_key = env_string env ''DD_API_KEY'' (cf_api_key c),
      cf_site = env_string env ''DD_SITE'' (cf_site c),
      cf_dd_url = env_string env ''DD_DD_URL'' (env_string env ''DD_URL'' (cf_dd_url c)),
      cf_additional = env_json (jd_extra jd) env ''DD_ADDITIONAL_ENDPOINTS'' (cf_additional c),
      cf_env = env_string env ''DD_ENV'' (cf_env c),
      cf_hostname = env_string env ''DD_HOSTNAME'' (cf_hostname c),
      cf_hostname_file = env_string env ''DD_HOSTNAME_FILE'' (cf_hostname_file c),
      cf_tags = env_list env ''DD_TAGS'' (cf_tags c),
      cf_dogstatsd_port = env_int env ''DD_DOGSTATSD_PORT'' (cf_dogstatsd_port c),
      cf_dogstatsd_socket = env_string env ''DD_DOGSTATSD_SOCKET'' (cf_dogstatsd_socket c),
      cf_dogstatsd_non_local = env_bool env ''DD_DOGSTATSD_NON_LOCAL_TRAFFIC'' (cf_dogstatsd_non_local c),
      cf_logs_enabled = env_bool env ''DD_LOGS_ENABLED'' (cf_logs_enabled c),
      cf_logs = apply_env_logs jd env (cf_logs c),
      cf_proxy_https = env_string env ''DD_PROXY_HTTPS'' (cf_proxy_https c),
      cf_skip_ssl = env_bool env ''DD_SKIP_SSL_VALIDATION'' (cf_skip_ssl c),
      cf_confd_path = env_string env ''DD_CONFD_PATH'' (cf_confd_path c),
      cf_run_path = env_string env ''DD_RUN_PATH'' (cf_run_path c),
      cf_metadata = env_bool env ''DD_ENABLE_METADATA_COLLECTION'' (cf_metadata c),
      cf_venti_url = env_string env ''DD_VENTI_URL'' (cf_venti_url c),
      cf_process = apply_env_process jd env (cf_process c),
      cf_apm = apply_env_apm jd env (cf_apm c)\<rparr>"

section \<open>Load\<close>

datatype file_read = FileData string | FileMissing | FileError

datatype config_error = ParseError | ReadError | NoApiKey

text \<open>\<open>overlay\<close> is \<open>yaml.Unmarshal\<close> over a configuration.\<close>

definition load_config ::
  "(string \<Rightarrow> config \<Rightarrow> config option) \<Rightarrow> json_decoders \<Rightarrow> environ \<Rightarrow> file_read \<Rightarrow> config_error + config" where
  "load_config overlay jd env file =
     (case file of
        FileData data \<Rightarrow>
          (case overlay data default_config of
             None \<Rightarrow> Inl ParseError
           | Some c \<Rightarrow> Inr (apply_env jd env c))
      | FileMissing \<Rightarrow> Inr (apply_env jd env default_config)
      | FileError \<Rightarrow> Inl ReadError)"

definition validate_config :: "config \<Rightarrow> config_error option" where
  "validate_config c = (if cf_api_key c = [] then Some NoApiKey else None)"

section \<open>Hosts\<close>

text \<open>
  \<open>ddURLRegexp\<close> as a matcher that lists every rest it can leave:
  \<^verbatim>\<open>^app(\.mrf)?\.([a-z]{2,}\d{1,2}\.)?(datad(oghq|0g)\.(com|eu)|ddog-gov\.com)\.?$\<close>.
\<close>

definition m_lit :: "string \<Rightarrow> string \<Rightarrow> string list" where
  "m_lit p s = (case cut_prefix p s of Some r \<Rightarrow> [r] | None \<Rightarrow> [])"

definition m_seq :: "(string \<Rightarrow> string list) \<Rightarrow> (string \<Rightarrow> string list) \<Rightarrow> string \<Rightarrow> string list" where
  "m_seq f g s = concat (map g (f s))"

definition m_alt :: "(string \<Rightarrow> string list) \<Rightarrow> (string \<Rightarrow> string list) \<Rightarrow> string \<Rightarrow> string list" where
  "m_alt f g s = f s @ g s"

definition m_opt :: "(string \<Rightarrow> string list) \<Rightarrow> string \<Rightarrow> string list" where
  "m_opt f s = f s @ [s]"

definition m_class :: "(char \<Rightarrow> bool) \<Rightarrow> string \<Rightarrow> string list" where
  "m_class p s = (case s of c # cs \<Rightarrow> if p c then [cs] else [] | [] \<Rightarrow> [])"

primrec m_star_class :: "(char \<Rightarrow> bool) \<Rightarrow> string \<Rightarrow> string list" where
  "m_star_class p [] = [[]]"
| "m_star_class p (c # cs) = (if p c then m_star_class p cs else []) @ [c # cs]"

definition is_lower :: "char \<Rightarrow> bool" where
  "is_lower c \<longleftrightarrow> 97 \<le> byte c \<and> byte c \<le> 122"

definition dd_site_rests :: "string \<Rightarrow> string list" where
  "dd_site_rests =
     m_alt (m_seq (m_lit ''datad'') (m_seq (m_alt (m_lit ''oghq'') (m_lit ''0g''))
              (m_seq (m_lit ''.'') (m_alt (m_lit ''com'') (m_lit ''eu'')))))
       (m_lit ''ddog-gov.com'')"

definition dd_label_rests :: "string \<Rightarrow> string list" where
  "dd_label_rests =
     m_seq (m_class is_lower) (m_seq (m_class is_lower) (m_seq (m_star_class is_lower)
       (m_seq (m_class is_digit_char) (m_seq (m_opt (m_class is_digit_char)) (m_lit ''.'')))))"

definition dd_host :: "string \<Rightarrow> bool" where
  "dd_host h \<longleftrightarrow> [] \<in> set (m_seq (m_lit ''app'') (m_seq (m_opt (m_lit ''.mrf'')) (m_seq (m_lit ''.'')
     (m_seq (m_opt dd_label_rests) (m_seq dd_site_rests (m_opt (m_lit ''.'')))))) h)"

text \<open>\<open>agentDomainPrefix\<close> of a version; \<open>SplitN\<close> by four keeps the first three parts apart.\<close>

definition domain_prefix :: "string \<Rightarrow> string" where
  "domain_prefix version =
     (let v = takeWhile (\<lambda>c. c \<notin> {CHR ''-'', CHR ''+''}) version;
          p = split_on CHR ''.'' v;
          p = p @ replicate (3 - length p) ''0''
      in p ! 0 @ ''-'' @ p ! 1 @ ''-'' @ p ! 2)"

definition agent_domain_prefix :: string where
  "agent_domain_prefix = domain_prefix agent_version"

text \<open>What is used of \<^verbatim>\<open>net/url\<close>: the host of a URL that parses, and the URL with another host.\<close>

record net_url =
  nu_host :: "string \<Rightarrow> string option"
  nu_with_host :: "string \<Rightarrow> string \<Rightarrow> string"

definition infra_domain :: "net_url \<Rightarrow> string \<Rightarrow> string" where
  "infra_domain nu raw0 =
     (let raw = trim_right_of ''/'' raw0 in
      case nu_host nu raw of
        None \<Rightarrow> raw
      | Some h \<Rightarrow>
          if \<not> dd_host h then raw
          else let (_, rest, _) = str_cut ''.'' h
               in trim_right_of ''/'' (nu_with_host nu raw (agent_domain_prefix @ ''-app.agent.'' @ rest)))"

definition infra_base :: "net_url \<Rightarrow> config \<Rightarrow> string" where
  "infra_base nu c =
     (if cf_dd_url c \<noteq> [] then infra_domain nu (cf_dd_url c)
      else ''https://'' @ agent_domain_prefix @ ''-app.agent.'' @ cf_site c)"

definition strings_contains :: "string \<Rightarrow> string \<Rightarrow> bool" where
  "strings_contains s sub = snd (snd (str_cut sub s))"

definition logs_url :: "config \<Rightarrow> string" where
  "logs_url c =
     (let base = lg_logs_dd_url (cf_logs c);
          base = (if base = [] then ''https://agent-http-intake.logs.'' @ cf_site c
                  else if \<not> strings_contains base ''://'' then ''https://'' @ base else base)
      in trim_right_of ''/'' base @ ''/api/v2/logs'')"

definition process_url :: "config \<Rightarrow> string" where
  "process_url c =
     (let base = pg_dd_url (cf_process c);
          base = (if base = [] then ''https://process.'' @ cf_site c else base)
      in trim_right_of ''/'' base @ ''/api/v1/collector'')"

definition profiling_url :: "config \<Rightarrow> string" where
  "profiling_url c =
     (if ap_dd_url (cf_apm c) \<noteq> [] then ap_dd_url (cf_apm c)
      else ''https://intake.profile.'' @ cf_site c @ ''/api/v2/profile'')"

definition le_reliable :: "logs_endpoint \<Rightarrow> bool" where
  "le_reliable e = (case le_is_reliable e of None \<Rightarrow> True | Some b \<Rightarrow> b)"

text \<open>\<open>net.JoinHostPort\<close> brackets an IPv6 address.\<close>

definition join_host_port :: "string \<Rightarrow> string \<Rightarrow> string" where
  "join_host_port h p = (if CHR '':'' \<in> set h then ''['' @ h @ '']:'' @ p else h @ '':'' @ p)"

definition le_url :: "logs_endpoint \<Rightarrow> string" where
  "le_url e =
     (let scheme = (if le_use_ssl e = Some False then ''http'' else ''https'');
          host = (if le_port e \<noteq> 0 then join_host_port (le_host e) (fmt_int (le_port e)) else le_host e)
      in scheme @ ''://'' @ host @ ''/api/v2/logs'')"

section \<open>Endpoint lists\<close>

definition ep_id :: "string \<Rightarrow> string \<Rightarrow> string" where
  "ep_id url key = url @ [CHR 0x00] @ key"

definition add_endpoint :: "string \<Rightarrow> bool \<Rightarrow> string \<Rightarrow> string list \<times> endpoint list \<Rightarrow> string list \<times> endpoint list" where
  "add_endpoint u rel key st =
     (case st of (seen, eps) \<Rightarrow>
        if ep_id u key \<in> set seen then (seen, eps)
        else (ep_id u key # seen, eps @ [\<lparr>ep_url = u, ep_key = key, ep_reliable = rel\<rparr>]))"

definition add_key :: "string \<Rightarrow> string \<Rightarrow> string list \<times> endpoint list \<Rightarrow> string list \<times> endpoint list" where
  "add_key u key0 st = (let key = trim_space key0 in if key = [] then st else add_endpoint u True key st)"

definition add_domain :: "(string \<Rightarrow> string) \<Rightarrow> extra_endpoints \<Rightarrow> string \<Rightarrow> string list \<times> endpoint list \<Rightarrow> string list \<times> endpoint list" where
  "add_domain url_for extra domain =
     fold (add_key (url_for domain)) (case map_of extra domain of Some keys \<Rightarrow> keys | None \<Rightarrow> [])"

definition append_additional :: "endpoint list \<Rightarrow> extra_endpoints \<Rightarrow> (string \<Rightarrow> string) \<Rightarrow> endpoint list" where
  "append_additional eps extra url_for =
     (let seen = map (\<lambda>e. ep_id (ep_url e) (ep_key e)) eps
      in snd (fold (add_domain url_for extra) (sort (map fst extra)) (seen, eps)))"

definition primary_ep :: "string \<Rightarrow> config \<Rightarrow> endpoint" where
  "primary_ep url c = \<lparr>ep_url = url, ep_key = cf_api_key c, ep_reliable = True\<rparr>"

definition infra_endpoints :: "net_url \<Rightarrow> config \<Rightarrow> string \<Rightarrow> endpoint list" where
  "infra_endpoints nu c route =
     append_additional [primary_ep (infra_base nu c @ route) c] (cf_additional c) (\<lambda>d. infra_domain nu d @ route)"

definition metrics_endpoints where "metrics_endpoints nu c = infra_endpoints nu c ''/api/v1/series''"
definition check_run_endpoints where "check_run_endpoints nu c = infra_endpoints nu c ''/api/v1/check_run''"
definition intake_endpoints where "intake_endpoints nu c = infra_endpoints nu c ''/intake/''"
definition events_endpoints where "events_endpoints nu c = intake_endpoints nu c"
definition metadata_endpoints where "metadata_endpoints nu c = infra_endpoints nu c ''/api/v1/metadata''"

definition add_logs_endpoint :: "logs_endpoint \<Rightarrow> string list \<times> endpoint list \<Rightarrow> string list \<times> endpoint list" where
  "add_logs_endpoint e st =
     (let key = trim_space (le_api_key e) in
      if key = [] \<or> le_host e = [] then st else add_endpoint (le_url e) (le_reliable e) key st)"

definition logs_endpoints :: "config \<Rightarrow> endpoint list" where
  "logs_endpoints c =
     (let primary = primary_ep (logs_url c) c
      in snd (fold add_logs_endpoint (lg_additional (cf_logs c)) ([ep_id (ep_url primary) (ep_key primary)], [primary])))"

definition process_endpoints :: "config \<Rightarrow> endpoint list" where
  "process_endpoints c =
     append_additional [primary_ep (process_url c) c] (pg_additional (cf_process c))
       (\<lambda>d. trim_right_of ''/'' d @ ''/api/v1/collector'')"

definition profiling_endpoints :: "config \<Rightarrow> endpoint list" where
  "profiling_endpoints c =
     append_additional (if ap_send_main (cf_apm c) = None \<or> ap_send_main (cf_apm c) = Some True
         then [primary_ep (profiling_url c) c] else [])
       (ap_additional (cf_apm c)) (\<lambda>d. trim_right_of ''/'' d)"

definition process_enabled :: "config \<Rightarrow> bool" where
  "process_enabled c = pg_enabled (cf_process c)"

definition apm_enabled :: "config \<Rightarrow> bool" where
  "apm_enabled c = ap_enabled (cf_apm c)"

definition default_env :: "config \<Rightarrow> string" where
  "default_env c = (if cf_env c = [] then ''none'' else cf_env c)"

section \<open>Log sources\<close>

text \<open>\<open>glob\<close> (of the path joined from its elements) and \<open>read\<close> are the file system; \<open>parse\<close> gives the \<open>logs:\<close> entries of a document,
  each with its type.\<close>

fun load_files :: "(string \<Rightarrow> string option) \<Rightarrow> (string \<Rightarrow> (string \<times> 'src) list option) \<Rightarrow> string list
    \<Rightarrow> 'src list \<times> (string \<times> string) list \<Rightarrow> config_error + 'src list \<times> (string \<times> string) list" where
  "load_files read parse [] acc = Inr acc"
| "load_files read parse (f # fs) acc =
     (case read f of
        None \<Rightarrow> Inl ReadError
      | Some data \<Rightarrow>
          (case parse data of
             None \<Rightarrow> Inl ParseError
           | Some entries \<Rightarrow>
               let kept = map snd (filter (\<lambda>e. fst e = ''file'' \<or> fst e = ''journald'') entries);
                   other = map (\<lambda>e. (f, fst e)) (filter (\<lambda>e. \<not> (fst e = ''file'' \<or> fst e = ''journald'')) entries)
               in load_files read parse fs (fst acc @ kept, snd acc @ other)))"

definition load_log_sources ::
  "(string list \<Rightarrow> string list option) \<Rightarrow> (string \<Rightarrow> string option) \<Rightarrow> (string \<Rightarrow> (string \<times> 'src) list option) \<Rightarrow> string
     \<Rightarrow> config_error + 'src list \<times> (string \<times> string) list" where
  "load_log_sources glob read parse conf_path =
     (case (glob [conf_path, ''*.d'', ''conf.yaml''], glob [conf_path, ''*.yaml'']) of
        (Some a, Some b) \<Rightarrow> load_files read parse (a @ b) ([], [])
      | _ \<Rightarrow> Inl ReadError)"

section \<open>No destination twice, none left out\<close>

abbreviation ids_of :: "endpoint list \<Rightarrow> string list" where
  "ids_of eps \<equiv> map (\<lambda>e. ep_id (ep_url e) (ep_key e)) eps"

definition endpoints_inv :: "string list \<times> endpoint list \<Rightarrow> bool" where
  "endpoints_inv st \<longleftrightarrow> set (fst st) = set (ids_of (snd st)) \<and> distinct (ids_of (snd st))"

text \<open>What growing a list may do: keep it as a prefix, and the invariant.\<close>

definition grows :: "string list \<times> endpoint list \<Rightarrow> string list \<times> endpoint list \<Rightarrow> bool" where
  "grows st st' \<longleftrightarrow> endpoints_inv st' \<and> (\<exists>new. snd st' = snd st @ new)"

lemma grows_refl: "endpoints_inv st \<Longrightarrow> grows st st"
  by (simp add: grows_def)

lemma grows_trans: "grows a b \<Longrightarrow> grows b c \<Longrightarrow> grows a c"
  by (auto simp: grows_def)

lemma grows_ids: "grows a b \<Longrightarrow> set (ids_of (snd a)) \<subseteq> set (ids_of (snd b))"
  by (auto simp: grows_def)

lemma add_endpoint_grows:
  assumes "endpoints_inv st"
  shows "grows st (add_endpoint u rel key st) \<and> ep_id u key \<in> set (ids_of (snd (add_endpoint u rel key st)))"
  using assms by (cases st) (auto simp: add_endpoint_def grows_def endpoints_inv_def)

lemma add_key_grows:
  assumes "endpoints_inv st"
  shows "grows st (add_key u key st)
    \<and> (trim_space key \<noteq> [] \<longrightarrow> ep_id u (trim_space key) \<in> set (ids_of (snd (add_key u key st))))"
  using add_endpoint_grows [OF assms] assms by (simp add: add_key_def Let_def grows_refl)

lemma fold_grows:
  assumes "\<And>x st. endpoints_inv st \<Longrightarrow> grows st (f x st)" "endpoints_inv st"
  shows "grows st (fold f xs st)"
  using assms(2)
proof (induction xs arbitrary: st)
  case (Cons x xs)
  have g: "grows st (f x st)" using Cons.prems by (rule assms(1))
  then have "endpoints_inv (f x st)" by (simp add: grows_def)
  from grows_trans [OF g Cons.IH [OF this]] show ?case by simp
qed (simp add: grows_refl)

lemma fold_grows_mem:
  assumes "\<And>x st. endpoints_inv st \<Longrightarrow> grows st (f x st)" "endpoints_inv st" "x \<in> set xs"
    and "\<And>st. endpoints_inv st \<Longrightarrow> i \<in> set (ids_of (snd (f x st)))"
  shows "i \<in> set (ids_of (snd (fold f xs st)))"
  using assms(2,3)
proof (induction xs arbitrary: st)
  case (Cons y ys)
  have inv: "endpoints_inv (f y st)" using assms(1) [OF Cons.prems(1)] by (simp add: grows_def)
  show ?case
  proof (cases "x = y")
    case True
    from grows_ids [OF fold_grows [where f = f and xs = ys, OF assms(1) inv]] assms(4) [OF Cons.prems(1)] True
    show ?thesis by auto
  next
    case False
    with Cons inv show ?thesis by simp
  qed
qed simp

lemma add_domain_grows:
  assumes "endpoints_inv st"
  shows "grows st (add_domain url_for extra d st)"
  unfolding add_domain_def by (rule fold_grows) (use add_key_grows assms in auto)

lemma add_domain_mem:
  assumes "endpoints_inv st" "map_of extra d = Some keys" "key \<in> set keys" "trim_space key \<noteq> []"
  shows "ep_id (url_for d) (trim_space key) \<in> set (ids_of (snd (add_domain url_for extra d st)))"
  unfolding add_domain_def assms(2) option.case
  by (rule fold_grows_mem [where x = key]) (use add_key_grows assms in auto)

lemma append_additional_facts:
  fixes eps extra url_for
  assumes "distinct (ids_of eps)"
  defines "res \<equiv> append_additional eps extra url_for"
  shows "distinct (map dest res)" "\<exists>new. res = eps @ new"
    and "map_of extra d = Some keys \<Longrightarrow> key \<in> set keys \<Longrightarrow> trim_space key \<noteq> [] \<Longrightarrow>
      ep_id (url_for d) (trim_space key) \<in> set (ids_of res)"
proof -
  have inv: "endpoints_inv (ids_of eps, eps)" using assms(1) by (simp add: endpoints_inv_def)
  from fold_grows [of "add_domain url_for extra", OF add_domain_grows inv]
  have g: "grows (ids_of eps, eps) (fold (add_domain url_for extra) (sort (map fst extra)) (ids_of eps, eps))" .
  then have "distinct (ids_of res)" by (simp add: res_def append_additional_def grows_def endpoints_inv_def)
  then have "distinct (map (\<lambda>d. ep_id (fst d) (snd d)) (map dest res))" by (simp add: dest_def comp_def)
  then show "distinct (map dest res)" using distinct_map by blast
  show "\<exists>new. res = eps @ new" using g by (simp add: res_def append_additional_def grows_def)
  assume k: "map_of extra d = Some keys" "key \<in> set keys" "trim_space key \<noteq> []"
  then have "d \<in> set (sort (map fst extra))" by (force dest: map_of_SomeD)
  from fold_grows_mem [of "add_domain url_for extra", OF add_domain_grows inv this add_domain_mem [OF _ k]]
  show "ep_id (url_for d) (trim_space key) \<in> set (ids_of res)"
    by (simp add: res_def append_additional_def)
qed

lemma logs_endpoints_facts:
  "distinct (map dest (logs_endpoints c))" "\<exists>new. logs_endpoints c = primary_ep (logs_url c) c # new"
proof -
  let ?p = "primary_ep (logs_url c) c"
  have inv: "endpoints_inv ([ep_id (ep_url ?p) (ep_key ?p)], [?p])" by (simp add: endpoints_inv_def)
  have "grows st (add_logs_endpoint e st)" if "endpoints_inv st" for e st
    using add_endpoint_grows [OF that] grows_refl [OF that] by (simp add: add_logs_endpoint_def Let_def)
  from fold_grows [of add_logs_endpoint, OF this inv, of "lg_additional (cf_logs c)"]
  have g: "grows ([ep_id (ep_url ?p) (ep_key ?p)], [?p])
      (fold add_logs_endpoint (lg_additional (cf_logs c)) ([ep_id (ep_url ?p) (ep_key ?p)], [?p]))" .
  then have "distinct (ids_of (logs_endpoints c))" by (simp add: logs_endpoints_def Let_def grows_def endpoints_inv_def)
  then have "distinct (map (\<lambda>d. ep_id (fst d) (snd d)) (map dest (logs_endpoints c)))" by (simp add: dest_def comp_def)
  then show "distinct (map dest (logs_endpoints c))" using distinct_map by blast
  show "\<exists>new. logs_endpoints c = ?p # new" using g by (simp add: logs_endpoints_def Let_def grows_def)
qed

lemma primary_first:
  "\<exists>new. infra_endpoints nu c route = primary_ep (infra_base nu c @ route) c # new"
  "\<exists>new. process_endpoints c = primary_ep (process_url c) c # new"
  "distinct (map dest (infra_endpoints nu c route))" "distinct (map dest (process_endpoints c))"
  "distinct (map dest (profiling_endpoints c))"
proof -
  have one: "distinct (ids_of [primary_ep u c])" for u by simp
  show "\<exists>new. infra_endpoints nu c route = primary_ep (infra_base nu c @ route) c # new"
    "\<exists>new. process_endpoints c = primary_ep (process_url c) c # new"
    unfolding infra_endpoints_def process_endpoints_def using append_additional_facts(2) [OF one] by fastforce+
  show "distinct (map dest (infra_endpoints nu c route))" "distinct (map dest (process_endpoints c))"
    "distinct (map dest (profiling_endpoints c))"
    unfolding infra_endpoints_def process_endpoints_def profiling_endpoints_def
    by (intro append_additional_facts(1), simp)+
qed

text \<open>The fan-out's law holds for every list the configuration builds.\<close>

lemma head_unique: "distinct (map dest (ep # eps)) \<Longrightarrow> dest ep \<notin> dest ` set eps"
  by simp

interpretation infra: fan_out cl "hd (infra_endpoints nu c route)" "tl (infra_endpoints nu c route)" for cl nu c route
  using primary_first(1) [of nu c route] primary_first(3) [of nu c route]
  by unfold_locales (auto simp: image_iff)

interpretation log_intake: fan_out cl "hd (logs_endpoints c)" "tl (logs_endpoints c)" for cl c
  using logs_endpoints_facts [of c] by unfold_locales (auto simp: image_iff)


definition net_url_example :: net_url where
  "net_url_example = \<lparr>nu_host = cut_prefix ''https://'', nu_with_host = (\<lambda>u h. ''https://'' @ h)\<rparr>"

definition config_example :: config where
  "config_example = default_config\<lparr>cf_api_key := ''k1'',
     cf_additional := [(''https://app.datadoghq.eu/'', [''k2'', '' '', ''k3 '', ''k2''])]\<rparr>"




section \<open>Overlays and sources\<close>

text \<open>Applying the environment twice is applying it once.\<close>

lemma env_idem [simp]:
  "env_string env k (env_string env k s) = env_string env k s"
  "env_bool env k (env_bool env k b) = env_bool env k b"
  "env_int env k (env_int env k n) = env_int env k n"
  "env_bool_ptr env k (env_bool_ptr env k p) = env_bool_ptr env k p"
  "env_json dec env k (env_json dec env k j) = env_json dec env k j"
  "env_list env k (env_list env k l) = env_list env k l"
  by (simp_all add: env_string_def env_bool_def env_int_def env_bool_ptr_def env_json_def env_list_def
      split: option.split parsed.split)

text \<open>The later of two names wins, so that the pair is applied once too.\<close>

lemma env_string_pair_idem [simp]:
  "env_string env k (env_string env l (env_string env k (env_string env l s))) = env_string env k (env_string env l s)"
  by (simp add: env_string_def split: option.split)

lemma apply_env_idem: "apply_env jd env (apply_env jd env c) = apply_env jd env c"
proof -
  have "apply_env_logs jd env (apply_env_logs jd env l) = apply_env_logs jd env l"
    "apply_env_process jd env (apply_env_process jd env p) = apply_env_process jd env p"
    "apply_env_apm jd env (apply_env_apm jd env a) = apply_env_apm jd env a" for l p a
    by (simp_all add: apply_env_logs_def apply_env_process_def apply_env_apm_def)
  then show ?thesis by (simp add: apply_env_def)
qed

text \<open>Loading succeeds exactly when every file does, with the sources in file order.\<close>

lemma load_files_all:
  assumes "\<And>f. f \<in> set fs \<Longrightarrow> \<exists>d. read f = Some d \<and> parse d = Some (entries f)"
  shows "load_files read parse fs acc = Inr
    (fst acc @ concat (map (\<lambda>f. map snd (filter (\<lambda>e. fst e = ''file'' \<or> fst e = ''journald'') (entries f))) fs),
     snd acc @ concat (map (\<lambda>f. map (\<lambda>e. (f, fst e)) (filter (\<lambda>e. \<not> (fst e = ''file'' \<or> fst e = ''journald'')) (entries f))) fs))"
  using assms
proof (induction fs arbitrary: acc)
  case (Cons f fs)
  from Cons.prems [of f] obtain d where "read f = Some d" "parse d = Some (entries f)" by auto
  with Cons show ?case by (simp add: Let_def)
qed simp

end
