(* ===== verification/HostBase.thy ===== *)
theory HostBase
  imports MetricTypes GoTime "HOL-Library.AList"
begin

text \<open>
  Host metrics, the parts every operating system shares, \<^verbatim>\<open>internal/host/host.go\<close>: what a
  sub-collector is, the collection over all of them, and a gauge. The file system is what each
  read of a collection returns. The rates of a counter are a contract of their own: a collector
  that keeps its previous reading turns two readings into rates, and what holds of all of
  them is proved once.
\<close>

section \<open>The file system\<close>

datatype 'a fs_result = FsOk 'a | FsMissing | FsError

text \<open>Reading a file, listing a directory, the size of a file, and for the tail of a log its size
  when it is opened and its content when it is read.\<close>

record host_fs =
  fs_read :: "string \<Rightarrow> string fs_result"
  fs_dir :: "string \<Rightarrow> string list fs_result"
  fs_size :: "string \<Rightarrow> int option"
  fs_log :: "string \<Rightarrow> (nat \<times> string) option"

definition fs_ok :: "'a fs_result \<Rightarrow> 'a option" where
  "fs_ok r = (case r of FsOk x \<Rightarrow> Some x | _ \<Rightarrow> None)"

text \<open>A Go map, as an association list with distinct keys.\<close>

type_synonym 'v gomap = "(string \<times> 'v) list"

section \<open>Gauges\<close>

definition gauge :: "string \<Rightarrow> int \<Rightarrow> f64 \<Rightarrow> string list \<Rightarrow> serie" where
  "gauge name now value tags =
     \<lparr>se_name = name, se_points = [\<lparr>pt_ts = unix now, pt_value = value\<rparr>], se_type = TypeGauge,
      se_interval = 0, se_tags = tags, se_host = [], se_device = [], se_source = []\<rparr>"

text \<open>The gauge of a counter's rate, left out when the counter went back.\<close>

definition rate_gauge :: "string \<Rightarrow> int \<Rightarrow> string list \<Rightarrow> f64 \<Rightarrow> f64 \<Rightarrow> f64 \<Rightarrow> serie list" where
  "rate_gauge name now tags dt cur prev =
     (if fle prev cur then [gauge name now (fdiv (fsub cur prev) dt) tags] else [])"

text \<open>What is reported of two readings: nothing before there is a previous one, nor when the clock
  has not advanced.\<close>

definition since_last :: "int \<Rightarrow> ('r \<times> int) option \<Rightarrow> (f64 \<Rightarrow> 'r \<Rightarrow> serie list) \<Rightarrow> serie list" where
  "since_last now prev rates =
     (case prev of
        None \<Rightarrow> []
      | Some (p, t) \<Rightarrow> let dt = dur_seconds (time_sub now t) in if flt (Fin 0) dt then rates dt p else [])"

section \<open>Collection\<close>

datatype host_error = ReadFailed

type_synonym ('fs, 'st) sub_collector = "'fs \<Rightarrow> int \<Rightarrow> 'st \<Rightarrow> (host_error + serie list) \<times> 'st"

definition host_interval :: "int \<Rightarrow> int" where
  "host_interval opt = (if opt = 0 then 15 else opt)"

fun collect_host :: "int \<Rightarrow> ('fs, 'st) sub_collector list \<Rightarrow> 'fs \<Rightarrow> int \<Rightarrow> 'st \<Rightarrow> serie list \<times> 'st" where
  "collect_host interval [] fs now st = ([], st)"
| "collect_host interval (sub # subs) fs now st =
     (case sub fs now st of
        (Inl e, st1) \<Rightarrow> collect_host interval subs fs now st1
      | (Inr series, st1) \<Rightarrow>
          let (rest, st2) = collect_host interval subs fs now st1
          in (map (\<lambda>s. s\<lparr>se_interval := interval\<rparr>) series @ rest, st2))"

lemma collect_host_interval: "s \<in> set (fst (collect_host interval subs fs now st)) \<Longrightarrow> se_interval s = interval"
  by (induction interval subs fs now st rule: collect_host.induct) (auto simp: Let_def split: prod.splits sum.splits)

section \<open>Rates between readings\<close>

definition below_zero :: "f64 \<Rightarrow> bool" where
  "below_zero x \<longleftrightarrow> flt x (Fin 0)"

definition not_below_zero :: "serie \<Rightarrow> bool" where
  "not_below_zero s \<longleftrightarrow> list_all (\<lambda>p. \<not> below_zero (pt_value p)) (se_points s)"

lemma below_zero_simps [simp]:
  "\<not> below_zero NaN" "below_zero (Inf s) \<longleftrightarrow> s" "\<not> below_zero NegZero" "below_zero (Fin q) \<longleftrightarrow> q < 0"
  by (simp_all add: below_zero_def flt_def)

lemma below_zero_rnd64 [simp]: "\<not> s \<Longrightarrow> 0 \<le> q \<Longrightarrow> \<not> below_zero (rnd64 s q)"
  using nonneg_round [of q 53 "- 1022" 1023] by (cases "rnd64 s q") (simp_all add: rnd64_def)

lemma below_zero_fdiv: "\<not> below_zero x \<Longrightarrow> flt (Fin 0) dt \<Longrightarrow> \<not> below_zero (fdiv x dt)"
  by (cases x; cases dt) (simp_all add: fdiv_def Let_def flt_def)

lemma below_zero_fsub: "fle y x \<Longrightarrow> \<not> below_zero (fsub x y)"
  by (cases x; cases y) (auto simp: fle_def flt_def feq_def fsub_def fadd_def fminus_def)

lemma rate_gauge_not_below_zero:
  "flt (Fin 0) dt \<Longrightarrow> s \<in> set (rate_gauge name now tags dt cur prev) \<Longrightarrow> not_below_zero s"
  by (auto simp: rate_gauge_def gauge_def not_below_zero_def below_zero_fdiv below_zero_fsub split: if_splits)

lemma since_last_not_below_zero:
  assumes "\<And>dt p s. flt (Fin 0) dt \<Longrightarrow> s \<in> set (rates dt p) \<Longrightarrow> not_below_zero s"
  shows "s \<in> set (since_last now prev rates) \<Longrightarrow> not_below_zero s"
  using assms by (auto simp: since_last_def Let_def split: option.splits if_splits)

text \<open>A history of collections, and the last reading it left.\<close>

type_synonym 'fs host_history = "('fs \<times> int) list"

primrec run_sub :: "('fs, 'st) sub_collector \<Rightarrow> 'fs host_history \<Rightarrow> 'st \<Rightarrow> 'st" where
  "run_sub step [] st = st"
| "run_sub step (x # xs) st = run_sub step xs (snd (step (fst x) (snd x) st))"

primrec last_kept :: "('fs \<Rightarrow> int \<Rightarrow> 'p option) \<Rightarrow> 'fs host_history \<Rightarrow> 'p option \<Rightarrow> 'p option" where
  "last_kept kept [] prev = prev"
| "last_kept kept (x # xs) prev =
     last_kept kept xs (case kept (fst x) (snd x) of None \<Rightarrow> prev | Some p \<Rightarrow> Some p)"

definition timed :: "('fs \<Rightarrow> 'r option) \<Rightarrow> 'fs \<Rightarrow> int \<Rightarrow> ('r \<times> int) option" where
  "timed reading fs now = map_option (\<lambda>r. (r, now)) (reading fs)"

definition last_reading :: "('fs \<Rightarrow> 'r option) \<Rightarrow> 'fs host_history \<Rightarrow> ('r \<times> int) option \<Rightarrow> ('r \<times> int) option" where
  "last_reading reading = last_kept (timed reading)"

text \<open>
  The contract of a sub-collector that keeps its previous reading: what it reports is its
  reading against the previous one, and it keeps the reading. A reading that fails leaves the
  previous one, and what is reported then does not depend on it.
\<close>

locale reading_source =
  fixes step :: "('fs, 'st) sub_collector"
    and view :: "'st \<Rightarrow> 'p option"
    and kept :: "'fs \<Rightarrow> int \<Rightarrow> 'p option"
    and report :: "'fs \<Rightarrow> int \<Rightarrow> 'p option \<Rightarrow> serie list"
  assumes step_read: "kept fs now = Some p \<Longrightarrow> fst (step fs now st) = Inr (report fs now (view st))"
    and step_fail: "kept fs now = None \<Longrightarrow> fst (step fs now st) = fst (step fs now st')"
    and step_view: "view (snd (step fs now st)) = (case kept fs now of None \<Rightarrow> view st | Some p \<Rightarrow> Some p)"
begin

lemma view_run: "view (run_sub step xs st) = last_kept kept xs (view st)"
  by (induction xs arbitrary: st) (simp_all add: step_view)

lemma follows_last_kept:
  "kept fs now = Some p \<Longrightarrow> fst (step fs now (run_sub step xs st)) = Inr (report fs now (last_kept kept xs (view st)))"
  by (simp add: step_read view_run)

lemma view_determines: "view st = view st' \<Longrightarrow> fst (step fs now st) = fst (step fs now st')"
  using step_read [of fs now _ st] step_read [of fs now _ st'] step_fail [of fs now st st']
  by (cases "kept fs now") simp_all

end

text \<open>
  A sub-collector with rates reports what the reading says at once and rates over the time since
  the previous one, none of them below zero.
\<close>

locale rate_source =
  reading_source step view "timed reading" "\<lambda>fs now prev. before fs now @ since_last now prev (rates fs now) @ after fs now"
  for step :: "('fs, 'st) sub_collector"
    and view :: "'st \<Rightarrow> ('r \<times> int) option"
    and reading :: "'fs \<Rightarrow> 'r option"
    and before :: "'fs \<Rightarrow> int \<Rightarrow> serie list"
    and rates :: "'fs \<Rightarrow> int \<Rightarrow> f64 \<Rightarrow> 'r \<Rightarrow> serie list"
    and after :: "'fs \<Rightarrow> int \<Rightarrow> serie list" +
  assumes rates_positive: "flt (Fin 0) dt \<Longrightarrow> s \<in> set (rates fs now dt p) \<Longrightarrow> not_below_zero s"
begin

lemma follows_last_reading:
  "reading fs = Some r \<Longrightarrow> fst (step fs now (run_sub step xs st))
     = Inr (before fs now @ since_last now (last_reading reading xs (view st)) (rates fs now) @ after fs now)"
  using follows_last_kept [of fs now] by (simp add: last_reading_def timed_def)

lemma rates_not_below_zero: "s \<in> set (since_last now prev (rates fs now)) \<Longrightarrow> not_below_zero s"
  using rates_positive by (rule since_last_not_below_zero)

text \<open>Against a collector with no previous reading, a collection only adds rates.\<close>

lemma adds_only_rates:
  assumes "view st0 = None"
  shows "(\<exists>base more extra. fst (step fs now st0) = Inr (base @ more) \<and> fst (step fs now st) = Inr (base @ extra @ more)
      \<and> list_all not_below_zero extra) \<or> fst (step fs now st) = fst (step fs now st0)"
proof (cases "timed reading fs now")
  case (Some r)
  have "list_all not_below_zero (since_last now (view st) (rates fs now))"
    using rates_not_below_zero by (auto simp: list_all_iff)
  moreover have "fst (step fs now st0) = Inr (before fs now @ after fs now)"
    using step_read [OF Some] assms by (simp add: since_last_def)
  ultimately show ?thesis using step_read [OF Some] by blast
qed (use step_fail in blast)

end

text \<open>
  One sub-collector does not disturb another when the other reports the same after it. A list in
  which none disturbs a later one reports what each reports alone.
\<close>

definition undisturbed :: "'fs \<Rightarrow> int \<Rightarrow> ('fs, 'st) sub_collector \<Rightarrow> ('fs, 'st) sub_collector \<Rightarrow> bool" where
  "undisturbed fs now s t \<longleftrightarrow> (\<forall>st. fst (t fs now (snd (s fs now st))) = fst (t fs now st))"

definition reported :: "('fs, 'st) sub_collector \<Rightarrow> 'fs \<Rightarrow> int \<Rightarrow> 'st \<Rightarrow> serie list" where
  "reported sub fs now st = (case fst (sub fs now st) of Inl e \<Rightarrow> [] | Inr series \<Rightarrow> series)"

lemma collect_host_step [simp]:
  "fst (collect_host i (sub # subs) fs now st)
     = map (\<lambda>s. s\<lparr>se_interval := i\<rparr>) (reported sub fs now st) @ fst (collect_host i subs fs now (snd (sub fs now st)))"
  "snd (collect_host i (sub # subs) fs now st) = snd (collect_host i subs fs now (snd (sub fs now st)))"
  by (auto simp: reported_def Let_def split: prod.split sum.split)

declare collect_host.simps(2) [simp del]

lemma collect_host_isolated:
  "sorted_wrt (undisturbed fs now) subs \<Longrightarrow>
     fst (collect_host i subs fs now st) = map (\<lambda>s. s\<lparr>se_interval := i\<rparr>) (concat (map (\<lambda>sub. reported sub fs now st) subs))"
proof (induction subs arbitrary: st)
  case (Cons s subs)
  then have "map (\<lambda>sub. reported sub fs now (snd (s fs now st))) subs = map (\<lambda>sub. reported sub fs now st) subs"
    by (auto simp: undisturbed_def reported_def)
  with Cons show ?case by (simp del: map_eq_conv)
qed simp

lemma collect_host_frame:
  "(\<And>s st. s \<in> set subs \<Longrightarrow> view (snd (s fs now st)) = view st) \<Longrightarrow> view (snd (collect_host i subs fs now st)) = view st"
  by (induction subs arbitrary: st) simp_all

lemma collect_host_append: "snd (collect_host i (xs @ ys) fs now st) = snd (collect_host i ys fs now (snd (collect_host i xs fs now st)))"
  by (induction xs arbitrary: st) simp_all

text \<open>The states a history of whole collections leaves.\<close>

primrec run_host :: "int \<Rightarrow> ('fs, 'st) sub_collector list \<Rightarrow> 'fs host_history \<Rightarrow> 'st \<Rightarrow> 'st" where
  "run_host i subs [] st = st"
| "run_host i subs (x # xs) st = run_host i subs xs (snd (collect_host i subs (fst x) (snd x) st))"

context reading_source
begin

lemma view_host:
  assumes "\<And>s fs now st. s \<in> set xs \<union> set ys \<Longrightarrow> view (snd (s fs now st)) = view st"
  shows "view (run_host i (xs @ step # ys) h st) = last_kept kept h (view st)"
proof (induction h arbitrary: st)
  case (Cons x h)
  have "view (snd (collect_host i (xs @ step # ys) fs now st))
      = (case kept fs now of None \<Rightarrow> view st | Some p \<Rightarrow> Some p)" for fs now st
    using assms collect_host_frame [of xs view fs now i] collect_host_frame [of ys view fs now i]
    by (simp add: collect_host_append step_view split: option.split)
  then show ?case using Cons by simp
qed simp

end

definition only_adds :: "serie list \<Rightarrow> serie list \<Rightarrow> bool" where
  "only_adds xs ys \<longleftrightarrow> (\<exists>base more extra. xs = base @ more \<and> ys = base @ extra @ more \<and> list_all not_below_zero extra)"

lemma only_adds_refl: "only_adds xs xs"
  unfolding only_adds_def by (intro exI [of _ xs] exI [of _ "[]"]) simp

lemma only_adds_same: "fst (sub fs now st) = fst (sub fs now st') \<Longrightarrow> only_adds (reported sub fs now st) (reported sub fs now st')"
  by (simp add: reported_def only_adds_refl)

context rate_source
begin

lemma reported_only_adds:
  assumes "view st0 = None"
  shows "only_adds (reported step fs now st0) (reported step fs now st)"
  using adds_only_rates [OF assms, of fs now st]
proof (elim disjE exE conjE)
  fix base more extra
  assume "fst (step fs now st0) = Inr (base @ more)" "fst (step fs now st) = Inr (base @ extra @ more)" "list_all not_below_zero extra"
  then show ?thesis unfolding only_adds_def reported_def by (intro exI [of _ base] exI [of _ more] exI [of _ extra]) simp
qed (intro only_adds_same, simp)

end

end
