(* ===== verification/Plan9Parse.thy ===== *)
theory Plan9Parse
  imports HostBase "HOL-Library.Product_Lexorder"
begin

text \<open>
  The readers of Plan 9's text files, \<^verbatim>\<open>internal/host/plan9parse.go\<close>, on byte strings, and what
  is computed of them: the memory gauges, the state buckets and the ranking of programs. A Go
  map is an association list with distinct keys; \<open>rng\<close> is the order a range over it takes.
\<close>

section \<open>Lines\<close>

definition first_line :: "string \<Rightarrow> string" where
  "first_line data = takeWhile (\<lambda>c. c \<noteq> newline) data"

text \<open>A line \<open>label: value\<close> with a single number.\<close>

definition label_value :: "string \<Rightarrow> (string \<times> f64) option" where
  "label_value line =
     (case str_cut '':'' line of (label, val, found) \<Rightarrow>
        if \<not> found then None
        else case float_ok (trim_space val) of
            None \<Rightarrow> None
          | Some v \<Rightarrow> Some (trim_space label, v))"

section \<open>Processors\<close>

record sysstat_row =
  sr_id :: int
  sr_ctxt :: f64
  sr_intr :: f64
  sr_syscall :: f64
  sr_fault :: f64
  sr_tlb_fault :: f64
  sr_tlb_purge :: f64
  sr_load :: f64
  sr_idle :: f64
  sr_intr_pct :: f64

record sysstat_totals =
  sy_ncpu :: int
  sy_load :: f64
  sy_idle :: f64
  sy_intr_pct :: f64
  sy_ctxt :: f64
  sy_intr :: f64
  sy_syscall :: f64
  sy_fault :: f64
  sy_tlb_fault :: f64
  sy_tlb_purge :: f64

text \<open>\<open>cvt\<close> is what the platform makes of a number that does not fit an \<open>int\<close>.\<close>

definition sysstat_line :: "(f64 \<Rightarrow> int) \<Rightarrow> string \<Rightarrow> sysstat_row list" where
  "sysstat_line cvt line =
     (let f = str_fields line in
      if length f < 10 then []
      else case those (map float_ok (take 10 f)) of
          None \<Rightarrow> []
        | Some n \<Rightarrow> [\<lparr>sr_id = f64_to_int (- (2 ^ 63)) (2 ^ 63 - 1) cvt (n ! 0), sr_ctxt = n ! 1, sr_intr = n ! 2,
            sr_syscall = n ! 3, sr_fault = n ! 4, sr_tlb_fault = n ! 5, sr_tlb_purge = n ! 6, sr_load = n ! 7,
            sr_idle = n ! 8, sr_intr_pct = n ! 9\<rparr>])"

definition parse_sysstat_rows :: "(f64 \<Rightarrow> int) \<Rightarrow> string \<Rightarrow> sysstat_row list" where
  "parse_sysstat_rows cvt data = concat (map (sysstat_line cvt) (lines_of data))"

definition zero_totals :: sysstat_totals where
  "zero_totals = \<lparr>sy_ncpu = 0, sy_load = Fin 0, sy_idle = Fin 0, sy_intr_pct = Fin 0, sy_ctxt = Fin 0,
     sy_intr = Fin 0, sy_syscall = Fin 0, sy_fault = Fin 0, sy_tlb_fault = Fin 0, sy_tlb_purge = Fin 0\<rparr>"

definition add_row :: "sysstat_row \<Rightarrow> sysstat_totals \<Rightarrow> sysstat_totals" where
  "add_row r t = \<lparr>sy_ncpu = sy_ncpu t + 1, sy_load = fadd (sy_load t) (sr_load r),
     sy_idle = fadd (sy_idle t) (sr_idle r), sy_intr_pct = fadd (sy_intr_pct t) (sr_intr_pct r),
     sy_ctxt = fadd (sy_ctxt t) (sr_ctxt r), sy_intr = fadd (sy_intr t) (sr_intr r),
     sy_syscall = fadd (sy_syscall t) (sr_syscall r), sy_fault = fadd (sy_fault t) (sr_fault r),
     sy_tlb_fault = fadd (sy_tlb_fault t) (sr_tlb_fault r), sy_tlb_purge = fadd (sy_tlb_purge t) (sr_tlb_purge r)\<rparr>"

definition sum_sysstat :: "sysstat_row list \<Rightarrow> sysstat_totals" where
  "sum_sysstat rows = fold add_row rows zero_totals"

section \<open>Sensors\<close>

definition cputemp_line :: "string \<Rightarrow> f64 list" where
  "cputemp_line line =
     (case str_fields line of
        [] \<Rightarrow> []
      | f # _ \<Rightarrow> (case float_ok f of
            None \<Rightarrow> []
          | Some t \<Rightarrow> if flt t (Fin 0) \<or> flt (Fin 150) t then [] else [t]))"

definition parse_cputemp :: "string \<Rightarrow> f64 list" where
  "parse_cputemp data = concat (map cputemp_line (lines_of data))"

fun battery_fields :: "string list \<Rightarrow> f64 option" where
  "battery_fields [] = None"
| "battery_fields (f # fs) =
     (case float_ok f of
        None \<Rightarrow> battery_fields fs
      | Some v \<Rightarrow> if flt v (Fin 0) then None else Some v)"

definition parse_battery :: "string \<Rightarrow> f64 option" where
  "parse_battery data = battery_fields (str_fields (first_line data))"

definition parse_signal :: "string \<Rightarrow> f64 option" where
  "parse_signal data =
     (case cut_prefix ''Signal: '' (first_line data) of
        None \<Rightarrow> None
      | Some rest \<Rightarrow> float_ok (trim_space rest))"

section \<open>Interface statistics\<close>


definition ifstats_line :: "string \<Rightarrow> f64 gomap \<Rightarrow> f64 gomap" where
  "ifstats_line line m =
     (case label_value line of
        None \<Rightarrow> m
      | Some (label, v) \<Rightarrow> if label = [] \<or> label = ''Signal'' then m else AList.update label v m)"

definition parse_ifstats :: "string \<Rightarrow> f64 gomap" where
  "parse_ifstats data = fold ifstats_line (lines_of data) []"

text \<open>
  The range over the runes of the lower-cased label. A byte of a longer rune is not
  alphanumeric, and runs of such bytes collapse as runs of runes do; the Kelvin sign and the
  dotted capital I are the two such runes whose lower case is ASCII.
\<close>

fun metric_chars :: "bool \<Rightarrow> string \<Rightarrow> string" where
  "metric_chars un [] = []"
| "metric_chars un (c # cs) =
     (if has_prefix [CHR 0xE2, CHR 0x84, CHR 0xAA] (c # cs) then CHR ''k'' # metric_chars False (drop 2 cs)
      else if has_prefix [CHR 0xC4, CHR 0xB0] (c # cs) then CHR ''i'' # metric_chars False (drop 1 cs)
      else let l = lower c in
        if 97 \<le> byte l \<and> byte l \<le> 122 \<or> 48 \<le> byte l \<and> byte l \<le> 57 then l # metric_chars False cs
        else if un then metric_chars True cs
        else CHR ''_'' # metric_chars True cs)"

definition trim_of :: "char list \<Rightarrow> string \<Rightarrow> string" where
  "trim_of cs s = trim_right_of cs (dropWhile (\<lambda>c. c \<in> set cs) s)"

definition ifstat_metric :: "string \<Rightarrow> string" where
  "ifstat_metric label =
     (let s = trim_of ''_'' (metric_chars False label) in
      if s = [] then ''unknown''
      else if s \<in> set [''mtu'', ''up'', ''speed_mbps'', ''packets_in'', ''packets_out'', ''errors_in'', ''errors_out'']
        then s @ ''_stat''
      else s)"

section \<open>Memory\<close>

record swap_info =
  sw_mem :: u64
  sw_page :: u64
  sw_user_used :: u64
  sw_user_total :: u64
  sw_swap_used :: u64
  sw_swap_total :: u64
  sw_kmalloc_used :: u64
  sw_kmalloc_total :: u64
  sw_kdraw_used :: u64
  sw_kdraw_total :: u64

definition zero_swap :: swap_info where
  "zero_swap = \<lparr>sw_mem = 0, sw_page = 0, sw_user_used = 0, sw_user_total = 0, sw_swap_used = 0, sw_swap_total = 0,
     sw_kmalloc_used = 0, sw_kmalloc_total = 0, sw_kdraw_used = 0, sw_kdraw_total = 0\<rparr>"

definition parse_u64 :: "string \<Rightarrow> u64" where
  "parse_u64 s = word_of_int (res_val 0 (parse_uint 10 64 s))"

definition parse_fraction :: "string \<Rightarrow> u64 \<times> u64" where
  "parse_fraction s =
     (case str_cut ''/'' s of (a, b, found) \<Rightarrow> if found then (parse_u64 a, parse_u64 b) else (0, 0))"

definition swap_line :: "string \<Rightarrow> swap_info \<Rightarrow> swap_info" where
  "swap_line line s =
     (let f = str_fields line; frac = parse_fraction (hd f) in
      if length f < 2 then s
      else if 3 \<le> length f \<and> f ! (length f - 2) @ '' '' @ last f = ''kernel malloc''
        then s\<lparr>sw_kmalloc_used := fst frac, sw_kmalloc_total := snd frac\<rparr>
      else if 3 \<le> length f \<and> f ! (length f - 2) @ '' '' @ last f = ''kernel draw''
        then s\<lparr>sw_kdraw_used := fst frac, sw_kdraw_total := snd frac\<rparr>
      else if last f = ''memory'' then s\<lparr>sw_mem := parse_u64 (hd f)\<rparr>
      else if last f = ''pagesize'' then s\<lparr>sw_page := parse_u64 (hd f)\<rparr>
      else if last f = ''user'' then s\<lparr>sw_user_used := fst frac, sw_user_total := snd frac\<rparr>
      else if last f = ''swap'' then s\<lparr>sw_swap_used := fst frac, sw_swap_total := snd frac\<rparr>
      else s)"

definition parse_swap :: "string \<Rightarrow> swap_info" where
  "parse_swap data =
     (let s = fold swap_line (lines_of data) zero_swap
      in if sw_page s = 0 then s\<lparr>sw_page := 4096\<rparr> else s)"

definition in_mb :: "u64 \<Rightarrow> f64" where
  "in_mb w = fdiv (f64_of_u64 w) (Fin 1048576)"

definition mem_free :: "swap_info \<Rightarrow> u64" where
  "mem_free s =
     (let free = (if sw_user_used s \<le> sw_user_total s then (sw_user_total s - sw_user_used s) * sw_page s else 0)
      in if sw_mem s < free then sw_mem s else free)"

definition swap_used :: "swap_info \<Rightarrow> u64 \<Rightarrow> u64" where
  "swap_used s cap = (let used = sw_swap_used s * sw_page s in if cap < used then cap else used)"

definition swap_series :: "swap_info \<Rightarrow> u64 \<Rightarrow> int \<Rightarrow> serie list" where
  "swap_series s cap now =
     (let free = mem_free s; used = sw_mem s - free; su = swap_used s cap;
          g = (\<lambda>name v. gauge name now v [])
      in [g ''system.mem.total'' (in_mb (sw_mem s)), g ''system.mem.free'' (in_mb free), g ''system.mem.used'' (in_mb used),
          g ''system.mem.pct_usable'' (fdiv (f64_of_u64 free) (f64_of_u64 (sw_mem s))),
          g ''system.swap.total'' (in_mb cap), g ''system.swap.used'' (in_mb su), g ''system.swap.free'' (in_mb (cap - su))]
       @ (if 0 < cap then [g ''system.swap.pct_free'' (fdiv (f64_of_u64 (cap - su)) (f64_of_u64 cap))] else [])
       @ (if 0 < sw_kmalloc_total s
          then [g ''system.mem.kernel.malloc'' (in_mb (sw_kmalloc_used s)), g ''system.mem.kernel.malloc.max'' (in_mb (sw_kmalloc_total s))]
          else [])
       @ (if 0 < sw_kdraw_total s
          then [g ''system.mem.kernel.draw'' (in_mb (sw_kdraw_used s)), g ''system.mem.kernel.draw.max'' (in_mb (sw_kdraw_total s))]
          else []))"

section \<open>Clocks\<close>

definition parse_uptime :: "string \<Rightarrow> f64" where
  "parse_uptime data =
     (let f = str_fields data in
      if length f < 4 then Fin 0
      else let ticks = float_or_zero (f ! 2); hz = float_or_zero (f ! 3)
        in if fle hz (Fin 0) then Fin 0 else fdiv ticks hz)"

record clock_sample =
  ck_offset :: f64
  ck_avg :: f64
  ck_freq :: f64

text \<open>A sample under construction: each part, once its token was seen.\<close>

definition delta_token :: string where "delta_token = [CHR 0xCE, CHR 0xB4]"

fun clock_fields :: "string list \<Rightarrow> f64 option \<times> f64 option \<times> f64 option \<Rightarrow> f64 option \<times> f64 option \<times> f64 option" where
  "clock_fields (k # x # fs) (off, avg, hz) =
     (let acc = (case float_ok x of
          None \<Rightarrow> (off, avg, hz)
        | Some v \<Rightarrow> if k = delta_token then (Some v, avg, hz)
            else if k = ''avg'' @ delta_token then (off, Some v, hz)
            else if k = ''hz'' then (off, avg, Some v)
            else (off, avg, hz))
      in clock_fields (x # fs) acc)"
| "clock_fields fs acc = acc"

definition timesync_line :: "string \<Rightarrow> clock_sample option \<Rightarrow> clock_sample option" where
  "timesync_line line found =
     (case clock_fields (str_fields line) (None, None, None) of
        (Some off, Some avg, Some hz) \<Rightarrow> Some \<lparr>ck_offset = off, ck_avg = avg, ck_freq = hz\<rparr>
      | _ \<Rightarrow> found)"

definition parse_timesync :: "string \<Rightarrow> clock_sample option" where
  "parse_timesync data = fold timesync_line (lines_of data) None"

section \<open>Network\<close>

record ether_stats =
  es_in :: "f64 option"
  es_out :: "f64 option"
  es_crc :: f64
  es_over :: f64
  es_soft :: f64
  es_framing :: f64
  es_buffer :: f64
  es_output :: f64
  es_link :: "f64 option"
  es_mbps :: "f64 option"

definition zero_ether :: ether_stats where
  "zero_ether = \<lparr>es_in = None, es_out = None, es_crc = Fin 0, es_over = Fin 0, es_soft = Fin 0, es_framing = Fin 0,
     es_buffer = Fin 0, es_output = Fin 0, es_link = None, es_mbps = None\<rparr>"

definition err_total :: "ether_stats \<Rightarrow> f64" where
  "err_total s = fadd (fadd (fadd (fadd (fadd (es_crc s) (es_over s)) (es_soft s)) (es_framing s)) (es_buffer s)) (es_output s)"

definition ether_line :: "string \<Rightarrow> ether_stats \<Rightarrow> ether_stats" where
  "ether_line line s =
     (case label_value line of
        None \<Rightarrow> s
      | Some (label, v) \<Rightarrow>
          if label = ''in'' then s\<lparr>es_in := Some v\<rparr>
          else if label = ''out'' then s\<lparr>es_out := Some v\<rparr>
          else if label = ''crc errs'' then s\<lparr>es_crc := v\<rparr>
          else if label = ''overflows'' then s\<lparr>es_over := v\<rparr>
          else if label = ''soft overflows'' then s\<lparr>es_soft := v\<rparr>
          else if label = ''framing errs'' then s\<lparr>es_framing := v\<rparr>
          else if label = ''buffer errs'' then s\<lparr>es_buffer := v\<rparr>
          else if label = ''output errs'' then s\<lparr>es_output := v\<rparr>
          else if label = ''link'' then s\<lparr>es_link := Some v\<rparr>
          else if label = ''mbps'' then s\<lparr>es_mbps := Some v\<rparr>
          else s)"

definition parse_ether_stats :: "string \<Rightarrow> ether_stats" where
  "parse_ether_stats data = fold ether_line (lines_of data) zero_ether"

definition conn_state :: "string \<Rightarrow> string" where
  "conn_state data = (case str_fields data of [] \<Rightarrow> [] | f # _ \<Rightarrow> f)"

text \<open>\<open>strings.ToLower\<close>; \<open>uni\<close> is the Unicode mapping of a string that is not ASCII.\<close>

definition to_lower :: "(string \<Rightarrow> string) \<Rightarrow> string \<Rightarrow> string" where
  "to_lower uni s = (if list_all (\<lambda>c. byte c < 128) s then map lower s else uni s)"

definition count_one :: "string \<Rightarrow> int gomap \<Rightarrow> int gomap" where
  "count_one k m = AList.update k ((case map_of m k of Some n \<Rightarrow> n | None \<Rightarrow> 0) + 1) m"

definition count_conn_states :: "(string \<Rightarrow> string) \<Rightarrow> string list \<Rightarrow> int gomap" where
  "count_conn_states uni statuses =
     fold (\<lambda>s m. if conn_state s \<noteq> [] then count_one (to_lower uni (conn_state s)) m else m) statuses []"

definition netstats_line :: "string \<Rightarrow> f64 gomap \<Rightarrow> f64 gomap" where
  "netstats_line line m = (case label_value line of None \<Rightarrow> m | Some (label, v) \<Rightarrow> AList.update label v m)"

definition parse_net_stats :: "string \<Rightarrow> f64 gomap" where
  "parse_net_stats data = fold netstats_line (lines_of data) []"

record ipifc_status =
  ip_device :: string
  ip_mtu :: f64
  ip_pktin :: f64
  ip_pktout :: f64
  ip_errin :: f64
  ip_errout :: f64

fun ipifc_fields :: "string list \<Rightarrow> ipifc_status \<Rightarrow> ipifc_status" where
  "ipifc_fields (k # x # fs) s =
     ipifc_fields (x # fs)
       (if k = ''device'' then s\<lparr>ip_device := x\<rparr>
        else if k = ''maxtu'' then s\<lparr>ip_mtu := float_or_zero x\<rparr>
        else if k = ''pktin'' then s\<lparr>ip_pktin := float_or_zero x\<rparr>
        else if k = ''pktout'' then s\<lparr>ip_pktout := float_or_zero x\<rparr>
        else if k = ''errin'' then s\<lparr>ip_errin := float_or_zero x\<rparr>
        else if k = ''errout'' then s\<lparr>ip_errout := float_or_zero x\<rparr>
        else s)"
| "ipifc_fields fs s = s"

definition parse_ipifc_status :: "string \<Rightarrow> ipifc_status option" where
  "parse_ipifc_status data =
     (let s = ipifc_fields (str_fields (first_line data))
        \<lparr>ip_device = [], ip_mtu = Fin 0, ip_pktin = Fin 0, ip_pktout = Fin 0, ip_errin = Fin 0, ip_errout = Fin 0\<rparr>
      in if ip_device s = [] then None else Some s)"

section \<open>Processes\<close>

definition knamelen :: nat where "knamelen = 28"
definition status_num_start :: nat where "status_num_start = 2 * knamelen + 12"

record proc_status =
  ps_name :: string
  ps_state :: string
  ps_mem_kb :: f64

definition parse_proc_status :: "string \<Rightarrow> proc_status option" where
  "parse_proc_status data =
     (if length data < status_num_start then None
      else let nums = str_fields (drop status_num_start data) in
        if length nums < 9 then None
        else case float_ok (nums ! 6) of
            None \<Rightarrow> None
          | Some mem \<Rightarrow> Some \<lparr>ps_name = trim_space (take knamelen data),
              ps_state = trim_space (drop (2 * knamelen) (take status_num_start data)), ps_mem_kb = mem\<rparr>)"

definition share_line :: "string \<Rightarrow> u64 \<Rightarrow> u64" where
  "share_line line n =
     (let f = str_fields line in
      if length f < 4 \<or> hd f \<noteq> ''Data'' \<and> hd f \<noteq> ''Bss'' then n
      else case parse_uint 10 64 (last f) of
          Parsed ref \<Rightarrow> if n < word_of_int ref then word_of_int ref else n
        | _ \<Rightarrow> n)"

definition proc_share_count :: "string \<Rightarrow> u64" where
  "proc_share_count data = fold share_line (lines_of data) 1"

definition proc_state_bucket :: "string \<Rightarrow> string" where
  "proc_state_bucket st =
     (if st \<in> set [''Running'', ''Scheding''] then ''running''
      else if st \<in> set [''Ready'', ''New''] then ''ready''
      else if st \<in> set [''Queueing'', ''QueueingR'', ''QueueingW''] then ''blocked''
      else if st = ''Stopped'' then ''stopped''
      else if st \<in> set [''Moribund'', ''Dead''] then ''zombie''
      else if st = ''Broken'' then ''broken''
      else ''sleeping'')"

definition proc_state_buckets :: "string list" where
  "proc_state_buckets = [''running'', ''ready'', ''sleeping'', ''blocked'', ''stopped'', ''zombie'', ''broken'']"

definition add_mem :: "proc_status \<Rightarrow> f64 gomap \<Rightarrow> f64 gomap" where
  "add_mem p m =
     AList.update (ps_name p) (fadd (case map_of m (ps_name p) of Some x \<Rightarrow> x | None \<Rightarrow> Fin 0) (ps_mem_kb p)) m"

definition more_mem :: "string \<times> f64 \<Rightarrow> string \<times> f64 \<Rightarrow> bool" where
  "more_mem a b = (if \<not> feq (snd a) (snd b) then flt (snd b) (snd a) else fst a < fst b)"

definition top_procs_by_mem ::
  "((string \<times> f64 \<Rightarrow> string \<times> f64 \<Rightarrow> bool) \<Rightarrow> f64 gomap \<Rightarrow> f64 gomap) \<Rightarrow> (f64 gomap \<Rightarrow> f64 gomap)
     \<Rightarrow> proc_status list \<Rightarrow> nat \<Rightarrow> f64 gomap" where
  "top_procs_by_mem srt rng procs n = take n (srt more_mem (rng (fold add_mem procs [])))"

section \<open>Memory adds up\<close>

lemma in_mb_range: "\<exists>r. in_mb w = Fin r \<and> 0 \<le> r"
proof -
  obtain q where q: "f64_of_u64 w = Fin q" "0 \<le> q" "q \<le> 2 ^ 64" using f64_of_u64_range by blast
  then have "q / 1048576 \<le> 2 ^ 64" by (simp add: divide_le_eq)
  from rnd64_mono [OF _ this rnd64_two_64] q show ?thesis by (auto simp: in_mb_def fdiv_def)
qed

lemma mem_free_le: "mem_free s \<le> sw_mem s"
  by (auto simp: mem_free_def Let_def)

lemma swap_used_le: "swap_used s cap \<le> cap"
  by (auto simp: swap_used_def Let_def)

text \<open>
  Memory adds up whatever the kernel reports, even when a page count times the page size
  wraps around: free and used memory sum to the total, used and free swap to the capacity, no
  figure is negative or infinite, and the two ratios are at most one. When the free pages fit the
  total, their exact number of bytes is the free memory.
\<close>

theorem memory_accounts:
  assumes "0 < sw_mem s"
  shows "uint (mem_free s) + uint (sw_mem s - mem_free s) = uint (sw_mem s)
    \<and> uint (swap_used s cap) + uint (cap - swap_used s cap) = uint cap
    \<and> list_all (\<lambda>g. \<exists>v. se_points g = [\<lparr>pt_ts = unix now, pt_value = Fin v\<rparr>] \<and> 0 \<le> v
        \<and> (se_name g \<in> {''system.mem.pct_usable'', ''system.swap.pct_free''} \<longrightarrow> v \<le> 1)) (swap_series s cap now)
    \<and> (sw_user_used s \<le> sw_user_total s \<longrightarrow>
        uint (sw_user_total s - sw_user_used s) * uint (sw_page s) \<le> uint (sw_mem s) \<longrightarrow>
        uint (mem_free s) = (uint (sw_user_total s) - uint (sw_user_used s)) * uint (sw_page s))"
proof -
  have all: "list_all (\<lambda>g. \<exists>v. se_points g = [\<lparr>pt_ts = unix now, pt_value = Fin v\<rparr>] \<and> 0 \<le> v
        \<and> (se_name g \<in> {''system.mem.pct_usable'', ''system.swap.pct_free''} \<longrightarrow> v \<le> 1)) (swap_series s cap now)"
    using in_mb_range part_range [OF mem_free_le assms] part_range [of "cap - swap_used s cap" cap] swap_used_le [of s cap]
    by (auto simp: swap_series_def gauge_def Let_def word_sub_le)
  have "uint (mem_free s) = (uint (sw_user_total s) - uint (sw_user_used s)) * uint (sw_page s)"
    if le: "sw_user_used s \<le> sw_user_total s"
      "uint (sw_user_total s - sw_user_used s) * uint (sw_page s) \<le> uint (sw_mem s)"
  proof -
    have p: "uint ((sw_user_total s - sw_user_used s) * sw_page s) = uint (sw_user_total s - sw_user_used s) * uint (sw_page s)"
      using le(2) uint_lt2p [of "sw_mem s"] by (subst uint_mult_lem [symmetric]) simp
    with le have "mem_free s = (sw_user_total s - sw_user_used s) * sw_page s"
      by (simp add: mem_free_def Let_def word_less_def)
    then have "uint (mem_free s) = uint (sw_user_total s - sw_user_used s) * uint (sw_page s)" using p by metis
    then show ?thesis by (simp add: word_parts [OF le(1), symmetric])
  qed
  then show ?thesis using all word_parts [OF mem_free_le [of s]] word_parts [OF swap_used_le [of s cap]] by blast
qed

theorem memory_accounts_witness:
  "uint (mem_free (zero_swap\<lparr>sw_mem := 1000, sw_page := 2 ^ 63, sw_user_total := 3, sw_user_used := 1\<rparr>)) = 0"
  using memory_accounts [of "zero_swap\<lparr>sw_mem := 1000, sw_page := 2 ^ 63, sw_user_total := 3, sw_user_used := 1\<rparr>" 0 0]
  by (simp add: mem_free_def)

section \<open>The ranking of programs\<close>

text \<open>The summed memory of a program.\<close>

definition program_mem :: "proc_status list \<Rightarrow> string \<Rightarrow> f64" where
  "program_mem procs name = fold (\<lambda>p a. fadd a (ps_mem_kb p)) (filter (\<lambda>p. ps_name p = name) procs) (Fin 0)"

definition mem_key :: "string \<times> f64 \<Rightarrow> (int \<times> rat) \<times> string" where
  "mem_key e = (case snd e of Inf s \<Rightarrow> (if s then 1 else - 1, 0) | Fin q \<Rightarrow> (0, - q) | _ \<Rightarrow> (0, 0), fst e)"

lemma more_mem_key: "snd a \<noteq> NaN \<Longrightarrow> snd b \<noteq> NaN \<Longrightarrow> more_mem a b \<longleftrightarrow> mem_key a < mem_key b"
  by (cases "snd a"; cases "snd b") (auto simp: more_mem_def mem_key_def feq_def flt_def)

lemma add_mem_simps:
  "map_of (add_mem p m) = (map_of m)(ps_name p \<mapsto> fadd (case map_of m (ps_name p) of Some x \<Rightarrow> x | None \<Rightarrow> Fin 0) (ps_mem_kb p))"
  "fst ` set (add_mem p m) = insert (ps_name p) (fst ` set m)"
  "distinct (map fst m) \<Longrightarrow> distinct (map fst (add_mem p m))"
  by (simp_all add: add_mem_def update_conv' dom_update distinct_update)

lemma fold_add_mem_keys:
  "distinct (map fst m) \<Longrightarrow> distinct (map fst (fold add_mem procs m))"
  "fst ` set (fold add_mem procs m) = fst ` set m \<union> ps_name ` set procs"
  by (induction procs arbitrary: m) (auto simp: add_mem_simps)

lemma fold_add_mem_value:
  "map_of (fold add_mem procs m) name =
     (if name \<in> ps_name ` set procs
      then Some (fold (\<lambda>p a. fadd a (ps_mem_kb p)) (filter (\<lambda>p. ps_name p = name) procs)
        (case map_of m name of Some x \<Rightarrow> x | None \<Rightarrow> Fin 0))
      else map_of m name)"
proof (induction procs arbitrary: m)
  case (Cons p procs)
  have "filter (\<lambda>p. ps_name p = name) procs = []" if "name \<notin> ps_name ` set procs"
    using that by (auto simp: filter_empty_conv)
  then show ?case by (cases "name \<in> ps_name ` set procs") (auto simp: Cons.IH add_mem_simps)
qed simp

lemma program_mems:
  "distinct (map fst (fold add_mem procs []))"
  "fst ` set (fold add_mem procs []) = ps_name ` set procs"
  "(name, x) \<in> set (fold add_mem procs []) \<longleftrightarrow> name \<in> ps_name ` set procs \<and> x = program_mem procs name"
proof -
  show d: "distinct (map fst (fold add_mem procs []))" and "fst ` set (fold add_mem procs []) = ps_name ` set procs"
    by (simp_all add: fold_add_mem_keys)
  then have "(name, x) \<in> set (fold add_mem procs []) \<longleftrightarrow> map_of (fold add_mem procs []) name = Some x"
    by simp
  then show "(name, x) \<in> set (fold add_mem procs []) \<longleftrightarrow> name \<in> ps_name ` set procs \<and> x = program_mem procs name"
    by (auto simp: program_mem_def fold_add_mem_value)
qed

lemma fadd_not_below_zero:
  "x \<noteq> NaN \<Longrightarrow> \<not> below_zero x \<Longrightarrow> is_finite y \<Longrightarrow> \<not> below_zero y \<Longrightarrow> fadd x y \<noteq> NaN \<and> \<not> below_zero (fadd x y)"
proof -
  have "rnd64 s q \<noteq> NaN" for s q by (simp add: rnd64_def round_to_def Let_def)
  moreover assume "x \<noteq> NaN" "\<not> below_zero x" "is_finite y" "\<not> below_zero y"
  ultimately show ?thesis by (cases x; cases y) (auto simp: fadd_def)
qed

lemma program_mem_number:
  assumes "\<And>p. p \<in> set procs \<Longrightarrow> is_finite (ps_mem_kb p) \<and> \<not> below_zero (ps_mem_kb p)"
  shows "program_mem procs name \<noteq> NaN"
proof -
  have "program_mem procs name \<noteq> NaN \<and> \<not> below_zero (program_mem procs name)"
    unfolding program_mem_def by (rule fold_invariant) (use assms fadd_not_below_zero in auto)
  then show ?thesis ..
qed

lemma ranked_unique:
  assumes "slice_sorter srt" "\<And>e. e \<in> set xs \<Longrightarrow> snd e \<noteq> NaN" "mset ys = mset xs"
  shows "map mem_key (srt more_mem ys) = sort (map mem_key xs)"
proof -
  have "set ys = set xs" using assms(3) by (metis set_mset_mset)
  then have "map mem_key (srt more_mem ys) = sort (map mem_key ys)"
    using assms(2) by (intro slice_sorter.keys_sorted [OF assms(1)]) (simp add: more_mem_key)
  also have "\<dots> = sort (map mem_key xs)"
    using assms(3) by (intro properties_for_sort) (simp_all add: mset_map)
  finally show ?thesis .
qed

text \<open>
  The ranking shows the programs that use most memory, whatever the order of the map and of
  Go's sort: each program once, with the memory of all its processes, in decreasing order and by
  name among equals; a program is left out only when the table is full of programs before it.
\<close>

theorem top_procs_ranked:
  fixes procs srt rng n
  assumes "slice_sorter srt" "\<And>m. mset (rng m) = mset m"
    and num: "\<And>p. p \<in> set procs \<Longrightarrow> is_finite (ps_mem_kb p) \<and> \<not> below_zero (ps_mem_kb p)"
  defines "best \<equiv> top_procs_by_mem srt rng procs n"
  shows "best = top_procs_by_mem sort_by (\<lambda>m. m) procs n
    \<and> distinct (map fst best) \<and> sorted_wrt more_mem best
    \<and> (\<forall>(name, x) \<in> set best. name \<in> ps_name ` set procs \<and> x = program_mem procs name)
    \<and> (\<forall>name \<in> ps_name ` set procs. name \<notin> fst ` set best \<longrightarrow>
         length best = n \<and> (\<forall>e \<in> set best. more_mem e (name, program_mem procs name)))"
proof -
  let ?m = "fold add_mem procs []"
  let ?all = "srt more_mem (rng ?m)"
  have nan: "snd e \<noteq> NaN" if "e \<in> set ?m" for e
    using that program_mem_number [OF num] program_mems(3) [of "fst e" "snd e" procs] by auto
  have keys: "map mem_key ?all = sort (map mem_key ?m)"
    by (rule ranked_unique) (use assms(1,2) nan in auto)
  have ms: "mset ?all = mset ?m"
    using assms(2) slice_sorter.permutes [OF assms(1)] by simp
  then have st: "set ?all = set ?m" by (metis set_mset_mset)
  have inj: "inj_on mem_key (set ?m)"
  proof (rule inj_onI)
    fix a b assume ab: "a \<in> set ?m" "b \<in> set ?m" "mem_key a = mem_key b"
    then have "fst a = fst b" by (simp add: mem_key_def)
    moreover have "snd e = program_mem procs (fst e)" if "e \<in> set ?m" for e
      using that program_mems(3) [of "fst e" "snd e" procs] by simp
    ultimately show "a = b" using ab(1,2) by (simp add: prod_eq_iff)
  qed
  have same: "?all = sort_by more_mem ?m"
  proof (rule map_inj_on)
    show "map mem_key ?all = map mem_key (sort_by more_mem ?m)"
      unfolding keys using ranked_unique [OF insertion.slice_sorter_axioms nan refl] by simp
    show "inj_on mem_key (set ?all \<union> set (sort_by more_mem ?m))" using inj st by simp
  qed
  have dist: "distinct (map fst ?all)"
    using program_mems(1) [of procs] mset_eq_imp_distinct_iff [of "map fst ?all" "map fst ?m"] ms by simp
  have "sorted (map mem_key ?all)" by (simp add: keys)
  moreover have "distinct (map mem_key ?all)"
    using dist inj st by (simp add: distinct_map)
  ultimately have "sorted_wrt (<) (map mem_key ?all)" by (simp add: strict_sorted_iff)
  then have sorted: "sorted_wrt more_mem ?all"
    unfolding sorted_wrt_map by (rule sorted_wrt_mono_rel [rotated]) (use nan st more_mem_key in blast)
  have out: "length (take n ?all) = n \<and> (\<forall>e \<in> set (take n ?all). more_mem e (name, program_mem procs name))"
    if "name \<in> ps_name ` set procs" "name \<notin> fst ` set (take n ?all)" for name
  proof -
    have "(name, program_mem procs name) \<in> set ?all" using that(1) st program_mems(3) by simp
    then have "(name, program_mem procs name) \<in> set (take n ?all) \<union> set (drop n ?all)"
      by (metis append_take_drop_id set_append)
    then have d: "(name, program_mem procs name) \<in> set (drop n ?all)" using that(2) by force
    then have "n < length ?all" by (metis drop_all empty_iff list.set(1) not_le)
    moreover have "sorted_wrt more_mem (take n ?all @ drop n ?all)" using sorted by simp
    ultimately show ?thesis using d unfolding sorted_wrt_append by auto
  qed
  show ?thesis
    unfolding best_def top_procs_by_mem_def
    using same dist sorted out program_mems(3) st
    by (auto simp: take_map [symmetric] sorted_wrt_take dest: in_set_takeD)
qed

definition procs_example :: "proc_status list" where
  "procs_example = [\<lparr>ps_name = ''a'', ps_state = [], ps_mem_kb = Fin 100\<rparr>, \<lparr>ps_name = ''b'', ps_state = [], ps_mem_kb = Fin 50\<rparr>,
     \<lparr>ps_name = ''a'', ps_state = [], ps_mem_kb = Fin 25\<rparr>, \<lparr>ps_name = ''c'', ps_state = [], ps_mem_kb = Fin 200\<rparr>]"

theorem top_procs_ranked_witness:
  "top_procs_by_mem sort_by rev procs_example 2 = [(''c'', Fin 200), (''a'', Fin 125)]"
proof -
  have "top_procs_by_mem sort_by (\<lambda>m. m) procs_example 2 = [(''c'', Fin 200), (''a'', Fin 125)]" by code_simp
  moreover have "is_finite (ps_mem_kb p) \<and> \<not> below_zero (ps_mem_kb p)" if "p \<in> set procs_example" for p
    using that by (auto simp: procs_example_def)
  from top_procs_ranked [OF insertion.slice_sorter_axioms, of rev, OF _ this]
  have "top_procs_by_mem sort_by rev procs_example 2 = top_procs_by_mem sort_by (\<lambda>m. m) procs_example 2" by simp
  ultimately show ?thesis by simp
qed

section \<open>Reading back what the kernel prints\<close>

definition pad :: "nat \<Rightarrow> string \<Rightarrow> string" where
  "pad n s = s @ replicate (n - length s) CHR '' ''"

definition right_num :: "nat \<Rightarrow> string" where
  "right_num n = replicate (11 - length (fmt_nat n)) CHR '' '' @ fmt_nat n @ '' ''"

text \<open>The line of \<^verbatim>\<open>/proc/N/status\<close>: three columns of text and numbers of twelve bytes.\<close>

definition status_line :: "string \<Rightarrow> string \<Rightarrow> string \<Rightarrow> nat list \<Rightarrow> string" where
  "status_line name user st nums = pad 28 name @ pad 28 user @ pad 12 st @ concat (map right_num nums)"

lemma str_fields_nums: "str_fields (concat (map right_num nums) @ s) = map fmt_nat nums @ str_fields s"
proof -
  have "concat (map right_num nums)
    = concat (map (\<lambda>a. replicate (11 - length a) CHR '' '' @ a @ [CHR '' '']) (map fmt_nat nums))"
    by (simp add: right_num_def [abs_def] comp_def)
  also have "str_fields (\<dots> @ s) = map fmt_nat nums @ str_fields s"
    by (rule str_fields_words) (auto simp: plain_digits)
  finally show ?thesis .
qed

lemma length_pad: "length s \<le> n \<Longrightarrow> length (pad n s) = n"
  by (simp add: pad_def)

lemma trim_pad: "trimmed s \<Longrightarrow> trim_space (pad n s) = s"
  using trim_space_pad [of s "[]" "replicate (n - length s) CHR '' ''"] by (simp add: pad_def)

text \<open>
  The status of a process is read back from its fixed-width line, even when the program's
  name or the user contains spaces: the name, the state and the seventh number, the memory,
  whatever numbers follow.
\<close>

theorem proc_status_roundtrip:
  assumes "length name \<le> 28" "length user \<le> 28" "length st \<le> 12" "trimmed name" "trimmed st"
    and "9 \<le> length nums" "nums ! 6 \<le> 2 ^ 53"
  shows "parse_proc_status (status_line name user st nums @ rest)
    = Some \<lparr>ps_name = name, ps_state = st, ps_mem_kb = Fin (of_nat (nums ! 6))\<rparr>"
proof -
  let ?data = "status_line name user st nums @ rest"
  have len: "length (pad 28 name) = 28" "length (pad 28 user) = 28" "length (pad 12 st) = 12"
    using assms(1-3) by (simp_all add: length_pad)
  have d: "?data = pad 28 name @ pad 28 user @ pad 12 st @ concat (map right_num nums) @ rest"
    by (simp add: status_line_def)
  have "take 28 ?data = pad 28 name" "drop 56 (take 68 ?data) = pad 12 st" "drop 68 ?data = concat (map right_num nums) @ rest"
    unfolding d using len by simp_all
  moreover have "68 \<le> length ?data" unfolding d using len by simp
  moreover have "(map fmt_nat nums @ str_fields rest) ! 6 = fmt_nat (nums ! 6)"
    using assms(6) by (simp add: nth_append)
  ultimately show ?thesis
    using assms(4-7) str_fields_nums [of nums rest]
    by (simp add: parse_proc_status_def Let_def status_num_start_def knamelen_def trim_pad float_ok_def parse_float_fmt_nat)
qed

theorem proc_status_roundtrip_witness:
  "parse_proc_status (status_line ''factotum helper'' ''eve'' ''Idle'' [1, 2, 3, 0, 0, 0, 512, 10, 10] @ [newline])
   = Some \<lparr>ps_name = ''factotum helper'', ps_state = ''Idle'', ps_mem_kb = Fin 512\<rparr>"
proof -
  have "trimmed ''factotum helper''" "trimmed ''Idle''" by code_simp+
  from proc_status_roundtrip [OF _ _ _ this, of "''eve''" "[1, 2, 3, 0, 0, 0, 512, 10, 10]" "[newline]"] show ?thesis by simp
qed

text \<open>A file of \<open>label: value\<close> lines.\<close>

definition stats_line :: "string \<times> nat \<Rightarrow> string" where
  "stats_line kv = fst kv @ '': '' @ fmt_nat (snd kv)"

definition stats_file :: "(string \<times> nat) list \<Rightarrow> string" where
  "stats_file kvs = concat (map (\<lambda>kv. stats_line kv @ [newline]) kvs)"

definition label_ok :: "string \<Rightarrow> bool" where
  "label_ok l \<longleftrightarrow> trimmed l \<and> CHR '':'' \<notin> set l \<and> newline \<notin> set l"

lemma label_value_line:
  assumes "label_ok (fst kv)" "snd kv \<le> 2 ^ 53"
  shows "label_value (stats_line kv) = Some (fst kv, Fin (of_nat (snd kv)))"
proof -
  have "str_cut '':'' (stats_line kv) = (fst kv, '' '' @ fmt_nat (snd kv), True)"
    using cut_present [of "CHR '':''" "fst kv" "'' '' @ fmt_nat (snd kv)"] assms(1)
    by (simp add: stats_line_def label_ok_def)
  moreover have "trimmed (fmt_nat (snd kv))"
    using plain_digits [of "snd kv"] by (auto simp: trimmed_def list_all_iff)
  then have "trim_space ('' '' @ fmt_nat (snd kv)) = fmt_nat (snd kv)"
    using trim_space_pad [of "fmt_nat (snd kv)" "'' ''" "[]"] by simp
  moreover have "trim_space (fst kv) = fst kv"
    using trim_space_pad [of "fst kv" "[]" "[]"] assms(1) by (simp add: label_ok_def)
  ultimately show ?thesis using assms(2) by (simp add: label_value_def float_ok_def parse_float_fmt_nat)
qed

lemma stats_lines: 
  assumes "\<And>kv. kv \<in> set kvs \<Longrightarrow> label_ok (fst kv)"
  shows "lines_of (stats_file kvs) = map stats_line kvs @ [[]]"
proof -
  have "\<not> is_digit_char newline" by code_simp
  then have nl: "newline \<notin> set l" if "l \<in> set (map stats_line kvs)" for l
    using that assms digits_not by (auto simp: stats_line_def label_ok_def)
  have "lines_of (concat (map (\<lambda>l. l @ [newline]) (map stats_line kvs)) @ []) = map stats_line kvs @ lines_of []"
    by (rule lines_of_lines) (rule nl)
  then show ?thesis by (simp add: stats_file_def comp_def lines_of_def)
qed

lemma label_value_Nil [simp]: "label_value [] = None"
  by (simp add: label_value_def)

lemma fold_update_fresh:
  "distinct (map fst kvs) \<Longrightarrow> fst ` set kvs \<inter> fst ` set m = {} \<Longrightarrow> fold (\<lambda>(k, v). AList.update k v) kvs m = m @ kvs"
proof (induction kvs arbitrary: m)
  case (Cons kv kvs)
  have "AList.update (fst kv) (snd kv) m = m @ [kv]" if "fst kv \<notin> fst ` set m"
    using that by (induction m) auto
  with Cons show ?case by (auto simp: case_prod_beta)
qed simp

text \<open>
  A file of counters, one \<open>label: value\<close> per line, is read back whole and in order, as
  long as the labels differ and the values are exact in a double.
\<close>

theorem net_stats_roundtrip:
  assumes "\<And>kv. kv \<in> set kvs \<Longrightarrow> label_ok (fst kv) \<and> snd kv \<le> 2 ^ 53" "distinct (map fst kvs)"
  shows "parse_net_stats (stats_file kvs) = map (\<lambda>(k, n). (k, Fin (of_nat n))) kvs"
proof -
  let ?fs = "map (\<lambda>(k, n). (k, Fin (of_nat n))) kvs"
  have "fold netstats_line (map stats_line kvs) m = fold (\<lambda>(k, v). AList.update k v) ?fs m" for m
    using assms(1) by (induction kvs arbitrary: m) (simp_all add: netstats_line_def label_value_line case_prod_beta)
  moreover have "map fst ?fs = map fst kvs" by (simp add: case_prod_beta)
  then have "fold (\<lambda>(k, v). AList.update k v) ?fs [] = ?fs"
    using fold_update_fresh [of ?fs "[]"] assms(2) by (simp only: list.set image_empty Int_empty_right append_Nil)
  ultimately show ?thesis
    using assms(1) stats_lines [of kvs] by (simp add: parse_net_stats_def netstats_line_def)
qed

theorem net_stats_roundtrip_witness:
  "parse_net_stats (stats_file [(''InSegs'', 9000), (''Out Rsts'', 9)]) = [(''InSegs'', Fin 9000), (''Out Rsts'', Fin 9)]"
proof -
  have "label_ok ''InSegs''" "label_ok ''Out Rsts''" by code_simp+
  then have "label_ok (fst kv) \<and> snd kv \<le> 2 ^ 53" if "kv \<in> set [(''InSegs'', 9000), (''Out Rsts'', 9)]" for kv :: "string \<times> nat"
    using that by auto
  from net_stats_roundtrip [of "[(''InSegs'', 9000), (''Out Rsts'', 9)]", OF this] show ?thesis by simp
qed

section \<open>Metric names of driver labels\<close>

definition metric_char :: "char \<Rightarrow> bool" where
  "metric_char c \<longleftrightarrow> 97 \<le> byte c \<and> byte c \<le> 122 \<or> 48 \<le> byte c \<and> byte c \<le> 57 \<or> c = CHR ''_''"

definition reserved_suffixes :: "string list" where
  "reserved_suffixes = [''mtu'', ''up'', ''speed_mbps'', ''packets_in'', ''packets_out'', ''errors_in'', ''errors_out'']"

lemma metric_chars_clean: "list_all metric_char (metric_chars un s)"
  by (induction un s rule: metric_chars.induct) (auto simp: metric_char_def Let_def byte_def)

lemma trim_of_set: "set (trim_of cs s) \<subseteq> set s"
  by (auto simp: trim_of_def trim_right_of_def dest!: set_dropWhileD)

text \<open>
  The metric name made of a driver's label is never empty, uses lower-case letters, digits
  and underscores only, and is never one of the names the interface gauges use.
\<close>

theorem ifstat_metric_safe:
  "ifstat_metric label \<noteq> [] \<and> list_all metric_char (ifstat_metric label) \<and> ifstat_metric label \<notin> set reserved_suffixes"
proof -
  let ?s = "trim_of ''_'' (metric_chars False label)"
  have "list_all metric_char ?s"
    using metric_chars_clean [of False label] trim_of_set [of "''_''" "metric_chars False label"] by (auto simp: list_all_iff)
  moreover have "list_all metric_char ''unknown''" "list_all metric_char ''_stat''" "''unknown'' \<notin> set reserved_suffixes"
    "\<forall>r \<in> set reserved_suffixes. r @ ''_stat'' \<notin> set reserved_suffixes"
    by code_simp+
  ultimately show ?thesis
    by (simp add: ifstat_metric_def Let_def reserved_suffixes_def)
qed

end
