(* ===== verification/Plan9Collect.thy ===== *)
theory Plan9Collect
  imports Plan9Parse
begin

text \<open>
  The Plan 9 sub-collectors, \<^verbatim>\<open>internal/host/collectors_plan9.go\<close>, in the order the collector
  runs them. Each takes what the file system answers and, where it reports rates, its previous
  reading with its time. The order of every range over a map is a parameter.
\<close>

section \<open>Environment and state\<close>

record iface_counters =
  ic_pktin :: f64
  ic_pktout :: f64
  ic_errin :: f64
  ic_errout :: f64

record plan9_env =
  pe_cvt :: "f64 \<Rightarrow> int"
  pe_uni :: "string \<Rightarrow> string"
  pe_sort :: "(string \<times> f64 \<Rightarrow> string \<times> f64 \<Rightarrow> bool) \<Rightarrow> f64 gomap \<Rightarrow> f64 gomap"
  pe_mem :: "f64 gomap \<Rightarrow> f64 gomap"
  pe_net :: "ether_stats gomap \<Rightarrow> ether_stats gomap"
  pe_net_rates :: "ether_stats gomap \<Rightarrow> ether_stats gomap"
  pe_labels :: "string gomap \<Rightarrow> string gomap"
  pe_proto :: "f64 gomap \<Rightarrow> f64 gomap"
  pe_ifaces :: "iface_counters gomap \<Rightarrow> iface_counters gomap"
  pe_ifstats :: "f64 gomap gomap \<Rightarrow> f64 gomap gomap"
  pe_ifstats_inner :: "f64 gomap \<Rightarrow> f64 gomap"

record plan9_state =
  p9_cpu :: "(sysstat_totals \<times> int) option"
  p9_net :: "(ether_stats gomap \<times> int) option"
  p9_ifstats :: "(f64 gomap gomap \<times> int) option"
  p9_proto :: "(f64 gomap \<times> int) option"
  p9_tables :: "(iface_counters gomap \<times> int) option"

definition plan9_start :: plan9_state where
  "plan9_start = \<lparr>p9_cpu = None, p9_net = None, p9_ifstats = None, p9_proto = None, p9_tables = None\<rparr>"

section \<open>Processors and sensors\<close>

definition cpu_tag :: "int \<Rightarrow> string" where
  "cpu_tag n = ''cpu:'' @ fmt_int n"

definition cpu_rates :: "int \<Rightarrow> sysstat_totals \<Rightarrow> f64 \<Rightarrow> sysstat_totals \<Rightarrow> serie list" where
  "cpu_rates now t dt p =
     rate_gauge ''system.cpu.context_switches'' now [] dt (sy_ctxt t) (sy_ctxt p)
     @ rate_gauge ''system.cpu.interrupts'' now [] dt (sy_intr t) (sy_intr p)
     @ rate_gauge ''system.cpu.syscalls'' now [] dt (sy_syscall t) (sy_syscall p)
     @ rate_gauge ''system.cpu.faults'' now [] dt (sy_fault t) (sy_fault p)
     @ rate_gauge ''system.cpu.tlb_faults'' now [] dt (sy_tlb_fault t) (sy_tlb_fault p)
     @ rate_gauge ''system.cpu.tlb_purges'' now [] dt (sy_tlb_purge t) (sy_tlb_purge p)"

definition cpu_gauges :: "int \<Rightarrow> sysstat_row list \<Rightarrow> serie list" where
  "cpu_gauges now rows =
     (let t = sum_sysstat rows; load = fdiv (sy_load t) (Fin 1000)
      in gauge ''system.cpu.num_cores'' now (f64_of_int (sy_ncpu t)) []
         # concat (map (\<lambda>r. [gauge ''system.cpu.idle'' now (sr_idle r) [cpu_tag (sr_id r)],
             gauge ''system.cpu.intr_pct'' now (sr_intr_pct r) [cpu_tag (sr_id r)]]) rows)
         @ [gauge ''system.load.1'' now load [], gauge ''system.load.norm.1'' now (fdiv load (f64_of_int (sy_ncpu t))) []])"

definition plan9_cpu :: "plan9_env \<Rightarrow> (host_fs, plan9_state) sub_collector" where
  "plan9_cpu env fs now st =
     (case fs_ok (fs_read fs ''/dev/sysstat'') of
        None \<Rightarrow> (Inl ReadFailed, st)
      | Some data \<Rightarrow>
          let rows = parse_sysstat_rows (pe_cvt env) data; t = sum_sysstat rows in
          if rows = [] then (Inr [], st)
          else (Inr (cpu_gauges now rows @ since_last now (p9_cpu st) (cpu_rates now t)), st\<lparr>p9_cpu := Some (t, now)\<rparr>))"

fun tag_temps :: "int \<Rightarrow> int \<Rightarrow> f64 list \<Rightarrow> serie list" where
  "tag_temps now i [] = []"
| "tag_temps now i (t # ts) = gauge ''system.cpu.temp'' now t [cpu_tag i] # tag_temps now (i + 1) ts"

definition plan9_cputemp :: "(host_fs, plan9_state) sub_collector" where
  "plan9_cputemp fs now st =
     (case fs_read fs ''/dev/cputemp'' of
        FsOk data \<Rightarrow> (Inr (tag_temps now 0 (parse_cputemp data)), st)
      | FsMissing \<Rightarrow> (Inr [], st)
      | FsError \<Rightarrow> (Inl ReadFailed, st))"

fun battery_paths :: "host_fs \<Rightarrow> int \<Rightarrow> string list \<Rightarrow> serie list" where
  "battery_paths fs now [] = []"
| "battery_paths fs now (path # paths) =
     (case fs_ok (fs_read fs path) of
        None \<Rightarrow> battery_paths fs now paths
      | Some data \<Rightarrow>
          (case parse_battery data of
             None \<Rightarrow> []
           | Some pct \<Rightarrow> [gauge ''system.battery.pct'' now pct []]))"

definition plan9_battery :: "(host_fs, plan9_state) sub_collector" where
  "plan9_battery fs now st = (Inr (battery_paths fs now [''/mnt/apm/battery'', ''/dev/battery'']), st)"

section \<open>Memory and uptime\<close>

definition swap_capacity :: "host_fs \<Rightarrow> u64" where
  "swap_capacity fs =
     (case fs_ok (fs_read fs ''/env/swap'') of
        None \<Rightarrow> 0
      | Some path \<Rightarrow>
          let p = trim_of [CHR '' '', CHR 0x09, CHR 0x0D, CHR 0x0A, CHR 0x00] path in
          if p = [] then 0
          else case fs_size fs p of None \<Rightarrow> 0 | Some n \<Rightarrow> word_of_int n)"

definition plan9_mem :: "(host_fs, plan9_state) sub_collector" where
  "plan9_mem fs now st =
     (case fs_ok (fs_read fs ''/dev/swap'') of
        None \<Rightarrow> (Inl ReadFailed, st)
      | Some data \<Rightarrow>
          let s = parse_swap data
          in (Inr (if sw_mem s = 0 then [] else swap_series s (swap_capacity fs) now), st))"

definition plan9_uptime :: "(host_fs, plan9_state) sub_collector" where
  "plan9_uptime fs now st =
     (case fs_ok (fs_read fs ''/dev/time'') of
        None \<Rightarrow> (Inl ReadFailed, st)
      | Some data \<Rightarrow>
          let up = parse_uptime data
          in (Inr (if fle up (Fin 0) then [] else [gauge ''system.uptime'' now up []]), st))"

section \<open>Network\<close>

definition ether_interfaces :: "host_fs \<Rightarrow> string list option" where
  "ether_interfaces fs = map_option (filter (has_prefix ''ether'')) (fs_ok (fs_dir fs ''/net''))"

definition device_tag :: "string \<Rightarrow> string" where
  "device_tag ifc = ''device:'' @ ifc"

definition read_iface :: "host_fs \<Rightarrow> string \<Rightarrow> ether_stats gomap \<Rightarrow> ether_stats gomap" where
  "read_iface fs ifc cur =
     (case fs_ok (fs_read fs (''/net/'' @ ifc @ ''/stats'')) of
        None \<Rightarrow> cur
      | Some data \<Rightarrow> AList.update ifc (parse_ether_stats data) cur)"

definition opt_gauge :: "string \<Rightarrow> int \<Rightarrow> string list \<Rightarrow> f64 option \<Rightarrow> serie list" where
  "opt_gauge name now tags v = (case v of None \<Rightarrow> [] | Some x \<Rightarrow> [gauge name now x tags])"

definition opt_rate :: "string \<Rightarrow> int \<Rightarrow> string list \<Rightarrow> f64 \<Rightarrow> f64 option \<Rightarrow> f64 option \<Rightarrow> serie list" where
  "opt_rate name now tags dt cur prev =
     (case (cur, prev) of (Some c, Some p) \<Rightarrow> rate_gauge name now tags dt c p | _ \<Rightarrow> [])"

definition net_gauges :: "int \<Rightarrow> string \<times> ether_stats \<Rightarrow> serie list" where
  "net_gauges now e =
     opt_gauge ''system.net.iface.up'' now [device_tag (fst e)] (es_link (snd e))
     @ opt_gauge ''system.net.iface.speed_mbps'' now [device_tag (fst e)] (es_mbps (snd e))"

definition net_rates :: "int \<Rightarrow> f64 \<Rightarrow> ether_stats gomap \<Rightarrow> string \<times> ether_stats \<Rightarrow> serie list" where
  "net_rates now dt prev e =
     (case map_of prev (fst e) of
        None \<Rightarrow> []
      | Some p \<Rightarrow>
          let c = snd e; tags = [device_tag (fst e)]
          in opt_rate ''system.net.packets_in.count'' now tags dt (es_in c) (es_in p)
             @ opt_rate ''system.net.packets_out.count'' now tags dt (es_out c) (es_out p)
             @ rate_gauge ''system.net.errors.count'' now tags dt (err_total c) (err_total p))"

definition plan9_net :: "plan9_env \<Rightarrow> (host_fs, plan9_state) sub_collector" where
  "plan9_net env fs now st =
     (case ether_interfaces fs of
        None \<Rightarrow> (Inl ReadFailed, st)
      | Some ifaces \<Rightarrow>
          let cur = fold (read_iface fs) ifaces []
          in (Inr (concat (map (net_gauges now) (pe_net env cur))
                @ since_last now (p9_net st) (\<lambda>dt prev. concat (map (net_rates now dt prev) (pe_net_rates env cur)))),
              st\<lparr>p9_net := Some (cur, now)\<rparr>))"

definition read_ifstats :: "host_fs \<Rightarrow> int \<Rightarrow> string \<Rightarrow> serie list \<times> f64 gomap gomap \<Rightarrow> serie list \<times> f64 gomap gomap" where
  "read_ifstats fs now ifc acc =
     (case fs_ok (fs_read fs (''/net/'' @ ifc @ ''/ifstats'')) of
        None \<Rightarrow> acc
      | Some data \<Rightarrow>
          let m = parse_ifstats data
          in (fst acc @ opt_gauge ''system.net.wifi.signal'' now [device_tag ifc] (parse_signal data),
              if m = [] then snd acc else AList.update ifc m (snd acc)))"

definition label_rate :: "int \<Rightarrow> string list \<Rightarrow> f64 \<Rightarrow> f64 gomap \<Rightarrow> string \<times> f64 \<Rightarrow> serie list" where
  "label_rate now tags dt prev e =
     (case map_of prev (fst e) of
        None \<Rightarrow> []
      | Some p \<Rightarrow> rate_gauge (''system.net.iface.'' @ ifstat_metric (fst e)) now tags dt (snd e) p)"

definition ifstats_rates :: "plan9_env \<Rightarrow> int \<Rightarrow> f64 \<Rightarrow> f64 gomap gomap \<Rightarrow> string \<times> f64 gomap \<Rightarrow> serie list" where
  "ifstats_rates env now dt prev e =
     (case map_of prev (fst e) of
        None \<Rightarrow> []
      | Some p \<Rightarrow> concat (map (label_rate now [device_tag (fst e)] dt p) (pe_ifstats_inner env (snd e))))"

definition plan9_ifstats :: "plan9_env \<Rightarrow> (host_fs, plan9_state) sub_collector" where
  "plan9_ifstats env fs now st =
     (case ether_interfaces fs of
        None \<Rightarrow> (Inr [], st)
      | Some ifaces \<Rightarrow>
          let (out, cur) = fold (read_ifstats fs now) ifaces ([], [])
          in (Inr (out @ since_last now (p9_ifstats st)
                (\<lambda>dt prev. concat (map (ifstats_rates env now dt prev) (pe_ifstats env cur)))),
              st\<lparr>p9_ifstats := Some (cur, now)\<rparr>))"

section \<open>Connections and protocols\<close>

definition all_digits :: "string \<Rightarrow> bool" where
  "all_digits s \<longleftrightarrow> s \<noteq> [] \<and> list_all is_digit_char s"

definition numbered :: "string list \<Rightarrow> string list" where
  "numbered = filter all_digits"

definition read_all :: "host_fs \<Rightarrow> (string \<Rightarrow> string) \<Rightarrow> string list \<Rightarrow> string list" where
  "read_all fs path entries = List.map_filter (\<lambda>e. fs_ok (fs_read fs (path e))) entries"

definition tcp_conn_state_names :: "string list" where
  "tcp_conn_state_names = [''listen'', ''syn_sent'', ''syn_received'', ''finwait1'', ''finwait2'', ''close_wait'',
     ''closing'', ''last_ack'', ''time_wait'']"

definition map_count :: "int gomap \<Rightarrow> string \<Rightarrow> int" where
  "map_count m k = (case map_of m k of Some n \<Rightarrow> n | None \<Rightarrow> 0)"

definition plan9_tcp_conns :: "plan9_env \<Rightarrow> (host_fs, plan9_state) sub_collector" where
  "plan9_tcp_conns env fs now st =
     (case fs_dir fs ''/net/tcp'' of
        FsMissing \<Rightarrow> (Inr [], st)
      | FsError \<Rightarrow> (Inl ReadFailed, st)
      | FsOk entries \<Rightarrow>
          let statuses = read_all fs (\<lambda>e. ''/net/tcp/'' @ e @ ''/status'') (numbered entries);
              counts = count_conn_states (pe_uni env) statuses
          in (Inr (map (\<lambda>name. gauge (''system.net.tcp.'' @ name) now (f64_of_int (map_count counts name)) []) tcp_conn_state_names), st))"

record proto_source =
  px_path :: string
  px_prefix :: string
  px_labels :: "string gomap"
  px_gauges :: "string gomap"

definition net_proto_sources :: "proto_source list" where
  "net_proto_sources =
    [\<lparr>px_path = ''/net/ipifc/stats'', px_prefix = ''system.net.ip.'', px_labels =
       [(''InReceives'', ''in_receives''), (''InHdrErrors'', ''in_header_errors''), (''InAddrErrors'', ''in_addr_errors''),
        (''ForwDatagrams'', ''forwarded_datagrams''), (''InUnknownProtos'', ''in_unknown_protos''), (''InDiscards'', ''in_discards''),
        (''InDelivers'', ''in_delivers''), (''OutRequests'', ''out_requests''), (''OutDiscards'', ''out_discards''),
        (''OutNoRoutes'', ''out_no_routes''), (''ReasmTimeout'', ''reassembly_timeouts''), (''ReasmReqds'', ''reassembly_requests''),
        (''ReasmOKs'', ''reassembly_oks''), (''ReasmFails'', ''reassembly_fails''), (''FragOKs'', ''fragmentation_oks''),
        (''FragFails'', ''fragmentation_fails''), (''FragCreates'', ''fragmentation_creates'')], px_gauges = []\<rparr>,
     \<lparr>px_path = ''/net/icmp/stats'', px_prefix = ''system.net.icmp.'', px_labels =
       [(''InMsgs'', ''in_msgs''), (''InErrors'', ''in_errors''), (''OutMsgs'', ''out_msgs''), (''CsumErrs'', ''csum_errs''),
        (''LenErrs'', ''len_errs''), (''HlenErrs'', ''hlen_errs'')], px_gauges = []\<rparr>,
     \<lparr>px_path = ''/net/udp/stats'', px_prefix = ''system.net.udp.'', px_labels =
       [(''InDatagrams'', ''in_datagrams''), (''NoPorts'', ''no_ports''), (''InErrors'', ''in_errors''), (''OutDatagrams'', ''out_datagrams'')],
       px_gauges = []\<rparr>,
     \<lparr>px_path = ''/net/tcp/stats'', px_prefix = ''system.net.tcp.'', px_labels =
       [(''InSegs'', ''in_segs''), (''OutSegs'', ''out_segs''), (''RetransSegs'', ''retrans_segs''), (''RetransTimeouts'', ''retrans_timeouts''),
        (''EstabResets'', ''established_resets''), (''InErrs'', ''in_errors''), (''ActiveOpens'', ''active_opens''),
        (''PassiveOpens'', ''passive_opens''), (''OutRsts'', ''out_resets'')],
       px_gauges = [(''CurrEstab'', ''current_established''), (''InLimbo'', ''in_limbo'')]\<rparr>]"

definition proto_counter :: "string \<Rightarrow> f64 gomap \<Rightarrow> string \<times> string \<Rightarrow> f64 gomap \<Rightarrow> f64 gomap" where
  "proto_counter prefix stats ls cur =
     (case map_of stats (fst ls) of None \<Rightarrow> cur | Some v \<Rightarrow> AList.update (prefix @ snd ls) v cur)"

definition proto_gauge :: "string \<Rightarrow> f64 gomap \<Rightarrow> int \<Rightarrow> string \<times> string \<Rightarrow> serie list" where
  "proto_gauge prefix stats now ls = opt_gauge (prefix @ snd ls) now [] (map_of stats (fst ls))"

definition read_proto :: "plan9_env \<Rightarrow> host_fs \<Rightarrow> int \<Rightarrow> proto_source \<Rightarrow> serie list \<times> f64 gomap \<Rightarrow> serie list \<times> f64 gomap" where
  "read_proto env fs now src acc =
     (case fs_ok (fs_read fs (px_path src)) of
        None \<Rightarrow> acc
      | Some data \<Rightarrow>
          let stats = parse_net_stats data
          in (fst acc @ concat (map (proto_gauge (px_prefix src) stats now) (pe_labels env (px_gauges src))),
              fold (proto_counter (px_prefix src) stats) (pe_labels env (px_labels src)) (snd acc)))"

definition name_rate :: "int \<Rightarrow> f64 \<Rightarrow> f64 gomap \<Rightarrow> string \<times> f64 \<Rightarrow> serie list" where
  "name_rate now dt prev e =
     (case map_of prev (fst e) of None \<Rightarrow> [] | Some p \<Rightarrow> rate_gauge (fst e) now [] dt (snd e) p)"

definition plan9_net_proto :: "plan9_env \<Rightarrow> (host_fs, plan9_state) sub_collector" where
  "plan9_net_proto env fs now st =
     (let (out, cur) = fold (read_proto env fs now) net_proto_sources ([], [])
      in (Inr (out @ since_last now (p9_proto st) (\<lambda>dt prev. concat (map (name_rate now dt prev) (pe_proto env cur)))),
          st\<lparr>p9_proto := Some (cur, now)\<rparr>))"

section \<open>Interface and table sizes\<close>

definition iface_device :: "string \<Rightarrow> string" where
  "iface_device d0 =
     (let d = trim_prefix ''#'' (after_last_slash (trim_right_of ''/'' d0))
      in if d = [] then ''unknown'' else d)"

definition count_lines :: "host_fs \<Rightarrow> string \<Rightarrow> int option" where
  "count_lines fs path =
     map_option (\<lambda>data. int (length (filter (\<lambda>l. trim_space l \<noteq> []) (lines_of data)))) (fs_ok (fs_read fs path))"

definition read_ipifc :: "host_fs \<Rightarrow> int \<Rightarrow> string \<Rightarrow> serie list \<times> iface_counters gomap \<Rightarrow> serie list \<times> iface_counters gomap" where
  "read_ipifc fs now e acc =
     (case fs_ok (fs_read fs (''/net/ipifc/'' @ e @ ''/status'')) of
        None \<Rightarrow> acc
      | Some data \<Rightarrow>
          (case parse_ipifc_status data of
             None \<Rightarrow> acc
           | Some s \<Rightarrow>
               let name = iface_device (ip_device s) in
               if name = ''null'' then acc
               else (fst acc @ (if flt (Fin 0) (ip_mtu s) then [gauge ''system.net.iface.mtu'' now (ip_mtu s) [device_tag name]] else []),
                     AList.update (ip_device s) \<lparr>ic_pktin = ip_pktin s, ic_pktout = ip_pktout s, ic_errin = ip_errin s,
                       ic_errout = ip_errout s\<rparr> (snd acc))))"

definition table_rates :: "int \<Rightarrow> f64 \<Rightarrow> iface_counters gomap \<Rightarrow> string \<times> iface_counters \<Rightarrow> serie list" where
  "table_rates now dt prev e =
     (case map_of prev (fst e) of
        None \<Rightarrow> []
      | Some p \<Rightarrow>
          let cc = snd e; tags = [device_tag (iface_device (fst e))]
          in rate_gauge ''system.net.iface.packets_in'' now tags dt (ic_pktin cc) (ic_pktin p)
             @ rate_gauge ''system.net.iface.packets_out'' now tags dt (ic_pktout cc) (ic_pktout p)
             @ rate_gauge ''system.net.iface.errors_in'' now tags dt (ic_errin cc) (ic_errin p)
             @ rate_gauge ''system.net.iface.errors_out'' now tags dt (ic_errout cc) (ic_errout p))"

definition count_gauge :: "string \<Rightarrow> int \<Rightarrow> int option \<Rightarrow> serie list" where
  "count_gauge name now n = opt_gauge name now [] (map_option f64_of_int n)"

definition plan9_net_tables :: "plan9_env \<Rightarrow> (host_fs, plan9_state) sub_collector" where
  "plan9_net_tables env fs now st =
     (let entries = (case fs_ok (fs_dir fs ''/net/ipifc'') of Some es \<Rightarrow> numbered es | None \<Rightarrow> []);
          (out, cur) = fold (read_ipifc fs now) entries ([], [])
      in (Inr (out
            @ since_last now (p9_tables st) (\<lambda>dt prev. concat (map (table_rates now dt prev) (pe_ifaces env cur)))
            @ count_gauge ''system.net.iproute.count'' now (count_lines fs ''/net/iproute'')
            @ count_gauge ''system.net.arp.entries'' now (count_lines fs ''/net/arp'')),
          st\<lparr>p9_tables := Some (cur, now)\<rparr>))"

section \<open>Processes\<close>

definition proc_top_n :: nat where "proc_top_n = 20"

text \<open>The memory of one process: its share of the address space, when its segments can be read.\<close>

definition proc_of :: "host_fs \<Rightarrow> string \<Rightarrow> proc_status option" where
  "proc_of fs e =
     (case fs_ok (fs_read fs (''/proc/'' @ e @ ''/status'')) of
        None \<Rightarrow> None
      | Some data \<Rightarrow>
          (case parse_proc_status data of
             None \<Rightarrow> None
           | Some ps \<Rightarrow> Some
               (case fs_ok (fs_read fs (''/proc/'' @ e @ ''/segment'')) of
                  None \<Rightarrow> ps
                | Some seg \<Rightarrow> ps\<lparr>ps_mem_kb := fdiv (ps_mem_kb ps) (f64_of_u64 (proc_share_count seg))\<rparr>)))"

definition plan9_proc :: "plan9_env \<Rightarrow> (host_fs, plan9_state) sub_collector" where
  "plan9_proc env fs now st =
     (case fs_ok (fs_dir fs ''/proc'') of
        None \<Rightarrow> (Inl ReadFailed, st)
      | Some entries \<Rightarrow>
          let procs = List.map_filter (proc_of fs) (numbered entries);
              total = fold (\<lambda>p a. fadd a (ps_mem_kb p)) procs (Fin 0);
              by_state = fold (\<lambda>p. count_one (proc_state_bucket (ps_state p))) procs []
          in (Inr (gauge ''system.proc.memory.total'' now (fdiv total (Fin 1024)) []
                # map (\<lambda>b. gauge ''system.proc.count'' now (f64_of_int (map_count by_state b)) [''state:'' @ b]) proc_state_buckets
                @ map (\<lambda>e. gauge ''system.proc.memory'' now (fdiv (snd e) (Fin 1024)) [''proc:'' @ fst e])
                    (top_procs_by_mem (pe_sort env) (pe_mem env) procs proc_top_n)), st))"

section \<open>Clock and name space\<close>

text \<open>\<open>readTail\<close>: the size is that of the open, the bytes those of the read.\<close>

definition read_tail :: "nat \<times> string \<Rightarrow> nat \<Rightarrow> string" where
  "read_tail file n =
     (case file of (sz, content) \<Rightarrow>
        let off = (if n < sz then sz - n else 0) in take (sz - off) (drop off content))"

definition plan9_clock :: "(host_fs, plan9_state) sub_collector" where
  "plan9_clock fs now st =
     (case fs_log fs ''/sys/log/timesync'' of
        None \<Rightarrow> (Inr [], st)
      | Some file \<Rightarrow>
          (case parse_timesync (read_tail file 4096) of
             None \<Rightarrow> (Inr [], st)
           | Some s \<Rightarrow> (Inr [gauge ''system.clock.offset'' now (ck_offset s) [], gauge ''system.clock.offset_avg'' now (ck_avg s) [],
               gauge ''system.clock.frequency'' now (ck_freq s) []], st)))"

definition count_dir_entries :: "host_fs \<Rightarrow> string \<Rightarrow> int option" where
  "count_dir_entries fs path = map_option (\<lambda>es. int (length es)) (fs_ok (fs_dir fs path))"

definition plan9_srv_mnt :: "(host_fs, plan9_state) sub_collector" where
  "plan9_srv_mnt fs now st =
     (Inr (count_gauge ''system.srv.count'' now (count_dir_entries fs ''/srv'')
        @ count_gauge ''system.mnt.count'' now (count_dir_entries fs ''/mnt'')), st)"

definition plan9_collectors :: "plan9_env \<Rightarrow> (host_fs, plan9_state) sub_collector list" where
  "plan9_collectors env =
     [plan9_cpu env, plan9_cputemp, plan9_battery, plan9_mem, plan9_uptime, plan9_net env, plan9_ifstats env,
      plan9_tcp_conns env, plan9_net_proto env, plan9_net_tables env, plan9_proc env, plan9_clock, plan9_srv_mnt]"

section \<open>The rates as instances of the contract\<close>

definition cpu_rows :: "plan9_env \<Rightarrow> host_fs \<Rightarrow> sysstat_row list" where
  "cpu_rows env fs = (case fs_ok (fs_read fs ''/dev/sysstat'') of None \<Rightarrow> [] | Some data \<Rightarrow> parse_sysstat_rows (pe_cvt env) data)"

definition cpu_reading :: "plan9_env \<Rightarrow> host_fs \<Rightarrow> sysstat_totals option" where
  "cpu_reading env fs = (if cpu_rows env fs = [] then None else Some (sum_sysstat (cpu_rows env fs)))"

definition net_reading :: "host_fs \<Rightarrow> ether_stats gomap option" where
  "net_reading fs = map_option (\<lambda>ifaces. fold (read_iface fs) ifaces []) (ether_interfaces fs)"

definition ifstats_map :: "host_fs \<Rightarrow> string list \<Rightarrow> f64 gomap gomap" where
  "ifstats_map fs ifaces = snd (fold (read_ifstats fs 0) ifaces ([], []))"

definition proto_map :: "plan9_env \<Rightarrow> host_fs \<Rightarrow> proto_source list \<Rightarrow> f64 gomap" where
  "proto_map env fs srcs = snd (fold (read_proto env fs 0) srcs ([], []))"

definition ipifc_map :: "host_fs \<Rightarrow> string list \<Rightarrow> iface_counters gomap" where
  "ipifc_map fs es = snd (fold (read_ipifc fs 0) es ([], []))"

definition ifstats_reading :: "host_fs \<Rightarrow> f64 gomap gomap option" where
  "ifstats_reading fs = map_option (ifstats_map fs) (ether_interfaces fs)"

definition proto_reading :: "plan9_env \<Rightarrow> host_fs \<Rightarrow> f64 gomap" where
  "proto_reading env fs = proto_map env fs net_proto_sources"

definition ipifc_entries :: "host_fs \<Rightarrow> string list" where
  "ipifc_entries fs = (case fs_ok (fs_dir fs ''/net/ipifc'') of Some es \<Rightarrow> numbered es | None \<Rightarrow> [])"

definition tables_reading :: "host_fs \<Rightarrow> iface_counters gomap" where
  "tables_reading fs = ipifc_map fs (ipifc_entries fs)"

text \<open>What is read does not depend on the time it is reported with.\<close>

lemma fold_snd_indep:
  assumes "\<And>x a b. snd a = snd b \<Longrightarrow> snd (f x a) = snd (g x b)"
  shows "snd a = snd b \<Longrightarrow> snd (fold f xs a) = snd (fold g xs b)"
  using assms by (induction xs arbitrary: a b) (auto dest: meta_spec)

lemma readings_timeless:
  "snd (fold (read_ifstats fs now) xs ([], [])) = ifstats_map fs xs"
  "snd (fold (read_proto env fs now) srcs ([], [])) = proto_map env fs srcs"
  "snd (fold (read_ipifc fs now) es ([], [])) = ipifc_map fs es"
  unfolding ifstats_map_def proto_map_def ipifc_map_def
  by (rule fold_snd_indep; simp add: read_ifstats_def read_proto_def read_ipifc_def Let_def split: option.split)+

lemma opt_rate_not_below_zero:
  "flt (Fin 0) dt \<Longrightarrow> s \<in> set (opt_rate name now tags dt cur prev) \<Longrightarrow> not_below_zero s"
  by (auto simp: opt_rate_def intro: rate_gauge_not_below_zero split: option.splits)

lemmas rate_parts = cpu_rates_def net_rates_def ifstats_rates_def label_rate_def name_rate_def table_rates_def Let_def

lemma parts_not_below_zero:
  assumes "flt (Fin 0) dt"
  shows "s \<in> set (cpu_rates now t dt p) \<Longrightarrow> not_below_zero s"
    "s \<in> set (net_rates now dt prev e) \<Longrightarrow> not_below_zero s"
    "s \<in> set (ifstats_rates env now dt prevs es) \<Longrightarrow> not_below_zero s"
    "s \<in> set (name_rate now dt prevn en) \<Longrightarrow> not_below_zero s"
    "s \<in> set (table_rates now dt prevt et) \<Longrightarrow> not_below_zero s"
  using rate_gauge_not_below_zero [OF assms] opt_rate_not_below_zero [OF assms]
  by (auto simp: rate_parts split: option.splits)

interpretation cpu: rate_source "plan9_cpu env" p9_cpu "cpu_reading env" "\<lambda>fs now. cpu_gauges now (cpu_rows env fs)"
  "\<lambda>fs now. cpu_rates now (sum_sysstat (cpu_rows env fs))" "\<lambda>_ _. []" for env
  apply unfold_locales
  subgoal by (auto simp: timed_def plan9_cpu_def cpu_reading_def cpu_rows_def Let_def split: option.splits if_splits)
  subgoal by (auto simp: timed_def plan9_cpu_def cpu_reading_def cpu_rows_def Let_def split: option.splits)
  subgoal by (auto simp: timed_def plan9_cpu_def cpu_reading_def cpu_rows_def Let_def split: option.splits if_splits)
  subgoal using parts_not_below_zero(1) by auto
  done


interpretation net: rate_source "plan9_net env" p9_net net_reading
  "\<lambda>fs now. concat (map (net_gauges now) (pe_net env (the (net_reading fs))))"
  "\<lambda>fs now dt prev. concat (map (net_rates now dt prev) (pe_net_rates env (the (net_reading fs))))" "\<lambda>_ _. []" for env
  apply unfold_locales
  subgoal by (auto simp: timed_def plan9_net_def net_reading_def Let_def split: option.splits)
  subgoal by (auto simp: timed_def plan9_net_def net_reading_def Let_def split: option.splits)
  subgoal by (auto simp: timed_def plan9_net_def net_reading_def Let_def split: option.splits)
  subgoal using parts_not_below_zero(2) by auto
  done


interpretation ifstats: rate_source "plan9_ifstats env" p9_ifstats ifstats_reading
  "\<lambda>fs now. fst (fold (read_ifstats fs now) (the (ether_interfaces fs)) ([], []))"
  "\<lambda>fs now dt prev. concat (map (ifstats_rates env now dt prev) (pe_ifstats env (the (ifstats_reading fs))))" "\<lambda>_ _. []" for env
  apply unfold_locales
  subgoal by (auto simp: timed_def plan9_ifstats_def ifstats_reading_def case_prod_beta readings_timeless split: option.splits)
  subgoal by (auto simp: timed_def plan9_ifstats_def ifstats_reading_def case_prod_beta readings_timeless split: option.splits)
  subgoal by (auto simp: timed_def plan9_ifstats_def ifstats_reading_def case_prod_beta readings_timeless split: option.splits)
  subgoal using parts_not_below_zero(3) by auto
  done


interpretation proto: rate_source "plan9_net_proto env" p9_proto "\<lambda>fs. Some (proto_reading env fs)"
  "\<lambda>fs now. fst (fold (read_proto env fs now) net_proto_sources ([], []))"
  "\<lambda>fs now dt prev. concat (map (name_rate now dt prev) (pe_proto env (proto_reading env fs)))" "\<lambda>_ _. []" for env
  apply unfold_locales
  subgoal by (simp add: timed_def plan9_net_proto_def proto_reading_def case_prod_beta readings_timeless split: option.splits)
  subgoal by (auto simp: timed_def plan9_net_proto_def proto_reading_def case_prod_beta readings_timeless split: option.splits)
  subgoal by (simp add: timed_def plan9_net_proto_def proto_reading_def case_prod_beta readings_timeless split: option.splits)
  subgoal using parts_not_below_zero(4) by auto
  done


interpretation tables: rate_source "plan9_net_tables env" p9_tables "\<lambda>fs. Some (tables_reading fs)"
  "\<lambda>fs now. fst (fold (read_ipifc fs now) (ipifc_entries fs) ([], []))"
  "\<lambda>fs now dt prev. concat (map (table_rates now dt prev) (pe_ifaces env (tables_reading fs)))"
  "\<lambda>fs now. count_gauge ''system.net.iproute.count'' now (count_lines fs ''/net/iproute'')
     @ count_gauge ''system.net.arp.entries'' now (count_lines fs ''/net/arp'')" for env
  apply unfold_locales
  subgoal by (simp add: timed_def plan9_net_tables_def tables_reading_def ipifc_entries_def case_prod_beta readings_timeless Let_def split: option.splits)
  subgoal by (auto simp: timed_def plan9_net_tables_def tables_reading_def ipifc_entries_def case_prod_beta readings_timeless Let_def split: option.splits)
  subgoal by (simp add: timed_def plan9_net_tables_def tables_reading_def ipifc_entries_def case_prod_beta readings_timeless Let_def split: option.splits)
  subgoal using parts_not_below_zero(5) by auto
  done


section \<open>The collectors do not disturb each other\<close>

lemma stateless_snd [frame]:
  "snd (plan9_cputemp fs now st) = st" "snd (plan9_battery fs now st) = st" "snd (plan9_mem fs now st) = st"
  "snd (plan9_uptime fs now st) = st" "snd (plan9_tcp_conns env fs now st) = st" "snd (plan9_proc env fs now st) = st"
  "snd (plan9_clock fs now st) = st" "snd (plan9_srv_mnt fs now st) = st"
  by (auto simp: plan9_cputemp_def plan9_battery_def plan9_mem_def plan9_uptime_def plan9_tcp_conns_def plan9_proc_def
      plan9_clock_def plan9_srv_mnt_def Let_def split: option.split fs_result.split)

lemma stateless_fst:
  "fst (plan9_cputemp fs now st) = fst (plan9_cputemp fs now st')" "fst (plan9_battery fs now st) = fst (plan9_battery fs now st')"
  "fst (plan9_mem fs now st) = fst (plan9_mem fs now st')" "fst (plan9_uptime fs now st) = fst (plan9_uptime fs now st')"
  "fst (plan9_tcp_conns env fs now st) = fst (plan9_tcp_conns env fs now st')" "fst (plan9_proc env fs now st) = fst (plan9_proc env fs now st')"
  "fst (plan9_clock fs now st) = fst (plan9_clock fs now st')" "fst (plan9_srv_mnt fs now st) = fst (plan9_srv_mnt fs now st')"
  by (auto simp: plan9_cputemp_def plan9_battery_def plan9_mem_def plan9_uptime_def plan9_tcp_conns_def plan9_proc_def
      plan9_clock_def plan9_srv_mnt_def Let_def split: option.split fs_result.split)

lemma plan9_frames [frame]:
  "p9_net (snd (plan9_cpu env fs now st)) = p9_net st" "p9_ifstats (snd (plan9_cpu env fs now st)) = p9_ifstats st"
  "p9_proto (snd (plan9_cpu env fs now st)) = p9_proto st" "p9_tables (snd (plan9_cpu env fs now st)) = p9_tables st"
  "p9_cpu (snd (plan9_net env fs now st)) = p9_cpu st" "p9_ifstats (snd (plan9_net env fs now st)) = p9_ifstats st"
  "p9_proto (snd (plan9_net env fs now st)) = p9_proto st" "p9_tables (snd (plan9_net env fs now st)) = p9_tables st"
  "p9_cpu (snd (plan9_ifstats env fs now st)) = p9_cpu st" "p9_net (snd (plan9_ifstats env fs now st)) = p9_net st"
  "p9_proto (snd (plan9_ifstats env fs now st)) = p9_proto st" "p9_tables (snd (plan9_ifstats env fs now st)) = p9_tables st"
  "p9_cpu (snd (plan9_net_proto env fs now st)) = p9_cpu st" "p9_net (snd (plan9_net_proto env fs now st)) = p9_net st"
  "p9_ifstats (snd (plan9_net_proto env fs now st)) = p9_ifstats st" "p9_tables (snd (plan9_net_proto env fs now st)) = p9_tables st"
  "p9_cpu (snd (plan9_net_tables env fs now st)) = p9_cpu st" "p9_net (snd (plan9_net_tables env fs now st)) = p9_net st"
  "p9_ifstats (snd (plan9_net_tables env fs now st)) = p9_ifstats st" "p9_proto (snd (plan9_net_tables env fs now st)) = p9_proto st"
  by (auto simp: plan9_cpu_def plan9_net_def plan9_ifstats_def plan9_net_proto_def plan9_net_tables_def Let_def
      split: option.split prod.split)

lemma undisturbed_left:
  "undisturbed fs now plan9_cputemp t" "undisturbed fs now plan9_battery t" "undisturbed fs now plan9_mem t"
  "undisturbed fs now plan9_uptime t" "undisturbed fs now (plan9_tcp_conns env) t" "undisturbed fs now (plan9_proc env) t"
  "undisturbed fs now plan9_clock t"
  by (simp_all add: undisturbed_def frame)

lemma undisturbed_right:
  "undisturbed fs now s plan9_cputemp" "undisturbed fs now s plan9_battery" "undisturbed fs now s plan9_mem"
  "undisturbed fs now s plan9_uptime" "undisturbed fs now s (plan9_tcp_conns env)" "undisturbed fs now s (plan9_proc env)"
  "undisturbed fs now s plan9_clock" "undisturbed fs now s plan9_srv_mnt"
  unfolding undisturbed_def by (intro allI stateless_fst)+

lemma undisturbed_rates:
  "undisturbed fs now (plan9_cpu env) (plan9_net env)" "undisturbed fs now (plan9_cpu env) (plan9_ifstats env)"
  "undisturbed fs now (plan9_cpu env) (plan9_net_proto env)" "undisturbed fs now (plan9_cpu env) (plan9_net_tables env)"
  "undisturbed fs now (plan9_net env) (plan9_ifstats env)" "undisturbed fs now (plan9_net env) (plan9_net_proto env)"
  "undisturbed fs now (plan9_net env) (plan9_net_tables env)" "undisturbed fs now (plan9_ifstats env) (plan9_net_proto env)"
  "undisturbed fs now (plan9_ifstats env) (plan9_net_tables env)" "undisturbed fs now (plan9_net_proto env) (plan9_net_tables env)"
  unfolding undisturbed_def
  by (intro allI net.view_determines ifstats.view_determines proto.view_determines tables.view_determines, simp add: frame)+

lemma plan9_undisturbed: "sorted_wrt (undisturbed fs now) (plan9_collectors env)"
  by (simp add: plan9_collectors_def undisturbed_left undisturbed_right undisturbed_rates)

section \<open>What a collection reports\<close>

text \<open>
  C21. A collection reports what each sub-collector would report alone, in their order, tagged with
  the interval. One that fails, because its file cannot be read, reports nothing and changes
  nothing in what the others report.
\<close>

theorem plan9_isolated:
  "fst (collect_host i (plan9_collectors env) fs now st)
     = map (\<lambda>s. s\<lparr>se_interval := i\<rparr>) (concat (map (\<lambda>sub. reported sub fs now st) (plan9_collectors env)))"
  by (rule collect_host_isolated) (rule plan9_undisturbed)

lemma plan9_start_views [simp]:
  "p9_cpu plan9_start = None" "p9_net plan9_start = None" "p9_ifstats plan9_start = None"
  "p9_proto plan9_start = None" "p9_tables plan9_start = None"
  by (simp_all add: plan9_start_def)

lemma stateless_only_adds:
  "only_adds (reported plan9_cputemp fs now st) (reported plan9_cputemp fs now st')"
  "only_adds (reported plan9_battery fs now st) (reported plan9_battery fs now st')"
  "only_adds (reported plan9_mem fs now st) (reported plan9_mem fs now st')"
  "only_adds (reported plan9_uptime fs now st) (reported plan9_uptime fs now st')"
  "only_adds (reported (plan9_tcp_conns env) fs now st) (reported (plan9_tcp_conns env) fs now st')"
  "only_adds (reported (plan9_proc env) fs now st) (reported (plan9_proc env) fs now st')"
  "only_adds (reported plan9_clock fs now st) (reported plan9_clock fs now st')"
  "only_adds (reported plan9_srv_mnt fs now st) (reported plan9_srv_mnt fs now st')"
  by (rule only_adds_same, rule stateless_fst)+

lemmas plan9_only_adds =
  cpu.reported_only_adds [OF plan9_start_views(1)] net.reported_only_adds [OF plan9_start_views(2)]
  ifstats.reported_only_adds [OF plan9_start_views(3)] proto.reported_only_adds [OF plan9_start_views(4)]
  tables.reported_only_adds [OF plan9_start_views(5)] stateless_only_adds

lemma plan9_sub_adds:
  assumes "sub \<in> set (plan9_collectors env)"
  shows "only_adds (reported sub fs now plan9_start) (reported sub fs now st)"
  using assms unfolding plan9_collectors_def list.set insert_iff empty_iff simp_thms
  by (elim disjE) (simp_all only: plan9_only_adds)

text \<open>
  History only adds rates: a collection reports everything a collector that has just started
  would report of the same files, and besides only values that are not below zero.
\<close>

theorem history_only_adds_rates:
  "\<exists>extra. mset (fst (collect_host i (plan9_collectors env) fs now st))
       = mset (fst (collect_host i (plan9_collectors env) fs now plan9_start)) + mset extra
     \<and> list_all not_below_zero extra"
proof -
  let ?set = "map (\<lambda>s. s\<lparr>se_interval := i\<rparr>)"
  have one: "\<exists>extra. mset (?set ys) = mset (?set xs) + mset extra \<and> list_all not_below_zero extra" if "only_adds xs ys" for xs ys
  proof -
    from that obtain base more extra where "xs = base @ more" "ys = base @ extra @ more" "list_all not_below_zero extra"
      unfolding only_adds_def by blast
    then show ?thesis by (intro exI [of _ "?set extra"]) (simp add: list_all_iff not_below_zero_def)
  qed
  have "\<exists>extra. mset (?set (concat (map (\<lambda>sub. reported sub fs now st) subs)))
      = mset (?set (concat (map (\<lambda>sub. reported sub fs now plan9_start) subs))) + mset extra \<and> list_all not_below_zero extra"
    if "set subs \<subseteq> set (plan9_collectors env)" for subs
    using that
  proof (induction subs)
    case (Cons s subs)
    from one [OF plan9_sub_adds [of s env fs now st]] Cons.prems obtain e where
      e: "mset (?set (reported s fs now st)) = mset (?set (reported s fs now plan9_start)) + mset e" "list_all not_below_zero e" by auto
    from Cons obtain es where
      es: "mset (?set (concat (map (\<lambda>sub. reported sub fs now st) subs)))
        = mset (?set (concat (map (\<lambda>sub. reported sub fs now plan9_start) subs))) + mset es" "list_all not_below_zero es" by auto
    from e es show ?case by (intro exI [of _ "e @ es"]) (simp add: ac_simps)
  qed simp
  from this [OF order_refl] show ?thesis unfolding plan9_isolated .
qed


section \<open>Threads that share memory\<close>

lemma fold_fadd_same:
  assumes "\<And>p. p \<in> set ps \<Longrightarrow> ps_mem_kb p = Fin (of_nat k)" "m + length ps * k \<le> 2 ^ 53"
  shows "fold (\<lambda>p a. fadd a (ps_mem_kb p)) ps (Fin (of_nat m)) = Fin (of_nat (m + length ps * k))"
  using assms
proof (induction ps arbitrary: m)
  case (Cons p ps)
  have "m + k \<le> 2 ^ 53" using Cons.prems(2) by simp
  then have "int m + int k \<le> 2 ^ 53" by (metis of_nat_add of_nat_le_iff of_nat_numeral of_nat_power)
  then have "fadd (Fin (of_nat m)) (Fin (of_nat k)) = Fin (of_nat (m + k))"
    using fadd_int [of "int m" "int k"] by simp
  with Cons.IH [of "m + k"] Cons.prems show ?case by (simp add: algebra_simps)
qed simp

lemma all_digits_fmt_nat [simp]: "all_digits (fmt_nat n)"
  using fmt_nat_digits by (auto simp: all_digits_def list_all_iff)

lemma fold_add_mem_one:
  assumes "\<And>p. p \<in> set ps \<Longrightarrow> ps_name p = name" "ps \<noteq> []"
  shows "fold add_mem ps [] = [(name, fold (\<lambda>p a. fadd a (ps_mem_kb p)) ps (Fin 0))]"
proof -
  have "fold add_mem ps [(name, x)] = [(name, fold (\<lambda>p a. fadd a (ps_mem_kb p)) ps x)]" for x
    using assms(1) by (induction ps arbitrary: x) (simp_all add: add_mem_def)
  then show ?thesis using assms by (cases ps) (simp_all add: add_mem_def)
qed

text \<open>
  A program of many threads is counted once: when all its processes report the same
  shared memory and their segments the number of sharers, the memory of the program and the
  total are that memory, not its multiple.
\<close>

theorem threads_counted_once:
  assumes "fs_dir fs ''/proc'' = FsOk (map fmt_nat pids)" "pids \<noteq> []" "length pids * k \<le> 2 ^ 53" "k \<le> 2 ^ 53" "length pids \<le> 2 ^ 53"
    and status: "\<And>p. p \<in> set pids \<Longrightarrow> fs_read fs (''/proc/'' @ fmt_nat p @ ''/status'')
      = FsOk (status_line name (user p) (state p) (nums p) @ [newline])"
    and columns: "length name \<le> 28" "trimmed name"
      "\<And>p. p \<in> set pids \<Longrightarrow> length (user p) \<le> 28 \<and> length (state p) \<le> 12 \<and> trimmed (state p) \<and> 9 \<le> length (nums p) \<and> nums p ! 6 = length pids * k"
    and segment: "\<And>p. p \<in> set pids \<Longrightarrow> fs_read fs (''/proc/'' @ fmt_nat p @ ''/segment'') = FsOk (seg p) \<and> proc_share_count (seg p) = of_nat (length pids)"
    and order: "slice_sorter (pe_sort env)" "\<And>m. mset (pe_mem env m) = mset m"
  shows "\<exists>out. fst (plan9_proc env fs now st) = Inr out
    \<and> gauge ''system.proc.memory.total'' now (fdiv (Fin (of_nat (length pids * k))) (Fin 1024)) [] \<in> set out
    \<and> filter (\<lambda>s. se_name s = ''system.proc.memory'') out
        = [gauge ''system.proc.memory'' now (fdiv (Fin (of_nat (length pids * k))) (Fin 1024)) [''proc:'' @ name]]"
proof -
  let ?proc = "\<lambda>p. \<lparr>ps_name = name, ps_state = state p, ps_mem_kb = Fin (of_nat k)\<rparr>"
  have one: "proc_of fs (fmt_nat p) = Some (?proc p)" if p: "p \<in> set pids" for p
    using proc_status_roundtrip [OF columns(1) _ _ columns(2), of "user p" "state p" "nums p" "[newline]"]
      columns(3) [OF p] status [OF p] segment [OF p] assms(2-5) fdiv_exact [of "length pids" k] f64_of_u64_nat [of "length pids"]
    by (simp add: proc_of_def fs_ok_def)
  have procs: "List.map_filter (proc_of fs) (numbered (map fmt_nat pids)) = map ?proc pids"
  proof -
    have "numbered (map fmt_nat pids) = map fmt_nat pids" by (simp add: numbered_def)
    moreover have "List.map_filter (proc_of fs \<circ> fmt_nat) pids = map ?proc pids"
      by (rule map_filter_all) (simp add: one)
    ultimately show ?thesis by (simp add: List.map_filter_def comp_def filter_map)
  qed
  have sum: "fold (\<lambda>p a. fadd a (ps_mem_kb p)) (map ?proc pids) (Fin 0) = Fin (of_nat (length pids * k))"
  proof -
    have "ps_mem_kb q = Fin (of_nat k)" if "q \<in> set (map ?proc pids)" for q using that by auto
    from fold_fadd_same [where ps = "map ?proc pids" and m = 0, OF this] assms(3) show ?thesis by simp
  qed
  have "fold add_mem (map ?proc pids) [] = [(name, Fin (of_nat (length pids * k)))]"
  proof -
    have "ps_name q = name" if "q \<in> set (map ?proc pids)" for q using that by auto
    from fold_add_mem_one [where ps = "map ?proc pids", OF this] assms(2) sum show ?thesis by simp
  qed
  moreover have "pe_mem env [e] = [e]" "pe_sort env more_mem [e] = [e]" for e
    using order(2) [of "[e]"] slice_sorter.permutes [OF order(1), of more_mem "[e]"] by simp_all
  ultimately have best: "top_procs_by_mem (pe_sort env) (pe_mem env) (map ?proc pids) proc_top_n = [(name, Fin (of_nat (length pids * k)))]"
    by (simp add: top_procs_by_mem_def proc_top_n_def)
  show ?thesis
    using assms(1) procs sum best
    by (simp add: plan9_proc_def fs_ok_def Let_def gauge_def filter_empty_conv)
qed


definition threads_files :: host_fs where
  "threads_files = \<lparr>fs_read = (\<lambda>path.
       if path \<in> set [''/proc/7/status'', ''/proc/8/status'']
         then FsOk (status_line ''agent'' ''eve'' ''Wakeme'' [1, 2, 3, 0, 0, 0, 4096, 10, 10] @ [newline])
       else if path \<in> set [''/proc/7/segment'', ''/proc/8/segment''] then FsOk ''Data 006b4000 00707000 2''
       else FsMissing),
     fs_dir = (\<lambda>path. if path = ''/proc'' then FsOk [''7'', ''8''] else FsMissing),
     fs_size = (\<lambda>_. None), fs_log = (\<lambda>_. None)\<rparr>"

definition plan9_env_example :: plan9_env where
  "plan9_env_example = \<lparr>pe_cvt = (\<lambda>_. 0), pe_uni = (\<lambda>s. s), pe_sort = sort_by, pe_mem = rev, pe_net = rev, pe_net_rates = (\<lambda>m. m),
     pe_labels = rev, pe_proto = rev, pe_ifaces = rev, pe_ifstats = rev, pe_ifstats_inner = rev\<rparr>"

theorem threads_counted_once_witness:
  "\<exists>out. fst (plan9_proc plan9_env_example threads_files 0 plan9_start) = Inr out
    \<and> gauge ''system.proc.memory.total'' 0 (fdiv (Fin 4096) (Fin 1024)) [] \<in> set out"
proof -
  let ?nums = "[1, 2, 3, 0, 0, 0, 4096, 10, 10] :: nat list"
  have f: "fmt_nat 7 = ''7''" "fmt_nat 8 = ''8''" by code_simp+
  have t: "trimmed ''agent''" "trimmed ''Wakeme''" "proc_share_count ''Data 006b4000 00707000 2'' = 2" by code_simp+
  have d: "fs_dir threads_files ''/proc'' = FsOk (map fmt_nat [7, 8])" by (simp add: threads_files_def f)
  have r: "fs_read threads_files (''/proc/'' @ fmt_nat p @ ''/status'') = FsOk (status_line ''agent'' ''eve'' ''Wakeme'' ?nums @ [newline])"
    "fs_read threads_files (''/proc/'' @ fmt_nat p @ ''/segment'') = FsOk ''Data 006b4000 00707000 2'' \<and> proc_share_count ''Data 006b4000 00707000 2'' = of_nat (length [7, 8::nat])"
    if "p \<in> set [7, 8]" for p
    using that t(3) by (auto simp: threads_files_def f)
  have s: "slice_sorter (pe_sort plan9_env_example)" "mset (pe_mem plan9_env_example m) = mset m" for m
    using insertion.slice_sorter_axioms by (simp_all add: plan9_env_example_def)
  from threads_counted_once [where pids = "[7, 8]" and k = 2048 and user = "\<lambda>_. ''eve''" and state = "\<lambda>_. ''Wakeme''" and nums = "\<lambda>_. ?nums"
      and seg = "\<lambda>_. ''Data 006b4000 00707000 2''" and now = 0 and st = plan9_start, OF d _ _ _ _ r(1) _ t(1) _ r(2) s] t(2)
  show ?thesis by auto
qed

end
