(* ===== verification/DevStat.thy ===== *)
theory DevStat
  imports HostBase
begin

text \<open>
  The disk counters of the BSD kernels: the decoders of FreeBSD's and DragonFly's \<open>devstat\<close>
  arrays (\<^verbatim>\<open>internal/host/devstat.go\<close>, \<^verbatim>\<open>devstatdf.go\<close>) and of OpenBSD's and NetBSD's statistics
  (\<^verbatim>\<open>diskstatsbsd.go\<close>), and the rates of two readings, with the helpers the disk collectors of every
  system share. A kernel's answer is a byte string; all integers in it are little-endian.
\<close>

section \<open>Shared arithmetic\<close>

text \<open>\<open>nonneg\<close> and \<open>ratio\<close>.\<close>

definition clamp :: "f64 \<Rightarrow> f64" where
  "clamp v = (if flt v (Fin 0) then Fin 0 else v)"

definition ratio :: "f64 \<Rightarrow> f64 \<Rightarrow> f64" where
  "ratio num den = (if feq den (Fin 0) then Fin 0 else fdiv num den)"

definition at_most_100 :: "f64 \<Rightarrow> f64" where
  "at_most_100 v = (if flt (Fin 100) v then Fin 100 else v)"

text \<open>The gauges of one device of the disk check, in kilobytes.\<close>

definition in_kilobytes :: "u64 \<Rightarrow> f64" where
  "in_kilobytes w = fdiv (f64_of_u64 w) (Fin 1024)"

definition disk_gauges :: "int \<Rightarrow> string \<Rightarrow> f64 \<Rightarrow> f64 \<Rightarrow> f64 \<Rightarrow> serie list" where
  "disk_gauges now dev tot used free =
     (let tags = [''device:'' @ dev, ''device_name:'' @ base_name dev]
      in [gauge ''system.disk.total'' now tot tags, gauge ''system.disk.used'' now used tags, gauge ''system.disk.free'' now free tags,
          gauge ''system.disk.in_use'' now (ratio used (fadd used free)) tags])"

lemma in_kilobytes_range: "\<exists>r. in_kilobytes w = Fin r \<and> rnd64 False r = Fin r \<and> 0 \<le> r \<and> r \<le> 2 ^ 54"
proof -
  obtain q where q: "f64_of_u64 w = Fin q" "0 \<le> q" "q \<le> 2 ^ 64" using f64_of_u64_range [of w] by blast
  have "\<bar>2 ^ 54 :: rat\<bar> = of_int 1 * 2 powi 54" by (simp add: power_int_def)
  from rnd64_exact [OF this, where s = False] have two: "rnd64 False (2 ^ 54) = Fin (2 ^ 54)" by simp
  from q have "q / 1024 \<le> 2 ^ 54" by simp
  with q rnd64_mono [OF _ this two] obtain r where "rnd64 False (q / 1024) = Fin r" "0 \<le> r" "r \<le> 2 ^ 54" by auto
  with q show ?thesis using rnd64_again [of "q / 1024" r] by (simp add: in_kilobytes_def fdiv_def)
qed

text \<open>The part in use is between none and all, whatever the figures are.\<close>

lemma in_use_range: "\<exists>r. ratio (in_kilobytes a) (fadd (in_kilobytes a) (in_kilobytes b)) = Fin r \<and> 0 \<le> r \<and> r \<le> 1"
proof -
  obtain p q where p: "in_kilobytes a = Fin p" "rnd64 False p = Fin p" "0 \<le> p" "p \<le> 2 ^ 54"
    and q: "in_kilobytes b = Fin q" "0 \<le> q" "q \<le> 2 ^ 54"
    using in_kilobytes_range [of a] in_kilobytes_range [of b] by blast
  then obtain s where s: "fadd (Fin p) (Fin q) = Fin s" "p \<le> s" using fadd_ge [of p q] by auto
  have "rnd64 False 1 = Fin 1" using rnd64_int [of 1 False] by simp
  moreover have "p / s \<le> 1" if "s \<noteq> 0" using that s p by (simp add: divide_le_eq)
  ultimately show ?thesis
    using rnd64_mono [of "p / s" 1 1] p s q by (auto simp: ratio_def feq_def fdiv_def)
qed

section \<open>Binary records\<close>

primrec le_nat :: "string \<Rightarrow> nat" where
  "le_nat [] = 0"
| "le_nat (c # cs) = byte c + 256 * le_nat cs"

definition le32 :: "string \<Rightarrow> nat \<Rightarrow> int" where
  "le32 s off = int (le_nat (take 4 (drop off s)))"

definition le64 :: "string \<Rightarrow> nat \<Rightarrow> int" where
  "le64 s off = int (le_nat (take 8 (drop off s)))"

definition u64f :: "string \<Rightarrow> nat \<Rightarrow> f64" where
  "u64f s off = f64_of_int (le64 s off)"

text \<open>A fraction of 64 bits scaled down is exact, so one rounding stands for \<open>math.Ldexp\<close>.\<close>

definition bintime_sec :: "string \<Rightarrow> nat \<Rightarrow> f64" where
  "bintime_sec s off =
     fadd (f64_of_int (wrap_i64 (le64 s off))) (fmul (f64_of_int (le64 s (off + 8))) (Fin (1 / 2 ^ 64)))"

definition timeval_sec :: "string \<Rightarrow> nat \<Rightarrow> f64" where
  "timeval_sec s off =
     fadd (f64_of_int (wrap_i64 (le64 s off))) (fdiv (f64_of_int (wrap_i64 (le64 s (off + 8)))) (Fin 1000000))"

definition trim_nul :: "string \<Rightarrow> string" where
  "trim_nul b = takeWhile (\<lambda>c. c \<noteq> CHR 0x00) b"

text \<open>The loop over fixed-size records, up to the last whole one.\<close>

function bin_records :: "nat \<Rightarrow> string \<Rightarrow> string list" where
  "bin_records stride b = (if stride = 0 \<or> length b < stride then [] else take stride b # bin_records stride (drop stride b))"
  by pat_completeness auto
termination
  by (relation "measure (\<lambda>(_, b). length b)") auto

declare bin_records.simps [simp del]

section \<open>Decoders\<close>

record devstat_rec =
  dr_name :: string
  dr_read_ops :: f64
  dr_write_ops :: f64
  dr_read_bytes :: f64
  dr_write_bytes :: f64
  dr_read_dur :: f64
  dr_write_dur :: f64
  dr_busy :: f64

definition unit_name :: "string \<Rightarrow> nat \<Rightarrow> nat \<Rightarrow> string" where
  "unit_name s name_off unit_off = trim_nul (take 16 (drop name_off s)) @ fmt_int (wrap_i32 (le32 s unit_off))"

definition freebsd_rec :: "string \<Rightarrow> devstat_rec" where
  "freebsd_rec s =
     \<lparr>dr_name = unit_name s 44 60, dr_read_ops = u64f s (96 + 8 * 1), dr_write_ops = u64f s (96 + 8 * 2),
      dr_read_bytes = u64f s (64 + 8 * 1), dr_write_bytes = u64f s (64 + 8 * 2),
      dr_read_dur = bintime_sec s (128 + 16 * 1), dr_write_dur = bintime_sec s (128 + 16 * 2), dr_busy = bintime_sec s 192\<rparr>"

definition parse_devstat :: "string \<Rightarrow> devstat_rec list" where
  "parse_devstat b = map freebsd_rec (bin_records 288 (drop 8 b))"

definition dragonfly_rec :: "string \<Rightarrow> devstat_rec" where
  "dragonfly_rec s =
     \<lparr>dr_name = unit_name s 12 28, dr_read_ops = u64f s 56, dr_write_ops = u64f s 64,
      dr_read_bytes = u64f s 32, dr_write_bytes = u64f s 40, dr_read_dur = Fin 0, dr_write_dur = Fin 0, dr_busy = Fin 0\<rparr>"

definition parse_devstat_df :: "string \<Rightarrow> devstat_rec list" where
  "parse_devstat_df b = map dragonfly_rec (bin_records 200 (drop 8 b))"

definition openbsd_rec :: "string \<Rightarrow> devstat_rec list" where
  "openbsd_rec s =
     (let name = trim_nul (take 16 (drop 0 s))
      in if name = [] then []
         else [\<lparr>dr_name = name, dr_read_ops = u64f s 24, dr_write_ops = u64f s 32, dr_read_bytes = u64f s 48,
           dr_write_bytes = u64f s 56, dr_read_dur = Fin 0, dr_write_dur = Fin 0, dr_busy = timeval_sec s 96\<rparr>])"

definition parse_openbsd_diskstats :: "string \<Rightarrow> devstat_rec list" where
  "parse_openbsd_diskstats b = concat (map openbsd_rec (bin_records 112 b))"

definition netbsd_rec :: "string \<Rightarrow> devstat_rec list" where
  "netbsd_rec s =
     (let name = trim_nul (take 16 (drop 0 s))
      in if wrap_i32 (le32 s 20) \<noteq> 0 then []
         else if name = [] then []
         else [\<lparr>dr_name = name, dr_read_ops = u64f s 72, dr_write_ops = u64f s 88, dr_read_bytes = u64f s 80,
           dr_write_bytes = u64f s 96, dr_read_dur = Fin 0, dr_write_dur = Fin 0,
           dr_busy = fadd (f64_of_int (le32 s 64)) (fdiv (f64_of_int (le32 s 68)) (Fin 1000000))\<rparr>])"

definition parse_netbsd_iostats :: "string \<Rightarrow> devstat_rec list" where
  "parse_netbsd_iostats b = concat (map netbsd_rec (bin_records 128 b))"

section \<open>Rates\<close>

definition device_of :: "string \<Rightarrow> string list" where
  "device_of name = [''device:'' @ name]"

text \<open>The four throughput rates every kernel's counters give.\<close>

definition io_throughput :: "string \<Rightarrow> devstat_rec \<Rightarrow> devstat_rec \<Rightarrow> f64 \<Rightarrow> int \<Rightarrow> serie list" where
  "io_throughput name c p dt now =
     [gauge ''system.io.r_s'' now (fdiv (fsub (dr_read_ops c) (dr_read_ops p)) dt) (device_of name),
      gauge ''system.io.w_s'' now (fdiv (fsub (dr_write_ops c) (dr_write_ops p)) dt) (device_of name),
      gauge ''system.io.rkb_s'' now (fdiv (fdiv (clamp (fsub (dr_read_bytes c) (dr_read_bytes p))) (Fin 1024)) dt) (device_of name),
      gauge ''system.io.wkb_s'' now (fdiv (fdiv (clamp (fsub (dr_write_bytes c) (dr_write_bytes p))) (Fin 1024)) dt) (device_of name)]"

definition ops_went_back :: "devstat_rec \<Rightarrow> devstat_rec \<Rightarrow> bool" where
  "ops_went_back c p \<longleftrightarrow> flt (fsub (dr_read_ops c) (dr_read_ops p)) (Fin 0) \<or> flt (fsub (dr_write_ops c) (dr_write_ops p)) (Fin 0)"

definition busy_percent :: "devstat_rec \<Rightarrow> devstat_rec \<Rightarrow> f64 \<Rightarrow> f64" where
  "busy_percent c p dt = at_most_100 (fmul (fdiv (clamp (fsub (dr_busy c) (dr_busy p))) dt) (Fin 100))"

definition devstat_series :: "string \<Rightarrow> devstat_rec \<Rightarrow> devstat_rec \<Rightarrow> f64 \<Rightarrow> int \<Rightarrow> serie list" where
  "devstat_series name c p dt now =
     (if ops_went_back c p then []
      else let dr = fsub (dr_read_ops c) (dr_read_ops p); dw = fsub (dr_write_ops c) (dr_write_ops p);
               rms = fmul (clamp (fsub (dr_read_dur c) (dr_read_dur p))) (Fin 1000);
               wms = fmul (clamp (fsub (dr_write_dur c) (dr_write_dur p))) (Fin 1000);
               ops = fadd dr dw
           in io_throughput name c p dt now
              @ [gauge ''system.io.util'' now (busy_percent c p dt) (device_of name)]
              @ (if flt (Fin 0) ops then [gauge ''system.io.await'' now (fdiv (fadd rms wms) ops) (device_of name)] else [])
              @ (if flt (Fin 0) dr then [gauge ''system.io.r_await'' now (fdiv rms dr) (device_of name)] else [])
              @ (if flt (Fin 0) dw then [gauge ''system.io.w_await'' now (fdiv wms dw) (device_of name)] else []))"

definition devstat_df_series :: "string \<Rightarrow> devstat_rec \<Rightarrow> devstat_rec \<Rightarrow> f64 \<Rightarrow> int \<Rightarrow> serie list" where
  "devstat_df_series name c p dt now = (if ops_went_back c p then [] else io_throughput name c p dt now)"

definition bsd_io_series :: "string \<Rightarrow> devstat_rec \<Rightarrow> devstat_rec \<Rightarrow> f64 \<Rightarrow> int \<Rightarrow> serie list" where
  "bsd_io_series name c p dt now =
     (if ops_went_back c p then []
      else io_throughput name c p dt now @ [gauge ''system.io.util'' now (busy_percent c p dt) (device_of name)])"

section \<open>No rate below zero, no device more than busy\<close>

lemma below_zero_clamp [simp]: "\<not> below_zero (clamp v)"
  by (simp add: clamp_def below_zero_def flt_def)

lemma below_zero_at_most_100: "\<not> below_zero v \<Longrightarrow> \<not> below_zero (at_most_100 v)"
  by (simp add: at_most_100_def)

lemma at_most_100_le: "\<not> flt (Fin 100) (at_most_100 v)"
  by (auto simp: at_most_100_def flt_def)

lemma below_zero_fadd: "\<not> below_zero x \<Longrightarrow> \<not> below_zero y \<Longrightarrow> \<not> below_zero (fadd x y)"
  by (cases x; cases y) (auto simp: fadd_def)

lemma below_zero_fmul: "\<not> below_zero x \<Longrightarrow> 0 < q \<Longrightarrow> \<not> below_zero (fmul x (Fin q))"
  by (cases x) (auto simp: fmul_def)

lemma flt_const: "flt (Fin 0) (Fin 1024)" "flt (Fin 0) (Fin 100)" "flt (Fin 0) (Fin 1000)"
  by (simp_all add: flt_def)

lemmas sign_rules = below_zero_fdiv below_zero_fadd below_zero_fmul below_zero_at_most_100 below_zero_clamp flt_const

lemma gauge_sign: "not_below_zero (gauge name now v tags) \<longleftrightarrow> \<not> below_zero v"
  by (simp add: not_below_zero_def gauge_def)

lemma throughput_not_below_zero:
  assumes "\<not> ops_went_back c p" "flt (Fin 0) dt"
  shows "list_all not_below_zero (io_throughput name c p dt now)"
  using assms by (simp add: io_throughput_def gauge_sign sign_rules ops_went_back_def below_zero_def [symmetric])

lemma busy_not_below_zero: "flt (Fin 0) dt \<Longrightarrow> \<not> below_zero (busy_percent c p dt)"
  by (simp add: busy_percent_def sign_rules)

lemma io_signs:
  assumes "flt (Fin 0) dt"
  shows "list_all not_below_zero (devstat_series name c p dt now @ devstat_df_series name c p dt now @ bsd_io_series name c p dt now)"
proof (cases "ops_went_back c p")
  case False
  then have "\<not> below_zero (fsub (dr_read_ops c) (dr_read_ops p))" "\<not> below_zero (fsub (dr_write_ops c) (dr_write_ops p))"
    by (simp_all add: ops_went_back_def below_zero_def)
  with False assms show ?thesis
    using throughput_not_below_zero [OF False assms]
    by (simp add: devstat_series_def devstat_df_series_def bsd_io_series_def Let_def gauge_sign busy_not_below_zero sign_rules)
qed (simp add: devstat_series_def devstat_df_series_def bsd_io_series_def)

section \<open>Arrays read back\<close>

primrec le_bytes :: "nat \<Rightarrow> nat \<Rightarrow> string" where
  "le_bytes 0 n = []"
| "le_bytes (Suc k) n = char_of (n mod 256) # le_bytes k (n div 256)"

lemma length_le_bytes [simp]: "length (le_bytes k n) = k"
  by (induction k arbitrary: n) simp_all

lemma le_nat_bytes: "n < 256 ^ k \<Longrightarrow> le_nat (le_bytes k n) = n"
proof (induction k arbitrary: n)
  case (Suc k)
  then have "le_nat (le_bytes k (n div 256)) = n div 256" by (intro Suc.IH) (simp add: less_mult_imp_div_less mult.commute)
  then show ?case by (simp add: byte_def)
qed simp

lemma le_skip:
  "length a \<le> off \<Longrightarrow> le64 (a @ s) off = le64 s (off - length a)"
  "length a \<le> off \<Longrightarrow> le32 (a @ s) off = le32 s (off - length a)"
  by (simp_all add: le64_def le32_def)

lemma le_here:
  "n < 256 ^ 8 \<Longrightarrow> le64 (le_bytes 8 n @ s) 0 = int n"
  "n < 256 ^ 4 \<Longrightarrow> le32 (le_bytes 4 n @ s) 0 = int n"
  by (simp_all add: le64_def le32_def le_nat_bytes)

lemma bin_records_concat:
  assumes "\<And>r. r \<in> set rs \<Longrightarrow> length r = stride" "0 < stride" "length rest < stride"
  shows "bin_records stride (concat rs @ rest) = rs"
  using assms by (induction rs) (subst bin_records.simps, simp)+

text \<open>A device as the kernel lays it out: its class and unit, and each counter of the four kinds of
  transactions, none, read, write and free; a time is in seconds and their fractions.\<close>

record kernel_dev =
  kd_class :: string
  kd_unit :: "32 word"
  kd_bytes :: "u64 list"
  kd_ops :: "u64 list"
  kd_dur :: "(u64 \<times> u64) list"
  kd_busy :: "u64 \<times> u64"

definition le_u64 :: "u64 \<Rightarrow> string" where
  "le_u64 w = le_bytes 8 (unat w)"

definition le_bintime :: "u64 \<times> u64 \<Rightarrow> string" where
  "le_bintime t = le_u64 (fst t) @ le_u64 (snd t)"

definition dev_ok :: "kernel_dev \<Rightarrow> bool" where
  "dev_ok d \<longleftrightarrow> length (kd_class d) \<le> 16 \<and> CHR 0x00 \<notin> set (kd_class d)
     \<and> length (kd_bytes d) = 4 \<and> length (kd_ops d) = 4 \<and> length (kd_dur d) = 4"

definition freebsd_layout :: "kernel_dev \<Rightarrow> string" where
  "freebsd_layout d =
     replicate 44 CHR 0x00 @ kd_class d @ replicate (16 - length (kd_class d)) CHR 0x00 @ le_bytes 4 (unat (kd_unit d))
     @ concat (map le_u64 (kd_bytes d)) @ concat (map le_u64 (kd_ops d)) @ concat (map le_bintime (kd_dur d))
     @ le_bintime (kd_busy d) @ replicate 80 CHR 0x00"

definition seconds_of :: "u64 \<times> u64 \<Rightarrow> f64" where
  "seconds_of t = fadd (f64_of_int (sint (fst t))) (fmul (f64_of_u64 (snd t)) (Fin (1 / 2 ^ 64)))"

definition freebsd_view :: "kernel_dev \<Rightarrow> devstat_rec" where
  "freebsd_view d =
     \<lparr>dr_name = kd_class d @ fmt_int (sint (kd_unit d)), dr_read_ops = f64_of_u64 (kd_ops d ! 1), dr_write_ops = f64_of_u64 (kd_ops d ! 2),
      dr_read_bytes = f64_of_u64 (kd_bytes d ! 1), dr_write_bytes = f64_of_u64 (kd_bytes d ! 2),
      dr_read_dur = seconds_of (kd_dur d ! 1), dr_write_dur = seconds_of (kd_dur d ! 2), dr_busy = seconds_of (kd_busy d)\<rparr>"

lemma length_le_u64 [simp]: "length (le_u64 w) = 8" "length (le_bintime t) = 16"
  by (simp_all add: le_u64_def le_bintime_def)

lemma le_u64_here: "le64 (le_u64 w @ s) 0 = uint w"
proof -
  have "unat w < 2 ^ LENGTH(64)" by (rule unsigned_less)
  then show ?thesis by (simp add: le_u64_def le_here)
qed

lemma signed_of_unsigned: "wrap_i64 (uint (w :: u64)) = sint w" "wrap_i32 (uint (v :: 32 word)) = sint v"
  by (simp_all add: wrap_i64_def wrap_i32_def sint_uint)

lemma u64f_here: "u64f (le_u64 w @ s) 0 = f64_of_u64 w"
  by (simp add: u64f_def le_u64_here f64_of_u64_def)

lemma u64f_skip: "length a \<le> off \<Longrightarrow> u64f (a @ s) off = u64f s (off - length a)"
  by (simp add: u64f_def le_skip)

lemma bintime_skip: "length a \<le> off \<Longrightarrow> bintime_sec (a @ s) off = bintime_sec s (off - length a)"
  by (simp add: bintime_sec_def le_skip)

lemma bintime_here: "bintime_sec (le_bintime t @ s) 0 = seconds_of t"
  by (simp add: bintime_sec_def seconds_of_def le_bintime_def le_u64_here le_skip signed_of_unsigned f64_of_u64_def)

lemma unit_name_read:
  assumes "length c \<le> 16" "CHR 0x00 \<notin> set c" "length pre = off"
  shows "unit_name (pre @ c @ replicate (16 - length c) CHR 0x00 @ le_bytes 4 (unat (u :: 32 word)) @ s) off (off + 16) = c @ fmt_int (sint u)"
proof -
  have "unat u < 2 ^ LENGTH(32)" by (rule unsigned_less)
  then have "unat u < 256 ^ 4" by simp
  then have "le32 (le_bytes 4 (unat u) @ s) 0 = uint u" by (simp add: le_here)
  moreover have "takeWhile (\<lambda>x. x \<noteq> CHR 0x00) (c @ replicate (16 - length c) CHR 0x00) = c"
    using assms(2) by (subst takeWhile_append2) (auto simp: takeWhile_replicate)
  ultimately show ?thesis
    using assms by (simp add: unit_name_def trim_nul_def le_skip signed_of_unsigned)
qed

lemma four: "length xs = 4 \<Longrightarrow> \<exists>a b c d. xs = [a, b, c, d]"
  by (auto simp: length_Suc_conv numeral_eq_Suc)

lemma freebsd_rec_layout: "dev_ok d \<Longrightarrow> freebsd_rec (freebsd_layout d) = freebsd_view d"
proof -
  assume ok: "dev_ok d"
  then obtain b0 b1 b2 b3 o0 o1 o2 o3 t0 t1 t2 t3
    where l: "kd_bytes d = [b0, b1, b2, b3]" "kd_ops d = [o0, o1, o2, o3]" "kd_dur d = [t0, t1, t2, t3]"
    unfolding dev_ok_def by (metis four)
  let ?name = "kd_class d @ replicate (16 - length (kd_class d)) CHR 0x00"
  have len: "length (kd_class d) \<le> 16" "length ?name = 16" using ok by (simp_all add: dev_ok_def)
  have "freebsd_layout d = (replicate 44 CHR 0x00 @ ?name @ le_bytes 4 (unat (kd_unit d))) @ le_u64 b0 @ le_u64 b1 @ le_u64 b2 @ le_u64 b3
      @ le_u64 o0 @ le_u64 o1 @ le_u64 o2 @ le_u64 o3 @ le_bintime t0 @ le_bintime t1 @ le_bintime t2 @ le_bintime t3
      @ le_bintime (kd_busy d) @ replicate 80 CHR 0x00"
    by (simp add: freebsd_layout_def l)
  moreover define hd where "hd = replicate 44 CHR 0x00 @ ?name @ le_bytes 4 (unat (kd_unit d))"
  moreover have h: "length hd = 64" using len(1) by (simp add: hd_def)
  ultimately have lay: "freebsd_layout d = hd @ le_u64 b0 @ le_u64 b1 @ le_u64 b2 @ le_u64 b3
      @ le_u64 o0 @ le_u64 o1 @ le_u64 o2 @ le_u64 o3 @ le_bintime t0 @ le_bintime t1 @ le_bintime t2 @ le_bintime t3
      @ le_bintime (kd_busy d) @ replicate 80 CHR 0x00"
    by simp
  have "unit_name (freebsd_layout d) 44 (44 + 16) = kd_class d @ fmt_int (sint (kd_unit d))"
    unfolding freebsd_layout_def append_assoc by (rule unit_name_read) (use ok in \<open>auto simp: dev_ok_def\<close>)
  then show ?thesis
    by (simp add: freebsd_rec_def freebsd_view_def l) (simp add: lay u64f_skip h u64f_here bintime_skip bintime_here)
qed

text \<open>
  The kernel's array of devices is read back: the generation, then one record of 288 bytes
  per device, whose read and write counters, times and full name are those the kernel wrote.
\<close>

theorem devstat_roundtrip:
  assumes "length gen = 8" "list_all dev_ok ds" "length rest < 288"
  shows "parse_devstat (gen @ concat (map freebsd_layout ds) @ rest) = map freebsd_view ds"
proof -
  have "length (freebsd_layout d) = 288" if d: "dev_ok d" for d
    using d four [of "kd_bytes d"] four [of "kd_ops d"] four [of "kd_dur d"] by (auto simp: dev_ok_def freebsd_layout_def)
  then have "bin_records 288 (concat (map freebsd_layout ds) @ rest) = map freebsd_layout ds"
    using assms by (intro bin_records_concat) (auto simp: list_all_iff)
  then show ?thesis
    using assms by (simp add: parse_devstat_def list_all_iff freebsd_rec_layout)
qed

definition kernel_dev_example :: kernel_dev where
  "kernel_dev_example = \<lparr>kd_class = ''vtbd'', kd_unit = 0, kd_bytes = [0, 4096, 8192, 0], kd_ops = [0, 3, 5, 0],
     kd_dur = [(0, 0), (1, 2 ^ 63), (2, 0), (0, 0)], kd_busy = (3, 2 ^ 62)\<rparr>"

theorem devstat_roundtrip_witness:
  "parse_devstat (replicate 8 CHR 0x01 @ freebsd_layout kernel_dev_example @ ''tail'') = [freebsd_view kernel_dev_example]"
  using devstat_roundtrip [of "replicate 8 CHR 0x01" "[kernel_dev_example]" "''tail''"]
  by (simp add: dev_ok_def kernel_dev_example_def)

end
