(* ===== verification/HostLinux.thy ===== *)
theory HostLinux
  imports DevStat
begin

text \<open>
  The Linux sub-collectors, \<^verbatim>\<open>internal/host/host_linux.go\<close>, \<^verbatim>\<open>cpu_linux.go\<close>, \<^verbatim>\<open>fs_linux.go\<close>, \<^verbatim>\<open>net_linux.go\<close>
  and \<^verbatim>\<open>io_linux.go\<close>: the readers of the files under \<^verbatim>\<open>/proc\<close> and what they report. The kernel is what
  the files and \<open>statfs\<close> answer during one collection; a \<open>statfs\<close> that fails or hangs past its
  deadline answers nothing. The order of a range over a map is a parameter.
\<close>

section \<open>The kernel\<close>

record linux_statfs =
  ls_blocks :: u64
  ls_bfree :: u64
  ls_bavail :: u64
  ls_files :: u64
  ls_ffree :: u64
  ls_bsize :: int

record linux_kernel =
  lk_proc :: "string \<Rightarrow> string option"
  lk_statfs :: "string \<Rightarrow> linux_statfs option"

section \<open>Processor\<close>

record cpu_times =
  ct_user :: f64
  ct_nice :: f64
  ct_system :: f64
  ct_idle :: f64
  ct_iowait :: f64
  ct_irq :: f64
  ct_softirq :: f64
  ct_steal :: f64
  ct_guest :: f64

definition zero_times :: cpu_times where
  "zero_times = \<lparr>ct_user = Fin 0, ct_nice = Fin 0, ct_system = Fin 0, ct_idle = Fin 0, ct_iowait = Fin 0, ct_irq = Fin 0,
     ct_softirq = Fin 0, ct_steal = Fin 0, ct_guest = Fin 0\<rparr>"

definition cpu_total :: "cpu_times \<Rightarrow> f64" where
  "cpu_total t = fadd (fadd (fadd (fadd (fadd (fadd (fadd (ct_user t) (ct_nice t)) (ct_system t)) (ct_idle t)) (ct_iowait t))
     (ct_irq t)) (ct_softirq t)) (ct_steal t)"

definition parse_floats :: "string list \<Rightarrow> f64 list" where
  "parse_floats = map float_or_zero"

definition cpu_line :: "f64 list \<Rightarrow> cpu_times" where
  "cpu_line n =
     \<lparr>ct_user = n ! 0, ct_nice = n ! 1, ct_system = n ! 2, ct_idle = n ! 3, ct_iowait = n ! 4, ct_irq = n ! 5,
      ct_softirq = n ! 6, ct_steal = n ! 7, ct_guest = (if 8 < length n then n ! 8 else Fin 0)\<rparr>"

fun parse_cpu_lines :: "string list \<Rightarrow> cpu_times \<Rightarrow> int \<Rightarrow> bool \<Rightarrow> (cpu_times \<times> int) option" where
  "parse_cpu_lines [] t ncpu found = (if found then Some (t, ncpu) else None)"
| "parse_cpu_lines (line # ls) t ncpu found =
     (if \<not> has_prefix ''cpu'' line then parse_cpu_lines ls t ncpu found
      else let f = str_fields line in
        if hd f = ''cpu'' then
          (let n = parse_floats (tl f) in if length n < 8 then None else parse_cpu_lines ls (cpu_line n) ncpu True)
        else parse_cpu_lines ls t (ncpu + 1) found)"

definition parse_cpu :: "string \<Rightarrow> (cpu_times \<times> int) option" where
  "parse_cpu data = parse_cpu_lines (scan_lines data) zero_times 0 False"

definition num_cpu :: "linux_kernel \<Rightarrow> int \<Rightarrow> int" where
  "num_cpu k runtime_cpus =
     (case Option.bind (lk_proc k ''stat'') parse_cpu of
        Some (t, n) \<Rightarrow> if 0 < n then n else runtime_cpus
      | None \<Rightarrow> runtime_cpus)"

record linux_counters =
  nc_rx_bytes :: f64
  nc_rx_packets :: f64
  nc_rx_errs :: f64
  nc_rx_drop :: f64
  nc_tx_bytes :: f64
  nc_tx_packets :: f64
  nc_tx_errs :: f64
  nc_tx_drop :: f64

record diskstat =
  dk_reads :: f64
  dk_reads_merged :: f64
  dk_sectors_read :: f64
  dk_ms_reading :: f64
  dk_writes :: f64
  dk_writes_merged :: f64
  dk_sectors_written :: f64
  dk_ms_writing :: f64
  dk_ms_io :: f64
  dk_weighted_ms_io :: f64

record linux_state =
  lx_cpu :: "cpu_times option"
  lx_net :: "(linux_counters gomap \<times> int) option"
  lx_io :: "(diskstat gomap \<times> int) option"

definition linux_start :: linux_state where
  "linux_start = \<lparr>lx_cpu = None, lx_net = None, lx_io = None\<rparr>"

definition percent :: "f64 \<Rightarrow> f64 \<Rightarrow> f64" where
  "percent dt d = fmul (fdiv d dt) (Fin 100)"

definition cpu_percentages :: "int \<Rightarrow> cpu_times \<Rightarrow> cpu_times option \<Rightarrow> serie list" where
  "cpu_percentages now cur prev =
     (case prev of
        None \<Rightarrow> []
      | Some p \<Rightarrow>
          let dt = fsub (cpu_total cur) (cpu_total p); d = (\<lambda>f. fsub (f cur) (f p))
          in if flt (Fin 0) dt
             then [gauge ''system.cpu.user'' now (percent dt (fadd (d ct_user) (d ct_nice))) [],
                   gauge ''system.cpu.system'' now (percent dt (fadd (fadd (d ct_system) (d ct_irq)) (d ct_softirq))) [],
                   gauge ''system.cpu.iowait'' now (percent dt (d ct_iowait)) [],
                   gauge ''system.cpu.idle'' now (percent dt (d ct_idle)) [],
                   gauge ''system.cpu.stolen'' now (percent dt (d ct_steal)) [],
                   gauge ''system.cpu.guest'' now (percent dt (d ct_guest)) []]
             else [])"

definition linux_cpu :: "(linux_kernel, linux_state) sub_collector" where
  "linux_cpu k now st =
     (case Option.bind (lk_proc k ''stat'') parse_cpu of
        None \<Rightarrow> (Inl ReadFailed, st)
      | Some (cur, ncpu) \<Rightarrow>
          (Inr (gauge ''system.cpu.num_cores'' now (f64_of_int ncpu) [] # cpu_percentages now cur (lx_cpu st)),
           st\<lparr>lx_cpu := Some cur\<rparr>))"

section \<open>Memory, load and uptime\<close>

definition meminfo_line :: "string \<Rightarrow> f64 gomap \<Rightarrow> f64 gomap" where
  "meminfo_line line m =
     (let f = str_fields line
      in if length f < 2 then m
         else case parse_float (f ! 1) of Parsed v \<Rightarrow> AList.update (trim_suffix '':'' (f ! 0)) v m | _ \<Rightarrow> m)"

definition parse_meminfo :: "string \<Rightarrow> f64 gomap" where
  "parse_meminfo data = fold meminfo_line (scan_lines data) []"

definition map_float :: "f64 gomap \<Rightarrow> string \<Rightarrow> f64" where
  "map_float m k = (case map_of m k of Some v \<Rightarrow> v | None \<Rightarrow> Fin 0)"

definition mem_series :: "int \<Rightarrow> f64 gomap \<Rightarrow> serie list" where
  "mem_series now m =
     (let kb = map_float m; mb = (\<lambda>key. fdiv (kb key) (Fin 1024)); g = (\<lambda>name v. gauge name now v [])
      in [g ''system.mem.total'' (mb ''MemTotal''), g ''system.mem.free'' (mb ''MemFree''),
          g ''system.mem.used'' (fdiv (fsub (kb ''MemTotal'') (kb ''MemFree'')) (Fin 1024)),
          g ''system.mem.usable'' (mb ''MemAvailable''), g ''system.mem.cached'' (fadd (mb ''Cached'') (mb ''SReclaimable'')),
          g ''system.mem.buffered'' (mb ''Buffers''), g ''system.mem.shared'' (mb ''Shmem''), g ''system.mem.slab'' (mb ''Slab''),
          g ''system.swap.total'' (mb ''SwapTotal''), g ''system.swap.free'' (mb ''SwapFree''),
          g ''system.swap.used'' (fdiv (fsub (kb ''SwapTotal'') (kb ''SwapFree'')) (Fin 1024))]
         @ (if flt (Fin 0) (kb ''MemTotal'') then [g ''system.mem.pct_usable'' (fdiv (kb ''MemAvailable'') (kb ''MemTotal''))] else [])
         @ (if flt (Fin 0) (kb ''SwapTotal'') then [g ''system.swap.pct_free'' (fdiv (kb ''SwapFree'') (kb ''SwapTotal''))] else []))"

definition linux_mem :: "(linux_kernel, linux_state) sub_collector" where
  "linux_mem k now st =
     (case lk_proc k ''meminfo'' of
        None \<Rightarrow> (Inl ReadFailed, st)
      | Some data \<Rightarrow> (Inr (mem_series now (parse_meminfo data)), st))"

definition linux_load :: "int \<Rightarrow> (linux_kernel, linux_state) sub_collector" where
  "linux_load ncpu k now st =
     (case lk_proc k ''loadavg'' of
        None \<Rightarrow> (Inl ReadFailed, st)
      | Some data \<Rightarrow>
          let f = str_fields data; load = (\<lambda>i. float_or_zero (f ! i)); n = (if ncpu = 0 then Fin 1 else f64_of_int ncpu)
          in (Inr (if length f < 3 then []
                   else [gauge ''system.load.1'' now (load 0) [], gauge ''system.load.5'' now (load 1) [],
                         gauge ''system.load.15'' now (load 2) [], gauge ''system.load.norm.1'' now (fdiv (load 0) n) [],
                         gauge ''system.load.norm.5'' now (fdiv (load 1) n) [], gauge ''system.load.norm.15'' now (fdiv (load 2) n) []]), st))"

definition linux_uptime :: "(linux_kernel, linux_state) sub_collector" where
  "linux_uptime k now st =
     (case lk_proc k ''uptime'' of
        None \<Rightarrow> (Inl ReadFailed, st)
      | Some data \<Rightarrow>
          (case str_fields data of
             [] \<Rightarrow> (Inr [], st)
           | f # fs \<Rightarrow> (case parse_float f of Parsed secs \<Rightarrow> (Inr [gauge ''system.uptime'' now secs []], st) | _ \<Rightarrow> (Inl ReadFailed, st))))"

section \<open>File systems\<close>

definition pseudo_fs :: "string list" where
  "pseudo_fs = [''autofs'', ''binfmt_misc'', ''bpf'', ''cgroup'', ''cgroup2'', ''configfs'', ''debugfs'', ''devpts'', ''devtmpfs'',
     ''fusectl'', ''hugetlbfs'', ''iso9660'', ''mqueue'', ''nsfs'', ''overlay'', ''proc'', ''pstore'', ''ramfs'', ''securityfs'',
     ''squashfs'', ''sysfs'', ''tmpfs'', ''tracefs'']"

definition octal_digit :: "char \<Rightarrow> bool" where
  "octal_digit c \<longleftrightarrow> 48 \<le> byte c \<and> byte c \<le> 55"

text \<open>The digits as a byte: what overflows its eight bits is lost.\<close>

definition octal :: "char \<Rightarrow> char \<Rightarrow> char \<Rightarrow> char option" where
  "octal a b c =
     (if octal_digit a \<and> octal_digit b \<and> octal_digit c
      then Some (char_of ((64 * (byte a - 48) + 8 * (byte b - 48) + (byte c - 48)) mod 256)) else None)"

function unescape :: "string \<Rightarrow> string" where
  "unescape s =
     (case s of
        [] \<Rightarrow> []
      | c # rest \<Rightarrow>
          (case rest of
             x # y # z # tail \<Rightarrow>
               (case (if c = CHR 0x5C then octal x y z else None) of
                  Some b \<Rightarrow> b # unescape tail
                | None \<Rightarrow> c # unescape rest)
           | _ \<Rightarrow> c # unescape rest))"
  by pat_completeness auto
termination
  by (relation "measure length") auto

declare unescape.simps [simp del]

definition fs_gauges :: "int \<Rightarrow> string \<Rightarrow> linux_statfs \<Rightarrow> serie list" where
  "fs_gauges now dev s =
     (let bsize = word_of_int (ls_bsize s); tags = [''device:'' @ dev, ''device_name:'' @ base_name dev];
          it = f64_of_u64 (ls_files s); iused = f64_of_u64 (ls_files s - ls_ffree s)
      in disk_gauges now dev (in_kilobytes (ls_blocks s * bsize)) (in_kilobytes ((ls_blocks s - ls_bfree s) * bsize))
           (in_kilobytes (ls_bavail s * bsize))
         @ (if 0 < ls_files s
            then [gauge ''system.fs.inodes.total'' now it tags, gauge ''system.fs.inodes.used'' now iused tags,
                  gauge ''system.fs.inodes.free'' now (f64_of_u64 (ls_ffree s)) tags, gauge ''system.fs.inodes.in_use'' now (ratio iused it) tags]
            else []))"

fun mount_lines :: "linux_kernel \<Rightarrow> int \<Rightarrow> string list \<Rightarrow> string list \<Rightarrow> serie list" where
  "mount_lines k now seen [] = []"
| "mount_lines k now seen (line # ls) =
     (case str_fields line of
        f0 # f1 # f2 # fs \<Rightarrow>
          let dev = unescape f0; mount = unescape f1 in
          if f2 \<in> set pseudo_fs \<or> dev \<in> set seen then mount_lines k now seen ls
          else (case lk_statfs k mount of
                  None \<Rightarrow> mount_lines k now seen ls
                | Some s \<Rightarrow>
                    if ls_blocks s = 0 then mount_lines k now seen ls
                    else fs_gauges now dev s @ mount_lines k now (dev # seen) ls)
      | _ \<Rightarrow> mount_lines k now seen ls)"

definition linux_fs :: "(linux_kernel, linux_state) sub_collector" where
  "linux_fs k now st =
     (case lk_proc k ''mounts'' of
        None \<Rightarrow> (Inl ReadFailed, st)
      | Some data \<Rightarrow> (Inr (mount_lines k now [] (scan_lines data)), st))"

section \<open>Network\<close>

definition net_dev_line :: "string \<Rightarrow> linux_counters gomap \<Rightarrow> linux_counters gomap" where
  "net_dev_line line m =
     (case str_cut '':'' line of (name, rest, ok) \<Rightarrow>
        let iface = trim_space name; f = parse_floats (str_fields rest) in
        if \<not> ok \<or> iface = [] \<or> iface = ''lo'' \<or> length f < 16 then m
        else AList.update iface
          \<lparr>nc_rx_bytes = f ! 0, nc_rx_packets = f ! 1, nc_rx_errs = f ! 2, nc_rx_drop = f ! 3,
           nc_tx_bytes = f ! 8, nc_tx_packets = f ! 9, nc_tx_errs = f ! 10, nc_tx_drop = f ! 11\<rparr> m)"

definition parse_net_dev :: "string \<Rightarrow> linux_counters gomap" where
  "parse_net_dev data = fold net_dev_line (scan_lines data) []"

definition iface_rates :: "int \<Rightarrow> f64 \<Rightarrow> linux_counters gomap \<Rightarrow> string \<times> linux_counters \<Rightarrow> serie list" where
  "iface_rates now dt prev e =
     (case map_of prev (fst e) of
        None \<Rightarrow> []
      | Some p \<Rightarrow>
          let c = snd e; tags = [''device:'' @ fst e] in
          rate_gauge ''system.net.bytes_rcvd'' now tags dt (nc_rx_bytes c) (nc_rx_bytes p)
          @ rate_gauge ''system.net.bytes_sent'' now tags dt (nc_tx_bytes c) (nc_tx_bytes p)
          @ rate_gauge ''system.net.packets_in.count'' now tags dt (nc_rx_packets c) (nc_rx_packets p)
          @ rate_gauge ''system.net.packets_in.error'' now tags dt (nc_rx_errs c) (nc_rx_errs p)
          @ rate_gauge ''system.net.packets_in.drop'' now tags dt (nc_rx_drop c) (nc_rx_drop p)
          @ rate_gauge ''system.net.packets_out.count'' now tags dt (nc_tx_packets c) (nc_tx_packets p)
          @ rate_gauge ''system.net.packets_out.error'' now tags dt (nc_tx_errs c) (nc_tx_errs p)
          @ rate_gauge ''system.net.packets_out.drop'' now tags dt (nc_tx_drop c) (nc_tx_drop p))"

definition linux_net :: "(linux_counters gomap \<Rightarrow> linux_counters gomap) \<Rightarrow> (linux_kernel, linux_state) sub_collector" where
  "linux_net rng k now st =
     (case lk_proc k ''net/dev'' of
        None \<Rightarrow> (Inl ReadFailed, st)
      | Some data \<Rightarrow>
          let cur = parse_net_dev data
          in (Inr (since_last now (lx_net st) (\<lambda>dt prev. concat (map (iface_rates now dt prev) (rng cur)))),
              st\<lparr>lx_net := Some (cur, now)\<rparr>))"

section \<open>Disk rates\<close>

definition diskstats_line :: "string \<Rightarrow> diskstat gomap \<Rightarrow> diskstat gomap" where
  "diskstats_line line m =
     (let f = str_fields line in
      if length f < 14 then m
      else if has_prefix ''loop'' (f ! 2) \<or> has_prefix ''ram'' (f ! 2) then m
      else if list_all (\<lambda>i. float_ok (f ! i) \<noteq> None) [3, 4, 5, 6, 7, 8, 9, 10, 12, 13] then
        (let n = (\<lambda>i. float_or_zero (f ! i))
         in AList.update (f ! 2)
              \<lparr>dk_reads = n 3, dk_reads_merged = n 4, dk_sectors_read = n 5, dk_ms_reading = n 6, dk_writes = n 7,
               dk_writes_merged = n 8, dk_sectors_written = n 9, dk_ms_writing = n 10, dk_ms_io = n 12, dk_weighted_ms_io = n 13\<rparr> m)
      else m)"

definition parse_diskstats :: "string \<Rightarrow> diskstat gomap" where
  "parse_diskstats data = fold diskstats_line (scan_lines data) []"

definition disk_io_series :: "string \<Rightarrow> diskstat \<Rightarrow> diskstat \<Rightarrow> f64 \<Rightarrow> int \<Rightarrow> serie list" where
  "disk_io_series name c p dt now =
     (let d = (\<lambda>f. fsub (f c) (f p)); reads = d dk_reads; writes = d dk_writes; g = (\<lambda>metric v. gauge metric now v (device_of name)) in
      if flt reads (Fin 0) \<or> flt writes (Fin 0) then []
      else
        let rsect = d dk_sectors_read; wsect = d dk_sectors_written; rms = clamp (d dk_ms_reading); wms = clamp (d dk_ms_writing);
            wall = fmul dt (Fin 1000); ops = fadd reads writes;
            util = at_most_100 (fmul (fdiv (d dk_ms_io) wall) (Fin 100))
        in [g ''system.io.r_s'' (fdiv reads dt), g ''system.io.w_s'' (fdiv writes dt),
            g ''system.io.rrqm_s'' (fdiv (clamp (d dk_reads_merged)) dt), g ''system.io.wrqm_s'' (fdiv (clamp (d dk_writes_merged)) dt),
            g ''system.io.rkb_s'' (fdiv (fdiv rsect (Fin 2)) dt), g ''system.io.wkb_s'' (fdiv (fdiv wsect (Fin 2)) dt),
            g ''system.io.avg_q_sz'' (fdiv (clamp (d dk_weighted_ms_io)) wall),
            g ''system.io.util'' (clamp util)]
           @ (if flt (Fin 0) ops
              then [g ''system.io.await'' (fdiv (fadd rms wms) ops), g ''system.io.avg_rq_sz'' (fdiv (fadd rsect wsect) ops)] else [])
           @ (if flt (Fin 0) reads then [g ''system.io.r_await'' (fdiv rms reads)] else [])
           @ (if flt (Fin 0) writes then [g ''system.io.w_await'' (fdiv wms writes)] else []))"

definition linux_io :: "(diskstat gomap \<Rightarrow> diskstat gomap) \<Rightarrow> (linux_kernel, linux_state) sub_collector" where
  "linux_io rng k now st =
     (case lk_proc k ''diskstats'' of
        None \<Rightarrow> (Inl ReadFailed, st)
      | Some data \<Rightarrow>
          let cur = parse_diskstats data
          in (Inr (since_last now (lx_io st) (\<lambda>dt prev. concat (map
                (\<lambda>e. case map_of prev (fst e) of None \<Rightarrow> [] | Some p \<Rightarrow> disk_io_series (fst e) (snd e) p dt now) (rng cur)))),
              st\<lparr>lx_io := Some (cur, now)\<rparr>))"

section \<open>All of them\<close>

definition linux_collectors ::
  "int \<Rightarrow> (linux_counters gomap \<Rightarrow> linux_counters gomap) \<Rightarrow> (diskstat gomap \<Rightarrow> diskstat gomap) \<Rightarrow>
   (linux_kernel, linux_state) sub_collector list" where
  "linux_collectors ncpu net_order io_order =
     [linux_cpu, linux_mem, linux_load ncpu, linux_uptime, linux_fs, linux_net net_order, linux_io io_order]"

section \<open>The rates as instances of the contract\<close>

interpretation linux_cpu: reading_source linux_cpu lx_cpu
  "\<lambda>k now. map_option fst (Option.bind (lk_proc k ''stat'') parse_cpu)"
  "\<lambda>k now prev. let (cur, ncpu) = the (Option.bind (lk_proc k ''stat'') parse_cpu)
     in gauge ''system.cpu.num_cores'' now (f64_of_int ncpu) [] # cpu_percentages now cur prev"
  apply unfold_locales
  subgoal by (auto simp: linux_cpu_def split: option.splits)
  subgoal by (auto simp: linux_cpu_def split: option.splits)
  subgoal by (auto simp: linux_cpu_def split: option.splits)
  done

definition net_dev_reading :: "linux_kernel \<Rightarrow> linux_counters gomap option" where
  "net_dev_reading k = map_option parse_net_dev (lk_proc k ''net/dev'')"

interpretation linux_net: rate_source "linux_net rng" lx_net net_dev_reading "\<lambda>_ _. []"
  "\<lambda>k now dt prev. concat (map (iface_rates now dt prev) (rng (the (net_dev_reading k))))" "\<lambda>_ _. []" for rng
  apply unfold_locales
  subgoal by (auto simp: linux_net_def net_dev_reading_def timed_def Let_def split: option.splits)
  subgoal by (auto simp: linux_net_def net_dev_reading_def timed_def Let_def split: option.splits)
  subgoal by (auto simp: linux_net_def net_dev_reading_def timed_def Let_def split: option.splits)
  subgoal for dt s k now p
    using rate_gauge_not_below_zero [of dt] by (auto simp: iface_rates_def Let_def split: option.splits)
  done

definition diskstats_reading :: "linux_kernel \<Rightarrow> diskstat gomap option" where
  "diskstats_reading k = map_option parse_diskstats (lk_proc k ''diskstats'')"

text \<open>The disk rates are not all clamped, so they keep the weaker contract.\<close>

interpretation linux_io: reading_source "linux_io rng" lx_io "timed diskstats_reading"
  "\<lambda>k now prev. since_last now prev (\<lambda>dt prev. concat (map
     (\<lambda>e. case map_of prev (fst e) of None \<Rightarrow> [] | Some p \<Rightarrow> disk_io_series (fst e) (snd e) p dt now) (rng (the (diskstats_reading k)))))" for rng
  apply unfold_locales
  subgoal by (auto simp: linux_io_def diskstats_reading_def timed_def Let_def split: option.splits)
  subgoal by (auto simp: linux_io_def diskstats_reading_def timed_def Let_def split: option.splits)
  subgoal by (auto simp: linux_io_def diskstats_reading_def timed_def Let_def split: option.splits)
  done

section \<open>The collectors do not disturb each other\<close>

lemma linux_stateless [frame]:
  "snd (linux_mem k now st) = st" "snd (linux_load n k now st) = st" "snd (linux_uptime k now st) = st" "snd (linux_fs k now st) = st"
  by (auto simp: linux_mem_def linux_load_def linux_uptime_def linux_fs_def Let_def split: option.split list.split parsed.split)

lemma linux_same_report:
  "fst (linux_mem k now st) = fst (linux_mem k now st')" "fst (linux_load n k now st) = fst (linux_load n k now st')"
  "fst (linux_uptime k now st) = fst (linux_uptime k now st')" "fst (linux_fs k now st) = fst (linux_fs k now st')"
  by (auto simp: linux_mem_def linux_load_def linux_uptime_def linux_fs_def Let_def split: option.split list.split parsed.split)

lemma linux_frames [frame]:
  "lx_net (snd (linux_cpu k now st)) = lx_net st" "lx_io (snd (linux_cpu k now st)) = lx_io st"
  "lx_cpu (snd (linux_net rng k now st)) = lx_cpu st" "lx_io (snd (linux_net rng k now st)) = lx_io st"
  "lx_cpu (snd (linux_io rngi k now st)) = lx_cpu st" "lx_net (snd (linux_io rngi k now st)) = lx_net st"
  by (auto simp: linux_cpu_def linux_net_def linux_io_def Let_def split: option.split)

text \<open>
  On Linux a collection is what each sub-collector reports on its own, in order, and after any
  history the processor shares, the interface rates and the disk rates are taken against the last
  reading that succeeded.
\<close>

theorem linux_collects:
  "fst (collect_host i (linux_collectors n rng rngi) k now st)
      = map (\<lambda>s. s\<lparr>se_interval := i\<rparr>) (concat (map (\<lambda>sub. reported sub k now st) (linux_collectors n rng rngi)))
    \<and> lx_cpu (run_host i (linux_collectors n rng rngi) h linux_start)
      = last_kept (\<lambda>k now. map_option fst (Option.bind (lk_proc k ''stat'') parse_cpu)) h None
    \<and> lx_net (run_host i (linux_collectors n rng rngi) h linux_start) = last_reading net_dev_reading h None
    \<and> lx_io (run_host i (linux_collectors n rng rngi) h linux_start) = last_reading diskstats_reading h None"
proof -
  have right: "undisturbed k now s linux_mem" "undisturbed k now s (linux_load n)" "undisturbed k now s linux_uptime"
    "undisturbed k now s linux_fs" for s
    unfolding undisturbed_def by (intro allI linux_same_report)+
  have left: "undisturbed k now linux_mem t" "undisturbed k now (linux_load n) t" "undisturbed k now linux_uptime t"
    "undisturbed k now linux_fs t" for t
    by (simp_all add: undisturbed_def frame)
  have rates: "undisturbed k now linux_cpu (linux_net rng)" "undisturbed k now linux_cpu (linux_io rngi)"
    "undisturbed k now (linux_net rng) (linux_io rngi)"
    unfolding undisturbed_def by (intro allI linux_net.view_determines linux_io.view_determines; simp add: frame)+
  have "sorted_wrt (undisturbed k now) (linux_collectors n rng rngi)"
    by (simp add: linux_collectors_def left right rates)
  moreover have start: "lx_cpu linux_start = None" "lx_net linux_start = None" "lx_io linux_start = None"
    by (simp_all add: linux_start_def)
  moreover have split: "linux_collectors n rng rngi = [] @ linux_cpu # tl (linux_collectors n rng rngi)"
    "linux_collectors n rng rngi = butlast (butlast (linux_collectors n rng rngi)) @ linux_net rng # [linux_io rngi]"
    "linux_collectors n rng rngi = butlast (linux_collectors n rng rngi) @ linux_io rngi # []"
    by (simp_all add: linux_collectors_def)
  moreover have "lx_cpu (run_host i (linux_collectors n rng rngi) h linux_start)
      = last_kept (\<lambda>k now. map_option fst (Option.bind (lk_proc k ''stat'') parse_cpu)) h None"
    by (subst split(1), subst linux_cpu.view_host) (auto simp: linux_collectors_def frame start)
  moreover have "lx_net (run_host i (linux_collectors n rng rngi) h linux_start) = last_reading net_dev_reading h None"
    by (subst split(2), unfold last_reading_def, subst linux_net.view_host) (auto simp: linux_collectors_def frame start)
  moreover have "lx_io (run_host i (linux_collectors n rng rngi) h linux_start) = last_reading diskstats_reading h None"
    by (subst split(3), unfold last_reading_def, subst linux_io.view_host) (auto simp: linux_collectors_def frame start)
  ultimately show ?thesis by (simp add: collect_host_isolated)
qed

section \<open>Escaped paths\<close>

text \<open>How the kernel writes a path in its mount table.\<close>

definition escape_char :: "char \<Rightarrow> string" where
  "escape_char c =
     (if c = CHR '' '' then CHR 0x5C # ''040'' else if c = CHR 0x09 then CHR 0x5C # ''011''
      else if c = newline then CHR 0x5C # ''012'' else if c = CHR 0x5C then CHR 0x5C # ''134'' else [c])"

lemma unescape_plain: "c \<noteq> CHR 0x5C \<Longrightarrow> unescape (c # s) = c # unescape s"
  by (subst unescape.simps) (auto split: list.split)

lemma unescape_octal: "octal x y z = Some b \<Longrightarrow> unescape (CHR 0x5C # x # y # z # s) = b # unescape s"
  by (subst unescape.simps) simp

text \<open>Every path is read back from its escaped form, spaces, tabs, newlines and backslashes included.\<close>

theorem mount_unescape_roundtrip: "unescape (concat (map escape_char s)) = s"
proof (induction s)
  case Nil
  show ?case by (subst unescape.simps) simp
next
  case (Cons c s)
  have "octal CHR ''0'' CHR ''4'' CHR ''0'' = Some CHR '' ''" "octal CHR ''0'' CHR ''1'' CHR ''1'' = Some CHR 0x09"
    "octal CHR ''0'' CHR ''1'' CHR ''2'' = Some newline" "octal CHR ''1'' CHR ''3'' CHR ''4'' = Some CHR 0x5C"
    by code_simp+
  with Cons show ?case by (auto simp: escape_char_def unescape_octal unescape_plain)
qed

section \<open>Shares of the processor\<close>

lemma percent_range:
  assumes "0 \<le> a" "a \<le> t" "0 < t"
  shows "\<exists>r. percent (Fin (of_int t)) (Fin (of_int a)) = Fin r \<and> 0 \<le> r \<and> r \<le> 100"
proof -
  have ends: "rnd64 False 1 = Fin 1" "rnd64 False 100 = Fin 100" using rnd64_int [of 1 False] rnd64_int [of 100 False] by simp_all
  have "(of_int a :: rat) / of_int t \<le> 1" "0 \<le> (of_int a :: rat) / of_int t" using assms by simp_all
  with rnd64_mono [OF _ _ ends(1)] obtain q where q: "rnd64 False (of_int a / of_int t) = Fin q" "0 \<le> q" "q \<le> 1" by metis
  moreover have "0 \<le> q * 100" "q * 100 \<le> 100" using q by simp_all
  with rnd64_mono [OF _ _ ends(2)] obtain r where "rnd64 False (q * 100) = Fin r" "0 \<le> r" "r \<le> 100" by metis
  ultimately show ?thesis using assms by (auto simp: percent_def fdiv_def fmul_def)
qed

definition jiffies :: "int list \<Rightarrow> cpu_times" where
  "jiffies n = cpu_line (map (\<lambda>x. Fin (of_int x)) n)"

lemma cpu_total_jiffies:
  assumes "8 \<le> length n" "list_all (\<lambda>x. 0 \<le> x) n" "sum_list (take 8 n) \<le> 2 ^ 53"
  shows "cpu_total (jiffies n) = Fin (of_int (sum_list (take 8 n)))"
proof -
  obtain a b c d e f g h r where n: "n = a # b # c # d # e # f # g # h # r"
    using assms(1) by (auto simp: Suc_le_length_iff eval_nat_numeral)
  then have s: "sum_list (take 8 n) = a + b + c + d + e + f + g + h" by simp
  show ?thesis
    using assms(2,3) unfolding s by (simp add: n cpu_total_def jiffies_def cpu_line_def fadd_int del: of_int_add)
qed

lemma cpu_shares:
  assumes len: "8 \<le> length p" and le: "list_all2 (\<le>) p c" and pos: "list_all (\<lambda>x. 0 \<le> x) p"
    and sums: "sum_list (take 8 c) \<le> 2 ^ 53" "sum_list (take 8 p) < sum_list (take 8 c)"
  shows "\<exists>user system iowait idle stolen guest. cpu_percentages now (jiffies c) (Some (jiffies p))
      = [gauge ''system.cpu.user'' now (Fin user) [], gauge ''system.cpu.system'' now (Fin system) [],
         gauge ''system.cpu.iowait'' now (Fin iowait) [], gauge ''system.cpu.idle'' now (Fin idle) [],
         gauge ''system.cpu.stolen'' now (Fin stolen) [], gauge ''system.cpu.guest'' now guest []]
    \<and> list_all (\<lambda>x. 0 \<le> x \<and> x \<le> 100) [user, system, iowait, idle, stolen]"
proof -
  have len': "length c = length p" using le by (simp add: list_all2_lengthD)
  have lenc: "8 \<le> length c" using len len' by simp
  obtain p0 p1 p2 p3 p4 p5 p6 p7 pr where p: "p = p0 # p1 # p2 # p3 # p4 # p5 # p6 # p7 # pr"
    using len by (auto simp: Suc_le_length_iff eval_nat_numeral)
  obtain c0 c1 c2 c3 c4 c5 c6 c7 cr where c: "c = c0 # c1 # c2 # c3 # c4 # c5 # c6 # c7 # cr"
    using lenc by (auto simp: Suc_le_length_iff eval_nat_numeral)
  have les: "p0 \<le> c0" "p1 \<le> c1" "p2 \<le> c2" "p3 \<le> c3" "p4 \<le> c4" "p5 \<le> c5" "p6 \<le> c6" "p7 \<le> c7" "list_all2 (\<le>) pr cr"
    and nn: "0 \<le> p0" "0 \<le> p1" "0 \<le> p2" "0 \<le> p3" "0 \<le> p4" "0 \<le> p5" "0 \<le> p6" "0 \<le> p7" "list_all (\<lambda>x. 0 \<le> x) pr"
    using le pos by (auto simp: p c)
  have posc: "list_all (\<lambda>x. 0 \<le> x) c"
    using le pos by (induction p c rule: list_all2_induct) auto
  let ?P = "sum_list (take 8 p)" and ?C = "sum_list (take 8 c)"
  have sum: "?P = p0 + p1 + p2 + p3 + p4 + p5 + p6 + p7" "?C = c0 + c1 + c2 + c3 + c4 + c5 + c6 + c7"
    by (simp_all add: p c)
  have tot: "cpu_total (jiffies p) = Fin (of_int ?P)" "cpu_total (jiffies c) = Fin (of_int ?C)"
    using len len' pos posc sums by (auto intro!: cpu_total_jiffies)
  have dt: "fsub (Fin (of_int ?C)) (Fin (of_int ?P)) = Fin (of_int (?C - ?P))"
    using sums nn sum by (intro fsub_int) linarith
  have d: "fsub (ct_user (jiffies c)) (ct_user (jiffies p)) = Fin (of_int (c0 - p0))"
    "fsub (ct_nice (jiffies c)) (ct_nice (jiffies p)) = Fin (of_int (c1 - p1))"
    "fsub (ct_system (jiffies c)) (ct_system (jiffies p)) = Fin (of_int (c2 - p2))"
    "fsub (ct_idle (jiffies c)) (ct_idle (jiffies p)) = Fin (of_int (c3 - p3))"
    "fsub (ct_iowait (jiffies c)) (ct_iowait (jiffies p)) = Fin (of_int (c4 - p4))"
    "fsub (ct_irq (jiffies c)) (ct_irq (jiffies p)) = Fin (of_int (c5 - p5))"
    "fsub (ct_softirq (jiffies c)) (ct_softirq (jiffies p)) = Fin (of_int (c6 - p6))"
    "fsub (ct_steal (jiffies c)) (ct_steal (jiffies p)) = Fin (of_int (c7 - p7))"
    using sums sum nn les by (simp_all add: jiffies_def cpu_line_def p c fsub_int del: of_int_diff)
  have groups: "fadd (Fin (of_int (c0 - p0))) (Fin (of_int (c1 - p1))) = Fin (of_int (c0 - p0 + (c1 - p1)))"
    "fadd (fadd (Fin (of_int (c2 - p2))) (Fin (of_int (c5 - p5)))) (Fin (of_int (c6 - p6))) = Fin (of_int (c2 - p2 + (c5 - p5) + (c6 - p6)))"
    using sums sum nn les by (simp_all add: fadd_int del: of_int_diff of_int_add)
  have share: "\<exists>r. percent (Fin (of_int (?C - ?P))) (Fin (of_int a)) = Fin r \<and> 0 \<le> r \<and> r \<le> 100" if "0 \<le> a" "a \<le> ?C - ?P" for a
    using that sums by (intro percent_range) simp_all
  from share [of "c0 - p0 + (c1 - p1)"] share [of "c2 - p2 + (c5 - p5) + (c6 - p6)"] share [of "c4 - p4"] share [of "c3 - p3"]
    share [of "c7 - p7"] les sum
  obtain u s w i x where "percent (Fin (of_int (?C - ?P))) (Fin (of_int (c0 - p0 + (c1 - p1)))) = Fin u" "0 \<le> u" "u \<le> 100"
    "percent (Fin (of_int (?C - ?P))) (Fin (of_int (c2 - p2 + (c5 - p5) + (c6 - p6)))) = Fin s" "0 \<le> s" "s \<le> 100"
    "percent (Fin (of_int (?C - ?P))) (Fin (of_int (c4 - p4))) = Fin w" "0 \<le> w" "w \<le> 100"
    "percent (Fin (of_int (?C - ?P))) (Fin (of_int (c3 - p3))) = Fin i" "0 \<le> i" "i \<le> 100"
    "percent (Fin (of_int (?C - ?P))) (Fin (of_int (c7 - p7))) = Fin x" "0 \<le> x" "x \<le> 100"
    by force
  moreover have "flt (Fin 0) (Fin (of_int (?C - ?P)))" using sums by (simp add: flt_def del: of_int_diff)
  ultimately show ?thesis
    unfolding cpu_percentages_def option.case Let_def tot dt d groups by simp blast
qed

section \<open>The statistics file read back\<close>

text \<open>The line of all processors, one per processor, then the others.\<close>

definition core_line :: "nat \<times> string \<Rightarrow> string" where
  "core_line c = ''cpu'' @ fmt_nat (fst c) @ '' '' @ snd c"

definition stat_lines :: "nat list \<Rightarrow> string list \<Rightarrow> string list \<Rightarrow> string list" where
  "stat_lines counters cores others =
     (''cpu  '' @ join_with '' '' (map fmt_nat counters))
     # map core_line (enumerate 0 cores) @ others"

definition stat_line_ok :: "string \<Rightarrow> bool" where
  "stat_line_ok l \<longleftrightarrow> newline \<notin> set l \<and> CHR 0x0D \<notin> set l \<and> length l < 65536"

lemma cpu_line_fields:
  assumes "counters \<noteq> []"
  shows "str_fields (''cpu  '' @ join_with '' '' (map fmt_nat counters)) = ''cpu'' # map fmt_nat counters"
proof -
  have "list_all plain ''cpu''" by code_simp
  then have "str_fields (''cpu'' @ CHR '' '' # CHR '' '' # s) = ''cpu'' # str_fields (CHR '' '' # s)" for s by (intro str_fields_word) simp_all
  moreover have "str_fields (CHR '' '' # s) = str_fields s" for s
    using fields_from_space [of "CHR '' ''" "[]" s] by (simp add: str_fields_def)
  moreover have "str_fields (join_with '' '' (map fmt_nat counters)) = map fmt_nat counters"
    using plain_digits by (intro str_fields_joined) (simp add: list_all_iff)
  ultimately show ?thesis by simp
qed

lemma core_line_step: "parse_cpu_lines (core_line c # ls) t n found = parse_cpu_lines ls t (n + 1) found"
proof -
  have "list_all plain ''cpu''" by code_simp
  then have "list_all plain (''cpu'' @ fmt_nat (fst c))" using plain_digits by simp
  from str_fields_word [OF this, of "CHR '' ''" "snd c"]
  have "str_fields (core_line c) = (''cpu'' @ fmt_nat (fst c)) # str_fields (snd c)" by (simp add: core_line_def)
  moreover have "has_prefix ''cpu'' (core_line c)" by (simp add: core_line_def)
  ultimately show ?thesis by simp
qed

lemma parse_core_lines:
  "parse_cpu_lines (map core_line (enumerate k cores) @ others) t n found = parse_cpu_lines others t (n + int (length cores)) found"
  by (induction cores arbitrary: k n) (simp_all add: core_line_step algebra_simps del: parse_cpu_lines.simps)

lemma parse_other_lines:
  "list_all (\<lambda>l. \<not> has_prefix ''cpu'' l) others \<Longrightarrow> parse_cpu_lines others t n True = Some (t, n)"
  by (induction others) simp_all

definition stat_text :: "nat list \<Rightarrow> string list \<Rightarrow> string list \<Rightarrow> string" where
  "stat_text counters cores others = concat (map (\<lambda>l. l @ [newline]) (stat_lines counters cores others))"

definition stat_ok :: "nat list \<Rightarrow> string list \<Rightarrow> string list \<Rightarrow> bool" where
  "stat_ok counters cores others \<longleftrightarrow> 8 \<le> length counters \<and> list_all (\<lambda>x. x \<le> 2 ^ 53) counters
     \<and> list_all (\<lambda>l. \<not> has_prefix ''cpu'' l) others \<and> list_all stat_line_ok (stat_lines counters cores others)"

lemma parse_cpu_roundtrip:
  assumes "stat_ok counters cores others"
  shows "parse_cpu (stat_text counters cores others) = Some (jiffies (map int counters), int (length cores))"
proof -
  note ok = assms [unfolded stat_ok_def]
  have "scan_lines (stat_text counters cores others) = stat_lines counters cores others"
    unfolding stat_text_def using ok by (intro scan_lines_lines) (auto simp: list_all_iff stat_line_ok_def)
  moreover have "counters \<noteq> []" using ok by auto
  moreover have "parse_floats (map fmt_nat counters) = map (\<lambda>x. Fin (of_int (int x))) counters"
    using ok [THEN conjunct2, THEN conjunct1] by (induction counters) (simp_all add: parse_floats_def float_or_zero_def parse_float_fmt_nat res_val_def)
  ultimately show ?thesis
    using ok cpu_line_fields [of counters]
    by (simp add: parse_cpu_def stat_lines_def parse_core_lines parse_other_lines jiffies_def comp_def)
qed


definition stat_kernel :: "nat list \<Rightarrow> linux_kernel" where
  "stat_kernel n = \<lparr>lk_proc = (\<lambda>name. if name = ''stat'' then Some (stat_text n [''1 2'', ''3 4''] [''intr 7'']) else None),
     lk_statfs = (\<lambda>_. None)\<rparr>"


section \<open>Devices are reported once\<close>

text \<open>What a line of the mount table asks to report: the device, and the figures of its file system.\<close>

definition mount_figures :: "linux_kernel \<Rightarrow> string \<Rightarrow> (string \<times> linux_statfs) option" where
  "mount_figures k line =
     (case str_fields line of
        f0 # f1 # f2 # fs \<Rightarrow>
          if f2 \<in> set pseudo_fs then None
          else (case lk_statfs k (unescape f1) of None \<Rightarrow> None | Some s \<Rightarrow> if ls_blocks s = 0 then None else Some (unescape f0, s))
      | _ \<Rightarrow> None)"

lemma mount_lines_step:
  "mount_lines k now seen (line # ls) =
     (case mount_figures k line of
        Some (dev, s) \<Rightarrow> if dev \<in> set seen then mount_lines k now seen ls else fs_gauges now dev s @ mount_lines k now (dev # seen) ls
      | None \<Rightarrow> mount_lines k now seen ls)"
  by (auto simp: mount_figures_def Let_def split: list.split option.split)

lemma mount_lines_first:
  "\<exists>firsts. mount_lines k now seen lines = concat (map (\<lambda>(dev, s). fs_gauges now dev s) firsts)
    \<and> distinct (map fst firsts) \<and> set firsts \<subseteq> set (List.map_filter (mount_figures k) lines)
    \<and> fst ` set firsts = fst ` set (List.map_filter (mount_figures k) lines) - set seen"
proof (induction lines arbitrary: seen)
  case (Cons line ls)
  show ?case
  proof (cases "mount_figures k line")
    case None
    with Cons [of seen] show ?thesis by (simp add: mount_lines_step map_filter_simps del: mount_lines.simps)
  next
    case (Some ds)
    obtain dev s where ds: "ds = (dev, s)" by (cases ds)
    show ?thesis
    proof (cases "dev \<in> set seen")
      case True
      with Some ds Cons [of seen] show ?thesis by (auto simp: mount_lines_step map_filter_simps simp del: mount_lines.simps)
    next
      case False
      from Cons [of "dev # seen"] obtain firsts where f: "mount_lines k now (dev # seen) ls = concat (map (\<lambda>(dev, s). fs_gauges now dev s) firsts)"
        "set firsts \<subseteq> set (List.map_filter (mount_figures k) ls)" "distinct (map fst firsts)"
        "fst ` set firsts = fst ` set (List.map_filter (mount_figures k) ls) - set (dev # seen)" by blast
      then have "dev \<notin> fst ` set firsts" by simp
      with False Some ds f show ?thesis
        by (intro exI [of _ "(dev, s) # firsts"]) (auto simp: mount_lines_step map_filter_simps simp del: mount_lines.simps)
    qed
  qed
qed simp

text \<open>
  Of the mount table every device with a real file system that answers is reported once,
  however often it is mounted, and no other is.
\<close>

theorem linux_disks_reported_once:
  "\<exists>firsts. mount_lines k now [] lines = concat (map (\<lambda>(dev, s). fs_gauges now dev s) firsts)
    \<and> distinct (map fst firsts) \<and> set firsts \<subseteq> set (List.map_filter (mount_figures k) lines)
    \<and> fst ` set firsts = fst ` set (List.map_filter (mount_figures k) lines)"
  using mount_lines_first [of k now "[]" lines] by simp

text \<open>
  The sector counters are the only ones whose difference is not clamped: one that wrapped around
  while the operation counters did not gives a throughput below zero.
\<close>

definition sectors_example :: "rat \<Rightarrow> rat \<Rightarrow> diskstat" where
  "sectors_example ops sectors = \<lparr>dk_reads = Fin ops, dk_reads_merged = Fin 0, dk_sectors_read = Fin sectors, dk_ms_reading = Fin 0,
     dk_writes = Fin 0, dk_writes_merged = Fin 0, dk_sectors_written = Fin 0, dk_ms_writing = Fin 0, dk_ms_io = Fin 0, dk_weighted_ms_io = Fin 0\<rparr>"

lemma wrapped_sectors_go_negative:
  "gauge ''system.io.rkb_s'' 0 (Fin (- 512)) (device_of ''sda'')
     \<in> set (disk_io_series ''sda'' (sectors_example 2 0) (sectors_example 1 1024) (Fin 1) 0)"
  by code_simp

end
