(* ===== verification/HostBsd.thy ===== *)
theory HostBsd
  imports DevStat
begin

text \<open>
  The sub-collectors of the BSD systems and macOS: the processor, load and uptime they share
  (\<^verbatim>\<open>internal/host/collectors_bsd.go\<close>, \<^verbatim>\<open>collectors_unix.go\<close>), the memory of each kernel, the file systems
  (\<^verbatim>\<open>collectors_diskbsd.go\<close>, \<^verbatim>\<open>collectors_bsd2.go\<close>) and the disk rates (\<^verbatim>\<open>io_*.go\<close>, \<^verbatim>\<open>iosysctl_bsd.go\<close>).
  The kernel is what its calls answer during one collection.
\<close>

section \<open>The kernel\<close>

record uvmexp =
  uv_pagesize :: int
  uv_npages :: int
  uv_free :: int
  uv_inactive :: int
  uv_filepages :: int
  uv_execpages :: int

text \<open>The figures of \<open>struct statfs\<close> and \<open>struct statvfs\<close>; the latter also has a fragment size.\<close>

record bsd_statfs =
  sf_from :: string
  sf_type :: string
  sf_blocks :: u64
  sf_bfree :: u64
  sf_bavail :: int
  sf_bsize :: u64
  sf_frsize :: u64

record bsd_kernel =
  bk_raw :: "string \<Rightarrow> string option"
  bk_boottime :: "int option"
  bk_ncpu :: int
  bk_uvmexp :: "uvmexp option"
  bk_mount_count :: "nat option"
  bk_mounts :: "bsd_statfs list option"
  bk_disk_size :: "nat option"
  bk_disk_into :: "nat \<Rightarrow> string option"

record bsd_state =
  bd_cpu :: "u64 list option"
  bd_io :: "(devstat_rec gomap \<times> int) option"

definition bsd_start :: bsd_state where
  "bsd_start = \<lparr>bd_cpu = None, bd_io = None\<rparr>"

section \<open>Processor, load and uptime\<close>

definition cp_times :: "string \<Rightarrow> u64 list" where
  "cp_times b = map (\<lambda>i. word_of_int (le64 b (8 * i))) [0..<length b div 8]"

definition share_of :: "u64 \<Rightarrow> u64 \<Rightarrow> f64" where
  "share_of tot x = fmul (fdiv (f64_of_u64 x) (f64_of_u64 tot)) (Fin 100)"

definition bsd_cpu_percent :: "int \<Rightarrow> u64 list \<Rightarrow> u64 list option \<Rightarrow> serie list" where
  "bsd_cpu_percent now cur prev =
     (case prev of
        None \<Rightarrow> []
      | Some p \<Rightarrow>
          if length p \<noteq> length cur then []
          else let n = length cur; d = map2 (-) cur p; total = sum_list d; system = sum_list (take (n - 3) (drop 2 d))
               in if 0 < total
                  then [gauge ''system.cpu.user'' now (share_of total (d ! 0 + d ! 1)) [],
                        gauge ''system.cpu.system'' now (share_of total system) [],
                        gauge ''system.cpu.idle'' now (share_of total (d ! (n - 1))) []]
                  else [])"

definition bsd_cpu :: "(bsd_kernel, bsd_state) sub_collector" where
  "bsd_cpu k now st =
     (case bk_raw k ''kern.cp_time'' of
        None \<Rightarrow> (Inl ReadFailed, st)
      | Some b \<Rightarrow>
          if length b div 8 < 5 then (Inl ReadFailed, st)
          else (Inr (gauge ''system.cpu.num_cores'' now (f64_of_int (bk_ncpu k)) [] # bsd_cpu_percent now (cp_times b) (bd_cpu st)),
                st\<lparr>bd_cpu := Some (cp_times b)\<rparr>))"

definition load_gauges :: "int \<Rightarrow> f64 \<Rightarrow> f64 \<Rightarrow> f64 \<Rightarrow> int \<Rightarrow> serie list" where
  "load_gauges now l1 l5 l15 ncpu =
     (let n = (if ncpu = 0 then Fin 1 else f64_of_int ncpu)
      in [gauge ''system.load.1'' now l1 [], gauge ''system.load.5'' now l5 [], gauge ''system.load.15'' now l15 [],
          gauge ''system.load.norm.1'' now (fdiv l1 n) [], gauge ''system.load.norm.5'' now (fdiv l5 n) [],
          gauge ''system.load.norm.15'' now (fdiv l15 n) []])"

definition bsd_load :: "(bsd_kernel, bsd_state) sub_collector" where
  "bsd_load k now st =
     (case bk_raw k ''vm.loadavg'' of
        None \<Rightarrow> (Inl ReadFailed, st)
      | Some b \<Rightarrow>
          if length b < 24 then (Inr [], st)
          else let s = f64_of_int (le64 b 16); scale = (if feq s (Fin 0) then Fin 2048 else s);
                   ld = (\<lambda>i. fdiv (f64_of_int (le32 b (i * 4))) scale)
               in (Inr (load_gauges now (ld 0) (ld 1) (ld 2) (bk_ncpu k)), st))"

definition bsd_uptime :: "(bsd_kernel, bsd_state) sub_collector" where
  "bsd_uptime k now st =
     (case bk_boottime k of
        None \<Rightarrow> (Inl ReadFailed, st)
      | Some sec \<Rightarrow>
          let up = wrap_i64 (unix now - sec)
          in (Inr (if up < 0 then [] else [gauge ''system.uptime'' now (f64_of_int up) []]), st))"

section \<open>Memory\<close>

definition sysctl_num :: "bsd_kernel \<Rightarrow> string \<Rightarrow> u64" where
  "sysctl_num k name =
     (case bk_raw k name of
        None \<Rightarrow> 0
      | Some b \<Rightarrow> if 8 \<le> length b then word_of_int (le64 b 0) else if 4 \<le> length b then word_of_int (le32 b 0) else 0)"

definition in_megabytes :: "u64 \<Rightarrow> f64" where
  "in_megabytes w = fdiv (f64_of_u64 w) (Fin 1048576)"

definition mem_gauges :: "int \<Rightarrow> u64 \<Rightarrow> u64 \<Rightarrow> u64 \<Rightarrow> serie list" where
  "mem_gauges now tot free usable =
     [gauge ''system.mem.total'' now (in_megabytes tot) [], gauge ''system.mem.free'' now (in_megabytes free) [],
      gauge ''system.mem.used'' now (in_megabytes (tot - free)) [], gauge ''system.mem.usable'' now (in_megabytes usable) [],
      gauge ''system.mem.pct_usable'' now (fdiv (f64_of_u64 usable) (f64_of_u64 tot)) []]"

definition or_4096 :: "u64 \<Rightarrow> u64" where
  "or_4096 w = (if w = 0 then 4096 else w)"

definition vmstats_mem :: "(bsd_kernel, bsd_state) sub_collector" where
  "vmstats_mem k now st =
     (let total = sysctl_num k ''hw.physmem''; pagesize = or_4096 (sysctl_num k ''hw.pagesize'');
          free = sysctl_num k ''vm.stats.vm.v_free_count'' * pagesize;
          usable = free + sysctl_num k ''vm.stats.vm.v_inactive_count'' * pagesize + sysctl_num k ''vm.stats.vm.v_cache_count'' * pagesize
      in (Inr (if total = 0 then [] else mem_gauges now total free usable), st))"

definition openbsd_mem :: "(bsd_kernel, bsd_state) sub_collector" where
  "openbsd_mem k now st =
     (case bk_uvmexp k of
        None \<Rightarrow> (Inl ReadFailed, st)
      | Some u \<Rightarrow>
          let pagesize = or_4096 (word_of_int (uv_pagesize u)); total = word_of_int (uv_npages u) * pagesize;
              free = word_of_int (uv_free u) * pagesize; usable = (word_of_int (uv_free u) + word_of_int (uv_inactive u)) * pagesize
          in (Inr (if total = 0 then [] else mem_gauges now total free usable), st))"

definition netbsd_mem :: "(bsd_kernel, bsd_state) sub_collector" where
  "netbsd_mem k now st =
     (case bk_uvmexp k of
        None \<Rightarrow> (Inl ReadFailed, st)
      | Some u \<Rightarrow>
          let pagesize = or_4096 (word_of_int (uv_pagesize u)); phys = sysctl_num k ''hw.physmem64'';
              total = (if phys = 0 then word_of_int (uv_npages u) * pagesize else phys);
              free = word_of_int (uv_free u) * pagesize;
              usable = (word_of_int (uv_free u) + word_of_int (uv_inactive u) + word_of_int (uv_filepages u)
                + word_of_int (uv_execpages u)) * pagesize
          in (Inr (if total = 0 then [] else mem_gauges now total free usable), st))"

section \<open>File systems\<close>

record bsd_mount =
  bm_dev :: string
  bm_fstype :: string
  bm_blocks :: u64
  bm_bfree :: u64
  bm_bavail :: u64
  bm_bsize :: u64

definition blocks_avail :: "int \<Rightarrow> u64" where
  "blocks_avail v = (if v < 0 then 0 else word_of_int v)"

definition pseudo_bsd2_fs :: "string list" where
  "pseudo_bsd2_fs = [''kernfs'', ''procfs'', ''ptyfs'', ''tmpfs'', ''mfs'', ''fdesc'', ''null'', ''overlay'', ''fuse'']"

definition pseudo_bsd_fs :: "string list" where
  "pseudo_bsd_fs = [''devfs'', ''procfs'', ''fdescfs'', ''linprocfs'', ''linsysfs'', ''tmpfs'', ''nullfs'']"

definition mount_gauges :: "int \<Rightarrow> bsd_mount \<Rightarrow> serie list" where
  "mount_gauges now m =
     disk_gauges now (bm_dev m) (in_kilobytes (bm_blocks m * bm_bsize m)) (in_kilobytes ((bm_blocks m - bm_bfree m) * bm_bsize m))
       (in_kilobytes (bm_bavail m * bm_bsize m))"

text \<open>The loop over the mounts: \<open>seen\<close> are the devices reported so far.\<close>

fun disk_loop :: "string list \<Rightarrow> int \<Rightarrow> string list \<Rightarrow> bsd_mount list \<Rightarrow> serie list" where
  "disk_loop pseudo now seen [] = []"
| "disk_loop pseudo now seen (m # ms) =
     (if bm_blocks m = 0 \<or> bm_dev m \<in> set seen \<or> bm_fstype m \<in> set pseudo then disk_loop pseudo now seen ms
      else mount_gauges now m @ disk_loop pseudo now (bm_dev m # seen) ms)"

definition bsd_disk_series :: "int \<Rightarrow> bsd_mount list \<Rightarrow> serie list" where
  "bsd_disk_series now mounts = disk_loop pseudo_bsd2_fs now [] mounts"

text \<open>The two calls: the number of mounts, then that many records, as far as they are filled.\<close>

definition no_statfs :: bsd_statfs where
  "no_statfs = \<lparr>sf_from = [], sf_type = [], sf_blocks = 0, sf_bfree = 0, sf_bavail = 0, sf_bsize = 0, sf_frsize = 0\<rparr>"

definition statfs_buf :: "nat \<Rightarrow> bsd_statfs list \<Rightarrow> bsd_statfs list" where
  "statfs_buf n filled = take n filled @ replicate (n - length filled) no_statfs"

definition read_mounts :: "bsd_kernel \<Rightarrow> (host_error + bsd_statfs list)" where
  "read_mounts k =
     (case bk_mount_count k of
        None \<Rightarrow> Inl ReadFailed
      | Some n \<Rightarrow> if n = 0 then Inr [] else (case bk_mounts k of None \<Rightarrow> Inl ReadFailed | Some filled \<Rightarrow> Inr (statfs_buf n filled)))"

definition statfs_mount :: "bsd_statfs \<Rightarrow> bsd_mount" where
  "statfs_mount s =
     \<lparr>bm_dev = trim_nul (sf_from s), bm_fstype = trim_nul (sf_type s), bm_blocks = sf_blocks s, bm_bfree = sf_bfree s,
      bm_bavail = blocks_avail (sf_bavail s), bm_bsize = sf_bsize s\<rparr>"

definition statvfs_mount :: "bsd_statfs \<Rightarrow> bsd_mount" where
  "statvfs_mount s =
     \<lparr>bm_dev = trim_nul (sf_from s), bm_fstype = trim_nul (sf_type s), bm_blocks = sf_blocks s, bm_bfree = sf_bfree s,
      bm_bavail = word_of_int (sf_bavail s), bm_bsize = (if sf_frsize s = 0 then sf_bsize s else sf_frsize s)\<rparr>"

definition disk_collect :: "(int \<Rightarrow> bsd_statfs list \<Rightarrow> serie list) \<Rightarrow> (bsd_kernel, bsd_state) sub_collector" where
  "disk_collect series k now st = (map_sum id (series now) (read_mounts k), st)"

definition unix_disk :: "(bsd_kernel, bsd_state) sub_collector" where
  "unix_disk = disk_collect (\<lambda>now buf. disk_loop pseudo_bsd_fs now [] (map statfs_mount buf))"

definition openbsd_disk :: "(bsd_kernel, bsd_state) sub_collector" where
  "openbsd_disk = disk_collect (\<lambda>now buf. bsd_disk_series now (map statfs_mount buf))"

definition netbsd_disk :: "(bsd_kernel, bsd_state) sub_collector" where
  "netbsd_disk = disk_collect (\<lambda>now buf. bsd_disk_series now (map statvfs_mount buf))"

section \<open>Disk rates\<close>

type_synonym dev_order = "devstat_rec gomap \<Rightarrow> devstat_rec gomap"

type_synonym io_series = "string \<Rightarrow> devstat_rec \<Rightarrow> devstat_rec \<Rightarrow> f64 \<Rightarrow> int \<Rightarrow> serie list"

definition dev_map :: "devstat_rec list \<Rightarrow> devstat_rec gomap" where
  "dev_map rs = fold (\<lambda>r. AList.update (dr_name r) r) rs []"

definition io_rates :: "dev_order \<Rightarrow> io_series \<Rightarrow> int \<Rightarrow> devstat_rec gomap \<Rightarrow> f64 \<Rightarrow> devstat_rec gomap \<Rightarrow> serie list" where
  "io_rates rng series now cur dt prev =
     concat (map (\<lambda>e. case map_of prev (fst e) of None \<Rightarrow> [] | Some p \<Rightarrow> series (fst e) (snd e) p dt now) (rng cur))"

definition io_collect ::
  "(bsd_kernel \<Rightarrow> string option) \<Rightarrow> (string \<Rightarrow> devstat_rec list) \<Rightarrow> io_series \<Rightarrow> dev_order \<Rightarrow> (bsd_kernel, bsd_state) sub_collector" where
  "io_collect blob parse series rng k now st =
     (case blob k of
        None \<Rightarrow> (Inl ReadFailed, st)
      | Some b \<Rightarrow>
          let cur = dev_map (parse b)
          in (Inr (since_last now (bd_io st) (io_rates rng series now cur)), st\<lparr>bd_io := Some (cur, now)\<rparr>))"

definition freebsd_io :: "dev_order \<Rightarrow> (bsd_kernel, bsd_state) sub_collector" where
  "freebsd_io = io_collect (\<lambda>k. bk_raw k ''kern.devstat.all'') parse_devstat devstat_series"

definition dragonfly_io :: "dev_order \<Rightarrow> (bsd_kernel, bsd_state) sub_collector" where
  "dragonfly_io = io_collect (\<lambda>k. bk_raw k ''kern.devstat.all'') parse_devstat_df devstat_df_series"

text \<open>\<open>diskIOBlobMIB\<close>: the size, then as much, with room for two more records.\<close>

definition disk_io_blob :: "nat \<Rightarrow> bsd_kernel \<Rightarrow> string option" where
  "disk_io_blob stride k =
     (case bk_disk_size k of
        None \<Rightarrow> None
      | Some n \<Rightarrow> if n = 0 then Some [] else bk_disk_into k (n + 2 * stride))"

definition openbsd_io :: "dev_order \<Rightarrow> (bsd_kernel, bsd_state) sub_collector" where
  "openbsd_io = io_collect (disk_io_blob 112) parse_openbsd_diskstats bsd_io_series"

definition netbsd_io :: "dev_order \<Rightarrow> (bsd_kernel, bsd_state) sub_collector" where
  "netbsd_io = io_collect (disk_io_blob 128) parse_netbsd_iostats bsd_io_series"

section \<open>The collectors of each system\<close>

definition bsd_common :: "(bsd_kernel, bsd_state) sub_collector list" where
  "bsd_common = [bsd_cpu, bsd_load, bsd_uptime]"

definition freebsd_collectors :: "dev_order \<Rightarrow> (bsd_kernel, bsd_state) sub_collector list" where
  "freebsd_collectors rng = bsd_common @ [vmstats_mem, unix_disk, freebsd_io rng]"

definition dragonfly_collectors :: "dev_order \<Rightarrow> (bsd_kernel, bsd_state) sub_collector list" where
  "dragonfly_collectors rng = bsd_common @ [vmstats_mem, unix_disk, dragonfly_io rng]"

definition openbsd_collectors :: "dev_order \<Rightarrow> (bsd_kernel, bsd_state) sub_collector list" where
  "openbsd_collectors rng = bsd_common @ [openbsd_mem, openbsd_disk, openbsd_io rng]"

definition netbsd_collectors :: "dev_order \<Rightarrow> (bsd_kernel, bsd_state) sub_collector list" where
  "netbsd_collectors rng = bsd_common @ [netbsd_mem, netbsd_disk, netbsd_io rng]"

definition darwin_collectors :: "(bsd_kernel, bsd_state) sub_collector list" where
  "darwin_collectors = [bsd_load, bsd_uptime, unix_disk]"

section \<open>The rates as instances of the contract\<close>

interpretation bsd_cpu: reading_source bsd_cpu bd_cpu
  "\<lambda>k now. case bk_raw k ''kern.cp_time'' of None \<Rightarrow> None | Some b \<Rightarrow> if length b div 8 < 5 then None else Some (cp_times b)"
  "\<lambda>k now prev. gauge ''system.cpu.num_cores'' now (f64_of_int (bk_ncpu k)) []
     # bsd_cpu_percent now (cp_times (the (bk_raw k ''kern.cp_time''))) prev"
  apply unfold_locales
  subgoal by (auto simp: bsd_cpu_def split: option.splits if_splits)
  subgoal by (auto simp: bsd_cpu_def split: option.splits if_splits)
  subgoal by (auto simp: bsd_cpu_def split: option.splits)
  done

text \<open>A kind of disk counters: how the kernel is asked, how its answer is read, what two readings say.\<close>

locale io_kind =
  fixes blob :: "bsd_kernel \<Rightarrow> string option"
    and parse :: "string \<Rightarrow> devstat_rec list"
    and series :: io_series
  assumes series_sign: "flt (Fin 0) dt \<Longrightarrow> list_all not_below_zero (series name c p dt now)"
begin

definition io_reading :: "bsd_kernel \<Rightarrow> devstat_rec gomap option" where
  "io_reading k = map_option (\<lambda>b. dev_map (parse b)) (blob k)"

lemma io_rate_source:
  "rate_source (io_collect blob parse series rng) bd_io io_reading (\<lambda>_ _. [])
     (\<lambda>k now. io_rates rng series now (the (io_reading k))) (\<lambda>_ _. [])"
  apply unfold_locales
  subgoal by (auto simp: io_collect_def io_reading_def timed_def Let_def split: option.splits)
  subgoal by (auto simp: io_collect_def io_reading_def timed_def Let_def split: option.splits)
  subgoal by (auto simp: io_collect_def io_reading_def timed_def Let_def split: option.splits)
  subgoal for dt s k now p
    using series_sign by (fastforce simp: io_rates_def list_all_iff split: option.splits)
  done

end

sublocale io_kind \<subseteq> io: rate_source "io_collect blob parse series rng" bd_io io_reading "\<lambda>_ _. []"
  "\<lambda>k now. io_rates rng series now (the (io_reading k))" "\<lambda>_ _. []" for rng
  by (rule io_rate_source)

lemma series_signs:
  assumes "flt (Fin 0) dt"
  shows "list_all not_below_zero (devstat_series name c p dt now)" "list_all not_below_zero (devstat_df_series name c p dt now)"
    "list_all not_below_zero (bsd_io_series name c p dt now)"
  using io_signs [OF assms, of name c p now] by simp_all

interpretation freebsd: io_kind "\<lambda>k. bk_raw k ''kern.devstat.all''" parse_devstat devstat_series
  by unfold_locales (rule series_signs)

interpretation dragonfly: io_kind "\<lambda>k. bk_raw k ''kern.devstat.all''" parse_devstat_df devstat_df_series
  by unfold_locales (rule series_signs)

interpretation openbsd: io_kind "disk_io_blob 112" parse_openbsd_diskstats bsd_io_series
  by unfold_locales (rule series_signs)

interpretation netbsd: io_kind "disk_io_blob 128" parse_netbsd_iostats bsd_io_series
  by unfold_locales (rule series_signs)

section \<open>The collectors do not disturb each other\<close>

lemma bsd_stateless [frame]:
  "snd (bsd_load k now st) = st" "snd (bsd_uptime k now st) = st" "snd (vmstats_mem k now st) = st" "snd (openbsd_mem k now st) = st"
  "snd (netbsd_mem k now st) = st" "snd (disk_collect series k now st) = st"
  by (auto simp: bsd_load_def bsd_uptime_def vmstats_mem_def openbsd_mem_def netbsd_mem_def disk_collect_def Let_def split: option.split)

lemma bsd_frames [frame]:
  "bd_io (snd (bsd_cpu k now st)) = bd_io st" "bd_cpu (snd (io_collect blob parse series rng k now st)) = bd_cpu st"
  by (auto simp: bsd_cpu_def io_collect_def Let_def split: option.split)

lemma bsd_same_report:
  "fst (bsd_load k now st) = fst (bsd_load k now st')" "fst (bsd_uptime k now st) = fst (bsd_uptime k now st')"
  "fst (vmstats_mem k now st) = fst (vmstats_mem k now st')" "fst (openbsd_mem k now st) = fst (openbsd_mem k now st')"
  "fst (netbsd_mem k now st) = fst (netbsd_mem k now st')" "fst (disk_collect series k now st) = fst (disk_collect series k now st')"
  by (auto simp: bsd_load_def bsd_uptime_def vmstats_mem_def openbsd_mem_def netbsd_mem_def disk_collect_def Let_def split: option.split)

lemma io_same_report: "bd_io st = bd_io st' \<Longrightarrow> fst (io_collect blob parse series rng k now st) = fst (io_collect blob parse series rng k now st')"
  by (auto simp: io_collect_def Let_def split: option.split)

lemmas bsd_lists = freebsd_collectors_def dragonfly_collectors_def openbsd_collectors_def netbsd_collectors_def darwin_collectors_def
  bsd_common_def unix_disk_def openbsd_disk_def netbsd_disk_def freebsd_io_def dragonfly_io_def openbsd_io_def netbsd_io_def

definition bsd_systems :: "dev_order \<Rightarrow> (bsd_kernel, bsd_state) sub_collector list list" where
  "bsd_systems rng = [freebsd_collectors rng, dragonfly_collectors rng, openbsd_collectors rng, netbsd_collectors rng, darwin_collectors]"

text \<open>
  On each BSD system and on macOS a collection is what each sub-collector reports on its
  own, in order: one that fails reports nothing, and none changes what another reports.
\<close>

theorem bsd_isolated:
  "list_all (\<lambda>subs. fst (collect_host i subs k now st)
      = map (\<lambda>s. s\<lparr>se_interval := i\<rparr>) (concat (map (\<lambda>sub. reported sub k now st) subs))) (bsd_systems rng)"
proof -
  have right: "undisturbed k now s bsd_load" "undisturbed k now s bsd_uptime" "undisturbed k now s vmstats_mem"
    "undisturbed k now s openbsd_mem" "undisturbed k now s netbsd_mem" "undisturbed k now s (disk_collect series)" for s series
    unfolding undisturbed_def by (intro allI bsd_same_report)+
  have io: "undisturbed k now s (io_collect blob parse series rng)" if "\<And>st. bd_io (snd (s k now st)) = bd_io st" for s blob parse series
    unfolding undisturbed_def by (intro allI io_same_report that)
  have "list_all (sorted_wrt (undisturbed k now)) (bsd_systems rng)"
    by (simp add: bsd_systems_def bsd_lists right) (simp add: io frame)
  then show ?thesis by (simp add: list_all_iff collect_host_isolated)
qed

lemma io_last:
  "bd_io (run_host i (bsd_common @ [mem, disk_collect series, io_collect blob parse ser rng]) h st) = last_reading (io_kind.io_reading blob parse) h (bd_io st)"
  if "io_kind ser" "\<And>k now st. snd (mem k now st) = st"
proof -
  have "bsd_common @ [mem, disk_collect series, io_collect blob parse ser rng]
      = [bsd_cpu, bsd_load, bsd_uptime, mem, disk_collect series] @ io_collect blob parse ser rng # []"
    by (simp add: bsd_common_def)
  then show ?thesis
    unfolding last_reading_def
    by (simp only:) (subst reading_source.view_host [OF rate_source.axioms(1) [OF io_kind.io_rate_source [OF that(1)]]],
      auto simp: frame that(2))
qed

lemma cpu_last:
  "bd_cpu (run_host i (bsd_cpu # rest) h st)
     = last_kept (\<lambda>k now. case bk_raw k ''kern.cp_time'' of None \<Rightarrow> None | Some b \<Rightarrow> if length b div 8 < 5 then None else Some (cp_times b)) h (bd_cpu st)"
  if "\<And>s k now st. s \<in> set rest \<Longrightarrow> bd_cpu (snd (s k now st)) = bd_cpu st"
  using bsd_cpu.view_host [of "[]" rest i h st] that by simp

text \<open>
  After any history of collections, the processor shares and the disk rates of each BSD
  system are taken against the last reading that succeeded.
\<close>

theorem bsd_rates_follow_history:
  "bd_io (run_host i (freebsd_collectors rng) h bsd_start) = last_reading freebsd.io_reading h None
    \<and> bd_io (run_host i (dragonfly_collectors rng) h bsd_start) = last_reading dragonfly.io_reading h None
    \<and> bd_io (run_host i (openbsd_collectors rng) h bsd_start) = last_reading openbsd.io_reading h None
    \<and> bd_io (run_host i (netbsd_collectors rng) h bsd_start) = last_reading netbsd.io_reading h None
    \<and> bd_cpu (run_host i (freebsd_collectors rng) h bsd_start)
      = last_kept (\<lambda>k now. case bk_raw k ''kern.cp_time'' of None \<Rightarrow> None | Some b \<Rightarrow> if length b div 8 < 5 then None else Some (cp_times b)) h None"
proof -
  have start: "bd_io bsd_start = None" "bd_cpu bsd_start = None" by (simp_all add: bsd_start_def)
  have "bd_cpu (run_host i (freebsd_collectors rng) h bsd_start)
      = last_kept (\<lambda>k now. case bk_raw k ''kern.cp_time'' of None \<Rightarrow> None | Some b \<Rightarrow> if length b div 8 < 5 then None else Some (cp_times b)) h None"
    unfolding bsd_lists append_Cons by (subst cpu_last) (auto simp: frame start)
  moreover note last = freebsd.io_kind_axioms dragonfly.io_kind_axioms openbsd.io_kind_axioms netbsd.io_kind_axioms
  ultimately show ?thesis
    by (simp add: freebsd_collectors_def dragonfly_collectors_def openbsd_collectors_def netbsd_collectors_def
        unix_disk_def openbsd_disk_def netbsd_disk_def freebsd_io_def dragonfly_io_def openbsd_io_def netbsd_io_def
        io_last [OF last(1)] io_last [OF last(2)] io_last [OF last(3)] io_last [OF last(4)] bsd_stateless start)
qed

section \<open>Shares of the processor\<close>

lemma unat_sum_list: "sum_list (map unat xs) < 2 ^ 64 \<Longrightarrow> unat (sum_list xs) = sum_list (map unat xs)" for xs :: "u64 list"
proof (induction xs)
  case (Cons x xs)
  then have "unat (sum_list xs) = sum_list (map unat xs)" "unat x + unat (sum_list xs) < 2 ^ 64" by simp_all
  then show ?case by (simp add: unat_plus_simple [THEN iffD1] no_olen_add_nat)
qed simp

lemma share_range:
  assumes "x \<le> tot" "0 < tot"
  shows "\<exists>r. share_of tot x = Fin r \<and> 0 \<le> r \<and> r \<le> 100"
proof -
  obtain r where r: "fdiv (f64_of_u64 x) (f64_of_u64 tot) = Fin r" "0 \<le> r" "r \<le> 1" using part_range [OF assms] by blast
  have "rnd64 False 100 = Fin 100" using rnd64_int [of 100 False] by simp
  from rnd64_mono [OF _ _ this, of "r * 100"] r show ?thesis by (auto simp: share_of_def fmul_def)
qed

text \<open>
  The processor shares account for all the time: the user and nice states, the states between
  them and idle, and idle add up to the ticks that passed, and each share is between 0 and 100.
\<close>

theorem bsd_cpu_accounts:
  assumes "length p = length cur" "5 \<le> length cur"
    and "d = map2 (-) cur p" "0 < sum_list (map unat d)" "sum_list (map unat d) < 2 ^ 64"
  shows "\<exists>user system idle. bsd_cpu_percent now cur (Some p)
      = [gauge ''system.cpu.user'' now (share_of (sum_list d) user) [], gauge ''system.cpu.system'' now (share_of (sum_list d) system) [],
         gauge ''system.cpu.idle'' now (share_of (sum_list d) idle) []]
    \<and> user = d ! 0 + d ! 1 \<and> idle = last d
    \<and> unat user + unat system + unat idle = sum_list (map unat d)
    \<and> list_all (\<lambda>x. \<exists>r. share_of (sum_list d) x = Fin r \<and> 0 \<le> r \<and> r \<le> 100) [user, system, idle]"
proof -
  let ?n = "length cur"
  define mid where "mid = take (?n - 3) (drop 2 d)"
  have n: "length d = ?n" using assms(1,3) by simp
  obtain x y r where d: "d = x # y # r" using n assms(2) by (cases d; cases "tl d") auto
  then have r: "length r = ?n - 2" "r \<noteq> []" using n assms(2) by auto
  have mid: "mid = butlast r" using d r by (simp add: mid_def butlast_conv_take)
  have idle: "d ! (?n - 1) = last d" using n assms(2) by (subst last_conv_nth) auto
  have split: "d = [d ! 0, d ! 1] @ mid @ [d ! (?n - 1)]"
    unfolding idle using d r by (simp add: mid)
  let ?s = "sum_list d"
  have nowrap: "sum_list (map unat d) = unat (d ! 0) + unat (d ! 1) + sum_list (map unat mid) + unat (d ! (?n - 1))"
    by (subst split) simp
  have tot: "unat ?s = sum_list (map unat d)" by (rule unat_sum_list [OF assms(5)])
  have parts: "unat (d ! 0 + d ! 1) = unat (d ! 0) + unat (d ! 1)" "unat (sum_list mid) = sum_list (map unat mid)"
    using unat_sum_list [of "[d ! 0, d ! 1]"] unat_sum_list [of mid] nowrap assms(5) by simp_all
  have "0 < ?s" using assms(4) tot by (simp add: word_gt_0_no word_less_nat_alt)
  moreover have "x \<le> ?s" if "x \<in> {d ! 0 + d ! 1, sum_list mid, d ! (?n - 1)}" for x
    using that parts nowrap tot by (auto simp: word_le_nat_alt)
  ultimately have ranges: "list_all (\<lambda>x. \<exists>r. share_of ?s x = Fin r \<and> 0 \<le> r \<and> r \<le> 100) [d ! 0 + d ! 1, sum_list mid, d ! (?n - 1)]"
    by (simp add: share_range)
  have "bsd_cpu_percent now cur (Some p)
      = [gauge ''system.cpu.user'' now (share_of ?s (d ! 0 + d ! 1)) [], gauge ''system.cpu.system'' now (share_of ?s (sum_list mid)) [],
         gauge ''system.cpu.idle'' now (share_of ?s (last d)) []]"
    using assms(1) \<open>0 < ?s\<close> idle by (simp add: bsd_cpu_percent_def Let_def mid_def assms(3) [symmetric])
  moreover have "unat (d ! 0 + d ! 1) + unat (sum_list mid) + unat (last d) = sum_list (map unat d)"
    using nowrap parts idle by simp
  ultimately show ?thesis using ranges unfolding idle by (intro exI conjI) (assumption | rule refl)+
qed

theorem bsd_cpu_accounts_witness:
  "\<exists>user system idle. bsd_cpu_percent 0 [30, 0, 20, 5, 1, 100] (Some [10, 0, 10, 0, 1, 50])
      = [gauge ''system.cpu.user'' 0 (share_of 85 user) [], gauge ''system.cpu.system'' 0 (share_of 85 system) [],
         gauge ''system.cpu.idle'' 0 (share_of 85 idle) []]
    \<and> user = 20 \<and> idle = 50 \<and> unat user + unat system + unat idle = 85
    \<and> list_all (\<lambda>x. \<exists>r. share_of 85 x = Fin r \<and> 0 \<le> r \<and> r \<le> 100) [user, system, idle]"
  using bsd_cpu_accounts [of "[10, 0, 10, 0, 1, 50]" "[30, 0, 20, 5, 1, 100]" "[20, 0, 10, 5, 0, 50]" 0] by simp

section \<open>Devices are reported once\<close>

definition real_mount :: "string list \<Rightarrow> bsd_mount \<Rightarrow> bool" where
  "real_mount pseudo m \<longleftrightarrow> bm_blocks m \<noteq> 0 \<and> bm_fstype m \<notin> set pseudo"

lemma disk_loop_first:
  "\<exists>firsts. disk_loop pseudo now seen ms = concat (map (mount_gauges now) firsts)
    \<and> set firsts \<subseteq> set (filter (real_mount pseudo) ms) \<and> distinct (map bm_dev firsts)
    \<and> bm_dev ` set firsts = bm_dev ` set (filter (real_mount pseudo) ms) - set seen"
proof (induction pseudo now seen ms rule: disk_loop.induct)
  case (2 pseudo now seen m ms)
  show ?case
  proof (cases "bm_blocks m = 0 \<or> bm_dev m \<in> set seen \<or> bm_fstype m \<in> set pseudo")
    case True
    from 2(1) [OF True] obtain firsts where f: "disk_loop pseudo now seen ms = concat (map (mount_gauges now) firsts)"
      "set firsts \<subseteq> set (filter (real_mount pseudo) ms)" "distinct (map bm_dev firsts)"
      "bm_dev ` set firsts = bm_dev ` set (filter (real_mount pseudo) ms) - set seen" by blast
    then show ?thesis using True by (intro exI [of _ firsts]) (auto simp: real_mount_def)
  next
    case False
    from 2(2) [OF False] obtain firsts where f: "disk_loop pseudo now (bm_dev m # seen) ms = concat (map (mount_gauges now) firsts)"
      "set firsts \<subseteq> set (filter (real_mount pseudo) ms)" "distinct (map bm_dev firsts)"
      "bm_dev ` set firsts = bm_dev ` set (filter (real_mount pseudo) ms) - set (bm_dev m # seen)" by blast
    then have "bm_dev m \<notin> bm_dev ` set firsts" by simp
    then show ?thesis using False f by (intro exI [of _ "m # firsts"]) (auto simp: real_mount_def)
  qed
qed simp

text \<open>
  Of the mounts of a BSD system every device with a real file system is reported once and no
  other is, and the part of it in use is between none and all even where blocks are negative or
  counted past the reserve.
\<close>

theorem disks_reported_once:
  "\<exists>firsts. disk_loop pseudo now [] mounts = concat (map (mount_gauges now) firsts)
    \<and> distinct (map bm_dev firsts) \<and> set firsts \<subseteq> set (filter (real_mount pseudo) mounts)
    \<and> bm_dev ` set firsts = bm_dev ` set (filter (real_mount pseudo) mounts)
    \<and> list_all (\<lambda>m. \<exists>r. mount_gauges now m ! 3
        = gauge ''system.disk.in_use'' now (Fin r) [''device:'' @ bm_dev m, ''device_name:'' @ base_name (bm_dev m)] \<and> 0 \<le> r \<and> r \<le> 1) firsts"
proof -
  have "\<exists>r. mount_gauges now m ! 3 = gauge ''system.disk.in_use'' now (Fin r) [''device:'' @ bm_dev m, ''device_name:'' @ base_name (bm_dev m)] \<and> 0 \<le> r \<and> r \<le> 1" for m
    using in_use_range [of "(bm_blocks m - bm_bfree m) * bm_bsize m" "bm_bavail m * bm_bsize m"]
    by (auto simp: mount_gauges_def disk_gauges_def Let_def eval_nat_numeral)
  then show ?thesis using disk_loop_first [of pseudo now "[]" mounts] by (auto simp: list_all_iff)
qed

end
