(* ===== verification/HostWindows.thy ===== *)
theory HostWindows
  imports HostBsd
begin

text \<open>
  The Windows sub-collectors, \<^verbatim>\<open>internal/host/collectors_windows.go\<close>: processor times, memory, the
  drives and the uptime. The system is what its calls answer during one collection.
\<close>

section \<open>The system\<close>

text \<open>A \<open>FILETIME\<close> is its high and low words.\<close>

type_synonym filetime = "32 word \<times> 32 word"

record win_system =
  ws_times :: "(filetime \<times> filetime \<times> filetime) option"
  ws_ncpu :: int
  ws_memory :: "(u64 \<times> u64) option"
  ws_drives :: "32 word option"
  ws_free :: "string \<Rightarrow> (u64 \<times> u64 \<times> u64) option"
  ws_ticks :: u64

type_synonym win_state = "(u64 \<times> u64 \<times> u64) option"

definition ft64 :: "filetime \<Rightarrow> u64" where
  "ft64 f = or (push_bit 32 (ucast (fst f))) (ucast (snd f))"

section \<open>Collectors\<close>

definition win_shares :: "int \<Rightarrow> u64 \<times> u64 \<times> u64 \<Rightarrow> win_state \<Rightarrow> serie list" where
  "win_shares now cur prev =
     (case (cur, prev) of
        (_, None) \<Rightarrow> []
      | ((i, k, u), Some (i0, k0, u0)) \<Rightarrow>
          let di = i - i0; dk = k - k0; du = u - u0; total = dk + du
          in if 0 < total
             then [gauge ''system.cpu.user'' now (share_of total du) [], gauge ''system.cpu.system'' now (share_of total (dk - di)) [],
                   gauge ''system.cpu.idle'' now (share_of total di) []]
             else [])"

definition win_cpu :: "(win_system, win_state) sub_collector" where
  "win_cpu w now st =
     (case ws_times w of
        None \<Rightarrow> (Inl ReadFailed, st)
      | Some (idle, kern, user) \<Rightarrow>
          let cur = (ft64 idle, ft64 kern, ft64 user)
          in (Inr (gauge ''system.cpu.num_cores'' now (f64_of_int (ws_ncpu w)) [] # win_shares now cur st), Some cur))"

definition win_mem :: "(win_system, win_state) sub_collector" where
  "win_mem w now st =
     (case ws_memory w of
        None \<Rightarrow> (Inl ReadFailed, st)
      | Some (phys, avail) \<Rightarrow>
          (Inr (if phys = 0 then []
                else [gauge ''system.mem.total'' now (in_megabytes phys) [], gauge ''system.mem.free'' now (in_megabytes avail) [],
                      gauge ''system.mem.used'' now (in_megabytes (phys - avail)) [],
                      gauge ''system.mem.pct_usable'' now (fdiv (f64_of_u64 avail) (f64_of_u64 phys)) []]), st))"

definition drive_name :: "nat \<Rightarrow> string" where
  "drive_name i = [char_of (65 + i), CHR '':'']"

definition win_drive :: "win_system \<Rightarrow> int \<Rightarrow> 32 word \<Rightarrow> nat \<Rightarrow> serie list" where
  "win_drive w now drives i =
     (if \<not> bit drives i then []
      else case ws_free w (drive_name i @ [CHR 0x5C]) of
             None \<Rightarrow> []
           | Some (avail, tot, total_free) \<Rightarrow>
               if tot = 0 then []
               else let dev = drive_name i; tags = [''device:'' @ dev, ''device_name:'' @ dev];
                        used = in_kilobytes (tot - total_free); kb = in_kilobytes tot
                    in [gauge ''system.disk.total'' now kb tags, gauge ''system.disk.used'' now used tags,
                        gauge ''system.disk.free'' now (in_kilobytes total_free) tags, gauge ''system.disk.in_use'' now (ratio used kb) tags])"

definition win_disk :: "(win_system, win_state) sub_collector" where
  "win_disk w now st =
     (case ws_drives w of
        None \<Rightarrow> (Inl ReadFailed, st)
      | Some drives \<Rightarrow> (Inr (concat (map (win_drive w now drives) [0..<26])), st))"

definition win_uptime :: "(win_system, win_state) sub_collector" where
  "win_uptime w now st = (Inr [gauge ''system.uptime'' now (fdiv (f64_of_u64 (ws_ticks w)) (Fin 1000)) []], st)"

definition win_collectors :: "(win_system, win_state) sub_collector list" where
  "win_collectors = [win_cpu, win_mem, win_disk, win_uptime]"

section \<open>Processor shares\<close>

definition win_times :: "win_system \<Rightarrow> (u64 \<times> u64 \<times> u64) option" where
  "win_times w = map_option (\<lambda>(i, k, u). (ft64 i, ft64 k, ft64 u)) (ws_times w)"

interpretation win: reading_source win_cpu "\<lambda>st. st" "\<lambda>w now. win_times w"
  "\<lambda>w now prev. gauge ''system.cpu.num_cores'' now (f64_of_int (ws_ncpu w)) [] # win_shares now (the (win_times w)) prev"
  apply unfold_locales
  subgoal by (auto simp: win_cpu_def win_times_def Let_def split: option.splits)
  subgoal by (auto simp: win_cpu_def win_times_def Let_def split: option.splits)
  subgoal by (auto simp: win_cpu_def win_times_def Let_def split: option.splits)
  done

text \<open>
  The kernel's time includes the idle time, so the shares of user, system and idle account for all
  the time that passed, each between 0 and 100, when the idle time did not outrun the kernel's.
\<close>

theorem win_cpu_accounts:
  assumes "di \<le> dk" "0 < unat dk + unat du" "unat dk + unat du < 2 ^ 64"
  shows "\<exists>system. win_shares now (i + di, k + dk, u + du) (Some (i, k, u))
      = [gauge ''system.cpu.user'' now (share_of (dk + du) du) [], gauge ''system.cpu.system'' now (share_of (dk + du) system) [],
         gauge ''system.cpu.idle'' now (share_of (dk + du) di) []]
    \<and> unat du + unat system + unat di = unat (dk + du)
    \<and> list_all (\<lambda>x. \<exists>r. share_of (dk + du) x = Fin r \<and> 0 \<le> r \<and> r \<le> 100) [du, system, di]"
proof -
  have t: "unat (dk + du) = unat dk + unat du" using assms(3) by (simp add: unat_plus_simple [THEN iffD1] no_olen_add_nat)
  moreover have s: "unat (dk - di) + unat di = unat dk" using assms(1) by (simp add: unat_sub word_le_nat_alt)
  ultimately have pos: "0 < dk + du" "du \<le> dk + du" "dk - di \<le> dk + du" "di \<le> dk + du"
    using assms(1,2) by (simp_all add: word_less_nat_alt word_le_nat_alt)
  then show ?thesis
    using t s by (intro exI [of _ "dk - di"]) (simp add: win_shares_def Let_def share_range)
qed

text \<open>A collection on Windows is what each sub-collector reports on its own, in order.\<close>

theorem win_isolated:
  "fst (collect_host i win_collectors w now st)
     = map (\<lambda>s. s\<lparr>se_interval := i\<rparr>) (concat (map (\<lambda>sub. reported sub w now st) win_collectors))"
proof -
  have "undisturbed w now s win_mem" "undisturbed w now s win_disk" "undisturbed w now s win_uptime" for s
    by (auto simp: undisturbed_def win_mem_def win_disk_def win_uptime_def split: option.split)
  then show ?thesis by (intro collect_host_isolated) (simp add: win_collectors_def)
qed

end
