(* ===== verification/Venti.thy ===== *)
theory Venti
  imports HostBase MetricSubmit
begin

text \<open>
  The venti reporter, \<^verbatim>\<open>internal/venti/venti.go\<close>: it scrapes the status pages of a venti server
  over HTTP and ships what they say as metrics. A scrape fetches each page once, so the web is a
  function from addresses to answers (status and body, none when the request fails); a
  reporter is stepped by the answers and the clock of each scrape.
\<close>

section \<open>Reporter\<close>

type_synonym web = "string \<Rightarrow> (int \<times> string) option"

type_synonym counters = "(string \<times> u64) list"

record venti =
  vt_client :: client
  vt_endpoints :: "endpoint list"
  vt_base :: string
  vt_hostname :: string
  vt_tags :: "string list"
  vt_interval :: int
  vt_prev :: counters
  vt_prev_ts :: int

definition new_venti :: "client \<Rightarrow> endpoint list \<Rightarrow> string \<Rightarrow> string \<Rightarrow> string list \<Rightarrow> int \<Rightarrow> venti" where
  "new_venti c eps url host tags interval =
     \<lparr>vt_client = c, vt_endpoints = eps, vt_base = trim_right_of ''/'' url, vt_hostname = host, vt_tags = tags,
      vt_interval = (if interval = 0 then 15 * second else interval), vt_prev = [], vt_prev_ts = zero_time\<rparr>"

definition max_page :: nat where "max_page = 2 ^ 20"

text \<open>\<open>get\<close>: the body, up to its bound, of an answer in the 200s.\<close>

definition web_get :: "web \<Rightarrow> string \<Rightarrow> string option" where
  "web_get web u =
     (case web u of
        None \<Rightarrow> None
      | Some (status, body) \<Rightarrow> if go_quot status 100 \<noteq> 2 then None else Some (take max_page body))"

definition venti_gauge :: "venti \<Rightarrow> string \<Rightarrow> int \<Rightarrow> f64 \<Rightarrow> string list \<Rightarrow> serie" where
  "venti_gauge r name ts v extra =
     \<lparr>se_name = name, se_points = [\<lparr>pt_ts = unix ts, pt_value = v\<rparr>], se_type = TypeGauge,
      se_interval = go_quot (vt_interval r) second, se_tags = vt_tags r @ extra, se_host = vt_hostname r,
      se_device = [], se_source = []\<rparr>"

section \<open>The storage page\<close>

record venti_storage =
  vs_total :: u64
  vs_used :: u64
  vs_arenas :: u64
  vs_active :: u64
  vs_clumps :: u64
  vs_cclumps :: u64
  vs_unc :: u64
  vs_comp :: u64

definition zero_storage :: venti_storage where
  "zero_storage = \<lparr>vs_total = 0, vs_used = 0, vs_arenas = 0, vs_active = 0, vs_clumps = 0, vs_cclumps = 0, vs_unc = 0, vs_comp = 0\<rparr>"

definition parse_comma_uint :: "string \<Rightarrow> u64" where
  "parse_comma_uint s = word_of_int (res_val 0 (parse_uint 10 64 (replace_all '','' [] s)))"

definition storage_token :: "bool \<Rightarrow> string \<Rightarrow> venti_storage \<Rightarrow> venti_storage" where
  "storage_token compressed tok st =
     (case str_cut ''='' tok of (k, v, found) \<Rightarrow>
        let n = parse_comma_uint v in
        if \<not> found then st
        else if k = ''space'' then st\<lparr>vs_total := n\<rparr>
        else if k = ''used'' then st\<lparr>vs_used := n\<rparr>
        else if k = ''arenas'' then st\<lparr>vs_arenas := n\<rparr>
        else if k = ''active'' then st\<lparr>vs_active := n\<rparr>
        else if k = ''clumps'' \<and> compressed then st\<lparr>vs_cclumps := n\<rparr>
        else if k = ''clumps'' then st\<lparr>vs_clumps := n\<rparr>
        else if k = ''data'' \<and> compressed then st\<lparr>vs_comp := n\<rparr>
        else if k = ''data'' then st\<lparr>vs_unc := n\<rparr>
        else st)"

text \<open>The loop over the tokens of a line; \<open>prev\<close> is the token before, none at the start.\<close>

primrec storage_tokens :: "string option \<Rightarrow> string list \<Rightarrow> venti_storage \<Rightarrow> venti_storage" where
  "storage_tokens prev [] st = st"
| "storage_tokens prev (tok # toks) st =
     storage_tokens (Some tok) toks (storage_token (prev = Some ''compressed'') tok st)"

definition parse_venti_storage :: "string \<Rightarrow> venti_storage" where
  "parse_venti_storage data = fold (\<lambda>line. storage_tokens None (str_fields line)) (lines_of data) zero_storage"

definition venti_free :: "venti_storage \<Rightarrow> u64" where
  "venti_free st = (if vs_used st \<le> vs_total st then vs_total st - vs_used st else 0)"

definition in_kb :: "u64 \<Rightarrow> f64" where
  "in_kb w = fdiv (f64_of_u64 w) (Fin 1024)"

definition storage_series :: "venti \<Rightarrow> int \<Rightarrow> venti_storage \<Rightarrow> serie list" where
  "storage_series r now st =
     (let g = (\<lambda>name v. venti_gauge r name now v []); disk = (\<lambda>name v. venti_gauge r name now v [''device:venti''])
      in [disk ''system.disk.total'' (in_kb (vs_total st)), disk ''system.disk.used'' (in_kb (vs_used st)),
          disk ''system.disk.free'' (in_kb (venti_free st)),
          disk ''system.disk.in_use'' (fdiv (f64_of_u64 (vs_used st)) (f64_of_u64 (vs_total st))),
          g ''venti.arenas.total'' (f64_of_u64 (vs_arenas st)), g ''venti.arenas.active'' (f64_of_u64 (vs_active st)),
          g ''venti.clumps.total'' (f64_of_u64 (vs_clumps st)), g ''venti.clumps.compressed'' (f64_of_u64 (vs_cclumps st)),
          g ''venti.data.uncompressed_bytes'' (f64_of_u64 (vs_unc st)), g ''venti.data.compressed_bytes'' (f64_of_u64 (vs_comp st))]
       @ (if 0 < vs_comp st
          then [g ''venti.data.compression_ratio'' (fdiv (f64_of_u64 (vs_unc st)) (f64_of_u64 (vs_comp st)))] else []))"

definition fetch_storage :: "web \<Rightarrow> venti \<Rightarrow> venti_storage option" where
  "fetch_storage web r = map_option parse_venti_storage (web_get web (vt_base r @ ''/storage''))"

section \<open>The counters\<close>

definition venti_graph_metrics :: "(string \<times> string) list" where
  "venti_graph_metrics =
    [(''rpcread'', ''venti.rpc.reads''), (''rpcwrite'', ''venti.rpc.writes''), (''rpcreadbyte'', ''venti.rpc.read_bytes''),
     (''rpcwritebyte'', ''venti.rpc.write_bytes''), (''rpcreadfail'', ''venti.rpc.read_fails''), (''rpcwritefail'', ''venti.rpc.write_fails''),
     (''icachehit'', ''venti.icache.hits''), (''icachemiss'', ''venti.icache.misses''),
     (''dcachehit'', ''venti.dcache.hits''), (''dcachemiss'', ''venti.dcache.misses'')]"

text \<open>A number of samples and the value of a bin, as they are read along the tokens of its line.\<close>

definition graph_token :: "string \<Rightarrow> int \<times> u64 option \<Rightarrow> int \<times> u64 option" where
  "graph_token tok acc =
     (case str_cut ''='' tok of (k, v, found) \<Rightarrow>
        if \<not> found then acc
        else if k = ''nsamp'' then (res_val 0 (parse_int 10 64 v), snd acc)
        else if k = ''max'' then
          (case parse_int 10 64 v of
             Parsed n \<Rightarrow> (fst acc, Some (word_of_int (if n < 0 then wrap_u32 n else n)))
           | _ \<Rightarrow> acc)
        else acc)"

definition graph_line :: "string list \<Rightarrow> u64 option \<Rightarrow> u64 option" where
  "graph_line toks best =
     (case fold graph_token toks (- 1, None) of
        (nsamp, Some m) \<Rightarrow>
          if 0 < nsamp then Some (case best of None \<Rightarrow> m | Some b \<Rightarrow> if b < m then m else b) else best
      | _ \<Rightarrow> best)"

definition parse_graph_raw :: "string \<Rightarrow> u64 option" where
  "parse_graph_raw data = fold (\<lambda>line. graph_line (str_fields line)) (lines_of data) None"

text \<open>\<open>url.QueryEscape\<close>.\<close>

definition hex_digit :: "nat \<Rightarrow> char" where
  "hex_digit d = (if d < 10 then char_of (48 + d) else char_of (55 + d))"

definition query_escape :: "string \<Rightarrow> string" where
  "query_escape s = concat (map (\<lambda>c.
     if 97 \<le> byte c \<and> byte c \<le> 122 \<or> 65 \<le> byte c \<and> byte c \<le> 90 \<or> 48 \<le> byte c \<and> byte c \<le> 57 \<or> c \<in> set ''-_.~'' then [c]
     else if c = CHR '' '' then ''+''
     else [CHR ''%'', hex_digit (byte c div 16), hex_digit (byte c mod 16)]) s)"

definition fetch_graph :: "web \<Rightarrow> venti \<Rightarrow> string \<Rightarrow> u64 option" where
  "fetch_graph web r stat =
     (case web_get web (vt_base r @ ''/graph?arg='' @ query_escape stat @ ''&graph=raw&text=1&t0=-30&t1=0'') of
        None \<Rightarrow> None
      | Some body \<Rightarrow> parse_graph_raw body)"

definition graph_counters :: "web \<Rightarrow> venti \<Rightarrow> counters" where
  "graph_counters web r =
     List.map_filter (\<lambda>g. map_option (Pair (fst g)) (fetch_graph web r (fst g))) venti_graph_metrics"

definition graph_rate :: "venti \<Rightarrow> int \<Rightarrow> f64 \<Rightarrow> counters \<Rightarrow> counters \<Rightarrow> string \<times> string \<Rightarrow> serie list" where
  "graph_rate r now dt cur prev g =
     (case (map_of cur (fst g), map_of prev (fst g)) of
        (Some c, Some p) \<Rightarrow> if p \<le> c then [venti_gauge r (snd g) now (fdiv (f64_of_u64 (c - p)) dt) []] else []
      | _ \<Rightarrow> [])"

definition graph_series :: "web \<Rightarrow> int \<Rightarrow> venti \<Rightarrow> serie list \<times> venti" where
  "graph_series web now r =
     (let cur = graph_counters web r; dt = dur_seconds (time_sub now (vt_prev_ts r));
          out = (if vt_prev r \<noteq> [] \<and> flt (Fin 0) dt
                 then concat (map (graph_rate r now dt cur (vt_prev r)) venti_graph_metrics) else [])
      in (out, r\<lparr>vt_prev := cur, vt_prev_ts := now\<rparr>))"

section \<open>A scrape\<close>

text \<open>The clock is read again for the storage gauges: \<open>now2\<close>.\<close>

definition venti_scrape :: "web \<Rightarrow> int \<Rightarrow> int \<Rightarrow> venti \<Rightarrow> serie list \<times> venti" where
  "venti_scrape web now now2 r =
     (case fetch_storage web r of
        None \<Rightarrow> ([venti_gauge r ''venti.up'' now (Fin 0) []], r)
      | Some st \<Rightarrow>
          let series = venti_gauge r ''venti.up'' now (Fin 1) [] # (if 0 < vs_total st then storage_series r now2 st else []);
              (rates, r') = graph_series web now r
          in (series @ rates, r'))"

definition venti_ship :: "venti \<Rightarrow> serie list \<Rightarrow> json net \<Rightarrow> json net" where
  "venti_ship r series nt = (if series = [] then nt else snd (send_series (vt_client r) (vt_endpoints r) series nt))"

definition venti_send :: "web \<Rightarrow> int \<Rightarrow> int \<Rightarrow> venti \<Rightarrow> json net \<Rightarrow> venti \<times> json net" where
  "venti_send web now now2 r nt =
     (let (series, r') = venti_scrape web now now2 r in (r', venti_ship r series nt))"

text \<open>\<open>Run\<close>: the scrape at startup and one per tick.\<close>

primrec venti_run :: "(web \<times> int \<times> int) list \<Rightarrow> venti \<Rightarrow> json net \<Rightarrow> venti \<times> json net" where
  "venti_run [] r nt = (r, nt)"
| "venti_run (t # ts) r nt =
     (let (r', nt') = venti_send (fst t) (fst (snd t)) (snd (snd t)) r nt in venti_run ts r' nt')"

section \<open>Reading venti's pages back\<close>

text \<open>Venti prints numbers with a comma every three digits.\<close>

definition three_digits :: "nat \<Rightarrow> string" where
  "three_digits m = [digit_char (m div 100), digit_char (m div 10 mod 10), digit_char (m mod 10)]"

function with_commas :: "nat \<Rightarrow> string" where
  "with_commas n = (if n < 1000 then fmt_nat n else with_commas (n div 1000) @ '','' @ three_digits (n mod 1000))"
  by pat_completeness auto
termination
  by (relation "measure id") auto

declare with_commas.simps [simp del]

lemma replace_all_char: "replace_all [c] [] s = filter (\<lambda>x. x \<noteq> c) s"
proof (induction s)
  case Nil
  show ?case by (subst replace_all.simps) simp
next
  case (Cons x s)
  then show ?case by (subst replace_all.simps) auto
qed

lemma fmt_nat_thousands: "1000 \<le> n \<Longrightarrow> fmt_nat n = fmt_nat (n div 1000) @ three_digits (n mod 1000)"
proof -
  assume n: "1000 \<le> n"
  have big: "\<not> n div 10 < 10" "\<not> n div 10 div 10 < 10" using n by linarith+
  have "fmt_nat n = ((fmt_nat (n div 10 div 10 div 10) @ [digit_char (n div 10 div 10 mod 10)]) @ [digit_char (n div 10 mod 10)]) @ [digit_char (n mod 10)]"
    using n big by (subst fmt_nat.simps, subst fmt_nat.simps [of "n div 10"], subst fmt_nat.simps [of "n div 10 div 10"]) simp
  moreover have "n div 10 div 10 div 10 = n div 1000" by (simp add: div_mult2_eq [symmetric])
  moreover have "n mod 1000 div 100 = n div 10 div 10 mod 10" "n mod 1000 div 10 mod 10 = n div 10 mod 10" "n mod 1000 mod 10 = n mod 10"
  proof -
    have "n mod 1000 = 100 * (n div 100 mod 10) + n mod 100" using mod_mult2_eq [of n 100 10] by simp
    then show "n mod 1000 div 100 = n div 10 div 10 mod 10" by (simp add: div_mult2_eq [symmetric])
    have "n mod 1000 = 10 * (n div 10 mod 100) + n mod 10" using mod_mult2_eq [of n 10 100] by simp
    then show "n mod 1000 div 10 mod 10 = n div 10 mod 10" by (simp add: mod_mod_cancel)
    show "n mod 1000 mod 10 = n mod 10" by (simp add: mod_mod_cancel)
  qed
  ultimately show ?thesis by (simp add: three_digits_def)
qed

lemma comma_not_digit: "d < 10 \<Longrightarrow> digit_char d \<noteq> CHR '',''"
  using byte_digit_char [of d] by (auto simp: byte_def)

lemma filter_commas: "filter (\<lambda>c. c \<noteq> CHR '','') (with_commas n) = fmt_nat n"
proof (induction n rule: with_commas.induct)
  case (1 n)
  have digits: "filter (\<lambda>c. c \<noteq> CHR '','') (fmt_nat m) = fmt_nat m" for m
    using digits_not [of "CHR '',''" m] by (simp add: filter_id_conv) (auto simp: is_digit_char_def byte_def)
  show ?case
  proof (cases "n < 1000")
    case True
    then show ?thesis using digits by (subst with_commas.simps) simp
  next
    case False
    then have "filter (\<lambda>c. c \<noteq> CHR '','') (three_digits (n mod 1000)) = three_digits (n mod 1000)"
      by (simp add: three_digits_def comma_not_digit less_mult_imp_div_less)
    with False 1 fmt_nat_thousands [of n] show ?thesis by (subst with_commas.simps) simp
  qed
qed

lemma parse_comma_uint_back: "n < 2 ^ 64 \<Longrightarrow> parse_comma_uint (with_commas n) = of_nat n"
proof -
  assume "n < 2 ^ 64"
  then have "int n < 2 ^ 64" by (metis of_nat_less_iff of_nat_numeral of_nat_power)
  then show ?thesis by (simp add: parse_comma_uint_def replace_all_char filter_commas parse_uint_fmt_nat)
qed

lemma with_commas_plain: "list_all plain (with_commas n) \<and> with_commas n \<noteq> [] \<and> CHR ''='' \<notin> set (with_commas n)"
proof -
  have "c \<in> set (with_commas n) \<Longrightarrow> is_digit_char c \<or> c = CHR '',''" for c
  proof (induction n rule: with_commas.induct)
    case (1 n)
    have "is_digit_char (digit_char d)" if "d < 10" for d using that by (simp add: is_digit_char_def byte_digit_char)
    then have "is_digit_char c" if "c \<in> set (three_digits (n mod 1000))"
      using that by (auto simp: three_digits_def less_mult_imp_div_less)
    with 1 fmt_nat_digits show ?case
      by (subst (asm) (2) with_commas.simps) (auto split: if_splits)
  qed
  moreover have "plain c" "c \<noteq> CHR ''=''" if "is_digit_char c \<or> c = CHR '',''" for c
    using that by (auto simp: is_digit_char_def plain_def ascii_space_def byte_def)
  moreover have "with_commas n \<noteq> []" by (subst with_commas.simps) simp
  ultimately show ?thesis by (auto simp: list_all_iff)
qed

definition storage_figure :: "string \<Rightarrow> nat \<Rightarrow> string" where
  "storage_figure k n = k @ CHR ''='' # with_commas n"

definition storage_lines :: "string \<Rightarrow> nat \<Rightarrow> nat \<Rightarrow> nat \<Rightarrow> nat \<Rightarrow> nat \<Rightarrow> nat \<Rightarrow> nat \<Rightarrow> nat \<Rightarrow> string list list" where
  "storage_lines name arenas active space used clumps cclumps unc cmp =
     [[''index='' @ name],
      [''total'', storage_figure ''arenas'' arenas, storage_figure ''active'' active],
      [''total'', storage_figure ''space'' space, storage_figure ''used'' used],
      [storage_figure ''clumps'' clumps, ''compressed'', storage_figure ''clumps'' cclumps, storage_figure ''data'' unc,
       ''compressed'', storage_figure ''data'' cmp]]"

definition text_page :: "string list list \<Rightarrow> string" where
  "text_page ls = concat (map (\<lambda>l. join_with '' '' l @ [newline]) ls)"

lemma key_token:
  assumes "CHR ''='' \<notin> set k"
  shows "storage_token b (k @ CHR ''='' # v) st =
    (let n = parse_comma_uint v in
        if k = ''space'' then st\<lparr>vs_total := n\<rparr>
        else if k = ''used'' then st\<lparr>vs_used := n\<rparr>
        else if k = ''arenas'' then st\<lparr>vs_arenas := n\<rparr>
        else if k = ''active'' then st\<lparr>vs_active := n\<rparr>
        else if k = ''clumps'' \<and> b then st\<lparr>vs_cclumps := n\<rparr>
        else if k = ''clumps'' then st\<lparr>vs_clumps := n\<rparr>
        else if k = ''data'' \<and> b then st\<lparr>vs_comp := n\<rparr>
        else if k = ''data'' then st\<lparr>vs_unc := n\<rparr>
        else st)"
  using cut_present [OF assms] by (simp add: storage_token_def)

lemma storage_figure_plain [simp]:
  "list_all plain k \<Longrightarrow> list_all plain (storage_figure k n)" "storage_figure k n \<noteq> []"
  using with_commas_plain [of n] by (simp_all add: storage_figure_def plain_def ascii_space_def byte_def)

lemma plain_not_newline: "list_all (\<lambda>w. list_all plain w \<and> w \<noteq> []) ws \<Longrightarrow> newline \<notin> set (join_with '' '' ws)"
  by (induction ws) (auto simp: list_all_iff plain_def)

lemma parse_text_page:
  assumes "list_all (list_all (\<lambda>w. list_all plain w \<and> w \<noteq> [])) ls"
  shows "fold (\<lambda>l. f (str_fields l)) (lines_of (text_page ls)) st = f [] (fold f ls st)"
proof -
  have "lines_of (text_page ls) = map (join_with '' '') ls @ lines_of []"
  proof -
    have "newline \<notin> set l" if "l \<in> set (map (join_with '' '') ls)" for l
      using that assms plain_not_newline by (auto simp: list_all_iff [of _ ls])
    from lines_of_lines [of "map (join_with '' '') ls" "[]", OF this] show ?thesis
      by (simp add: text_page_def comp_def)
  qed
  moreover have "map str_fields (map (join_with '' '') ls) = ls"
    using assms by (induction ls) (simp_all add: str_fields_joined)
  moreover have "fold (\<lambda>l. f (str_fields l)) xs st = fold f (map str_fields xs) st" for xs st
    by (induction xs arbitrary: st) simp_all
  moreover have "map str_fields (lines_of []) = [[]]" by code_simp
  ultimately show ?thesis by simp
qed

lemma figure_not_word: "storage_figure k n \<noteq> ''compressed''"
proof
  assume "storage_figure k n = ''compressed''"
  then have "CHR ''='' \<in> set ''compressed''" by (metis in_set_conv_decomp storage_figure_def)
  then show False by simp
qed

lemma words_skipped:
  "storage_token b (''index='' @ name) st = st" "storage_token b ''total'' st = st" "storage_token b ''compressed'' st = st"
  using key_token [of "''index''" b name st] by (simp_all add: storage_token_def)

lemma figures_read:
  "n < 2 ^ 64 \<Longrightarrow> storage_token b (storage_figure ''space'' n) st = st\<lparr>vs_total := of_nat n\<rparr>"
  "n < 2 ^ 64 \<Longrightarrow> storage_token b (storage_figure ''used'' n) st = st\<lparr>vs_used := of_nat n\<rparr>"
  "n < 2 ^ 64 \<Longrightarrow> storage_token b (storage_figure ''arenas'' n) st = st\<lparr>vs_arenas := of_nat n\<rparr>"
  "n < 2 ^ 64 \<Longrightarrow> storage_token b (storage_figure ''active'' n) st = st\<lparr>vs_active := of_nat n\<rparr>"
  "n < 2 ^ 64 \<Longrightarrow> storage_token b (storage_figure ''clumps'' n) st = (if b then st\<lparr>vs_cclumps := of_nat n\<rparr> else st\<lparr>vs_clumps := of_nat n\<rparr>)"
  "n < 2 ^ 64 \<Longrightarrow> storage_token b (storage_figure ''data'' n) st = (if b then st\<lparr>vs_comp := of_nat n\<rparr> else st\<lparr>vs_unc := of_nat n\<rparr>)"
  unfolding storage_figure_def
  by (subst key_token, simp, simp add: parse_comma_uint_back)+

text \<open>
  C30. The storage page is read back: every figure venti prints, thousands separators and all, and
  each \<open>compressed\<close> figure apart from its plain namesake.
\<close>

theorem storage_page_roundtrip:
  assumes "list_all plain name" "list_all (\<lambda>n. n < 2 ^ 64) [arenas, active, space, used, clumps, cclumps, unc, cmp]"
  shows "parse_venti_storage (text_page (storage_lines name arenas active space used clumps cclumps unc cmp))
    = \<lparr>vs_total = of_nat space, vs_used = of_nat used, vs_arenas = of_nat arenas, vs_active = of_nat active,
       vs_clumps = of_nat clumps, vs_cclumps = of_nat cclumps, vs_unc = of_nat unc, vs_comp = of_nat cmp\<rparr>"
proof -
  have "list_all (list_all (\<lambda>w. list_all plain w \<and> w \<noteq> [])) (storage_lines name arenas active space used clumps cclumps unc cmp)"
    using assms(1) by (simp add: storage_lines_def) (simp add: plain_def ascii_space_def byte_def)
  then show ?thesis
    using assms(2) by (simp add: parse_venti_storage_def parse_text_page storage_lines_def words_skipped figures_read figure_not_word zero_storage_def)
qed

theorem storage_page_roundtrip_witness:
  "parse_venti_storage (text_page (storage_lines ''main'' 12 3 1234567890 987654 4321 4000 1000000 999))
    = \<lparr>vs_total = 1234567890, vs_used = 987654, vs_arenas = 12, vs_active = 3, vs_clumps = 4321, vs_cclumps = 4000,
       vs_unc = 1000000, vs_comp = 999\<rparr>"
proof -
  have "list_all plain ''main''" by code_simp
  from storage_page_roundtrip [OF this, of 12 3 1234567890 987654 4321 4000 1000000 999] show ?thesis by simp
qed

text \<open>
  A bin of a raw graph: its samples, least, largest and average value, all printed as signed
  32-bit numbers.
\<close>

type_synonym graph_bin = "32 word \<times> 32 word \<times> 32 word \<times> 32 word"

definition graph_figure :: "string \<Rightarrow> 32 word \<Rightarrow> string" where
  "graph_figure k m = k @ CHR ''='' # fmt_int (sint m)"

definition graph_bin_line :: "nat \<times> graph_bin \<Rightarrow> string list" where
  "graph_bin_line b = (case b of (i, nsamp, lo, hi, avg) \<Rightarrow>
     [fmt_nat i @ '':'', graph_figure ''nsamp'' nsamp, graph_figure ''min'' lo, graph_figure ''max'' hi, graph_figure ''avg'' avg])"

definition bin_value :: "nat \<times> graph_bin \<Rightarrow> u64 option" where
  "bin_value b = (case b of (i, nsamp, lo, hi, avg) \<Rightarrow> if 0 <s nsamp then Some (ucast hi) else None)"

lemma printed_signed_decodes: "(if sint m < 0 then wrap_u32 (sint m) else sint m) = uint (m :: 32 word)"
proof -
  have u: "wrap_u32 (sint m) = uint m" 
    using uint_bounded [of m] by (simp add: wrap_u32_def sint_uint take_bit_signed_take_bit take_bit_int_eq_self)
  moreover have "sint m < 2 ^ 31" using sint_lt [of m] by simp
  ultimately show ?thesis by (auto simp: wrap_u32_def take_bit_int_eq_self)
qed

lemma sint_i64: "in_i64 (sint (m :: 32 word))"
  using sint_lt [of m] sint_ge [of m] by (simp add: in_i64_def)

lemma graph_tokens:
  "graph_token (fmt_nat i @ '':'') acc = acc"
  "graph_token (graph_figure ''nsamp'' m) acc = (sint m, snd acc)"
  "graph_token (graph_figure ''min'' m) acc = acc"
  "graph_token (graph_figure ''max'' m) acc = (fst acc, Some (ucast m))"
  "graph_token (graph_figure ''avg'' m) acc = acc"
proof -
  have "CHR ''='' \<notin> set (fmt_nat i @ '':'')" by (simp add: digits_not is_digit_char_def byte_def)
  from cut_absent [OF this] show "graph_token (fmt_nat i @ '':'') acc = acc" by (simp add: graph_token_def)
qed (simp_all add: graph_token_def graph_figure_def cut_present parse_i64_fmt_int sint_i64
  printed_signed_decodes del: if_split)

lemma graph_line_bin:
  "graph_line (graph_bin_line b) best =
     (case bin_value b of None \<Rightarrow> best | Some m \<Rightarrow> Some (case best of None \<Rightarrow> m | Some v \<Rightarrow> max v m))"
  by (cases b) (auto simp: graph_line_def graph_bin_line_def graph_tokens bin_value_def word_sless_alt max_def split: option.splits)

lemma graph_bin_plain: "list_all (\<lambda>w. list_all plain w \<and> w \<noteq> []) (graph_bin_line b)"
proof -
  have "list_all plain (fmt_int z)" for z
    using plain_digits by (simp add: fmt_int_def plain_def ascii_space_def byte_def)
  then show ?thesis
    using plain_digits by (cases b) (simp add: graph_bin_line_def graph_figure_def, simp add: plain_def ascii_space_def byte_def)
qed

lemma fold_bins:
  "fold (\<lambda>b. graph_line (graph_bin_line b)) bins best =
     (case (best, List.map_filter bin_value bins) of
        (None, []) \<Rightarrow> None
      | (None, m # ms) \<Rightarrow> Some (fold max ms m)
      | (Some v, ms) \<Rightarrow> Some (fold max ms v))"
  by (induction bins arbitrary: best) (auto simp: graph_line_bin map_filter_simps max.commute split: option.splits list.splits)

text \<open>
  A counter is read as the largest of its bins that carry samples, though venti prints its
  32-bit values as signed numbers; without such a bin there is none.
\<close>

theorem graph_counter_decodes:
  "parse_graph_raw (text_page ([''stats''] # map graph_bin_line bins)) =
     (let ms = List.map_filter bin_value bins in if ms = [] then None else Some (Max (set ms)))"
proof -
  have "list_all (list_all (\<lambda>w. list_all plain w \<and> w \<noteq> [])) ([''stats''] # map graph_bin_line bins)"
    using graph_bin_plain by (simp add: list_all_iff) (simp add: plain_def ascii_space_def byte_def)
  moreover have "graph_line [''stats''] best = best" "graph_line [] best = best" for best
    by (simp_all add: graph_line_def graph_token_def)
  moreover have "fold graph_line (map graph_bin_line bins) best = fold (\<lambda>b. graph_line (graph_bin_line b)) bins best" for best
    by (simp add: fold_map comp_def)
  ultimately show ?thesis
    by (auto simp: parse_graph_raw_def parse_text_page fold_bins Let_def Max.set_eq_fold [symmetric] split: list.splits)
qed

section \<open>What a scrape ships\<close>

lemma fetch_ignores_history: "fetch_storage web (r\<lparr>vt_prev := p, vt_prev_ts := t\<rparr>) = fetch_storage web r"
  by (simp add: fetch_storage_def)

text \<open>
  While venti does not answer its storage page, every scrape ships exactly one gauge, \<open>venti.up\<close> at
  zero, and the history of the rates stays as it was, so the first scrape after the outage takes
  its rates over all of it.
\<close>

theorem venti_outage:
  assumes "list_all (\<lambda>t. fetch_storage (fst t) r = None) ts"
  shows "venti_run ts r nt = (r, fold (\<lambda>t. venti_ship r [venti_gauge r ''venti.up'' (fst (snd t)) (Fin 0) []]) ts nt)"
  using assms by (induction ts arbitrary: nt) (simp_all add: venti_send_def venti_scrape_def)

lemma venti_rate_nonneg:
  assumes "flt (Fin 0) dt" "s \<in> set (graph_rate r now dt cur prev g)"
  shows "\<exists>v. se_points s = [\<lparr>pt_ts = unix now, pt_value = v\<rparr>] \<and> nonneg v"
proof -
  have "nonneg dt" by (rule nonneg_flt [OF assms(1)])
  then show ?thesis
    using assms(2) by (auto simp: graph_rate_def venti_gauge_def nonneg_ops f64_of_u64_def split: option.splits if_splits)
qed

text \<open>No counter is reported with a rate below zero, whatever resets or wraps around.\<close>

theorem venti_rates_nonneg:
  "list_all (\<lambda>s. list_all (\<lambda>p. nonneg (pt_value p)) (se_points s)) (fst (graph_series web now r))"
  using venti_rate_nonneg by (fastforce simp: graph_series_def Let_def list_all_iff)

end
