(* ===== verification/ProcLinux.thy ===== *)
theory ProcLinux
  imports ProcPayload GoStrconv "HOL-Library.AList"
begin

text \<open>
  Process collection on Linux, \<^verbatim>\<open>internal/process/collect_linux.go\<close>, with the helpers all collectors
  share, \<^verbatim>\<open>parse.go\<close> and \<^verbatim>\<open>users.go\<close>: the readers of the files of a process under \<^verbatim>\<open>/proc\<close>, and the
  collection over all of them. The file system is what each read answers, the user database what
  it answers for a decimal identifier, and \<open>cvt\<close> what the platform gives for a float out of range.
\<close>

section \<open>Numbers, process and user identifiers\<close>

definition clock_ticks :: f64 where "clock_ticks = Fin 100"

definition atou :: "string \<Rightarrow> u64" where
  "atou s = word_of_int (res_val 0 (parse_uint 10 64 s))"

definition atoi32 :: "string \<Rightarrow> int" where
  "atoi32 s = res_val 0 (parse_int 10 32 s)"

definition atoux :: "string \<Rightarrow> u64" where
  "atoux s =
     (let hex = (if take 1 s = ''0'' \<and> (take 1 (drop 1 s) = ''x'' \<or> take 1 (drop 1 s) = ''X'') then drop 2 s else s)
      in word_of_int (res_val 0 (parse_uint 16 64 hex)))"

definition parse_pid :: "string \<Rightarrow> int option" where
  "parse_pid s = (case atoi s of Parsed n \<Rightarrow> if n \<le> 0 then None else Some (wrap_i32 n) | _ \<Rightarrow> None)"

type_synonym user_cache = "(int \<times> string) list"

type_synonym user_db = "string \<Rightarrow> string option"

definition lookup_user :: "user_db \<Rightarrow> int \<Rightarrow> user_cache \<Rightarrow> string \<times> user_cache" where
  "lookup_user db uid cache =
     (case map_of cache uid of
        Some name \<Rightarrow> (name, cache)
      | None \<Rightarrow>
          let name = (case db (fmt_int uid) of Some u \<Rightarrow> u | None \<Rightarrow> fmt_int uid)
          in (name, AList.update uid name cache))"

section \<open>The statistics line\<close>

record stat_line =
  sl_comm :: string
  sl_state :: char
  sl_ppid :: int
  sl_threads :: int
  sl_utime :: u64
  sl_stime :: u64
  sl_starttime :: u64
  sl_vsize :: u64
  sl_rss_pages :: u64

definition last_index_byte :: "char \<Rightarrow> string \<Rightarrow> nat option" where
  "last_index_byte c s = map_option (\<lambda>i. length s - 1 - i) (index_byte c (rev s))"

definition parse_stat :: "string \<Rightarrow> stat_line option" where
  "parse_stat data =
     (case (index_byte CHR ''('' data, last_index_byte CHR '')'' data) of
        (Some lpar, Some rpar) \<Rightarrow>
          if rpar < lpar then None
          else let f = str_fields (drop (rpar + 1) data) in
            if length f < 22 then None
            else Some \<lparr>sl_comm = drop (lpar + 1) (take rpar data), sl_state = hd (f ! 0), sl_ppid = atoi32 (f ! 1),
              sl_threads = atoi32 (f ! 17), sl_utime = atou (f ! 11), sl_stime = atou (f ! 12), sl_starttime = atou (f ! 19),
              sl_vsize = atou (f ! 20), sl_rss_pages = atou (f ! 21)\<rparr>
      | _ \<Rightarrow> None)"

section \<open>The other files of a process\<close>

definition first_field_uint :: "string \<Rightarrow> u64" where
  "first_field_uint s = (case str_fields s of f # fs \<Rightarrow> atou f | [] \<Rightarrow> 0)"

definition first_field_int32 :: "string \<Rightarrow> int" where
  "first_field_int32 s = (case str_fields s of f # fs \<Rightarrow> atoi32 f | [] \<Rightarrow> 0)"

record status_info =
  si_have_uid :: bool
  si_uid :: int
  si_gid :: int
  si_threads :: int
  si_vm_rss :: u64
  si_vm_size :: u64
  si_vm_swap :: u64
  si_volctx :: u64
  si_nonvolctx :: u64

definition zero_status :: status_info where
  "zero_status = \<lparr>si_have_uid = False, si_uid = 0, si_gid = 0, si_threads = 0, si_vm_rss = 0, si_vm_size = 0, si_vm_swap = 0,
     si_volctx = 0, si_nonvolctx = 0\<rparr>"

definition key_value :: "string \<Rightarrow> (string \<times> string) option" where
  "key_value line = (case str_cut '':'' line of (key, val, ok) \<Rightarrow> if ok then Some (key, trim_space val) else None)"

definition proc_status_line :: "string \<Rightarrow> status_info \<Rightarrow> status_info" where
  "proc_status_line line s =
     (case key_value line of
        None \<Rightarrow> s
      | Some (key, val) \<Rightarrow>
          if key = ''Uid'' then s\<lparr>si_uid := first_field_int32 val, si_have_uid := True\<rparr>
          else if key = ''Gid'' then s\<lparr>si_gid := first_field_int32 val\<rparr>
          else if key = ''VmRSS'' then s\<lparr>si_vm_rss := first_field_uint val\<rparr>
          else if key = ''VmSize'' then s\<lparr>si_vm_size := first_field_uint val\<rparr>
          else if key = ''VmSwap'' then s\<lparr>si_vm_swap := first_field_uint val\<rparr>
          else if key = ''Threads'' then s\<lparr>si_threads := wrap_i32 (uint (first_field_uint val))\<rparr>
          else if key = ''voluntary_ctxt_switches'' then s\<lparr>si_volctx := first_field_uint val\<rparr>
          else if key = ''nonvoluntary_ctxt_switches'' then s\<lparr>si_nonvolctx := first_field_uint val\<rparr>
          else s)"

definition parse_status :: "string \<Rightarrow> status_info" where
  "parse_status data = fold proc_status_line (lines_of data) zero_status"

definition parse_cmdline :: "string \<Rightarrow> string list" where
  "parse_cmdline b = filter (\<lambda>a. a \<noteq> []) (split_on CHR 0x00 b)"

definition proc_io_line :: "string \<Rightarrow> proc \<Rightarrow> proc" where
  "proc_io_line line p =
     (case key_value line of
        None \<Rightarrow> p
      | Some (key, val) \<Rightarrow>
          let n = first_field_uint val in
          if key = ''syscr'' then p\<lparr>pc_read_count := n\<rparr>
          else if key = ''syscw'' then p\<lparr>pc_write_count := n\<rparr>
          else if key = ''read_bytes'' then p\<lparr>pc_read_bytes := n\<rparr>
          else if key = ''write_bytes'' then p\<lparr>pc_write_bytes := n\<rparr>
          else p)"

definition parse_io :: "string \<Rightarrow> proc \<Rightarrow> proc" where
  "parse_io data p = fold proc_io_line (lines_of data) p"

definition linux_proc_state :: "char \<Rightarrow> int" where
  "linux_proc_state c =
     (if c = CHR ''R'' then state_r
      else if c = CHR ''S'' \<or> c = CHR ''I'' then state_s
      else if c = CHR ''D'' then state_d
      else if c = CHR ''T'' \<or> c = CHR ''t'' then state_t
      else if c = CHR ''Z'' then state_z
      else if c = CHR ''X'' \<or> c = CHR ''x'' then state_x
      else if c = CHR ''W'' then state_w
      else state_u)"

section \<open>A process\<close>

record proc_fs =
  pf_dir :: "string \<Rightarrow> string list option"
  pf_read :: "string \<Rightarrow> string option"
  pf_link :: "string \<Rightarrow> string option"
  pf_page_size :: u64
  pf_users :: user_db
  pf_cvt :: "f64 \<Rightarrow> int"

definition stat_proc :: "proc_fs \<Rightarrow> int \<Rightarrow> u64 \<Rightarrow> stat_line \<Rightarrow> proc" where
  "stat_proc fs pid btime st =
     zero_proc\<lparr>pc_pid := pid, pc_ppid := sl_ppid st, pc_ns_pid := pid, pc_name := sl_comm st, pc_state := linux_proc_state (sl_state st),
       pc_threads := sl_threads st, pc_user_time := fdiv (f64_of_u64 (sl_utime st)) clock_ticks,
       pc_system_time := fdiv (f64_of_u64 (sl_stime st)) clock_ticks, pc_vms := sl_vsize st, pc_rss := sl_rss_pages st * pf_page_size fs,
       pc_create_time :=
         (if 0 < btime
          then f64_to_int (- (2 ^ 63)) (2 ^ 63 - 1) (pf_cvt fs)
            (fmul (fadd (f64_of_u64 btime) (fdiv (f64_of_u64 (sl_starttime st)) clock_ticks)) (Fin 1000))
          else 0)\<rparr>"

definition with_status :: "user_db \<Rightarrow> string option \<Rightarrow> proc \<times> user_cache \<Rightarrow> proc \<times> user_cache" where
  "with_status db data pu =
     (case data of
        None \<Rightarrow> pu
      | Some d \<Rightarrow>
          let s = parse_status d; (p, users) = pu;
              (p1, users1) = (if si_have_uid s
                then (case lookup_user db (si_uid s) users of (name, users') \<Rightarrow>
                  (p\<lparr>pc_uid := si_uid s, pc_gid := si_gid s, pc_user := name\<rparr>, users'))
                else (p, users));
              p2 = (if 0 < si_vm_rss s then p1\<lparr>pc_rss := si_vm_rss s * 1024\<rparr> else p1);
              p3 = (if 0 < si_vm_size s then p2\<lparr>pc_vms := si_vm_size s * 1024\<rparr> else p2);
              p4 = p3\<lparr>pc_swap := si_vm_swap s * 1024\<rparr>;
              p5 = (if 0 < si_threads s then p4\<lparr>pc_threads := si_threads s\<rparr> else p4)
          in (p5\<lparr>pc_vol_switches := si_volctx s, pc_invol_switches := si_nonvolctx s\<rparr>, users1))"

definition with_cmdline :: "string option \<Rightarrow> proc \<Rightarrow> proc" where
  "with_cmdline data p =
     (case data of
        None \<Rightarrow> p
      | Some d \<Rightarrow> (case parse_cmdline d of [] \<Rightarrow> p | a # as \<Rightarrow> p\<lparr>pc_args := a # as, pc_exe := a\<rparr>))"

definition read_proc :: "proc_fs \<Rightarrow> int \<Rightarrow> u64 \<Rightarrow> user_cache \<Rightarrow> proc option \<times> user_cache" where
  "read_proc fs pid btime users =
     (let base = ''/proc/'' @ fmt_int pid in
      case Option.bind (pf_read fs (base @ ''/stat'')) parse_stat of
        None \<Rightarrow> (None, users)
      | Some st \<Rightarrow>
          let (p1, users1) = with_status (pf_users fs) (pf_read fs (base @ ''/status'')) (stat_proc fs pid btime st, users);
              p2 = with_cmdline (pf_read fs (base @ ''/cmdline'')) p1;
              p3 = (case pf_link fs (base @ ''/cwd'') of Some cwd \<Rightarrow> p2\<lparr>pc_cwd := cwd\<rparr> | None \<Rightarrow> p2);
              p4 = (case pf_read fs (base @ ''/io'') of Some d \<Rightarrow> parse_io d p3 | None \<Rightarrow> p3);
              p5 = (case pf_dir fs (base @ ''/fd'') of Some fds \<Rightarrow> p4\<lparr>pc_open_fd := wrap_i32 (int (length fds))\<rparr> | None \<Rightarrow> p4)
          in (Some p5, users1))"

section \<open>The collection\<close>

definition find_line :: "string \<Rightarrow> string \<Rightarrow> string option" where
  "find_line prefix data = (case List.map_filter (cut_prefix prefix) (lines_of data) of r # rs \<Rightarrow> Some r | [] \<Rightarrow> None)"

definition read_btime :: "proc_fs \<Rightarrow> u64" where
  "read_btime fs =
     (case Option.bind (pf_read fs ''/proc/stat'') (find_line ''btime '') of Some r \<Rightarrow> atou (trim_space r) | None \<Rightarrow> 0)"

definition host_total_memory :: "proc_fs \<Rightarrow> int" where
  "host_total_memory fs =
     (case Option.bind (pf_read fs ''/proc/meminfo'') (find_line ''MemTotal:'') of
        Some r \<Rightarrow> wrap_i64 (wrap_i64 (uint (first_field_uint (trim_space r))) * 1024)
      | None \<Rightarrow> 0)"

fun read_procs :: "proc_fs \<Rightarrow> u64 \<Rightarrow> user_cache \<Rightarrow> string list \<Rightarrow> proc list" where
  "read_procs fs btime users [] = []"
| "read_procs fs btime users (e # es) =
     (case parse_pid e of
        None \<Rightarrow> read_procs fs btime users es
      | Some pid \<Rightarrow>
          (case read_proc fs pid btime users of
             (Some p, users') \<Rightarrow> p # read_procs fs btime users' es
           | (None, users') \<Rightarrow> read_procs fs btime users' es))"

definition collect_procs_linux :: "proc_fs \<Rightarrow> proc list option" where
  "collect_procs_linux fs = map_option (read_procs fs (read_btime fs) []) (pf_dir fs ''/proc'')"

section \<open>The statistics line read back\<close>

text \<open>
  The line the kernel writes: the identifier, the name in parentheses, whatever characters it
  has, the state, and the numbers.
\<close>

definition kernel_stat :: "nat \<Rightarrow> string \<Rightarrow> char \<Rightarrow> int list \<Rightarrow> string" where
  "kernel_stat pid comm state nums = fmt_nat pid @ '' ('' @ comm @ '') '' @ [state] @ '' '' @ join_with '' '' (map fmt_int nums)"

lemma plain_fmt_int: "list_all plain (fmt_int n) \<and> fmt_int n \<noteq> []"
proof -
  have "plain CHR ''-''" by code_simp
  then show ?thesis using plain_digits by (simp add: fmt_int_def)
qed

lemma fmt_int_chars: "c \<in> set (fmt_int n) \<Longrightarrow> is_digit_char c \<or> c = CHR ''-''"
  using fmt_nat_digits by (auto simp: fmt_int_def split: if_splits)

lemma last_index_byte_append: "c \<notin> set b \<Longrightarrow> last_index_byte c (a @ c # b) = Some (length a)"
proof -
  assume "c \<notin> set b"
  then have "index_byte c (rev b @ c # rev a) = Some (length b)" using index_byte_append [of c "rev b" "rev a"] by simp
  then show ?thesis by (simp add: last_index_byte_def)
qed

lemma atou_fmt_int: "0 \<le> n \<Longrightarrow> n < 2 ^ 64 \<Longrightarrow> atou (fmt_int n) = word_of_int n"
  using parse_uint_fmt_nat [of "nat n" 64] by (simp add: atou_def fmt_int_def)

lemma atoi32_fmt_int: "in_i32 n \<Longrightarrow> atoi32 (fmt_int n) = n"
  using parse_int_fmt_int [of 32 n] by (simp add: atoi32_def in_i32_def)

text \<open>
  C26. The statistics line of a process is read back whatever its name is, spaces, parentheses and
  text that looks like the rest of the line included.
\<close>

theorem parse_stat_roundtrip:
  assumes "plain state" "state \<noteq> CHR '')''" "21 \<le> length nums" "in_i32 (nums ! 0)" "in_i32 (nums ! 16)"
    and "list_all (\<lambda>i. 0 \<le> nums ! i \<and> nums ! i < 2 ^ 64) [10, 11, 18, 19, 20]"
  shows "parse_stat (kernel_stat pid comm state nums) =
    Some \<lparr>sl_comm = comm, sl_state = state, sl_ppid = nums ! 0, sl_threads = nums ! 16, sl_utime = word_of_int (nums ! 10),
      sl_stime = word_of_int (nums ! 11), sl_starttime = word_of_int (nums ! 18), sl_vsize = word_of_int (nums ! 19),
      sl_rss_pages = word_of_int (nums ! 20)\<rparr>"
proof -
  define rest where "rest = [state] @ '' '' @ join_with '' '' (map fmt_int nums)"
  have data: "kernel_stat pid comm state nums = (fmt_nat pid @ '' '') @ CHR ''('' # (comm @ CHR '')'' # CHR '' '' # rest)"
    "kernel_stat pid comm state nums = (fmt_nat pid @ '' ('' @ comm) @ CHR '')'' # CHR '' '' # rest"
    by (simp_all add: kernel_stat_def rest_def)
  have after: "drop (length a + 1) (a @ c # b) = b" for a c and b :: string by simp
  have "CHR ''('' \<notin> set (fmt_nat pid @ '' '')" by (simp add: digits_not is_digit_char_def byte_def)
  then have l: "index_byte CHR ''('' (kernel_stat pid comm state nums) = Some (length (fmt_nat pid) + 1)"
    unfolding data(1) by (subst index_byte_append) simp_all
  have "set (join_with '' '' (map fmt_int nums)) \<subseteq> \<Union> (set ` set (map fmt_int nums)) \<union> {CHR '' ''}"
    using set_join_with [of "'' ''" "map fmt_int nums"] by simp
  then have "CHR '')'' \<notin> set (join_with '' '' (map fmt_int nums))"
    using fmt_int_chars by (fastforce simp: is_digit_char_def byte_def)
  then have "CHR '')'' \<notin> set (CHR '' '' # rest)" using assms(2) by (simp add: rest_def)
  then have r: "last_index_byte CHR '')'' (kernel_stat pid comm state nums) = Some (length (fmt_nat pid @ '' ('' @ comm))"
    unfolding data(2) by (rule last_index_byte_append)
  have "str_fields rest = [state] # map fmt_int nums"
    unfolding rest_def append_Cons append_Nil
    using assms(1) plain_fmt_int str_fields_word [of "[state]" "CHR '' ''"] str_fields_joined [of "map fmt_int nums"] by (simp add: list_all_iff)
  moreover have "str_fields (CHR '' '' # s) = str_fields s" for s
    using fields_from_space [of "CHR '' ''" "[]" s] by (simp add: str_fields_def)
  moreover have "drop (length (fmt_nat pid @ '' ('' @ comm) + 1) (kernel_stat pid comm state nums) = CHR '' '' # rest"
    unfolding data(2) by (rule after)
  ultimately have f: "str_fields (drop (length (fmt_nat pid @ '' ('' @ comm) + 1) (kernel_stat pid comm state nums)) = [state] # map fmt_int nums"
    by simp
  have c: "drop (length (fmt_nat pid) + 1 + 1) (take (length (fmt_nat pid @ '' ('' @ comm)) (kernel_stat pid comm state nums)) = comm"
    unfolding data(2) by simp
  have m: "map fmt_int nums ! i = fmt_int (nums ! i)" if "i < 21" for i using assms(3) that by simp
  show ?thesis
    unfolding parse_stat_def l r prod.case option.case Let_def f c
    using assms(3-6) by (simp add: nth_Cons' m atou_fmt_int atoi32_fmt_int)
qed

theorem parse_stat_roundtrip_witness:
  "parse_stat (kernel_stat 42 ''a) R 1 (b'' CHR ''S'' [1, 42, 42, 0, -1, 0, 0, 0, 0, 0, 250, 50, 0, 0, 20, 0, 3, 0, 9000, 1048576, 12])
    = Some \<lparr>sl_comm = ''a) R 1 (b'', sl_state = CHR ''S'', sl_ppid = 1, sl_threads = 3, sl_utime = 250, sl_stime = 50, sl_starttime = 9000,
      sl_vsize = 1048576, sl_rss_pages = 12\<rparr>"
proof -
  have "plain CHR ''S''" by code_simp
  from parse_stat_roundtrip [OF this, of "[1, 42, 42, 0, -1, 0, 0, 0, 0, 0, 250, 50, 0, 0, 20, 0, 3, 0, 9000, 1048576, 12]" 42 "''a) R 1 (b''"]
  show ?thesis by (simp add: in_i32_def)
qed

section \<open>User names\<close>

definition user_name :: "user_db \<Rightarrow> int \<Rightarrow> string" where
  "user_name db uid = (case db (fmt_int uid) of Some u \<Rightarrow> u | None \<Rightarrow> fmt_int uid)"

definition cache_ok :: "user_db \<Rightarrow> user_cache \<Rightarrow> bool" where
  "cache_ok db cache \<longleftrightarrow> (\<forall>uid name. map_of cache uid = Some name \<longrightarrow> name = user_name db uid)"

lemma cache_ok_Nil [simp]: "cache_ok db []"
  by (simp add: cache_ok_def)

lemma lookup_user_name:
  "lookup_user db uid cache =
     (case map_of cache uid of Some name \<Rightarrow> (name, cache) | None \<Rightarrow> (user_name db uid, AList.update uid (user_name db uid) cache))"
  by (simp add: lookup_user_def user_name_def Let_def split: option.split)

lemma lookup_user_ok: "cache_ok db cache \<Longrightarrow> fst (lookup_user db uid cache) = user_name db uid \<and> cache_ok db (snd (lookup_user db uid cache))"
  by (auto simp: lookup_user_name cache_ok_def update_conv' split: option.split if_splits)

lemma with_status_ok:
  assumes "cache_ok db users" "cache_ok db users'"
  shows "fst (with_status db data (p, users)) = fst (with_status db data (p, users')) \<and> cache_ok db (snd (with_status db data (p, users)))"
proof (cases data)
  case (Some d)
  then show ?thesis
    using lookup_user_ok [OF assms(1)] lookup_user_ok [OF assms(2)] assms
    by (cases "si_have_uid (parse_status d)") (simp_all add: with_status_def Let_def case_prod_beta)
qed (simp add: with_status_def assms)

text \<open>A process on its own, with no names resolved before.\<close>

definition linux_proc :: "proc_fs \<Rightarrow> string \<Rightarrow> proc option" where
  "linux_proc fs e = Option.bind (parse_pid e) (\<lambda>pid. fst (read_proc fs pid (read_btime fs) []))"

lemma read_proc_ok:
  assumes "cache_ok (pf_users fs) users"
  shows "fst (read_proc fs pid btime users) = fst (read_proc fs pid btime []) \<and> cache_ok (pf_users fs) (snd (read_proc fs pid btime users))"
  using with_status_ok [OF assms cache_ok_Nil] assms
  by (auto simp: read_proc_def Let_def split: option.split prod.split) (metis fst_conv snd_conv)+

text \<open>
  C27. A collection on Linux is each process read on its own: an entry that is no process or that
  exits in between is skipped, and remembering the user names changes no process.
\<close>

theorem linux_procs_independent:
  "collect_procs_linux fs = map_option (List.map_filter (linux_proc fs)) (pf_dir fs ''/proc'')"
proof -
  have "read_procs fs (read_btime fs) users es = List.map_filter (linux_proc fs) es" if "cache_ok (pf_users fs) users" for users es
    using that
  proof (induction es arbitrary: users)
    case (Cons e es)
    show ?case
    proof (cases "parse_pid e")
      case (Some pid)
      obtain r users' where rp: "read_proc fs pid (read_btime fs) users = (r, users')" by fastforce
      with read_proc_ok [OF Cons.prems, of pid "read_btime fs"]
      have "fst (read_proc fs pid (read_btime fs) []) = r" "cache_ok (pf_users fs) users'" by simp_all
      with rp Cons.IH [of users'] Some show ?thesis
        by (cases r) (simp_all add: map_filter_simps linux_proc_def)
    qed (use Cons in \<open>simp add: map_filter_simps linux_proc_def\<close>)
  qed (simp add: map_filter_simps)
  then have "read_procs fs (read_btime fs) [] = List.map_filter (linux_proc fs)" by (intro ext) simp
  then show ?thesis by (simp add: collect_procs_linux_def)
qed

end
