(* ===== verification/ProcPlan9.thy ===== *)
theory ProcPlan9
  imports ProcLinux Plan9Parse
begin

text \<open>
  Process collection on Plan 9: the readers of \<^verbatim>\<open>internal/process/plan9parse.go\<close> and the collection of
  \<^verbatim>\<open>collect_plan9.go\<close>. The width of the name columns is that of the host readers.
\<close>

section \<open>Readers\<close>

record plan9_status =
  q9_name :: string
  q9_user :: string
  q9_state :: string
  q9_utime_ms :: u64
  q9_stime_ms :: u64
  q9_real_ms :: u64
  q9_mem_kb :: u64

definition parse_plan9_status :: "string \<Rightarrow> plan9_status option" where
  "parse_plan9_status data =
     (if length data < status_num_start then None
      else let f = str_fields (drop status_num_start data) in
        if length f < 9 then None
        else Some \<lparr>q9_name = trim_space (take knamelen data), q9_user = trim_space (drop knamelen (take (2 * knamelen) data)),
          q9_state = trim_space (drop (2 * knamelen) (take status_num_start data)), q9_utime_ms = atou (f ! 0), q9_stime_ms = atou (f ! 1),
          q9_real_ms = atou (f ! 2), q9_mem_kb = atou (f ! 6)\<rparr>)"

fun mem_total_lines :: "string list \<Rightarrow> u64" where
  "mem_total_lines [] = 0"
| "mem_total_lines (line # ls) =
     (let f = str_fields line in if length f = 2 \<and> f ! 1 = ''memory'' then atou (f ! 0) else mem_total_lines ls)"

definition parse_plan9_mem_total :: "string \<Rightarrow> u64" where
  "parse_plan9_mem_total data = mem_total_lines (lines_of data)"

definition segment_line :: "string \<Rightarrow> u64 \<Rightarrow> u64" where
  "segment_line line shared =
     (let f = str_fields line; n = length f in
      if n < 4 then shared
      else if atou (f ! (n - 1)) \<le> 1 then shared
      else let base = atoux (f ! (n - 3)); hi = atoux (f ! (n - 2)) in if base < hi then shared + (hi - base) else shared)"

definition parse_plan9_shared :: "string \<Rightarrow> u64" where
  "parse_plan9_shared data = fold segment_line (lines_of data) 0"

definition plan9_proc_state :: "string \<Rightarrow> int" where
  "plan9_proc_state s =
     (if s \<in> set [''Running'', ''Ready'', ''Scheding'', ''New''] then state_r
      else if s = ''Stopped'' then state_t
      else if s \<in> set [''Moribund'', ''Dead''] then state_z
      else if s = ''Broken'' then state_x
      else state_s)"

definition parse_plan9_args :: "string \<Rightarrow> string list" where
  "parse_plan9_args data = str_fields data"

fun fd_lines :: "string list \<Rightarrow> string \<times> int \<Rightarrow> string \<times> int" where
  "fd_lines [] acc = acc"
| "fd_lines (line # ls) (cwd, n) =
     (if line = [] then fd_lines ls (cwd, n) else if cwd = [] then fd_lines ls (line, n) else fd_lines ls (cwd, n + 1))"

definition parse_plan9_fds :: "string \<Rightarrow> string \<times> int" where
  "parse_plan9_fds data = fd_lines (lines_of data) ([], 0)"

section \<open>The collection\<close>

definition status_proc :: "int \<Rightarrow> int \<Rightarrow> plan9_status \<Rightarrow> proc" where
  "status_proc now_ms pid st =
     (let age = wrap_i64 (uint (q9_real_ms st)) in
      zero_proc\<lparr>pc_pid := pid, pc_ns_pid := pid, pc_name := q9_name st, pc_exe := q9_name st, pc_user := q9_user st,
        pc_state := plan9_proc_state (q9_state st), pc_threads := 1,
        pc_user_time := fdiv (f64_of_u64 (q9_utime_ms st)) (Fin 1000), pc_system_time := fdiv (f64_of_u64 (q9_stime_ms st)) (Fin 1000),
        pc_rss := q9_mem_kb st * 1024, pc_vms := q9_mem_kb st * 1024,
        pc_create_time := (if 0 < q9_real_ms st \<and> age \<le> now_ms then wrap_i64 (now_ms - age) else 0)\<rparr>)"

definition read_plan9_proc :: "proc_fs \<Rightarrow> int \<Rightarrow> string \<Rightarrow> proc option" where
  "read_plan9_proc fs now_ms e =
     (case parse_pid e of
        None \<Rightarrow> None
      | Some pid \<Rightarrow>
          (case Option.bind (pf_read fs (''/proc/'' @ e @ ''/status'')) parse_plan9_status of
             None \<Rightarrow> None
           | Some st \<Rightarrow>
               let p = status_proc now_ms pid st;
                   args = (case pf_read fs (''/proc/'' @ e @ ''/args'') of Some d \<Rightarrow> parse_plan9_args d | None \<Rightarrow> []);
                   p1 = p\<lparr>pc_args := (if args = [] then [q9_name st] else args)\<rparr>;
                   p2 = (case pf_read fs (''/proc/'' @ e @ ''/fd'') of
                           Some d \<Rightarrow> (case parse_plan9_fds d of (cwd, n) \<Rightarrow> p1\<lparr>pc_cwd := cwd, pc_open_fd := wrap_i32 n\<rparr>)
                         | None \<Rightarrow> p1);
                   p3 = (case pf_read fs (''/proc/'' @ e @ ''/segment'') of Some d \<Rightarrow> p2\<lparr>pc_shared := parse_plan9_shared d\<rparr> | None \<Rightarrow> p2)
               in Some p3))"

definition collect_procs_plan9 :: "proc_fs \<Rightarrow> int \<Rightarrow> proc list option" where
  "collect_procs_plan9 fs now_ms = map_option (List.map_filter (read_plan9_proc fs now_ms)) (pf_dir fs ''/proc'')"

definition host_total_memory_plan9 :: "proc_fs \<Rightarrow> int" where
  "host_total_memory_plan9 fs =
     (case pf_read fs ''/dev/swap'' of None \<Rightarrow> 0 | Some d \<Rightarrow> wrap_i64 (uint (parse_plan9_mem_total d)))"

section \<open>The two readers of a status line\<close>

lemma atou_fmt_nat: "n < 2 ^ 64 \<Longrightarrow> atou (fmt_nat n) = of_nat n"
  using parse_uint_fmt_nat [of n 64] by (simp add: atou_def)

text \<open>
  The process collector and the host collector read the status of a Plan 9 process alike: the
  same name and state, and the same memory, once the number is made a float.
\<close>

theorem plan9_readers_agree:
  assumes "length name \<le> 28" "length user \<le> 28" "length st \<le> 12" "trimmed name" "trimmed user" "trimmed st"
    and "9 \<le> length nums" "list_all (\<lambda>n. n \<le> 2 ^ 53) nums"
  shows "\<exists>q. parse_plan9_status (status_line name user st nums @ rest) = Some q \<and> q9_user q = user
    \<and> q9_utime_ms q = of_nat (nums ! 0) \<and> q9_stime_ms q = of_nat (nums ! 1) \<and> q9_real_ms q = of_nat (nums ! 2)
    \<and> parse_proc_status (status_line name user st nums @ rest)
      = Some \<lparr>ps_name = q9_name q, ps_state = q9_state q, ps_mem_kb = f64_of_u64 (q9_mem_kb q)\<rparr>"
proof -
  let ?data = "status_line name user st nums @ rest"
  have len: "length (pad 28 name) = 28" "length (pad 28 user) = 28" "length (pad 12 st) = 12"
    using assms(1-3) by (simp_all add: length_pad)
  have d: "?data = pad 28 name @ pad 28 user @ pad 12 st @ concat (map right_num nums) @ rest"
    by (simp add: status_line_def)
  have cols: "take 28 ?data = pad 28 name" "drop 28 (take 56 ?data) = pad 28 user" "drop 56 (take 68 ?data) = pad 12 st"
    "drop 68 ?data = concat (map right_num nums) @ rest" "68 \<le> length ?data"
    unfolding d using len by simp_all
  have le: "nums ! i \<le> 2 ^ 53" if "i < 9" for i using assms(7,8) that by (simp add: list_all_length)
  have num: "atou ((map fmt_nat nums @ str_fields rest) ! i) = of_nat (nums ! i)" if "i < 9" for i
    using le [OF that] assms(7) that by (simp add: nth_append atou_fmt_nat)
  have "parse_plan9_status ?data = Some \<lparr>q9_name = name, q9_user = user, q9_state = st, q9_utime_ms = of_nat (nums ! 0),
      q9_stime_ms = of_nat (nums ! 1), q9_real_ms = of_nat (nums ! 2), q9_mem_kb = of_nat (nums ! 6)\<rparr>"
    using cols assms(4-7) str_fields_nums [of nums rest]
    by (simp add: parse_plan9_status_def Let_def status_num_start_def knamelen_def trim_pad num)
  moreover have "parse_proc_status ?data = Some \<lparr>ps_name = name, ps_state = st, ps_mem_kb = Fin (of_nat (nums ! 6))\<rparr>"
    using assms(1-7) le [of 6] by (intro proc_status_roundtrip) simp_all
  moreover have "f64_of_u64 (of_nat (nums ! 6)) = Fin (of_nat (nums ! 6))" using le [of 6] by (intro f64_of_u64_nat) simp
  ultimately show ?thesis by simp
qed

theorem plan9_readers_agree_witness:
  "\<exists>q. parse_plan9_status (status_line ''factotum helper'' ''eve'' ''Idle'' [1, 2, 3, 0, 0, 0, 512, 10, 10] @ [newline]) = Some q \<and> q9_user q = ''eve''
    \<and> q9_utime_ms q = 1 \<and> q9_stime_ms q = 2 \<and> q9_real_ms q = 3
    \<and> parse_proc_status (status_line ''factotum helper'' ''eve'' ''Idle'' [1, 2, 3, 0, 0, 0, 512, 10, 10] @ [newline])
      = Some \<lparr>ps_name = q9_name q, ps_state = q9_state q, ps_mem_kb = f64_of_u64 (q9_mem_kb q)\<rparr>"
proof -
  have "trimmed ''factotum helper''" "trimmed ''eve''" "trimmed ''Idle''" by code_simp+
  from plan9_readers_agree [OF _ _ _ this, of "[1, 2, 3, 0, 0, 0, 512, 10, 10]" "[newline]"] show ?thesis by simp
qed

end
