(* ===== verification/ProcBsd.thy ===== *)
theory ProcBsd
  imports ProcLinux DevStat
begin

text \<open>
  Process collection on the BSD systems: the decoders of the kernels' process
  tables (\<^verbatim>\<open>internal/process/kinfoproc.go\<close>, \<^verbatim>\<open>kinfoproc2.go\<close>, \<^verbatim>\<open>kinfoprocdf.go\<close>), and the
  collections over what the kernel's calls answer (\<^verbatim>\<open>collect_*.go\<close>).
\<close>

section \<open>Times and states\<close>

definition page_size :: u64 where "page_size = 4096"

definition tv_seconds :: "string \<Rightarrow> nat \<Rightarrow> f64" where
  "tv_seconds b off =
     fadd (f64_of_int (wrap_i64 (le64 b off))) (fdiv (f64_of_int (wrap_i64 (le64 b (off + 8)))) (Fin 1000000))"

definition usec_millis :: "int \<Rightarrow> int \<Rightarrow> int" where
  "usec_millis sec usec = wrap_i64 (wrap_i64 (sec * 1000) + go_quot usec 1000)"

definition tv_millis :: "string \<Rightarrow> nat \<Rightarrow> int" where
  "tv_millis b off = usec_millis (wrap_i64 (le64 b off)) (wrap_i64 (le64 b (off + 8)))"

definition usec_seconds :: "int \<Rightarrow> int \<Rightarrow> f64" where
  "usec_seconds sec usec = fadd (f64_of_int sec) (fdiv (f64_of_int usec) (Fin 1000000))"

definition i32_at :: "string \<Rightarrow> nat \<Rightarrow> int" where
  "i32_at r off = wrap_i32 (le32 r off)"

definition u64_at :: "string \<Rightarrow> nat \<Rightarrow> u64" where
  "u64_at r off = word_of_int (le64 r off)"

definition byte_at :: "string \<Rightarrow> nat \<Rightarrow> int" where
  "byte_at r off = int (byte (r ! off))"

definition pages :: "int \<Rightarrow> u64" where
  "pages n = (if 0 < n then word_of_int n * page_size else 0)"

definition parse_argv :: "string \<Rightarrow> string list" where
  "parse_argv b = filter (\<lambda>a. a \<noteq> []) (split_on CHR 0x00 b)"

section \<open>FreeBSD\<close>

definition freebsd_proc_state :: "int \<Rightarrow> int" where
  "freebsd_proc_state st =
     (if st = 2 then state_r else if st = 3 \<or> st = 6 then state_s else if st = 4 then state_t else if st = 5 then state_z
      else if st = 7 \<or> st = 1 then state_d else state_u)"

definition kp_min_size :: nat where "kp_min_size = 752"

definition kinfo_proc :: "string \<Rightarrow> proc" where
  "kinfo_proc r =
     zero_proc\<lparr>pc_pid := i32_at r 72, pc_ppid := i32_at r 76, pc_uid := i32_at r 172, pc_gid := i32_at r 180,
       pc_name := trim_nul (take 20 (drop 447 r)), pc_state := freebsd_proc_state (byte_at r 388), pc_threads := i32_at r 596,
       pc_vms := u64_at r 256, pc_create_time := tv_millis r 336, pc_user_time := tv_seconds r 608, pc_system_time := tv_seconds r 624,
       pc_vol_switches := u64_at r 736, pc_invol_switches := u64_at r 744, pc_ns_pid := i32_at r 72,
       pc_rss := pages (wrap_i64 (le64 r 264))\<rparr>"

text \<open>A record's own first word is its length; the loop ends at one too small or past the end.\<close>

function parse_kinfo_procs :: "string \<Rightarrow> proc list" where
  "parse_kinfo_procs b =
     (if length b < 4 then []
      else let ss = i32_at b 0 in
        if ss < int kp_min_size \<or> int (length b) < ss then []
        else kinfo_proc (take (nat ss) b) # parse_kinfo_procs (drop (nat ss) b))"
  by pat_completeness auto
termination
  by (relation "measure length") (auto simp: kp_min_size_def)

declare parse_kinfo_procs.simps [simp del]

section \<open>DragonFly\<close>

definition dragonfly_proc_state :: "string \<Rightarrow> int" where
  "dragonfly_proc_state r =
     (let st = i32_at r 12; lwp = i32_at r 676 in
      if st = 1 then state_d else if st = 3 then state_t else if st = 4 then state_z else if st = 5 then state_r
      else if st = 2 then (if lwp = 1 then state_r else if lwp = 2 then state_t else state_s)
      else state_u)"

definition dragonfly_proc :: "string \<Rightarrow> proc" where
  "dragonfly_proc r =
     zero_proc\<lparr>pc_pid := i32_at r 220, pc_ppid := i32_at r 224, pc_uid := i32_at r 204, pc_gid := i32_at r 212,
       pc_name := trim_nul (take 17 (drop 112 r)), pc_state := dragonfly_proc_state r, pc_threads := max 1 (i32_at r 296),
       pc_vms := u64_at r 312, pc_create_time := tv_millis r 96, pc_user_time := tv_seconds r 368, pc_system_time := tv_seconds r 384,
       pc_vol_switches := u64_at r 496, pc_invol_switches := u64_at r 504, pc_ns_pid := i32_at r 220,
       pc_rss := pages (wrap_i64 (le64 r 320))\<rparr>"

definition parse_dragonfly_procs :: "string \<Rightarrow> proc list" where
  "parse_dragonfly_procs b = map dragonfly_proc (bin_records 992 b)"

section \<open>OpenBSD and NetBSD\<close>

definition i8_of :: "int \<Rightarrow> int" where
  "i8_of x = (if 128 \<le> x then x - 256 else x)"

definition openbsd_proc_state :: "int \<Rightarrow> int" where
  "openbsd_proc_state st =
     (if st = 2 \<or> st = 7 then state_r else if st = 3 then state_s else if st = 4 then state_t else if st = 5 then state_z
      else if st = 6 then state_x else if st = 1 then state_d else state_u)"

definition openbsd_proc :: "string \<Rightarrow> proc" where
  "openbsd_proc r =
     zero_proc\<lparr>pc_pid := i32_at r 108, pc_ppid := i32_at r 112, pc_uid := i32_at r 132, pc_gid := i32_at r 140,
       pc_name := trim_nul (take 24 (drop 312 r)), pc_state := openbsd_proc_state (i8_of (byte_at r 304)), pc_threads := 1,
       pc_create_time := usec_millis (wrap_i64 (le64 r 408)) (le32 r 416), pc_user_time := usec_seconds (le32 r 420) (le32 r 424),
       pc_system_time := usec_seconds (le32 r 428) (le32 r 432), pc_vol_switches := u64_at r 536, pc_invol_switches := u64_at r 544,
       pc_ns_pid := i32_at r 108, pc_rss := pages (i32_at r 384), pc_vms := pages (i32_at r 388 + i32_at r 392 + i32_at r 396)\<rparr>"

definition parse_openbsd_procs :: "string \<Rightarrow> proc list" where
  "parse_openbsd_procs b = map openbsd_proc (bin_records 648 b)"

function openbsd_argv :: "string \<Rightarrow> string list" where
  "openbsd_argv b = (if length b < 8 then [] else if le64 b 0 = 0 then parse_argv (drop 8 b) else openbsd_argv (drop 8 b))"
  by pat_completeness auto
termination
  by (relation "measure length") auto

declare openbsd_argv.simps [simp del]

definition netbsd_proc_state :: "int \<Rightarrow> int" where
  "netbsd_proc_state st =
     (if st = 2 \<or> st = 7 then state_r else if st = 3 then state_s else if st = 4 \<or> st = 8 then state_t else if st = 5 then state_z
      else if st = 6 then state_x else if st = 1 then state_d else state_u)"

definition netbsd_proc :: "string \<Rightarrow> proc" where
  "netbsd_proc r =
     zero_proc\<lparr>pc_pid := i32_at r 116, pc_ppid := i32_at r 120, pc_uid := i32_at r 140, pc_gid := i32_at r 148,
       pc_name := trim_nul (take 24 (drop 368 r)), pc_state := netbsd_proc_state (i8_of (byte_at r 360)),
       pc_threads := max 1 (wrap_i32 (le64 r 616)), pc_create_time := usec_millis (le32 r 456) (le32 r 460),
       pc_user_time := usec_seconds (le32 r 464) (le32 r 468), pc_system_time := usec_seconds (le32 r 472) (le32 r 476),
       pc_vol_switches := u64_at r 576, pc_invol_switches := u64_at r 584, pc_ns_pid := i32_at r 116,
       pc_rss := pages (i32_at r 432), pc_vms := pages (wrap_i64 (le64 r 664))\<rparr>"

definition parse_netbsd_procs :: "string \<Rightarrow> proc list" where
  "parse_netbsd_procs b = map netbsd_proc (bin_records 680 b)"

section \<open>Collection\<close>

text \<open>An answer of the kernel to a fetch of its process table: it may have grown since it was sized.\<close>

datatype fetch = Fetched string | Grown | Refused

text \<open>The fetch with its retries: the answers of the successive tries.\<close>

definition proc_tries :: nat where "proc_tries = 4"

fun fetch_procs :: "nat \<Rightarrow> (nat \<Rightarrow> fetch) \<Rightarrow> string option" where
  "fetch_procs 0 ans = None"
| "fetch_procs (Suc n) ans =
     (case ans 0 of Fetched b \<Rightarrow> Some b | Refused \<Rightarrow> None | Grown \<Rightarrow> fetch_procs n (\<lambda>i. ans (Suc i)))"

text \<open>One try on OpenBSD and NetBSD: the size, then the table with room for what forked since.\<close>

datatype 'a sysctl = Answer 'a | NoMem | Failed

definition proc_list_once :: "nat \<Rightarrow> nat sysctl \<Rightarrow> (nat \<Rightarrow> string sysctl) \<Rightarrow> fetch" where
  "proc_list_once stride sz into =
     (case sz of
        NoMem \<Rightarrow> Grown
      | Failed \<Rightarrow> Refused
      | Answer n \<Rightarrow>
          if n = 0 then Fetched []
          else (case into (n + n div 8 + 16 * stride) of Answer b \<Rightarrow> Fetched b | NoMem \<Rightarrow> Grown | Failed \<Rightarrow> Refused))"

definition fill_proc :: "string list \<Rightarrow> proc \<Rightarrow> proc" where
  "fill_proc args p = (case args of [] \<Rightarrow> p\<lparr>pc_args := [pc_name p], pc_exe := pc_name p\<rparr> | a # as \<Rightarrow> p\<lparr>pc_args := args, pc_exe := a\<rparr>)"

fun fill_procs :: "user_db \<Rightarrow> (int \<Rightarrow> string list) \<Rightarrow> user_cache \<Rightarrow> proc list \<Rightarrow> proc list" where
  "fill_procs db args users [] = []"
| "fill_procs db args users (p # ps) =
     (case lookup_user db (pc_uid p) users of
        (name, users') \<Rightarrow> fill_proc (args (pc_pid p)) (p\<lparr>pc_user := name\<rparr>) # fill_procs db args users' ps)"

definition collect_procs_bsd :: "(string \<Rightarrow> proc list) \<Rightarrow> (nat \<Rightarrow> fetch) \<Rightarrow> user_db \<Rightarrow> (int \<Rightarrow> string list) \<Rightarrow> proc list option" where
  "collect_procs_bsd parse ans db args = map_option (\<lambda>b. fill_procs db args [] (parse b)) (fetch_procs proc_tries ans)"

definition collect_procs_freebsd :: "(nat \<Rightarrow> fetch) \<Rightarrow> user_db \<Rightarrow> (int \<Rightarrow> string option) \<Rightarrow> proc list option" where
  "collect_procs_freebsd ans db args =
     collect_procs_bsd parse_kinfo_procs ans db (\<lambda>pid. case args pid of Some b \<Rightarrow> parse_argv b | None \<Rightarrow> [])"

definition collect_procs_dragonfly :: "(nat \<Rightarrow> fetch) \<Rightarrow> user_db \<Rightarrow> (int \<Rightarrow> string option) \<Rightarrow> proc list option" where
  "collect_procs_dragonfly ans db args =
     collect_procs_bsd parse_dragonfly_procs ans db (\<lambda>pid. case args pid of Some b \<Rightarrow> parse_argv b | None \<Rightarrow> [])"

definition proc_args :: "(string \<Rightarrow> string list) \<Rightarrow> nat sysctl \<Rightarrow> (nat \<Rightarrow> string sysctl) \<Rightarrow> string list" where
  "proc_args decode sz into =
     (case sz of Answer n \<Rightarrow> if n = 0 then [] else (case into n of Answer b \<Rightarrow> decode b | _ \<Rightarrow> []) | _ \<Rightarrow> [])"

definition collect_procs_openbsd :: "(nat \<Rightarrow> nat sysctl \<times> (nat \<Rightarrow> string sysctl)) \<Rightarrow> user_db \<Rightarrow> (int \<Rightarrow> nat sysctl \<times> (nat \<Rightarrow> string sysctl)) \<Rightarrow> proc list option" where
  "collect_procs_openbsd list_calls db arg_calls =
     collect_procs_bsd parse_openbsd_procs (\<lambda>i. case list_calls i of (sz, into) \<Rightarrow> proc_list_once 648 sz into) db
       (\<lambda>pid. case arg_calls pid of (sz, into) \<Rightarrow> proc_args openbsd_argv sz into)"

definition collect_procs_netbsd :: "(nat \<Rightarrow> nat sysctl \<times> (nat \<Rightarrow> string sysctl)) \<Rightarrow> user_db \<Rightarrow> (int \<Rightarrow> nat sysctl \<times> (nat \<Rightarrow> string sysctl)) \<Rightarrow> proc list option" where
  "collect_procs_netbsd list_calls db arg_calls =
     collect_procs_bsd parse_netbsd_procs (\<lambda>i. case list_calls i of (sz, into) \<Rightarrow> proc_list_once 680 sz into) db
       (\<lambda>pid. case arg_calls pid of (sz, into) \<Rightarrow> proc_args parse_argv sz into)"

text \<open>The physical memory of OpenBSD: its pages times their size.\<close>

definition openbsd_total_memory :: "(int \<times> int) option \<Rightarrow> int" where
  "openbsd_total_memory uvm = (case uvm of None \<Rightarrow> 0 | Some (npages, pagesize) \<Rightarrow> wrap_i64 (npages * pagesize))"

text \<open>That of FreeBSD, DragonFly and NetBSD: one value of the kernel.\<close>

definition sysctl_total_memory :: "u64 option \<Rightarrow> int" where
  "sysctl_total_memory n = (case n of None \<Rightarrow> 0 | Some w \<Rightarrow> wrap_i64 (uint w))"

section \<open>What the collections add\<close>

lemma fill_procs_map:
  "cache_ok db users \<Longrightarrow> fill_procs db args users ps = map (\<lambda>p. fill_proc (args (pc_pid p)) (p\<lparr>pc_user := user_name db (pc_uid p)\<rparr>)) ps"
proof (induction ps arbitrary: users)
  case (Cons p ps)
  with lookup_user_ok [of db users "pc_uid p"] show ?case by (cases "lookup_user db (pc_uid p) users") simp
qed simp

lemma find_map: "List.find P (map f xs) = map_option f (List.find (\<lambda>x. P (f x)) xs)"
  by (induction xs) simp_all

definition fetched :: "fetch \<Rightarrow> string option" where
  "fetched f = (case f of Fetched b \<Rightarrow> Some b | _ \<Rightarrow> None)"

lemma fetch_procs_first: "fetch_procs n ans = Option.bind (List.find (\<lambda>i. ans i \<noteq> Grown) [0..<n]) (\<lambda>i. fetched (ans i))"
proof (induction n arbitrary: ans)
  case (Suc n)
  have "[0..<Suc n] = 0 # map Suc [0..<n]" by (simp add: upt_conv_Cons map_Suc_upt del: upt_Suc)
  then have "Option.bind (List.find (\<lambda>i. ans i \<noteq> Grown) [0..<Suc n]) (\<lambda>i. fetched (ans i))
      = (if ans 0 = Grown then Option.bind (List.find (\<lambda>i. ans (Suc i) \<noteq> Grown) [0..<n]) (\<lambda>i. fetched (ans (Suc i))) else fetched (ans 0))"
    by (simp add: find_map bind_map_option comp_def del: upt_Suc)
  with Suc.IH [of "\<lambda>i. ans (Suc i)"] show ?case by (cases "ans 0") (simp_all add: fetched_def)
qed simp


section \<open>Walking the process tables\<close>

definition record_ok :: "string \<Rightarrow> bool" where
  "record_ok r \<longleftrightarrow> kp_min_size \<le> length r \<and> length r < 2 ^ 31 \<and> take 4 r = le_bytes 4 (length r)"

lemma le32_own_size: "record_ok r \<Longrightarrow> i32_at (r @ s) 0 = int (length r)"
proof -
  assume ok: "record_ok r"
  then have "le32 (r @ s) 0 = int (length r)" by (simp add: record_ok_def kp_min_size_def le32_def le_nat_bytes)
  moreover have "int (length r) < 2 ^ 31" using ok by (simp add: record_ok_def)
  ultimately show ?thesis by (simp add: i32_at_def wrap_i32_id in_i32_def)
qed

text \<open>
  A FreeBSD process table whose records carry their own lengths, of whatever sizes, is read
  record by record, and a torn record at its end is left out.
\<close>

theorem kinfo_table_walked:
  assumes "list_all record_ok rs" "length rest < 4 \<or> i32_at rest 0 < 752 \<or> int (length rest) < i32_at rest 0"
  shows "parse_kinfo_procs (concat rs @ rest) = map kinfo_proc rs"
  using assms(1)
proof (induction rs)
  case Nil
  show ?case using assms(2) by (subst parse_kinfo_procs.simps) (auto simp: kp_min_size_def Let_def)
next
  case (Cons r rs)
  then have "i32_at (r @ concat rs @ rest) 0 = int (length r)" "kp_min_size \<le> length r"
    using le32_own_size by (simp_all add: record_ok_def)
  with Cons show ?case by (subst parse_kinfo_procs.simps) (simp add: kp_min_size_def)
qed

theorem kinfo_table_walked_witness:
  "parse_kinfo_procs (concat [le_bytes 4 752 @ replicate 748 CHR 0x01] @ ''xy'') = map kinfo_proc [le_bytes 4 752 @ replicate 748 CHR 0x01]"
  by (rule kinfo_table_walked) (simp_all add: record_ok_def kp_min_size_def)

text \<open>Whatever the kernel returns, a bad record length included, the walk ends: each record read consumes at least its least size.\<close>

theorem kinfo_walk_bounded: "length (parse_kinfo_procs b) * 752 \<le> length b"
proof (induction b rule: parse_kinfo_procs.induct)
  case (1 b)
  show ?case
  proof (cases "length b < 4 \<or> i32_at b 0 < 752 \<or> int (length b) < i32_at b 0")
    case True
    then show ?thesis by (subst parse_kinfo_procs.simps) (auto simp: kp_min_size_def Let_def)
  next
    case False
    then have "length (parse_kinfo_procs (drop (nat (i32_at b 0)) b)) * 752 \<le> length b - nat (i32_at b 0)"
      using 1 by (simp add: kp_min_size_def)
    moreover have "752 \<le> nat (i32_at b 0)" "nat (i32_at b 0) \<le> length b" using False by auto
    ultimately show ?thesis using False by (subst parse_kinfo_procs.simps) (simp add: kp_min_size_def Let_def)
  qed
qed

section \<open>Arguments\<close>

lemma parse_argv_words:
  "list_all (\<lambda>w. w \<noteq> [] \<and> CHR 0x00 \<notin> set w) ws \<Longrightarrow> parse_argv (concat (map (\<lambda>w. w @ [CHR 0x00]) ws)) = ws"
  by (induction ws) (simp_all add: parse_argv_def split_on_present)

text \<open>
  OpenBSD's argument buffer is read back: the vector of pointers up to its null entry is
  skipped, whatever the pointers are, and the words after it are the arguments.
\<close>

theorem openbsd_argv_roundtrip:
  assumes "list_all (\<lambda>p. 0 < p) (map unat ptrs)" "list_all (\<lambda>w. w \<noteq> [] \<and> CHR 0x00 \<notin> set w) ws"
  shows "openbsd_argv (concat (map le_u64 ptrs) @ le_u64 0 @ concat (map (\<lambda>w. w @ [CHR 0x00]) ws)) = ws"
  using assms(1)
proof (induction ptrs)
  case Nil
  show ?case using assms(2) by (subst openbsd_argv.simps) (simp add: le_u64_here parse_argv_words)
next
  case (Cons p ptrs)
  let ?tail = "concat (map le_u64 ptrs) @ le_u64 0 @ concat (map (\<lambda>w. w @ [CHR 0x00]) ws)"
  have "unat p \<noteq> 0" using Cons.prems by simp
  then have "le64 (le_u64 p @ ?tail) 0 \<noteq> 0" by (simp add: le_u64_here unsigned_eq_0_iff)
  then have "openbsd_argv (le_u64 p @ ?tail) = openbsd_argv ?tail" by (subst openbsd_argv.simps) simp
  moreover have "openbsd_argv ?tail = ws" using Cons by simp
  ultimately show ?case by simp
qed

theorem openbsd_argv_roundtrip_witness:
  "openbsd_argv (concat (map le_u64 [4096, 4104]) @ le_u64 0 @ concat (map (\<lambda>w. w @ [CHR 0x00]) [''ls'', ''-l''])) = [''ls'', ''-l'']"
  by (rule openbsd_argv_roundtrip) simp_all

end
