(* ===== verification/ProcOther.thy ===== *)
theory ProcOther
  imports ProcLinux
begin

text \<open>
  Process collection on macOS, from the output of \<^verbatim>\<open>ps\<close> (\<^verbatim>\<open>internal/process/darwinps.go\<close>,
  \<^verbatim>\<open>collect_darwin.go\<close>), and on Windows, from what its calls answer (\<^verbatim>\<open>collect_windows.go\<close>).
\<close>

section \<open>Fields of ps\<close>

definition darwin_proc_state :: "string \<Rightarrow> int" where
  "darwin_proc_state s =
     (case s of
        [] \<Rightarrow> state_u
      | c # cs \<Rightarrow>
          if c = CHR ''R'' then state_r
          else if c = CHR ''S'' \<or> c = CHR ''I'' then state_s
          else if c = CHR ''T'' then state_t
          else if c = CHR ''U'' then state_d
          else if c = CHR ''Z'' then state_z
          else state_s)"

definition ps_cpu_seconds :: "string \<Rightarrow> f64" where
  "ps_cpu_seconds s = fold (\<lambda>p secs. fadd (fmul secs (Fin 60)) (float_or_zero p)) (split_on CHR '':'' s) (Fin 0)"

definition ps_int :: "string \<Rightarrow> int" where
  "ps_int s = res_val 0 (parse_int 10 64 s)"

definition ps_elapsed_seconds :: "string \<Rightarrow> int" where
  "ps_elapsed_seconds s =
     (case str_cut ''-'' s of (d, rest, ok) \<Rightarrow>
        let days = (if ok then ps_int d else 0); hms = (if ok then rest else s);
            secs = fold (\<lambda>p n. wrap_i64 (wrap_i64 (n * 60) + ps_int p)) (split_on CHR '':'' hms) 0
        in wrap_i64 (wrap_i64 (days * 86400) + secs))"

section \<open>The process list of ps\<close>

definition ps_line :: "int \<Rightarrow> string \<Rightarrow> proc option" where
  "ps_line now_ms line =
     (let f = str_fields line in
      if length f < 11 then None
      else case parse_pid (f ! 0) of
          None \<Rightarrow> None
        | Some pid \<Rightarrow>
            let args = str_fields (join_with '' '' (drop 10 f)); secs = ps_elapsed_seconds (f ! 8) in
            Some (zero_proc\<lparr>pc_pid := pid, pc_ns_pid := pid, pc_ppid := atoi32 (f ! 1), pc_uid := atoi32 (f ! 2), pc_gid := atoi32 (f ! 3),
              pc_user := f ! 9, pc_rss := atou (f ! 4) * 1024, pc_vms := atou (f ! 5) * 1024, pc_state := darwin_proc_state (f ! 6),
              pc_threads := 1, pc_user_time := ps_cpu_seconds (f ! 7),
              pc_create_time := (if 0 < secs then wrap_i64 (now_ms - wrap_i64 (secs * 1000)) else 0),
              pc_args := args, pc_exe := hd args, pc_name := base_name (hd args)\<rparr>))"

definition parse_ps_procs :: "string \<Rightarrow> int \<Rightarrow> proc list" where
  "parse_ps_procs out now_ms = List.map_filter (ps_line now_ms) (lines_of out)"

text \<open>The threads of each process: the counts so far, and the process whose threads follow, none at first.\<close>

definition ps_thread_line :: "string \<Rightarrow> (int \<times> int) list \<times> int \<Rightarrow> (int \<times> int) list \<times> int" where
  "ps_thread_line line acc =
     (case acc of (counts, cur) \<Rightarrow>
        let f = str_fields line in
        if length f < 2 then acc
        else case parse_pid (f ! 1) of
            Some pid \<Rightarrow> (AList.update pid 1 counts, pid)
          | None \<Rightarrow>
              if cur \<noteq> 0 then (AList.update cur ((case map_of counts cur of Some n \<Rightarrow> n | None \<Rightarrow> 0) + 1) counts, cur) else acc)"

definition parse_ps_threads :: "string \<Rightarrow> (int \<times> int) list" where
  "parse_ps_threads out = fst (fold ps_thread_line (lines_of out) ([], 0))"

definition with_threads :: "(int \<times> int) list \<Rightarrow> proc \<Rightarrow> proc" where
  "with_threads counts p =
     (case map_of counts (pc_pid p) of Some n \<Rightarrow> if 0 < n then p\<lparr>pc_threads := wrap_i32 n\<rparr> else p | None \<Rightarrow> p)"

definition collect_procs_darwin :: "string option \<Rightarrow> int \<Rightarrow> string option \<Rightarrow> proc list option" where
  "collect_procs_darwin ps now_ms ps_threads =
     map_option (\<lambda>out.
       let procs = parse_ps_procs out now_ms
       in (case ps_threads of Some tout \<Rightarrow> map (with_threads (parse_ps_threads tout)) procs | None \<Rightarrow> procs)) ps"

section \<open>Windows\<close>

text \<open>What a snapshot lists of a process, and what a handle to it answers, where it is granted.\<close>

record win_entry =
  we_pid :: "32 word"
  we_ppid :: "32 word"
  we_threads :: "32 word"
  we_name :: string

record win_user =
  wu_sid :: string
  wu_account :: "(string \<times> string) option"

record win_handle =
  wh_times :: "(int \<times> u64 \<times> u64) option"
  wh_image :: "string option"
  wh_memory :: "(u64 \<times> u64) option"
  wh_handles :: "32 word option"
  wh_user :: "win_user option"

type_synonym sid_cache = "(string \<times> string) list"

definition filetime_seconds :: "u64 \<Rightarrow> f64" where
  "filetime_seconds ticks = fdiv (f64_of_u64 ticks) (Fin 10000000)"

definition process_user :: "win_user option \<Rightarrow> sid_cache \<Rightarrow> string \<times> sid_cache" where
  "process_user u cache =
     (case u of
        None \<Rightarrow> ([], cache)
      | Some u \<Rightarrow>
          (case map_of cache (wu_sid u) of
             Some name \<Rightarrow> (name, cache)
           | None \<Rightarrow>
               let name = (case wu_account u of
                     None \<Rightarrow> []
                   | Some (account, domain) \<Rightarrow> if domain \<noteq> [] then domain @ [CHR 0x5C] @ account else account)
               in (name, AList.update (wu_sid u) name cache)))"

definition enrich :: "win_handle option \<Rightarrow> proc \<times> sid_cache \<Rightarrow> proc \<times> sid_cache" where
  "enrich h pu =
     (case h of
        None \<Rightarrow> pu
      | Some h \<Rightarrow>
          let (p, users) = pu;
              p1 = (case wh_times h of
                      Some (created_ns, user, kern) \<Rightarrow>
                        p\<lparr>pc_create_time := go_quot created_ns 1000000, pc_user_time := filetime_seconds user, pc_system_time := filetime_seconds kern\<rparr>
                    | None \<Rightarrow> p);
              p2 = (case wh_image h of Some img \<Rightarrow> p1\<lparr>pc_exe := img\<rparr> | None \<Rightarrow> p1);
              p3 = (case wh_memory h of Some (working, pagefile) \<Rightarrow> p2\<lparr>pc_rss := working, pc_vms := pagefile\<rparr> | None \<Rightarrow> p2);
              p4 = (case wh_handles h of Some n \<Rightarrow> p3\<lparr>pc_open_fd := wrap_i32 (uint n)\<rparr> | None \<Rightarrow> p3);
              (name, users') = process_user (wh_user h) users
          in (p4\<lparr>pc_user := name\<rparr>, users'))"

fun win_entries :: "(int \<Rightarrow> win_handle option) \<Rightarrow> sid_cache \<Rightarrow> win_entry list \<Rightarrow> proc list" where
  "win_entries open_process users [] = []"
| "win_entries open_process users (e # es) =
     (if we_pid e = 0 then win_entries open_process users es
      else
        let pid = wrap_i32 (uint (we_pid e));
            p = zero_proc\<lparr>pc_pid := pid, pc_ns_pid := pid, pc_ppid := wrap_i32 (uint (we_ppid e)), pc_name := we_name e,
              pc_threads := wrap_i32 (uint (we_threads e)), pc_state := state_r, pc_exe := we_name e\<rparr>;
            (p1, users1) = enrich (open_process (wrap_u32 pid)) (p, users);
            p2 = (if pc_args p1 = [] then p1\<lparr>pc_args := [pc_exe p1]\<rparr> else p1)
        in p2 # win_entries open_process users1 es)"

definition collect_procs_windows :: "win_entry list option \<Rightarrow> (int \<Rightarrow> win_handle option) \<Rightarrow> proc list option" where
  "collect_procs_windows snap open_process = map_option (win_entries open_process []) snap"

definition windows_total_memory :: "u64 option \<Rightarrow> int" where
  "windows_total_memory status = (case status of None \<Rightarrow> 0 | Some phys \<Rightarrow> wrap_i64 (uint phys))"

definition darwin_total_memory :: "u64 option \<Rightarrow> int" where
  "darwin_total_memory memsize = (case memsize of None \<Rightarrow> 0 | Some n \<Rightarrow> wrap_i64 (uint n))"

text \<open>The systems without a collector report no process.\<close>

definition collect_procs_other :: "proc list option" where
  "collect_procs_other = Some []"

section \<open>Elapsed time read back\<close>

text \<open>A number of two digits, and the elapsed time of \<^verbatim>\<open>ps\<close>: days and hours only when there are any.\<close>

definition two_digits :: "nat \<Rightarrow> string" where
  "two_digits n = [digit_char (n div 10), digit_char (n mod 10)]"

definition fmt_etime :: "nat \<Rightarrow> string" where
  "fmt_etime secs =
     (let s = secs mod 60; m = secs div 60 mod 60; h = secs div 3600 mod 24; d = secs div 86400
      in (if 0 < d then fmt_nat d @ ''-'' else []) @ (if 0 < d \<or> 0 < h then two_digits h @ '':'' else [])
         @ two_digits m @ '':'' @ two_digits s)"

lemma digit_chars: "d < 10 \<Longrightarrow> is_digit_char (digit_char d)"
  by (simp add: is_digit_char_def byte_digit_char)

lemma two_digits_chars: "n < 100 \<Longrightarrow> c \<in> set (two_digits n) \<Longrightarrow> is_digit_char c"
  by (auto simp: two_digits_def intro!: digit_chars)

lemma ps_int_digits:
  assumes "n < 100"
  shows "ps_int (two_digits n) = int n"
proof -
  have d: "n div 10 < 10" "n mod 10 < 10" using assms by auto
  then have "digit_val (digit_char (n div 10)) = Some (int (n div 10))" "digit_val (digit_char (n mod 10)) = Some (int (n mod 10))"
    by (simp_all only: digit_val_digit_char)
  moreover have "digit_char (n div 10) \<noteq> CHR ''-'' \<and> digit_char (n div 10) \<noteq> CHR ''+''"
    using digit_not_sign [OF digit_chars [OF d(1)]] by simp
  moreover have "int (n div 10) * 10 + int (n mod 10) = int n"
    by (metis div_mult_mod_eq of_nat_add of_nat_mult of_nat_numeral)
  ultimately show ?thesis
    using d assms by (simp add: ps_int_def two_digits_def parse_int_def parse_uint_def)
qed

abbreviation etime_part :: "string \<Rightarrow> int \<Rightarrow> int" where
  "etime_part \<equiv> \<lambda>p n. wrap_i64 (wrap_i64 (n * 60) + ps_int p)"

lemma split_clock: "n < 100 \<Longrightarrow> split_on CHR '':'' (two_digits n @ CHR '':'' # b) = two_digits n # split_on CHR '':'' b"
  "n < 100 \<Longrightarrow> split_on CHR '':'' (two_digits n) = [two_digits n]"
  using two_digits_chars by (fastforce intro!: split_on_present split_on_absent simp: is_digit_char_def byte_def)+

lemma clock_minutes:
  assumes "m < 60" "s < 60"
  shows "fold etime_part (split_on CHR '':'' (two_digits m @ '':'' @ two_digits s)) 0 = int (m * 60 + s)"
  using assms by (simp add: split_clock ps_int_digits in_i64_def)

lemma clock_hours:
  assumes "h < 24" "m < 60" "s < 60"
  shows "fold etime_part (split_on CHR '':'' (two_digits h @ '':'' @ two_digits m @ '':'' @ two_digits s)) 0 = int (h * 3600 + m * 60 + s)"
  using assms by (simp add: split_clock ps_int_digits in_i64_def)

lemma ps_int_days: "d < 2 ^ 63 \<Longrightarrow> ps_int (fmt_nat d) = int d"
proof -
  assume "d < 2 ^ 63"
  then have "int d < 2 ^ 63" by (metis of_nat_less_iff of_nat_numeral of_nat_power)
  then show ?thesis using parse_int_fmt_int [of 64 "int d"] by (simp add: ps_int_def fmt_int_def)
qed

lemma no_dash: "n < 100 \<Longrightarrow> CHR ''-'' \<notin> set (two_digits n)"
  using two_digits_chars by (fastforce simp: is_digit_char_def byte_def)

text \<open>
  The elapsed time of \<^verbatim>\<open>ps\<close> is read back to the second, with days, with hours, and with neither.
\<close>

theorem etime_roundtrip:
  assumes "secs < 2 ^ 62"
  shows "ps_elapsed_seconds (fmt_etime secs) = int secs"
proof -
  define s m h d where "s = secs mod 60" and "m = secs div 60 mod 60" and "h = secs div 3600 mod 24" and "d = secs div 86400"
  have b: "s < 60" "m < 60" "h < 24" by (simp_all add: s_def m_def h_def)
  define q r where "q = secs div 60" and "r = secs div 3600"
  have "r = q div 60" "d = r div 24" by (simp_all add: q_def r_def d_def div_mult2_eq [symmetric])
  then have "secs = q * 60 + s" "q = r * 60 + m" "r = d * 24 + h"
    using div_mult_mod_eq [of secs 60] div_mult_mod_eq [of q 60] div_mult_mod_eq [of r 24]
    by (simp_all add: s_def m_def h_def q_def [symmetric] r_def [symmetric])
  then have whole: "secs = d * 86400 + (h * 3600 + m * 60 + s)" by simp
  have hms: "h * 3600 + m * 60 + s < 86400" using b by simp
  have int_secs: "int secs = int d * 86400 + int (h * 3600 + m * 60 + s)" using whole by linarith
  have "int secs < 2 ^ 62" using assms by (metis of_nat_less_iff of_nat_numeral of_nat_power)
  then have fits: "in_i64 (int d * 86400)" "in_i64 (int d * 86400 + int (h * 3600 + m * 60 + s))"
    using int_secs by (simp_all add: in_i64_def)
  have short: "in_i64 (int m * 60 + int s)" using b by (simp add: in_i64_def)
  have clean: "CHR ''-'' \<notin> set (two_digits m @ '':'' @ two_digits s)"
    "CHR ''-'' \<notin> set (two_digits h @ '':'' @ two_digits m @ '':'' @ two_digits s)"
    using b no_dash by simp_all
  show ?thesis
  proof (cases "0 < d")
    case True
    have "d < 2 ^ 63" using assms whole by simp
    moreover have "str_cut ''-'' (fmt_nat d @ CHR ''-'' # two_digits h @ '':'' @ two_digits m @ '':'' @ two_digits s)
        = (fmt_nat d, two_digits h @ '':'' @ two_digits m @ '':'' @ two_digits s, True)"
      by (rule cut_present) (simp add: digits_not is_digit_char_def byte_def)
    ultimately show ?thesis
      using True fits int_secs clock_hours [OF b(3,2,1)] hms
      by (simp add: ps_elapsed_seconds_def fmt_etime_def s_def [symmetric] m_def [symmetric] h_def [symmetric] d_def [symmetric] ps_int_days)
  next
    case False
    then show ?thesis
      using fits short int_secs clock_hours [OF b(3,2,1)] clock_minutes [OF b(2,1)] hms cut_absent [OF clean(1)] cut_absent [OF clean(2)]
      by (simp add: ps_elapsed_seconds_def fmt_etime_def s_def [symmetric] m_def [symmetric] h_def [symmetric] d_def [symmetric])
  qed
qed

theorem etime_roundtrip_witness: "ps_elapsed_seconds (fmt_etime 93784) = 93784"
  using etime_roundtrip [of 93784] by simp

end
