(* ===== verification/MetaFacts.thy ===== *)
theory MetaFacts
  imports HostLinux ProcPlan9
begin

text \<open>
  The host facts of \<^verbatim>\<open>internal/hostmeta\<close>: the block the backend calls gohai (\<^verbatim>\<open>hostmeta.go\<close>) and how
  each system fills it (\<^verbatim>\<open>gohai_linux.go\<close>, \<^verbatim>\<open>gohai_unix.go\<close>, \<^verbatim>\<open>gohai_fs_*.go\<close>, \<^verbatim>\<open>gohai_plan9.go\<close> with
  \<^verbatim>\<open>plan9meta.go\<close>, \<^verbatim>\<open>gohai_windows.go\<close>). What the files, the kernel's variables, the registry and the
  network package answer are arguments, and so are the constants of the Go runtime.
\<close>

section \<open>The facts\<close>

record go_runtime =
  rt_version :: string
  rt_os :: string
  rt_arch :: string
  rt_ncpu :: nat

record gohai_platform =
  gp_go_version :: string
  gp_go_os :: string
  gp_go_arch :: string
  gp_kernel_name :: string
  gp_kernel_release :: string
  gp_hostname :: string
  gp_machine :: string
  gp_os :: string
  gp_kernel_version :: string
  gp_processor :: string

record gohai_cpu =
  gc_vendor_id :: string
  gc_model_name :: string
  gc_cores :: u64
  gc_logical :: u64
  gc_mhz :: f64
  gc_family :: string
  gc_model :: string
  gc_stepping :: string

record gohai_memory =
  gm_bytes :: u64
  gm_swap_kb :: u64

record gohai_fs =
  gf_name :: string
  gf_size_kb :: u64
  gf_mounted_on :: string

record gohai_iface =
  gi_name :: string
  gi_mac :: string
  gi_ipv4 :: "string list"
  gi_ipv6 :: "string list"

record gohai_network =
  gn_mac :: string
  gn_ip :: string
  gn_ipv6 :: string
  gn_ifaces :: "gohai_iface list"

text \<open>A list of file systems that was never made is not an empty one.\<close>

record gohai =
  gh_cpu :: gohai_cpu
  gh_fs :: "gohai_fs list option"
  gh_memory :: gohai_memory
  gh_network :: gohai_network
  gh_platform :: gohai_platform

definition zero_gohai_cpu :: gohai_cpu where
  "zero_gohai_cpu = \<lparr>gc_vendor_id = [], gc_model_name = [], gc_cores = 0, gc_logical = 0, gc_mhz = Fin 0, gc_family = [],
     gc_model = [], gc_stepping = []\<rparr>"

section \<open>Network interfaces\<close>

text \<open>An address of an interface: its text, whether it is link-local, and its text as version 4 when it is one.\<close>

datatype net_addr = IpNet bool "string option" string | OtherAddr

record net_iface =
  ni_name :: string
  ni_mac :: string
  ni_loopback :: bool
  ni_addrs :: "net_addr list"

fun iface_addr :: "net_addr \<Rightarrow> gohai_network \<times> gohai_iface \<Rightarrow> gohai_network \<times> gohai_iface" where
  "iface_addr OtherAddr ng = ng"
| "iface_addr (IpNet link_local v4 text) (n, gi) =
     (if link_local then (n, gi)
      else case v4 of
          Some a \<Rightarrow>
            (if gn_ip n = [] then n\<lparr>gn_ip := a, gn_mac := gi_mac gi\<rparr> else n, gi\<lparr>gi_ipv4 := gi_ipv4 gi @ [a]\<rparr>)
        | None \<Rightarrow>
            (if gn_ipv6 n = [] then n\<lparr>gn_ipv6 := text\<rparr> else n, gi\<lparr>gi_ipv6 := gi_ipv6 gi @ [text]\<rparr>))"

definition add_iface :: "net_iface \<Rightarrow> gohai_network \<Rightarrow> gohai_network" where
  "add_iface ifc n =
     (if ni_loopback ifc then n
      else let (n', gi) = fold iface_addr (ni_addrs ifc) (n, \<lparr>gi_name = ni_name ifc, gi_mac = ni_mac ifc, gi_ipv4 = [], gi_ipv6 = []\<rparr>)
           in n'\<lparr>gn_ifaces := gn_ifaces n' @ [gi]\<rparr>)"

definition collect_network :: "net_iface list option \<Rightarrow> gohai_network" where
  "collect_network ifaces =
     fold add_iface (case ifaces of None \<Rightarrow> [] | Some ifs \<Rightarrow> ifs) \<lparr>gn_mac = [], gn_ip = [], gn_ipv6 = [], gn_ifaces = []\<rparr>"

section \<open>Linux\<close>

definition linux_machine :: "string \<Rightarrow> string" where
  "linux_machine arch =
     (case map_of [(''amd64'', ''x86_64''), (''arm64'', ''aarch64''), (''386'', ''i686''), (''arm'', ''armv7l'')] arch of
        Some m \<Rightarrow> m | None \<Rightarrow> arch)"

definition kernel_text :: "linux_kernel \<Rightarrow> string \<Rightarrow> string" where
  "kernel_text k name = (case lk_proc k (''sys/kernel/'' @ name) of Some b \<Rightarrow> trim_space b | None \<Rightarrow> [])"

definition platform_linux :: "go_runtime \<Rightarrow> linux_kernel \<Rightarrow> string \<Rightarrow> gohai_platform" where
  "platform_linux rt k host =
     (let machine = linux_machine (rt_arch rt)
      in \<lparr>gp_go_version = rt_version rt, gp_go_os = rt_os rt, gp_go_arch = rt_arch rt, gp_kernel_name = kernel_text k ''ostype'',
          gp_kernel_release = kernel_text k ''osrelease'', gp_hostname = host, gp_machine = machine, gp_os = ''GNU/Linux'',
          gp_kernel_version = kernel_text k ''version'', gp_processor = machine\<rparr>)"

record cpu_scan =
  cs_cpu :: gohai_cpu
  cs_logical :: nat
  cs_cores :: "string list"
  cs_phys :: string
  cs_core :: string

definition set_once :: "string \<Rightarrow> string \<Rightarrow> string" where
  "set_once dst val = (if dst = [] then val else dst)"

definition close_block :: "cpu_scan \<Rightarrow> cpu_scan" where
  "close_block s =
     (if cs_phys s \<noteq> [] \<or> cs_core s \<noteq> [] then s\<lparr>cs_cores := List.insert (cs_phys s @ ''/'' @ cs_core s) (cs_cores s)\<rparr> else s)"

definition cpu_field :: "string \<Rightarrow> string \<Rightarrow> cpu_scan \<Rightarrow> cpu_scan" where
  "cpu_field key val s =
     (let c = cs_cpu s in
      if key = ''processor'' then s\<lparr>cs_logical := cs_logical s + 1\<rparr>
      else if key = ''vendor_id'' then s\<lparr>cs_cpu := c\<lparr>gc_vendor_id := set_once (gc_vendor_id c) val\<rparr>\<rparr>
      else if key = ''model name'' then s\<lparr>cs_cpu := c\<lparr>gc_model_name := set_once (gc_model_name c) val\<rparr>\<rparr>
      else if key = ''cpu family'' then s\<lparr>cs_cpu := c\<lparr>gc_family := set_once (gc_family c) val\<rparr>\<rparr>
      else if key = ''model'' then s\<lparr>cs_cpu := c\<lparr>gc_model := set_once (gc_model c) val\<rparr>\<rparr>
      else if key = ''stepping'' then s\<lparr>cs_cpu := c\<lparr>gc_stepping := set_once (gc_stepping c) val\<rparr>\<rparr>
      else if key = ''cpu MHz'' then (if feq (gc_mhz c) (Fin 0) then s\<lparr>cs_cpu := c\<lparr>gc_mhz := float_or_zero val\<rparr>\<rparr> else s)
      else if key = ''physical id'' then s\<lparr>cs_phys := val\<rparr>
      else if key = ''core id'' then s\<lparr>cs_core := val\<rparr>
      else s)"

definition cpuinfo_line :: "string \<Rightarrow> cpu_scan \<Rightarrow> cpu_scan" where
  "cpuinfo_line line s =
     (case str_cut '':'' line of (key, val, ok) \<Rightarrow>
        if ok then cpu_field (trim_space key) (trim_space val) s
        else (close_block s)\<lparr>cs_phys := [], cs_core := []\<rparr>)"

definition cpu_of_scan :: "cpu_scan \<Rightarrow> gohai_cpu" where
  "cpu_of_scan s0 =
     (let s = close_block s0; n = length (cs_cores s)
      in (cs_cpu s)\<lparr>gc_logical := of_nat (cs_logical s), gc_cores := of_nat (if 0 < n then n else cs_logical s)\<rparr>)"

definition cpu_start :: cpu_scan where
  "cpu_start = \<lparr>cs_cpu = zero_gohai_cpu, cs_logical = 0, cs_cores = [], cs_phys = [], cs_core = []\<rparr>"

definition gohai_cpu_linux :: "linux_kernel \<Rightarrow> gohai_cpu" where
  "gohai_cpu_linux k =
     (case lk_proc k ''cpuinfo'' of
        None \<Rightarrow> zero_gohai_cpu
      | Some data \<Rightarrow> cpu_of_scan (fold cpuinfo_line (scan_lines data) cpu_start))"

definition gohai_meminfo_line :: "string \<Rightarrow> u64 gomap \<Rightarrow> u64 gomap" where
  "gohai_meminfo_line line m =
     (let f = str_fields line in
      if length f < 2 then m
      else case parse_uint 10 64 (f ! 1) of
          Parsed v \<Rightarrow> AList.update (trim_suffix '':'' (f ! 0)) (word_of_int v) m
        | _ \<Rightarrow> m)"

definition gohai_memory_linux :: "linux_kernel \<Rightarrow> gohai_memory" where
  "gohai_memory_linux k =
     (case lk_proc k ''meminfo'' of
        None \<Rightarrow> \<lparr>gm_bytes = 0, gm_swap_kb = 0\<rparr>
      | Some data \<Rightarrow>
          let kb = (\<lambda>key. case map_of (fold gohai_meminfo_line (scan_lines data) []) key of Some v \<Rightarrow> v | None \<Rightarrow> 0)
          in \<lparr>gm_bytes = kb ''MemTotal'' * 1024, gm_swap_kb = kb ''SwapTotal''\<rparr>)"

text \<open>This package's own copies of the set of pseudo file systems and of the octal escapes.\<close>

definition gohai_pseudo_fs :: "string list" where
  "gohai_pseudo_fs = [''autofs'', ''binfmt_misc'', ''bpf'', ''cgroup'', ''cgroup2'', ''configfs'', ''debugfs'', ''devpts'',
     ''devtmpfs'', ''fusectl'', ''hugetlbfs'', ''iso9660'', ''mqueue'', ''nsfs'', ''overlay'', ''proc'', ''pstore'', ''ramfs'',
     ''securityfs'', ''squashfs'', ''sysfs'', ''tmpfs'', ''tracefs'']"

definition gohai_octal :: "char \<Rightarrow> char \<Rightarrow> char \<Rightarrow> char option" where
  "gohai_octal a b c =
     (if list_ex (\<lambda>d. byte d < 48 \<or> 55 < byte d) [a, b, c] then None
      else Some (char_of ((64 * (byte a - 48) + 8 * (byte b - 48) + (byte c - 48)) mod 256)))"

text \<open>The loop with its index: four characters from a backslash at most, and what was written so far.\<close>

function unescape_loop :: "string \<Rightarrow> nat \<Rightarrow> string \<Rightarrow> string" where
  "unescape_loop s i out =
     (if length s \<le> i then out
      else case (if s ! i = CHR 0x5C \<and> i + 3 < length s then gohai_octal (s ! (i + 1)) (s ! (i + 2)) (s ! (i + 3)) else None) of
          Some c \<Rightarrow> unescape_loop s (i + 4) (out @ [c])
        | None \<Rightarrow> unescape_loop s (i + 1) (out @ [s ! i]))"
  by pat_completeness auto
termination
  by (relation "measure (\<lambda>(s, i, out). length s - i)") auto

declare unescape_loop.simps [simp del]

definition gohai_unescape :: "string \<Rightarrow> string" where
  "gohai_unescape s = (if CHR 0x5C \<in> set s then unescape_loop s 0 [] else s)"

fun gohai_mounts :: "linux_kernel \<Rightarrow> string list \<Rightarrow> string list \<Rightarrow> gohai_fs list" where
  "gohai_mounts k seen [] = []"
| "gohai_mounts k seen (line # ls) =
     (case str_fields line of
        f0 # f1 # f2 # fs \<Rightarrow>
          let dev = gohai_unescape f0; mount = gohai_unescape f1 in
          if f2 \<in> set gohai_pseudo_fs \<or> dev \<in> set seen then gohai_mounts k seen ls
          else (case lk_statfs k mount of
                  None \<Rightarrow> gohai_mounts k seen ls
                | Some s \<Rightarrow>
                    if ls_blocks s = 0 then gohai_mounts k seen ls
                    else \<lparr>gf_name = dev, gf_size_kb = ls_blocks s * word_of_int (ls_bsize s) div 1024, gf_mounted_on = mount\<rparr>
                           # gohai_mounts k (dev # seen) ls)
      | _ \<Rightarrow> gohai_mounts k seen ls)"

definition gohai_fs_linux :: "linux_kernel \<Rightarrow> gohai_fs list option" where
  "gohai_fs_linux k = map_option (\<lambda>data. gohai_mounts k [] (scan_lines data)) (lk_proc k ''mounts'')"

definition gohai_linux :: "go_runtime \<Rightarrow> linux_kernel \<Rightarrow> net_iface list option \<Rightarrow> string \<Rightarrow> gohai" where
  "gohai_linux rt k ifaces host =
     \<lparr>gh_cpu = gohai_cpu_linux k, gh_fs = gohai_fs_linux k, gh_memory = gohai_memory_linux k, gh_network = collect_network ifaces,
      gh_platform = platform_linux rt k host\<rparr>"

definition trim_quotes :: "string \<Rightarrow> string" where
  "trim_quotes v = trim_right_of [CHR 0x22] (dropWhile (\<lambda>c. c = CHR 0x22) v)"

definition os_release_line :: "string \<Rightarrow> string \<times> string \<Rightarrow> string \<times> string" where
  "os_release_line line iv =
     (case str_cut ''='' line of (k, v, ok) \<Rightarrow>
        if \<not> ok then iv
        else if k = ''ID'' then (trim_quotes v, snd iv)
        else if k = ''VERSION_ID'' then (fst iv, trim_quotes v)
        else iv)"

definition os_release :: "string option \<Rightarrow> string \<times> string" where
  "os_release file = (case file of None \<Rightarrow> ([], []) | Some b \<Rightarrow> fold os_release_line (lines_of b) ([], []))"

section \<open>BSD and macOS\<close>

text \<open>The kernel's variables, as text and as bytes, and its table of mounts: how many there are, and the table itself.\<close>

record mnt_stat =
  mt_blocks :: u64
  mt_bsize :: u64
  mt_frsize :: u64
  mt_from :: string
  mt_on :: string

record unix_kernel =
  uk_text :: "string \<Rightarrow> string option"
  uk_raw :: "string \<Rightarrow> string option"
  uk_mount_count :: "nat option"
  uk_mounts :: "mnt_stat list option"

definition meta_sysctl_str :: "unix_kernel \<Rightarrow> string \<Rightarrow> string" where
  "meta_sysctl_str u name = (case uk_text u name of Some v \<Rightarrow> v | None \<Rightarrow> [])"

definition meta_sysctl_num :: "unix_kernel \<Rightarrow> string \<Rightarrow> u64" where
  "meta_sysctl_num u name =
     (case uk_raw u name of
        None \<Rightarrow> 0
      | Some b \<Rightarrow> if 8 \<le> length b then word_of_int (DevStat.le64 b 0) else if 4 \<le> length b then word_of_int (DevStat.le32 b 0) else 0)"

definition platform_unix :: "go_runtime \<Rightarrow> unix_kernel \<Rightarrow> string \<Rightarrow> gohai_platform" where
  "platform_unix rt u host =
     (let machine = (if meta_sysctl_str u ''hw.machine'' = [] then rt_arch rt else meta_sysctl_str u ''hw.machine'');
          os_name = meta_sysctl_str u ''kern.ostype''
      in \<lparr>gp_go_version = rt_version rt, gp_go_os = rt_os rt, gp_go_arch = rt_arch rt, gp_kernel_name = meta_sysctl_str u ''kern.ostype'',
          gp_kernel_release = meta_sysctl_str u ''kern.osrelease'', gp_hostname = host, gp_machine = machine, gp_os = os_name,
          gp_kernel_version = meta_sysctl_str u ''kern.version'', gp_processor = machine\<rparr>)"

definition positive_or :: "u64 \<Rightarrow> u64 \<Rightarrow> u64" where
  "positive_or n d = (if 0 < n then n else d)"

definition unix_cpu :: "string \<Rightarrow> unix_kernel \<Rightarrow> string \<times> u64 \<times> u64 \<times> f64" where
  "unix_cpu goos u =
     (let ncpu = meta_sysctl_num u ''hw.ncpu''; num = meta_sysctl_num u; model = meta_sysctl_str u ''hw.model'' in
      if goos = ''darwin'' then
        (meta_sysctl_str u ''machdep.cpu.brand_string'', positive_or (num ''hw.physicalcpu'') ncpu, positive_or (num ''hw.logicalcpu'') ncpu,
         if 0 < num ''hw.cpufrequency'' then fdiv (f64_of_u64 (num ''hw.cpufrequency'')) (Fin 1000000) else Fin 0)
      else if goos = ''freebsd'' \<or> goos = ''dragonfly'' then (model, ncpu, ncpu, f64_of_u64 (num ''hw.clockrate''))
      else if goos = ''openbsd'' then (model, ncpu, ncpu, f64_of_u64 (num ''hw.cpuspeed''))
      else (model, ncpu, ncpu, Fin 0))"

definition unix_mem_total :: "string \<Rightarrow> unix_kernel \<Rightarrow> u64" where
  "unix_mem_total goos u =
     (let num = meta_sysctl_num u in
      if goos = ''darwin'' then num ''hw.memsize''
      else if goos = ''freebsd'' \<or> goos = ''dragonfly'' then num ''hw.physmem''
      else if goos = ''openbsd'' then (if num ''hw.physmem64'' \<noteq> 0 then num ''hw.physmem64'' else num ''hw.physmem'')
      else num ''hw.physmem64'')"

text \<open>
  The buffer the table is read into has as many places as were counted: what the table lacks
  of them stays zero, what it has more of is cut off.
\<close>

definition zero_mnt :: mnt_stat where
  "zero_mnt = \<lparr>mt_blocks = 0, mt_bsize = 0, mt_frsize = 0, mt_from = [], mt_on = []\<rparr>"

definition mnt_table :: "unix_kernel \<Rightarrow> mnt_stat list" where
  "mnt_table u =
     (case uk_mount_count u of
        None \<Rightarrow> []
      | Some n \<Rightarrow> if n = 0 then [] else (case uk_mounts u of None \<Rightarrow> [] | Some ms \<Rightarrow> take n (ms @ replicate n zero_mnt)))"

definition mnt_fs :: "(mnt_stat \<Rightarrow> u64) \<Rightarrow> mnt_stat \<Rightarrow> gohai_fs option" where
  "mnt_fs unit st =
     (if mt_blocks st = 0 then None
      else Some \<lparr>gf_name = trim_nul (mt_from st), gf_size_kb = mt_blocks st * unit st div 1024, gf_mounted_on = trim_nul (mt_on st)\<rparr>)"

definition fs_bsd :: "unix_kernel \<Rightarrow> gohai_fs list" where
  "fs_bsd u = List.map_filter (mnt_fs mt_bsize) (mnt_table u)"

definition fs_openbsd :: "unix_kernel \<Rightarrow> gohai_fs list" where
  "fs_openbsd u = List.map_filter (mnt_fs mt_bsize) (mnt_table u)"

definition frag_unit :: "mnt_stat \<Rightarrow> u64" where
  "frag_unit st = (if mt_frsize st = 0 then mt_bsize st else mt_frsize st)"

definition fs_netbsd :: "unix_kernel \<Rightarrow> gohai_fs list" where
  "fs_netbsd u = List.map_filter (mnt_fs frag_unit) (mnt_table u)"

definition unix_filesystem :: "string \<Rightarrow> unix_kernel \<Rightarrow> gohai_fs list" where
  "unix_filesystem goos u =
     (if goos = ''openbsd'' then fs_openbsd u else if goos = ''netbsd'' then fs_netbsd u else fs_bsd u)"

definition gohai_unix :: "go_runtime \<Rightarrow> unix_kernel \<Rightarrow> net_iface list option \<Rightarrow> string \<Rightarrow> gohai" where
  "gohai_unix rt u ifaces host =
     (case unix_cpu (rt_os rt) u of (model, cores, logical, mhz) \<Rightarrow>
        \<lparr>gh_cpu = zero_gohai_cpu\<lparr>gc_model_name := model, gc_cores := cores, gc_logical := logical, gc_mhz := mhz\<rparr>,
         gh_fs = Some (unix_filesystem (rt_os rt) u), gh_memory = \<lparr>gm_bytes = unix_mem_total (rt_os rt) u, gm_swap_kb = 0\<rparr>,
         gh_network = collect_network ifaces, gh_platform = platform_unix rt u host\<rparr>)"

section \<open>Plan 9\<close>

definition read_dev :: "(string \<Rightarrow> string option) \<Rightarrow> string \<Rightarrow> string" where
  "read_dev fs path = (case fs path of Some b \<Rightarrow> b | None \<Rightarrow> [])"

definition parse_cputype :: "string \<Rightarrow> string \<times> f64" where
  "parse_cputype data =
     (let f = str_fields data in
      if f = [] then ([], Fin 0)
      else case (if 2 \<le> length f then ok_val (parse_float (last f)) else None) of
          Some v \<Rightarrow> (join_with '' '' (butlast f), v)
        | None \<Rightarrow> (join_with '' '' f, Fin 0))"

fun swap_memory_lines :: "string list \<Rightarrow> u64" where
  "swap_memory_lines [] = 0"
| "swap_memory_lines (line # ls) =
     (let f = str_fields line in
      if length f = 2 \<and> f ! 1 = ''memory'' then word_of_int (res_val 0 (parse_uint 10 64 (f ! 0))) else swap_memory_lines ls)"

definition gohai_plan9_mem_total :: "string \<Rightarrow> u64" where
  "gohai_plan9_mem_total data = swap_memory_lines (lines_of data)"

definition cpu_row :: "string \<Rightarrow> bool" where
  "cpu_row line = (let f = str_fields line in 10 \<le> length f \<and> ok_val (atoi (f ! 0)) \<noteq> None)"

definition count_plan9_cpus :: "string \<Rightarrow> nat" where
  "count_plan9_cpus data = length (filter cpu_row (lines_of data))"

definition plan9_version :: "(string \<Rightarrow> string option) \<Rightarrow> string" where
  "plan9_version fs = (let v = trim_space (read_dev fs ''/dev/osversion'') in if v \<noteq> [] then v else ''9legacy'')"

definition platform_plan9 :: "go_runtime \<Rightarrow> (string \<Rightarrow> string option) \<Rightarrow> string \<Rightarrow> string \<Rightarrow> gohai_platform" where
  "platform_plan9 rt fs host model =
     \<lparr>gp_go_version = rt_version rt, gp_go_os = rt_os rt, gp_go_arch = rt_arch rt, gp_kernel_name = ''Plan 9'',
      gp_kernel_release = plan9_version fs, gp_hostname = host, gp_machine = rt_arch rt, gp_os = ''plan9'', gp_kernel_version = [],
      gp_processor = model\<rparr>"

definition gohai_plan9 :: "go_runtime \<Rightarrow> (string \<Rightarrow> string option) \<Rightarrow> net_iface list option \<Rightarrow> string \<Rightarrow> gohai" where
  "gohai_plan9 rt fs ifaces host =
     (case parse_cputype (read_dev fs ''/dev/cputype'') of (model, mhz) \<Rightarrow>
        let ncpu = of_nat (count_plan9_cpus (read_dev fs ''/dev/sysstat'')) in
        \<lparr>gh_cpu = zero_gohai_cpu\<lparr>gc_model_name := model, gc_cores := ncpu, gc_logical := ncpu, gc_mhz := mhz\<rparr>, gh_fs = Some [],
         gh_memory = \<lparr>gm_bytes = gohai_plan9_mem_total (read_dev fs ''/dev/swap''), gm_swap_kb = 0\<rparr>,
         gh_network = collect_network ifaces, gh_platform = platform_plan9 rt fs host model\<rparr>)"

section \<open>Windows\<close>

text \<open>The registry: what a value of a key answers, where both can be opened.\<close>

type_synonym win_registry = "string \<Rightarrow> string \<Rightarrow> string option"

definition reg_string :: "win_registry \<Rightarrow> string \<Rightarrow> string \<Rightarrow> string" where
  "reg_string reg path name = (case reg path name of Some v \<Rightarrow> v | None \<Rightarrow> [])"

definition nt_key :: string where
  "nt_key = ''SOFTWARE'' @ [CHR 0x5C] @ ''Microsoft'' @ [CHR 0x5C] @ ''Windows NT'' @ [CHR 0x5C] @ ''CurrentVersion''"

definition win_product_name :: "win_registry \<Rightarrow> string" where
  "win_product_name reg = reg_string reg nt_key ''ProductName''"

definition win_build :: "win_registry \<Rightarrow> string" where
  "win_build reg = reg_string reg nt_key ''CurrentBuild''"

definition win_cpu_model :: "win_registry \<Rightarrow> string" where
  "win_cpu_model reg =
     reg_string reg (''HARDWARE'' @ [CHR 0x5C] @ ''DESCRIPTION'' @ [CHR 0x5C] @ ''System'' @ [CHR 0x5C] @ ''CentralProcessor'' @ [CHR 0x5C] @ ''0'')
       ''ProcessorNameString''"

definition gohai_windows :: "go_runtime \<Rightarrow> win_registry \<Rightarrow> u64 option \<Rightarrow> net_iface list option \<Rightarrow> string \<Rightarrow> gohai" where
  "gohai_windows rt reg phys ifaces host =
     \<lparr>gh_cpu = zero_gohai_cpu\<lparr>gc_model_name := win_cpu_model reg, gc_cores := of_nat (rt_ncpu rt), gc_logical := of_nat (rt_ncpu rt)\<rparr>,
      gh_fs = Some [], gh_memory = \<lparr>gm_bytes = (case phys of Some n \<Rightarrow> n | None \<Rightarrow> 0), gm_swap_kb = 0\<rparr>,
      gh_network = collect_network ifaces,
      gh_platform = \<lparr>gp_go_version = rt_version rt, gp_go_os = rt_os rt, gp_go_arch = rt_arch rt, gp_kernel_name = ''Windows'',
        gp_kernel_release = win_build reg, gp_hostname = host, gp_machine = rt_arch rt, gp_os = win_product_name reg,
        gp_kernel_version = [], gp_processor = rt_arch rt\<rparr>\<rparr>"

text \<open>The systems without a collector (\<^verbatim>\<open>gohai_other.go\<close>).\<close>

definition gohai_other :: "go_runtime \<Rightarrow> net_iface list option \<Rightarrow> string \<Rightarrow> gohai" where
  "gohai_other rt ifaces host =
     \<lparr>gh_cpu = zero_gohai_cpu, gh_fs = Some [], gh_memory = \<lparr>gm_bytes = 0, gm_swap_kb = 0\<rparr>, gh_network = collect_network ifaces,
      gh_platform = \<lparr>gp_go_version = rt_version rt, gp_go_os = rt_os rt, gp_go_arch = rt_arch rt, gp_kernel_name = [],
        gp_kernel_release = [], gp_hostname = host, gp_machine = rt_arch rt, gp_os = rt_os rt, gp_kernel_version = [], gp_processor = []\<rparr>\<rparr>"

section \<open>The copies agree with their originals\<close>

lemma gohai_octal_is_octal: "gohai_octal = octal"
proof (intro ext)
  fix a b c
  have "list_ex (\<lambda>d. byte d < 48 \<or> 55 < byte d) [a, b, c] \<longleftrightarrow> \<not> (octal_digit a \<and> octal_digit b \<and> octal_digit c)"
    by (auto simp: octal_digit_def)
  then show "gohai_octal a b c = octal a b c" by (simp only: gohai_octal_def octal_def) simp
qed

lemma unescape_Nil: "unescape [] = []"
  by (subst unescape.simps) simp

lemma unescape_short: "length r < 3 \<Longrightarrow> unescape (c # r) = c # unescape r"
  by (subst unescape.simps) (auto split: list.split)

lemma unescape_absent: "CHR 0x5C \<notin> set s \<Longrightarrow> unescape s = s"
proof (induction s)
  case (Cons c s)
  then show ?case using unescape_plain [of c s] by auto
qed (rule unescape_Nil)

lemma unescape_loop_rest: "unescape_loop s i out = out @ unescape (drop i s)"
proof (induction s i out rule: unescape_loop.induct)
  case (1 s i out)
  show ?case
  proof (cases "length s \<le> i")
    case True
    then show ?thesis by (subst unescape_loop.simps) (simp add: unescape_Nil)
  next
    case here: False
    then have d: "drop i s = s ! i # drop (i + 1) s" by (simp add: Cons_nth_drop_Suc)
    show ?thesis
    proof (cases "i + 3 < length s")
      case True
      then have "drop (i + 1) s = s ! (i + 1) # s ! (i + 2) # s ! (i + 3) # drop (i + 4) s"
        by (simp add: Cons_nth_drop_Suc eval_nat_numeral)
      with d show ?thesis
        using here True 1
        by (subst unescape_loop.simps, subst unescape.simps) (auto simp: gohai_octal_is_octal split: option.split)
    next
      case False
      then have "length (drop (i + 1) s) < 3" by simp
      then have "unescape (drop i s) = s ! i # unescape (drop (i + 1) s)"
        unfolding d by (rule unescape_short)
      with here False 1 show ?thesis by (subst unescape_loop.simps) simp
    qed
  qed
qed

lemma gohai_unescape_is_unescape: "gohai_unescape s = unescape s"
  by (simp add: gohai_unescape_def unescape_loop_rest unescape_absent)

lemma gohai_pseudo_fs_in_sync: "gohai_pseudo_fs = pseudo_fs"
  by (simp add: gohai_pseudo_fs_def pseudo_fs_def)

lemma gohai_mounts_same:
  "\<exists>firsts. gohai_mounts k seen lines
      = map (\<lambda>(dev, mount, s). \<lparr>gf_name = dev, gf_size_kb = ls_blocks s * word_of_int (ls_bsize s) div 1024, gf_mounted_on = mount\<rparr>) firsts
    \<and> mount_lines k now seen lines = concat (map (\<lambda>(dev, mount, s). fs_gauges now dev s) firsts)
    \<and> distinct (map fst firsts) \<and> set (map fst firsts) \<inter> set seen = {}"
proof (induction lines arbitrary: seen)
  case (Cons line ls)
  have skip: ?case if "gohai_mounts k seen (line # ls) = gohai_mounts k seen ls" "mount_lines k now seen (line # ls) = mount_lines k now seen ls"
    using Cons [of seen] that by presburger
  show ?case
  proof (cases "\<exists>f0 f1 f2 fs s. str_fields line = f0 # f1 # f2 # fs \<and> f2 \<notin> set pseudo_fs \<and> unescape f0 \<notin> set seen
      \<and> lk_statfs k (unescape f1) = Some s \<and> ls_blocks s \<noteq> 0")
    case True
    then obtain f0 f1 f2 fs s where f: "str_fields line = f0 # f1 # f2 # fs" "f2 \<notin> set pseudo_fs" "unescape f0 \<notin> set seen"
      "lk_statfs k (unescape f1) = Some s" "ls_blocks s \<noteq> 0" by blast
    obtain firsts where fi: "gohai_mounts k (unescape f0 # seen) ls
        = map (\<lambda>(dev, mount, s). \<lparr>gf_name = dev, gf_size_kb = ls_blocks s * word_of_int (ls_bsize s) div 1024, gf_mounted_on = mount\<rparr>) firsts"
      "mount_lines k now (unescape f0 # seen) ls = concat (map (\<lambda>(dev, mount, s). fs_gauges now dev s) firsts)"
      "distinct (map fst firsts)" "set (map fst firsts) \<inter> set (unescape f0 # seen) = {}"
      using Cons [of "unescape f0 # seen"] by blast
    show ?thesis
      by (rule exI [of _ "(unescape f0, unescape f1, s) # firsts"])
        (use f fi in \<open>auto simp: gohai_unescape_is_unescape gohai_pseudo_fs_in_sync Let_def\<close>)
  next
    case False
    show ?thesis
      by (rule skip; use False in \<open>force simp: gohai_unescape_is_unescape gohai_pseudo_fs_in_sync Let_def split: list.split option.split\<close>)
  qed
qed simp

text \<open>
  C28. The host's inventory and its disk metrics, which keep their own copies of the octal escapes
  and of the set of pseudo file systems, name the same devices: each line of the mount table is
  in both or in neither, each device once, with the same figures.
\<close>

theorem inventory_lists_metric_disks:
  "\<exists>firsts. gohai_mounts k [] lines
      = map (\<lambda>(dev, mount, s). \<lparr>gf_name = dev, gf_size_kb = ls_blocks s * word_of_int (ls_bsize s) div 1024, gf_mounted_on = mount\<rparr>) firsts
    \<and> mount_lines k now [] lines = concat (map (\<lambda>(dev, mount, s). fs_gauges now dev s) firsts)
    \<and> distinct (map fst firsts)"
  using gohai_mounts_same [of k "[]" lines now] by auto

lemma swap_memory_is_mem_total: "gohai_plan9_mem_total data = parse_plan9_mem_total data"
proof -
  have "swap_memory_lines ls = mem_total_lines ls" for ls
    by (induction ls) (simp_all add: Let_def atou_def)
  then show ?thesis by (simp add: gohai_plan9_mem_total_def parse_plan9_mem_total_def)
qed

section \<open>Processor types of Plan 9\<close>

text \<open>The processor of a Plan 9 host is read back, however many words its name has.\<close>

theorem cputype_roundtrip:
  assumes "ws \<noteq> []" "list_all (\<lambda>w. list_all plain w \<and> w \<noteq> []) ws" "mhz \<le> 2 ^ 53"
  shows "parse_cputype (join_with '' '' (ws @ [fmt_nat mhz])) = (join_with '' '' ws, Fin (of_nat mhz))"
proof -
  have "fmt_nat mhz \<noteq> []" by simp
  then have "str_fields (join_with '' '' (ws @ [fmt_nat mhz])) = ws @ [fmt_nat mhz]"
    using assms(2) plain_digits by (intro str_fields_joined) (simp add: list_all_iff)
  moreover have "2 \<le> length (ws @ [fmt_nat mhz])" using assms(1) by (cases ws) simp_all
  ultimately show ?thesis using assms(1,3) by (simp add: parse_cputype_def parse_float_fmt_nat)
qed

theorem cputype_roundtrip_witness: "parse_cputype ''AMD Geode GX1 333'' = (''AMD Geode GX1'', Fin 333)"
proof -
  have "list_all (\<lambda>w. list_all plain w \<and> w \<noteq> []) [''AMD'', ''Geode'', ''GX1'']" by code_simp
  moreover have "fmt_nat 333 = ''333''" by code_simp
  ultimately show ?thesis using cputype_roundtrip [of "[''AMD'', ''Geode'', ''GX1'']" 333] by simp
qed

section \<open>Addresses of the host\<close>

definition addrs_v4 :: "net_addr list \<Rightarrow> string list" where
  "addrs_v4 addrs = List.map_filter (\<lambda>a. case a of IpNet False (Some v4) t \<Rightarrow> Some v4 | _ \<Rightarrow> None) addrs"

definition addrs_v6 :: "net_addr list \<Rightarrow> string list" where
  "addrs_v6 addrs = List.map_filter (\<lambda>a. case a of IpNet False None t \<Rightarrow> Some t | _ \<Rightarrow> None) addrs"

definition iface_facts :: "net_iface \<Rightarrow> gohai_iface" where
  "iface_facts ifc = \<lparr>gi_name = ni_name ifc, gi_mac = ni_mac ifc, gi_ipv4 = addrs_v4 (ni_addrs ifc), gi_ipv6 = addrs_v6 (ni_addrs ifc)\<rparr>"

definition first_or :: "'a \<Rightarrow> 'a list \<Rightarrow> 'a" where
  "first_or d xs = (case xs of [] \<Rightarrow> d | x # _ \<Rightarrow> x)"

definition addr_texts_ok :: "net_addr \<Rightarrow> bool" where
  "addr_texts_ok a = (case a of IpNet l (Some v4) t \<Rightarrow> v4 \<noteq> [] | IpNet l None t \<Rightarrow> t \<noteq> [] | OtherAddr \<Rightarrow> True)"

lemma first_or_append: "first_or d (xs @ ys) = first_or (first_or d ys) xs"
  by (cases xs) (simp_all add: first_or_def)

lemma iface_addrs_facts:
  assumes "list_all addr_texts_ok addrs"
  shows "fold iface_addr addrs (n, gi) =
    (n\<lparr>gn_ip := (if gn_ip n = [] then first_or [] (addrs_v4 addrs) else gn_ip n),
       gn_mac := (if gn_ip n = [] \<and> addrs_v4 addrs \<noteq> [] then gi_mac gi else gn_mac n),
       gn_ipv6 := (if gn_ipv6 n = [] then first_or [] (addrs_v6 addrs) else gn_ipv6 n)\<rparr>,
     gi\<lparr>gi_ipv4 := gi_ipv4 gi @ addrs_v4 addrs, gi_ipv6 := gi_ipv6 gi @ addrs_v6 addrs\<rparr>)"
  using assms
proof (induction addrs arbitrary: n gi)
  case Nil
  show ?case by (simp add: addrs_v4_def addrs_v6_def map_filter_simps first_or_def)
next
  case (Cons a addrs)
  then show ?case
  proof (cases a)
    case (IpNet l v4 t)
    with Cons show ?thesis
      by (cases l; cases v4) (simp_all add: addr_texts_ok_def addrs_v4_def addrs_v6_def map_filter_simps first_or_def)
  qed (simp add: addrs_v4_def addrs_v6_def map_filter_simps)
qed

lemma addr_texts: "list_all addr_texts_ok addrs \<Longrightarrow> [] \<notin> set (addrs_v4 addrs) \<and> [] \<notin> set (addrs_v6 addrs)"
proof (induction addrs)
  case (Cons a addrs)
  then show ?case
  proof (cases a)
    case (IpNet l v4 t)
    with Cons show ?thesis by (cases l; cases v4) (auto simp: addr_texts_ok_def addrs_v4_def addrs_v6_def map_filter_simps)
  qed (simp add: addrs_v4_def addrs_v6_def map_filter_simps)
qed (simp add: addrs_v4_def addrs_v6_def map_filter_simps)

definition iface_texts_ok :: "net_iface \<Rightarrow> bool" where
  "iface_texts_ok ifc \<longleftrightarrow> list_all addr_texts_ok (ni_addrs ifc)"

definition outward :: "net_iface list \<Rightarrow> gohai_iface list" where
  "outward ifs = map iface_facts (filter (\<lambda>i. \<not> ni_loopback i) ifs)"

lemma add_ifaces_facts:
  assumes "list_all iface_texts_ok ifs"
  shows "fold add_iface ifs n =
    \<lparr>gn_mac = (if gn_ip n = [] then first_or (gn_mac n) (map gi_mac (filter (\<lambda>g. gi_ipv4 g \<noteq> []) (outward ifs))) else gn_mac n),
     gn_ip = (if gn_ip n = [] then first_or [] (concat (map gi_ipv4 (outward ifs))) else gn_ip n),
     gn_ipv6 = (if gn_ipv6 n = [] then first_or [] (concat (map gi_ipv6 (outward ifs))) else gn_ipv6 n),
     gn_ifaces = gn_ifaces n @ outward ifs\<rparr>"
  using assms
proof (induction ifs arbitrary: n)
  case Nil
  show ?case by (simp add: outward_def first_or_def)
next
  case (Cons ifc ifs)
  have texts: "[] \<notin> set (addrs_v4 (ni_addrs ifc))" "[] \<notin> set (addrs_v6 (ni_addrs ifc))"
    using Cons.prems addr_texts by (simp_all add: iface_texts_ok_def)
  show ?case
  proof (cases "ni_loopback ifc")
    case True
    then show ?thesis using Cons by (simp add: add_iface_def outward_def)
  next
    case False
    with Cons.prems have "add_iface ifc n =
      n\<lparr>gn_ip := (if gn_ip n = [] then first_or [] (addrs_v4 (ni_addrs ifc)) else gn_ip n),
        gn_mac := (if gn_ip n = [] \<and> addrs_v4 (ni_addrs ifc) \<noteq> [] then ni_mac ifc else gn_mac n),
        gn_ipv6 := (if gn_ipv6 n = [] then first_or [] (addrs_v6 (ni_addrs ifc)) else gn_ipv6 n),
        gn_ifaces := gn_ifaces n @ [iface_facts ifc]\<rparr>"
      by (simp add: add_iface_def iface_addrs_facts iface_texts_ok_def iface_facts_def)
    moreover have "outward (ifc # ifs) = iface_facts ifc # outward ifs" using False by (simp add: outward_def)
    ultimately show ?thesis
      using Cons texts
      by (cases "addrs_v4 (ni_addrs ifc)"; cases "addrs_v6 (ni_addrs ifc)") (auto simp: iface_facts_def first_or_def)
  qed
qed

text \<open>
  The address the host is known by is the first one of an interface other than the loopback
  that is not link-local, with the hardware address of the interface it was found on, and the
  same for version 6; every such interface is listed, with all of its addresses in order.
\<close>

theorem host_address_is_first:
  assumes "list_all iface_texts_ok ifs"
  shows "collect_network (Some ifs) =
    \<lparr>gn_mac = first_or [] (map gi_mac (filter (\<lambda>g. gi_ipv4 g \<noteq> []) (outward ifs))), gn_ip = first_or [] (concat (map gi_ipv4 (outward ifs))),
     gn_ipv6 = first_or [] (concat (map gi_ipv6 (outward ifs))), gn_ifaces = outward ifs\<rparr>"
  using add_ifaces_facts [OF assms] by (simp add: collect_network_def)

theorem host_address_is_first_witness:
  "gn_ip (collect_network (Some [\<lparr>ni_name = ''lo'', ni_mac = [], ni_loopback = True, ni_addrs = [IpNet False (Some ''127.0.0.1'') ''127.0.0.1'']\<rparr>,
     \<lparr>ni_name = ''e0'', ni_mac = ''aa'', ni_loopback = False, ni_addrs = [IpNet True None ''fe80::1'', IpNet False (Some ''10.0.0.7'') ''10.0.0.7'']\<rparr>]))
   = ''10.0.0.7''"
  by (subst host_address_is_first)
    (simp_all add: iface_texts_ok_def addr_texts_ok_def outward_def iface_facts_def addrs_v4_def map_filter_simps first_or_def)

section \<open>Cores and logical processors\<close>

text \<open>
  The processor file: for each logical processor a block of \<open>key : value\<close> lines, and a blank
  line after it. A block names its physical package and its core within it.
\<close>

definition cpu_line_of :: "string \<times> string \<Rightarrow> string" where
  "cpu_line_of kv = fst kv @ [CHR 0x09] @ '': '' @ snd kv"

definition cpu_block :: "(string \<times> string) list \<Rightarrow> string list" where
  "cpu_block kvs = map cpu_line_of kvs @ [[]]"

definition core_of :: "(string \<times> string) list \<Rightarrow> string \<times> string" where
  "core_of kvs = (the (map_of kvs ''physical id''), the (map_of kvs ''core id''))"

definition cpu_block_ok :: "(string \<times> string) list \<Rightarrow> bool" where
  "cpu_block_ok kvs \<longleftrightarrow> distinct (map fst kvs) \<and> ''processor'' \<in> fst ` set kvs
     \<and> map_of kvs ''physical id'' \<notin> {None, Some []} \<and> map_of kvs ''core id'' \<noteq> None
     \<and> CHR ''/'' \<notin> set (fst (core_of kvs)) \<and> CHR ''/'' \<notin> set (snd (core_of kvs))
     \<and> list_all (\<lambda>(k, v). trimmed k \<and> trimmed v \<and> CHR '':'' \<notin> set k
         \<and> newline \<notin> set (k @ v) \<and> CHR 0x0D \<notin> set (k @ v) \<and> length (k @ v) < 60000) kvs"

lemma cpuinfo_line_field:
  assumes "trimmed k" "trimmed v" "CHR '':'' \<notin> set k"
  shows "cpuinfo_line (cpu_line_of (k, v)) s = cpu_field k v s"
proof -
  have "str_cut '':'' ((k @ [CHR 0x09]) @ CHR '':'' # CHR '' '' # v) = (k @ [CHR 0x09], CHR '' '' # v, True)"
    using assms(3) by (intro cut_present) simp
  moreover have "ascii_space CHR 0x09" by code_simp
  then have "trim_space (k @ [CHR 0x09]) = k" using trim_space_pad [of k "[]" "[CHR 0x09]"] assms(1) by simp
  moreover have "trim_space (CHR '' '' # v) = v" using trim_space_pad [of v "'' ''" "[]"] assms(2) by simp
  ultimately show ?thesis by (simp add: cpuinfo_line_def cpu_line_of_def)
qed

lemma cpu_field_scan:
  "cs_logical (cpu_field k v s) = cs_logical s + (if k = ''processor'' then 1 else 0)"
  "cs_cores (cpu_field k v s) = cs_cores s"
  "cs_phys (cpu_field k v s) = (if k = ''physical id'' then v else cs_phys s)"
  "cs_core (cpu_field k v s) = (if k = ''core id'' then v else cs_core s)"
  by (simp_all add: cpu_field_def Let_def)

definition plain_fields :: "(string \<times> string) list \<Rightarrow> bool" where
  "plain_fields kvs \<longleftrightarrow> list_all (\<lambda>(k, v). trimmed k \<and> trimmed v \<and> CHR '':'' \<notin> set k) kvs"

lemma fields_fold: "plain_fields kvs \<Longrightarrow> fold cpuinfo_line (map cpu_line_of kvs) s = fold (\<lambda>(k, v). cpu_field k v) kvs s"
proof (induction kvs arbitrary: s)
  case (Cons kv kvs)
  then show ?case by (cases kv) (simp add: plain_fields_def cpuinfo_line_field)
qed simp

lemma fields_cores: "cs_cores (fold (\<lambda>(k, v). cpu_field k v) kvs s) = cs_cores s"
  by (induction kvs arbitrary: s) (simp_all add: case_prod_beta cpu_field_scan)

lemma fields_logical:
  "cs_logical (fold (\<lambda>(k, v). cpu_field k v) kvs s) = cs_logical s + length (filter (\<lambda>k. k = ''processor'') (map fst kvs))"
  by (induction kvs arbitrary: s) (simp_all add: case_prod_beta cpu_field_scan)

lemma fields_phys:
  "distinct (map fst kvs) \<Longrightarrow>
    cs_phys (fold (\<lambda>(k, v). cpu_field k v) kvs s) = (case map_of kvs ''physical id'' of Some v \<Rightarrow> v | None \<Rightarrow> cs_phys s)"
proof (induction kvs arbitrary: s)
  case (Cons kv kvs)
  then have "map_of kvs (fst kv) = None" by (simp add: map_of_eq_None_iff)
  with Cons show ?case by (cases "fst kv = ''physical id''") (simp_all add: case_prod_beta cpu_field_scan split: option.split)
qed simp

lemma fields_core:
  "distinct (map fst kvs) \<Longrightarrow>
    cs_core (fold (\<lambda>(k, v). cpu_field k v) kvs s) = (case map_of kvs ''core id'' of Some v \<Rightarrow> v | None \<Rightarrow> cs_core s)"
proof (induction kvs arbitrary: s)
  case (Cons kv kvs)
  then have "map_of kvs (fst kv) = None" by (simp add: map_of_eq_None_iff)
  with Cons show ?case by (cases "fst kv = ''core id''") (simp_all add: case_prod_beta cpu_field_scan split: option.split)
qed simp

lemma filter_one: "distinct xs \<Longrightarrow> x \<in> set xs \<Longrightarrow> length (filter (\<lambda>y. y = x) xs) = 1"
  by (induction xs) (auto simp: filter_empty_conv)

lemma cpuinfo_blank: "cpuinfo_line [] s = (close_block s)\<lparr>cs_phys := [], cs_core := []\<rparr>"
  by (simp add: cpuinfo_line_def cut_absent)

definition core_key :: "string \<times> string \<Rightarrow> string" where
  "core_key pc = fst pc @ ''/'' @ snd pc"

lemma cpu_block_scan:
  assumes "cpu_block_ok kvs"
  shows "let t = fold cpuinfo_line (cpu_block kvs) s in
    cs_logical t = cs_logical s + 1 \<and> cs_cores t = List.insert (core_key (core_of kvs)) (cs_cores s) \<and> cs_phys t = [] \<and> cs_core t = []"
proof -
  define t where "t = fold cpuinfo_line (map cpu_line_of kvs) s"
  have "plain_fields kvs" "distinct (map fst kvs)" "''processor'' \<in> set (map fst kvs)"
    using assms by (auto simp: cpu_block_ok_def list_all_iff plain_fields_def)
  then have "cs_logical t = cs_logical s + 1" "cs_cores t = cs_cores s"
    "cs_phys t = (case map_of kvs ''physical id'' of Some v \<Rightarrow> v | None \<Rightarrow> cs_phys s)"
    "cs_core t = (case map_of kvs ''core id'' of Some v \<Rightarrow> v | None \<Rightarrow> cs_core s)"
    unfolding t_def by (simp_all only: fields_fold fields_cores fields_logical fields_phys fields_core filter_one)
  then have t: "cs_logical t = cs_logical s + 1" "cs_cores t = cs_cores s"
    "cs_phys t = fst (core_of kvs)" "cs_core t = snd (core_of kvs)" "fst (core_of kvs) \<noteq> []"
    using assms by (auto simp: cpu_block_ok_def core_of_def)
  moreover have "fold cpuinfo_line (cpu_block kvs) s = (close_block t)\<lparr>cs_phys := [], cs_core := []\<rparr>"
    by (simp add: cpu_block_def t_def cpuinfo_blank)
  ultimately show ?thesis using t by (simp add: close_block_def core_key_def)
qed

lemma cpu_blocks_scan:
  assumes "list_all cpu_block_ok bs" "cs_phys s = []" "cs_core s = []" "distinct (cs_cores s)"
  shows "let t = fold cpuinfo_line (concat (map cpu_block bs)) s in
    cs_logical t = cs_logical s + length bs \<and> set (cs_cores t) = set (cs_cores s) \<union> set (map (core_key \<circ> core_of) bs)
    \<and> distinct (cs_cores t) \<and> cs_phys t = [] \<and> cs_core t = []"
  using assms
proof (induction bs arbitrary: s)
  case (Cons b bs)
  then show ?case
    using cpu_block_scan [of b s] Cons.IH [of "fold cpuinfo_line (cpu_block b) s"] by (auto simp: Let_def)
qed simp

lemma core_key_inj:
  assumes "CHR ''/'' \<notin> set p" "CHR ''/'' \<notin> set p'" "core_key (p, c) = core_key (p', c')"
  shows "(p, c) = (p', c')"
proof -
  have "str_cut ''/'' (core_key (p, c)) = (p, c, True)" "str_cut ''/'' (core_key (p', c')) = (p', c', True)"
    using cut_present [OF assms(1), of c] cut_present [OF assms(2), of c'] by (simp_all add: core_key_def)
  then show ?thesis unfolding assms(3) by (metis prod.inject)
qed

text \<open>
  A Linux host has as many logical processors as its processor file has blocks, and as many
  cores as the blocks name different pairs of a package and a core, whatever else they say.
\<close>

theorem cores_counted:
  assumes "list_all cpu_block_ok bs" "bs \<noteq> []"
    and "lk_proc k ''cpuinfo'' = Some (concat (map (\<lambda>l. l @ [newline]) (concat (map cpu_block bs))))"
  shows "gc_logical (gohai_cpu_linux k) = of_nat (length bs) \<and> gc_cores (gohai_cpu_linux k) = of_nat (card (set (map core_of bs)))"
proof -
  let ?ls = "concat (map cpu_block bs)"
  have "newline \<notin> set l \<and> CHR 0x0D \<notin> set l \<and> length l < 65536" if l: "l \<in> set ?ls" for l
  proof (cases "l = []")
    case False
    from l obtain kvs where kvs: "kvs \<in> set bs" "l \<in> set (cpu_block kvs)" by auto
    with False obtain kv where "kv \<in> set kvs" "l = cpu_line_of kv" by (auto simp: cpu_block_def)
    then obtain k v where "kvs \<in> set bs" "(k, v) \<in> set kvs" "l = cpu_line_of (k, v)" using kvs by (metis prod.exhaust)
    moreover from this assms(1) have "newline \<notin> set (k @ v) \<and> CHR 0x0D \<notin> set (k @ v) \<and> length (k @ v) < 60000"
      by (fastforce simp: list_all_iff cpu_block_ok_def)
    ultimately show ?thesis by (simp add: cpu_line_of_def)
  qed simp
  then have lines: "scan_lines (concat (map (\<lambda>l. l @ [newline]) ?ls)) = ?ls" by (rule scan_lines_lines)
  define t where "t = fold cpuinfo_line ?ls cpu_start"
  have t: "cs_logical t = length bs" "set (cs_cores t) = set (map (core_key \<circ> core_of) bs)" "distinct (cs_cores t)"
    "cs_phys t = []" "cs_core t = []"
    using cpu_blocks_scan [OF assms(1), of cpu_start] by (simp_all add: t_def Let_def cpu_start_def)
  have "inj_on core_key (set (map core_of bs))"
  proof (rule inj_onI)
    fix x y
    assume "x \<in> set (map core_of bs)" "y \<in> set (map core_of bs)" "core_key x = core_key y"
    moreover from this assms(1) have "CHR ''/'' \<notin> set (fst x)" "CHR ''/'' \<notin> set (fst y)"
      by (auto simp: list_all_iff cpu_block_ok_def)
    ultimately show "x = y" using core_key_inj [of "fst x" "fst y" "snd x" "snd y"] by simp
  qed
  then have "card (set (cs_cores t)) = card (set (map core_of bs))"
    unfolding t(2) map_map [symmetric] set_map [of core_key] by (rule card_image)
  then have "length (cs_cores t) = card (set (map core_of bs))" using t(3) by (simp add: distinct_card)
  moreover have "close_block t = t" using t by (simp add: close_block_def)
  moreover have "cs_cores t \<noteq> []" using t(2) assms(2) by (cases bs) auto
  ultimately show ?thesis
    using assms(3) t(1) lines by (simp add: gohai_cpu_linux_def cpu_of_scan_def t_def [symmetric] Let_def)
qed

definition cpu_example :: "linux_kernel" where
  "cpu_example = \<lparr>lk_proc = (\<lambda>f. if f = ''cpuinfo'' then Some (concat (map (\<lambda>l. l @ [newline]) (concat (map cpu_block
      [[(''processor'', ''0''), (''physical id'', ''0''), (''core id'', ''1'')], [(''processor'', ''1''), (''physical id'', ''0''), (''core id'', ''1'')]])))) else None),
     lk_statfs = (\<lambda>_. None)\<rparr>"

theorem cores_counted_witness: "gc_logical (gohai_cpu_linux cpu_example) = 2 \<and> gc_cores (gohai_cpu_linux cpu_example) = 1"
proof -
  have "trimmed ''processor''" "trimmed ''physical id''" "trimmed ''core id''" "trimmed ''0''" "trimmed ''1''" by code_simp+
  then have "list_all cpu_block_ok [[(''processor'', ''0''), (''physical id'', ''0''), (''core id'', ''1'')],
      [(''processor'', ''1''), (''physical id'', ''0''), (''core id'', ''1'')]]"
    by (simp add: cpu_block_ok_def core_of_def)
  from cores_counted [OF this, of cpu_example] show ?thesis by (simp add: cpu_example_def core_of_def)
qed

end
