(* ===== verification/GoHex.thy ===== *)
theory GoHex
  imports GoStrings
begin

text \<open>
  Lower-case hexadecimal text, \<^verbatim>\<open>encoding/hex\<close> and the verb \<^verbatim>\<open>%x\<close>, and its grouping as a UUID, which
  the host's identifier (\<^verbatim>\<open>internal/hostmeta\<close>) and the profiler's (\<^verbatim>\<open>profiler\<close>) both have.
\<close>

definition hex_char :: "nat \<Rightarrow> char" where
  "hex_char n = char_of (if n < 10 then 48 + n else 87 + n)"

definition hex_bytes :: "string \<Rightarrow> string" where
  "hex_bytes s = concat (map (\<lambda>c. [hex_char (byte c div 16), hex_char (byte c mod 16)]) s)"

lemma hex_char_inj: "a < 16 \<Longrightarrow> b < 16 \<Longrightarrow> hex_char a = hex_char b \<Longrightarrow> a = b"
proof -
  assume "a < 16" "b < 16" "hex_char a = hex_char b"
  then have "of_char (hex_char a) = (of_char (hex_char b) :: nat)" by simp
  with \<open>a < 16\<close> \<open>b < 16\<close> show ?thesis by (simp add: hex_char_def split: if_splits)
qed

lemma nibbles: "byte c div 16 < 16" "byte c mod 16 < 16"
proof -
  have "byte c < 256" using nat_of_char_less_256 by (simp add: byte_def)
  then show "byte c div 16 < 16" by (simp add: less_mult_imp_div_less)
qed simp

lemma hex_bytes_inj: "hex_bytes s = hex_bytes t \<Longrightarrow> s = t"
proof (induction s arbitrary: t)
  case Nil
  then show ?case by (cases t) (simp_all add: hex_bytes_def)
next
  case (Cons c s)
  then obtain d t' where t: "t = d # t'" by (cases t) (simp_all add: hex_bytes_def)
  note b = nibbles
  have "byte c div 16 = byte d div 16" "byte c mod 16 = byte d mod 16"
    using Cons.prems t by (auto simp: hex_bytes_def intro!: hex_char_inj b)
  then have "byte c = byte d" by (metis div_mult_mod_eq)
  moreover have "s = t'" using Cons t by (simp add: hex_bytes_def)
  ultimately show ?case using t by (simp add: byte_def)
qed

lemma length_hex_bytes: "length (hex_bytes s) = 2 * length s"
  by (induction s) (simp_all add: hex_bytes_def)

definition groups :: "string \<Rightarrow> string list" where
  "groups h = [take 8 h, drop 8 (take 12 h), drop 12 (take 16 h), drop 16 (take 20 h), drop 20 (take 32 h)]"

lemma concat_groups: "length h = 32 \<Longrightarrow> concat (groups h) = h"
proof -
  have "take m h @ drop m (take n h) = take n h" if "m \<le> n" for m n
    using append_take_drop_id [of m "take n h"] that by (simp add: min_absorb1)
  moreover assume "length h = 32"
  ultimately show ?thesis by (simp add: groups_def flip: append_assoc)
qed

lemma hex_bytes_chars: "c \<in> set (hex_bytes s) \<Longrightarrow> \<exists>n < 16. c = hex_char n"
proof (induction s)
  case (Cons x s)
  then have "c = hex_char (byte x div 16) \<or> c = hex_char (byte x mod 16) \<or> c \<in> set (hex_bytes s)" by (simp add: hex_bytes_def)
  with Cons.IH nibbles [of x] show ?case by blast
qed (simp add: hex_bytes_def)

lemma hex_char_not_dash: "n < 16 \<Longrightarrow> hex_char n \<noteq> CHR ''-''"
proof
  assume n: "n < 16" and "hex_char n = CHR ''-''"
  then have "(of_char (hex_char n) :: nat) = 45" by simp
  with n show False by (simp add: hex_char_def split: if_splits)
qed

lemma split_groups: "split_on CHR ''-'' (join_with ''-'' (groups (hex_bytes s))) = groups (hex_bytes s)"
proof -
  define x where "x = hex_bytes s"
  have "CHR ''-'' \<notin> set x" unfolding x_def using hex_bytes_chars hex_char_not_dash by metis
  then have "CHR ''-'' \<notin> set (take b x)" "CHR ''-'' \<notin> set (drop a (take b x))" for a b by (metis in_set_dropD in_set_takeD)+
  then have no: "CHR ''-'' \<notin> set g" if "g \<in> set (groups x)" for g
    using that by (auto simp: groups_def dest: in_set_takeD)
  have "split_on CHR ''-'' (join_with ''-'' (groups x)) = groups x"
    by (rule split_join) (use no in \<open>auto simp: groups_def\<close>)
  then show ?thesis by (simp add: x_def)
qed

lemma hex_Cons: "hex_bytes (c # s) = hex_char (byte c div 16) # hex_char (byte c mod 16) # hex_bytes s"
  by (simp add: hex_bytes_def)

lemma hex_Nil: "hex_bytes [] = []"
  by (simp add: hex_bytes_def)

lemma hex_take: "hex_bytes (take k s) = take (2 * k) (hex_bytes s)"
proof (induction s arbitrary: k)
  case (Cons c s)
  then show ?case by (cases k) (simp_all add: hex_Cons hex_Nil)
qed (simp add: hex_Nil)

lemma hex_drop: "hex_bytes (drop k s) = drop (2 * k) (hex_bytes s)"
proof (induction s arbitrary: k)
  case (Cons c s)
  then show ?case by (cases k) (simp_all add: hex_Cons)
qed (simp add: hex_Nil)

lemma hex_nth: "k < length s \<Longrightarrow> hex_bytes s ! (2 * k) = hex_char (byte (s ! k) div 16)"
proof (induction s arbitrary: k)
  case (Cons c s)
  then show ?case by (cases k) (simp_all add: hex_Cons)
qed simp

end
