(* ===== verification/HostMeta.thy ===== *)
theory HostMeta
  imports MetaFacts Intake MetricTypes GoHex
begin

text \<open>
  The host metadata reporter of \<^verbatim>\<open>internal/hostmeta/hostmeta.go\<close> and the inventory payloads of
  \<^verbatim>\<open>inventory.go\<close>. A body is the JSON value it renders; \<open>render\<close> is the text \<^verbatim>\<open>encoding/json\<close> makes of
  a value, needed because one payload is embedded in another as a string, and \<open>sha\<close> is SHA-256.
\<close>

section \<open>Facts as JSON\<close>

definition num :: "u64 \<Rightarrow> json" where
  "num w = JInt (uint w)"

definition strs :: "string list \<Rightarrow> json" where
  "strs ss = JArr (map JStr ss)"

definition gohai_platform_json :: "gohai_platform \<Rightarrow> json" where
  "gohai_platform_json p = JObj
     [(''goV'', JStr (gp_go_version p)), (''GOOS'', JStr (gp_go_os p)), (''GOOARCH'', JStr (gp_go_arch p)),
      (''kernel_name'', JStr (gp_kernel_name p)), (''kernel_release'', JStr (gp_kernel_release p)), (''hostname'', JStr (gp_hostname p)),
      (''machine'', JStr (gp_machine p)), (''os'', JStr (gp_os p)), (''kernel_version'', JStr (gp_kernel_version p)),
      (''processor'', JStr (gp_processor p))]"

definition gohai_cpu_json :: "gohai_cpu \<Rightarrow> json" where
  "gohai_cpu_json c = JObj
     [(''vendor_id'', JStr (gc_vendor_id c)), (''model_name'', JStr (gc_model_name c)), (''cpu_cores'', num (gc_cores c)),
      (''cpu_logical_processors'', num (gc_logical c)), (''mhz'', JFloat (gc_mhz c)), (''family'', JStr (gc_family c)),
      (''model'', JStr (gc_model c)), (''stepping'', JStr (gc_stepping c))]"

definition gohai_memory_json :: "gohai_memory \<Rightarrow> json" where
  "gohai_memory_json m = JObj [(''total'', num (gm_bytes m)), (''swap_total'', num (gm_swap_kb m))]"

definition gohai_fs_json :: "gohai_fs \<Rightarrow> json" where
  "gohai_fs_json f = JObj [(''name'', JStr (gf_name f)), (''kb_size'', num (gf_size_kb f)), (''mounted_on'', JStr (gf_mounted_on f))]"

definition gohai_iface_json :: "gohai_iface \<Rightarrow> json" where
  "gohai_iface_json i = JObj
     [(''name'', JStr (gi_name i)), (''macaddress'', JStr (gi_mac i)), (''ipv4'', strs (gi_ipv4 i)), (''ipv6'', strs (gi_ipv6 i))]"

definition gohai_network_json :: "gohai_network \<Rightarrow> json" where
  "gohai_network_json n = JObj
     [(''macaddress'', JStr (gn_mac n)), (''ipaddress'', JStr (gn_ip n)), (''ipaddressv6'', JStr (gn_ipv6 n)),
      (''interfaces'', JArr (map gohai_iface_json (gn_ifaces n)))]"

definition gohai_json :: "gohai \<Rightarrow> json" where
  "gohai_json g = JObj
     [(''cpu'', gohai_cpu_json (gh_cpu g)),
      (''filesystem'', case gh_fs g of None \<Rightarrow> JNull | Some fs \<Rightarrow> JArr (map gohai_fs_json fs)),
      (''memory'', gohai_memory_json (gh_memory g)), (''network'', gohai_network_json (gh_network g)),
      (''platform'', gohai_platform_json (gh_platform g))]"

section \<open>System statistics\<close>

text \<open>An element of a version array: a string, or on macOS a nested array.\<close>

datatype version_elem = VStr string | VNested "string list"

type_synonym os_version = "version_elem list"

record system_stats =
  sy_cores :: int
  sy_machine :: string
  sy_platform :: string
  sy_processor :: string
  sy_mac :: os_version
  sy_nix :: os_version
  sy_fbsd :: os_version
  sy_win :: os_version

definition set_os_version_linux :: "go_runtime \<Rightarrow> string option \<Rightarrow> system_stats \<Rightarrow> system_stats" where
  "set_os_version_linux rt file s =
     (case os_release file of (oid, ver) \<Rightarrow> s\<lparr>sy_nix := [VStr (if oid = [] then rt_os rt else oid), VStr ver, VStr []]\<rparr>)"

definition set_os_version_unix :: "go_runtime \<Rightarrow> unix_kernel \<Rightarrow> system_stats \<Rightarrow> system_stats" where
  "set_os_version_unix rt u s =
     (let rel = meta_sysctl_str u ''kern.osrelease''; pv = meta_sysctl_str u ''kern.osproductversion'' in
      if rt_os rt = ''darwin'' then s\<lparr>sy_mac := [VStr (if pv \<noteq> [] then pv else rel), VNested [[], [], []], VStr (rt_arch rt)]\<rparr>
      else s\<lparr>sy_nix := [VStr (rt_os rt), VStr rel, VStr []]\<rparr>)"

definition set_os_version_plan9 :: "(string \<Rightarrow> string option) \<Rightarrow> system_stats \<Rightarrow> system_stats" where
  "set_os_version_plan9 fs s = s\<lparr>sy_nix := [VStr ''plan9'', VStr (plan9_version fs), VStr []]\<rparr>"

definition set_os_version_windows :: "win_registry \<Rightarrow> system_stats \<Rightarrow> system_stats" where
  "set_os_version_windows reg s =
     s\<lparr>sy_mac := [VStr [], VStr []], sy_nix := [VStr [], VStr []], sy_fbsd := [VStr [], VStr []],
       sy_win := [VStr (win_product_name reg), VStr (win_build reg)]\<rparr>"

text \<open>The block is what the runtime and the facts say, with the version arrays set by the system's own function.\<close>

definition system_stats_from :: "go_runtime \<Rightarrow> (system_stats \<Rightarrow> system_stats) \<Rightarrow> gohai \<Rightarrow> system_stats" where
  "system_stats_from rt set_version g =
     set_version
       \<lparr>sy_cores = wrap_i64 (uint (gc_cores (gh_cpu g))), sy_machine = rt_arch rt, sy_platform = rt_os rt,
        sy_processor = gc_model_name (gh_cpu g), sy_mac = [VStr [], VStr [], VStr []], sy_nix = [VStr [], VStr [], VStr []],
        sy_fbsd = [VStr [], VStr [], VStr []], sy_win = [VStr [], VStr [], VStr []]\<rparr>"

definition os_field :: "string \<Rightarrow> string" where
  "os_field goos = (if goos = ''windows'' then ''win32'' else goos)"

definition version_json :: "os_version \<Rightarrow> json" where
  "version_json v = JArr (map (\<lambda>e. case e of VStr s \<Rightarrow> JStr s | VNested ss \<Rightarrow> strs ss) v)"

definition system_stats_json :: "system_stats \<Rightarrow> json" where
  "system_stats_json s = JObj
     [(''cpuCores'', JInt (sy_cores s)), (''machine'', JStr (sy_machine s)), (''platform'', JStr (sy_platform s)), (''pythonV'', JStr []),
      (''processor'', JStr (sy_processor s)), (''macV'', version_json (sy_mac s)), (''nixV'', version_json (sy_nix s)),
      (''fbsdV'', version_json (sy_fbsd s)), (''winV'', version_json (sy_win s))]"

section \<open>The identifier of the host\<close>

definition host_uuid :: "(string \<Rightarrow> string) \<Rightarrow> string option \<Rightarrow> string \<Rightarrow> string" where
  "host_uuid sha machine_id host =
     (let seed = (case machine_id of Some b \<Rightarrow> trim_space b @ ''/'' @ host | None \<Rightarrow> host);
          h = hex_bytes (take 16 (sha seed)); slice = (\<lambda>a b. drop a (take b h))
      in slice 0 8 @ ''-'' @ slice 8 12 @ ''-'' @ slice 12 16 @ ''-'' @ slice 16 20 @ ''-'' @ slice 20 32)"

section \<open>The legacy payload\<close>

text \<open>What the reporter reads beside the facts: its identifier, the name of the machine, its time zone.\<close>

record meta_env =
  he_uuid :: string
  he_socket :: string
  he_zone :: string
  he_os :: string

record meta_reporter =
  hm_intake :: "endpoint list"
  hm_metadata :: "endpoint list"
  hm_hostname :: string
  hm_tags :: "string list"
  hm_interval :: int

definition new_meta_reporter :: "meta_reporter \<Rightarrow> meta_reporter" where
  "new_meta_reporter o' = (if hm_interval o' = 0 then o'\<lparr>hm_interval := 1800 * second\<rparr> else o')"

definition v5_json :: "meta_env \<Rightarrow> meta_reporter \<Rightarrow> system_stats \<Rightarrow> string \<Rightarrow> string \<Rightarrow> json" where
  "v5_json env r s gj api_key = JObj
     [(''apiKey'', JStr api_key), (''agentVersion'', JStr agent_version), (''uuid'', JStr (he_uuid env)),
      (''internalHostname'', JStr (hm_hostname r)), (''os'', JStr (os_field (he_os env))), (''agent-flavor'', JStr ''agent''),
      (''python'', JStr []), (''systemStats'', system_stats_json s),
      (''meta'', JObj [(''hostname'', JStr (hm_hostname r)), (''socket-hostname'', JStr (he_socket env)), (''host_aliases'', strs []),
         (''timezones'', strs [he_zone env])]),
      (''host-tags'', JObj [(''system'', strs (hm_tags r))]), (''gohai'', JStr gj)]"

definition build_v5 :: "(json \<Rightarrow> string) \<Rightarrow> meta_env \<Rightarrow> meta_reporter \<Rightarrow> gohai \<Rightarrow> system_stats \<Rightarrow> string \<Rightarrow> json option" where
  "build_v5 render env r g s api_key =
     Option.bind (json_marshal (gohai_json g)) (\<lambda>j. json_marshal (v5_json env r s (render j) api_key))"

section \<open>The inventories\<close>

definition version_str :: "os_version \<Rightarrow> nat \<Rightarrow> string" where
  "version_str v i = (if i < length v then (case v ! i of VStr s \<Rightarrow> s | VNested ss \<Rightarrow> []) else [])"

definition os_version_string :: "system_stats \<Rightarrow> string" where
  "os_version_string s =
     (if version_str (sy_nix s) 1 \<noteq> [] then version_str (sy_nix s) 1
      else if version_str (sy_mac s) 0 \<noteq> [] then version_str (sy_mac s) 0
      else version_str (sy_win s) 1)"

definition inventory_host :: "meta_env \<Rightarrow> string \<Rightarrow> gohai \<Rightarrow> system_stats \<Rightarrow> int \<Rightarrow> json" where
  "inventory_host env host g s now_ns =
     (let c = gh_cpu g; p = gh_platform g; m = gh_memory g; n = gh_network g in
      JObj [(''hostname'', JStr host), (''timestamp'', JInt now_ns),
        (''host_metadata'', JObj
          [(''cpu_cores'', num (gc_cores c)), (''cpu_logical_processors'', num (gc_logical c)), (''cpu_vendor'', JStr (gc_vendor_id c)),
           (''cpu_model'', JStr (gc_model_name c)), (''cpu_frequency'', JFloat (gc_mhz c)), (''kernel_name'', JStr (gp_kernel_name p)),
           (''kernel_release'', JStr (gp_kernel_release p)), (''kernel_version'', JStr (gp_kernel_version p)), (''os'', JStr (gp_os p)),
           (''cpu_architecture'', JStr (gp_machine p)), (''memory_total_kb'', num (gm_bytes m div 1024)),
           (''memory_swap_total_kb'', num (gm_swap_kb m)), (''ip_address'', JStr (gn_ip n)), (''ipv6_address'', JStr (gn_ipv6 n)),
           (''mac_address'', JStr (gn_mac n)), (''agent_version'', JStr agent_version), (''os_version'', JStr (os_version_string s))]),
        (''uuid'', JStr (he_uuid env))])"

definition inventory_agent :: "meta_env \<Rightarrow> string \<Rightarrow> int \<Rightarrow> json" where
  "inventory_agent env host now_ns = JObj
     [(''hostname'', JStr host), (''timestamp'', JInt now_ns),
      (''agent_metadata'', JObj [(''agent_version'', JStr agent_version), (''flavor'', JStr ''dd-micro-agent''),
         (''infrastructure_mode'', JStr ''full'')]),
      (''uuid'', JStr (he_uuid env))]"

section \<open>Sending\<close>

definition post_inventory :: "client \<Rightarrow> endpoint list \<Rightarrow> json \<Rightarrow> json net \<Rightarrow> json net" where
  "post_inventory c eps j nt = (case json_marshal j of None \<Rightarrow> nt | Some body \<Rightarrow> snd (post_all c eps body nt))"

definition meta_send :: "(json \<Rightarrow> string) \<Rightarrow> client \<Rightarrow> meta_env \<Rightarrow> meta_reporter \<Rightarrow> gohai \<Rightarrow> system_stats \<Rightarrow> int \<Rightarrow> json net \<Rightarrow> json net" where
  "meta_send render c env r g s now_ns nt =
     (let nt1 = snd (post_all_func c (hm_intake r) (build_v5 render env r g s) nt) in
      if hm_metadata r = [] then nt1
      else post_inventory c (hm_metadata r) (inventory_agent env (hm_hostname r) now_ns)
             (post_inventory c (hm_metadata r) (inventory_host env (hm_hostname r) g s now_ns) nt1))"

text \<open>A run: a round at the start and one at each tick, each with the facts it finds.\<close>

definition meta_run :: "(json \<Rightarrow> string) \<Rightarrow> client \<Rightarrow> meta_reporter \<Rightarrow> (meta_env \<times> gohai \<times> system_stats \<times> int) list \<Rightarrow> json net \<Rightarrow> json net" where
  "meta_run render c r rounds nt = fold (\<lambda>(env, g, s, now_ns). meta_send render c env r g s now_ns) rounds nt"

section \<open>Each organisation gets its own envelope\<close>

lemma send_acts:
  assumes "list_all P (nt_acts nt)" "\<And>w. P (Slept w)" "\<And>rep. P (Request (ep_url ep) (ep_key ep) gz rep)"
  shows "list_all P (nt_acts (snd (send c ep gz nt)))"
proof (cases "url_ok nt ep")
  case True
  have "list_all P (nt_acts (snd (send_try c ep gz 0 (cl_backoff c) (0, None) nt)))"
    by (rule send_try_keyed [OF surjective_pairing assms])
  with True show ?thesis by (simp add: send_def)
qed (use assms in \<open>simp add: send_def\<close>)

lemma post_all_acts:
  assumes "list_all P (nt_acts nt)" "\<And>w. P (Slept w)" "\<And>ep rep. ep \<in> set eps \<Longrightarrow> P (Request (ep_url ep) (ep_key ep) (Gz body) rep)"
  shows "list_all P (nt_acts (snd (post_all c eps body nt)))"
proof (cases eps)
  case (Cons ep rest)
  have "list_all P (nt_acts (snd (send c ep (Gz body) nt)))" using assms Cons by (intro send_acts) simp_all
  then have "list_all P (nt_acts (fold (post_additional c (Gz body)) rest (snd (send c ep (Gz body) nt))))"
    by (rule fold_invariant [where P = "\<lambda>n. list_all P (nt_acts n)"])
      (use assms Cons in \<open>auto simp: post_additional_def intro: send_acts\<close>)
  then show ?thesis by (simp add: Cons post_all_def compress_def case_prod_beta)
qed (use assms in \<open>simp add: post_all_def\<close>)

lemma post_all_func_acts:
  assumes "list_all P (nt_acts nt)" "\<And>w. P (Slept w)"
    and "\<And>ep b rep. ep \<in> set eps \<Longrightarrow> build (ep_key ep) = Some b \<Longrightarrow> P (Request (ep_url ep) (ep_key ep) (Gz b) rep)"
  shows "list_all P (nt_acts (snd (post_all_func c eps build nt)))"
proof (cases eps)
  case (Cons ep rest)
  have step: "list_all P (nt_acts (post_built c build e n))" if "list_all P (nt_acts n)" "e \<in> set eps" for e n
    using that assms(2,3) by (auto simp: post_built_def compress_def post_additional_def intro!: send_acts split: option.split)
  show ?thesis
  proof (cases "build (ep_key ep)")
    case (Some b)
    have "list_all P (nt_acts (snd (send c ep (Gz b) nt)))" using assms Cons Some by (intro send_acts) simp_all
    then have "list_all P (nt_acts (fold (post_built c build) rest (snd (send c ep (Gz b) nt))))"
      by (rule fold_invariant [where P = "\<lambda>n. list_all P (nt_acts n)"]) (use step Cons in auto)
    then show ?thesis using Some by (simp add: Cons post_all_func_def post_def compress_def case_prod_beta)
  qed (use assms in \<open>simp add: Cons post_all_func_def\<close>)
qed (use assms in \<open>simp add: post_all_func_def\<close>)

text \<open>
  What may be sent in a round: to an endpoint for legacy metadata, under its own key, the
  envelope that carries this key; to one for inventories, under its own key, one of the two
  inventories, which carry none.
\<close>

definition metadata_act :: "meta_reporter \<Rightarrow> meta_env \<times> gohai \<times> system_stats \<times> int \<Rightarrow> json act \<Rightarrow> bool" where
  "metadata_act r rd a =
     (case rd of (env, g, s, now_ns) \<Rightarrow>
        case a of Slept w \<Rightarrow> True
        | Request u k z rep \<Rightarrow>
            (case z of Gz b \<Rightarrow>
               (\<exists>ep \<in> set (hm_intake r). u = ep_url ep \<and> k = ep_key ep \<and> (\<exists>gj. b = v5_json env r s gj k))
               \<or> (\<exists>ep \<in> set (hm_metadata r). u = ep_url ep \<and> k = ep_key ep
                    \<and> (b = inventory_host env (hm_hostname r) g s now_ns \<or> b = inventory_agent env (hm_hostname r) now_ns))))"

lemma build_v5_envelope: "build_v5 render env r g s k = Some b \<Longrightarrow> \<exists>gj. b = v5_json env r s gj k"
  by (auto simp: build_v5_def json_marshal_def bind_eq_Some_conv split: if_splits)

lemma meta_send_acts:
  assumes "list_all P (nt_acts nt)" "\<And>a. metadata_act r (env, g, s, now_ns) a \<Longrightarrow> P a"
  shows "list_all P (nt_acts (meta_send render c env r g s now_ns nt))"
proof -
  have ok: "P (Slept w)" for w using assms(2) by (simp add: metadata_act_def)
  define nt1 where "nt1 = snd (post_all_func c (hm_intake r) (build_v5 render env r g s) nt)"
  have 1: "list_all P (nt_acts nt1)"
    unfolding nt1_def
  proof (rule post_all_func_acts [OF assms(1) ok])
    fix ep b rep
    assume "ep \<in> set (hm_intake r)" "build_v5 render env r g s (ep_key ep) = Some b"
    with build_v5_envelope [OF this(2)] show "P (Request (ep_url ep) (ep_key ep) (Gz b) rep)"
      by (intro assms(2)) (auto simp: metadata_act_def)
  qed
  have inv: "list_all P (nt_acts (post_inventory c (hm_metadata r) j n))"
    if "list_all P (nt_acts n)" "j = inventory_host env (hm_hostname r) g s now_ns \<or> j = inventory_agent env (hm_hostname r) now_ns" for j n
  proof -
    have "P (Request (ep_url ep) (ep_key ep) (Gz j) rep)" if "ep \<in> set (hm_metadata r)" for ep rep
      using that \<open>j = _ \<or> j = _\<close> by (intro assms(2)) (auto simp: metadata_act_def)
    with post_all_acts [OF that(1) ok, of "hm_metadata r" j] show ?thesis
      using that(1) by (auto simp: post_inventory_def json_marshal_def)
  qed
  show ?thesis using inv [OF inv [OF 1]] 1 by (simp add: meta_send_def nt1_def [symmetric] Let_def)
qed


section \<open>The identifier\<close>

definition uuid_seed :: "string option \<Rightarrow> string \<Rightarrow> string" where
  "uuid_seed machine_id host = (case machine_id of Some b \<Rightarrow> trim_space b @ ''/'' @ host | None \<Rightarrow> host)"

lemma split_host_uuid: "split_on CHR ''-'' (host_uuid sha m h) = groups (hex_bytes (take 16 (sha (uuid_seed m h))))"
proof -
  have "host_uuid sha m h = join_with ''-'' (groups (hex_bytes (take 16 (sha (uuid_seed m h)))))"
    by (simp add: host_uuid_def uuid_seed_def groups_def Let_def)
  then show ?thesis by (simp only: split_groups)
qed

text \<open>
  The identifier of a host has the form of a UUID, lower-case hexadecimal digits in groups of
  8, 4, 4, 4 and 12, and two hosts share one only when the digests of their seeds begin alike.
\<close>

theorem host_uuid_form:
  assumes "\<And>s. 16 \<le> length (sha s)"
  shows "map length (split_on CHR ''-'' (host_uuid sha m h)) = [8, 4, 4, 4, 12]
    \<and> (\<forall>c \<in> set (concat (split_on CHR ''-'' (host_uuid sha m h))). \<exists>n < 16. c = hex_char n)
    \<and> (host_uuid sha m h = host_uuid sha m' h' \<longleftrightarrow> take 16 (sha (uuid_seed m h)) = take 16 (sha (uuid_seed m' h')))"
proof -
  have len: "length (hex_bytes (take 16 (sha s))) = 32" for s using assms [of s] by (simp add: length_hex_bytes)
  have "host_uuid sha m h = host_uuid sha m' h' \<longleftrightarrow> split_on CHR ''-'' (host_uuid sha m h) = split_on CHR ''-'' (host_uuid sha m' h')"
    using split_on_inj by metis
  also have "\<dots> \<longleftrightarrow> take 16 (sha (uuid_seed m h)) = take 16 (sha (uuid_seed m' h'))"
    unfolding split_host_uuid using concat_groups [OF len] hex_bytes_inj by metis
  finally have "host_uuid sha m h = host_uuid sha m' h' \<longleftrightarrow> take 16 (sha (uuid_seed m h)) = take 16 (sha (uuid_seed m' h'))" .
  moreover have "map length (groups (hex_bytes (take 16 (sha (uuid_seed m h))))) = [8, 4, 4, 4, 12]"
    using len by (simp add: groups_def)
  ultimately show ?thesis
    unfolding split_host_uuid concat_groups [OF len] using hex_bytes_chars by blast
qed

theorem host_uuid_form_witness:
  "map length (split_on CHR ''-'' (host_uuid (\<lambda>s. take 32 (s @ replicate 32 CHR ''x'')) None ''web-1'')) = [8, 4, 4, 4, 12]"
  using host_uuid_form [of "\<lambda>s. take 32 (s @ replicate 32 CHR ''x'')" None "''web-1''" None "''web-1''"] by simp

section \<open>The version of the system\<close>

text \<open>
  The inventory reports the version the system's own function stored, whichever of the legacy
  arrays and whichever place of it that is.
\<close>

theorem os_version_reported:
  "os_version_string (system_stats_from rt (set_os_version_linux rt file) g) = snd (os_release file)
   \<and> os_version_string (system_stats_from rt (set_os_version_unix rt u) g)
     = (if rt_os rt = ''darwin'' \<and> meta_sysctl_str u ''kern.osproductversion'' \<noteq> [] then meta_sysctl_str u ''kern.osproductversion''
        else meta_sysctl_str u ''kern.osrelease'')
   \<and> os_version_string (system_stats_from rt (set_os_version_plan9 fs) g) = plan9_version fs
   \<and> os_version_string (system_stats_from rt (set_os_version_windows reg) g) = win_build reg"
  by (simp add: os_version_string_def version_str_def system_stats_from_def set_os_version_linux_def set_os_version_unix_def
    set_os_version_plan9_def set_os_version_windows_def case_prod_beta Let_def)

end
