(* ===== verification/Profiler.thy ===== *)
theory Profiler
  imports GoHex MetricTypes GoTime
begin

text \<open>
  The profiler library, \<^verbatim>\<open>profiler/profiler.go\<close>: its options, the cycle that collects the profiles of a
  period, the upload, and the loop with Start and Stop around it. The Go runtime is the two
  profilers a process has one of each, what a wait meets is a script of events that ends with the
  deadline, and times are the texts they are formatted as.
\<close>

section \<open>Profile types and options\<close>

datatype profile_type = CPUProfile | HeapProfile | GoroutineProfile | MutexProfile | BlockProfile | ExecutionTrace

primrec type_filename :: "profile_type \<Rightarrow> string" where
  "type_filename CPUProfile = ''cpu.pprof''"
| "type_filename HeapProfile = ''heap.pprof''"
| "type_filename GoroutineProfile = ''goroutines.pprof''"
| "type_filename MutexProfile = ''mutex.pprof''"
| "type_filename BlockProfile = ''block.pprof''"
| "type_filename ExecutionTrace = ''go.trace''"

primrec type_lookup :: "profile_type \<Rightarrow> string" where
  "type_lookup CPUProfile = []"
| "type_lookup HeapProfile = ''heap''"
| "type_lookup GoroutineProfile = ''goroutine''"
| "type_lookup MutexProfile = ''mutex''"
| "type_lookup BlockProfile = ''block''"
| "type_lookup ExecutionTrace = []"

definition default_profile_types :: "string \<Rightarrow> profile_type list" where
  "default_profile_types goos =
     (if goos = ''plan9'' then [HeapProfile, GoroutineProfile] else [CPUProfile, HeapProfile, GoroutineProfile])"

definition default_mutex_fraction :: int where "default_mutex_fraction = 10"

definition default_block_rate :: int where "default_block_rate = 100000000"

record prof_config =
  pf_service :: string
  pf_env :: string
  pf_version :: string
  pf_tags :: "string list"
  pf_url :: string
  pf_period :: int
  pf_types :: "profile_type list"
  pf_mutex_fraction :: int
  pf_block_rate :: int

type_synonym prof_option = "prof_config \<Rightarrow> prof_config"

definition profile_path :: string where "profile_path = ''/profiling/v1/input''"

definition with_service :: "string \<Rightarrow> prof_option" where "with_service s c = c\<lparr>pf_service := s\<rparr>"

definition with_env :: "string \<Rightarrow> prof_option" where "with_env s c = c\<lparr>pf_env := s\<rparr>"

definition with_version :: "string \<Rightarrow> prof_option" where "with_version s c = c\<lparr>pf_version := s\<rparr>"

definition with_tags :: "string list \<Rightarrow> prof_option" where "with_tags tags c = c\<lparr>pf_tags := pf_tags c @ tags\<rparr>"

definition with_agent_addr :: "string \<Rightarrow> prof_option" where
  "with_agent_addr hostport c = c\<lparr>pf_url := ''http://'' @ hostport @ profile_path\<rparr>"

definition with_url :: "string \<Rightarrow> prof_option" where "with_url url c = c\<lparr>pf_url := url\<rparr>"

definition with_period :: "int \<Rightarrow> prof_option" where "with_period d c = c\<lparr>pf_period := d\<rparr>"

definition with_profile_types :: "profile_type list \<Rightarrow> prof_option" where "with_profile_types types c = c\<lparr>pf_types := types\<rparr>"

definition with_mutex_fraction :: "int \<Rightarrow> prof_option" where "with_mutex_fraction n c = c\<lparr>pf_mutex_fraction := n\<rparr>"

definition with_block_rate :: "int \<Rightarrow> prof_option" where "with_block_rate n c = c\<lparr>pf_block_rate := n\<rparr>"

text \<open>An unset variable of the environment reads as the empty string.\<close>

definition agent_url :: "(string \<Rightarrow> string) \<Rightarrow> string" where
  "agent_url env =
     (let u = env ''DD_TRACE_AGENT_URL''; host = env ''DD_AGENT_HOST'' in
      if u \<noteq> [] then trim_right_of ''/'' u @ profile_path
      else ''http://'' @ (if host = [] then ''127.0.0.1'' else host) @ '':8126'' @ profile_path)"

primrec tag_fields :: "string \<Rightarrow> string \<Rightarrow> string list" where
  "tag_fields w [] = (if w = [] then [] else [rev w])"
| "tag_fields w (c # cs) =
     (if c = CHR '','' \<or> c = CHR '' '' then (if w = [] then [] else [rev w]) @ tag_fields [] cs else tag_fields (c # w) cs)"

definition split_tag_list :: "string \<Rightarrow> string list" where
  "split_tag_list s = (if s = [] then [] else tag_fields [] s)"

definition default_rates :: "prof_config \<Rightarrow> prof_config" where
  "default_rates c =
     (let c1 = (if pf_mutex_fraction c = 0 \<and> MutexProfile \<in> set (pf_types c) then c\<lparr>pf_mutex_fraction := default_mutex_fraction\<rparr> else c)
      in if pf_block_rate c1 = 0 \<and> BlockProfile \<in> set (pf_types c1) then c1\<lparr>pf_block_rate := default_block_rate\<rparr> else c1)"

definition new_config :: "(string \<Rightarrow> string) \<Rightarrow> string \<Rightarrow> string \<Rightarrow> prof_option list \<Rightarrow> prof_config" where
  "new_config env arg0 goos opts =
     (let service = (if env ''DD_SERVICE'' = [] then base_name arg0 else env ''DD_SERVICE'')
      in default_rates (fold (\<lambda>f. f) opts
            \<lparr>pf_service = service, pf_env = env ''DD_ENV'', pf_version = env ''DD_VERSION'', pf_tags = split_tag_list (env ''DD_TAGS''),
             pf_url = agent_url env, pf_period = 60 * second, pf_types = default_profile_types goos, pf_mutex_fraction = 0, pf_block_rate = 0\<rparr>))"

section \<open>The buffer of the trace\<close>

definition trace_limit :: nat where "trace_limit = 5242880"

text \<open>The buffer, and how often the channel was closed: closing it twice would panic.\<close>

record trace_writer =
  tw_buf :: string
  tw_limit :: nat
  tw_closed :: bool
  tw_closes :: nat

definition new_trace :: "nat \<Rightarrow> trace_writer" where
  "new_trace limit = \<lparr>tw_buf = [], tw_limit = limit, tw_closed = False, tw_closes = 0\<rparr>"

definition trace_write :: "string \<Rightarrow> trace_writer \<Rightarrow> trace_writer" where
  "trace_write p w0 =
     (let w = w0\<lparr>tw_buf := tw_buf w0 @ p\<rparr> in
      if tw_limit w \<le> length (tw_buf w) \<and> \<not> tw_closed w then w\<lparr>tw_closed := True, tw_closes := tw_closes w + 1\<rparr> else w)"

section \<open>One cycle\<close>

text \<open>The two profilers of the runtime, each running at most once in a process.\<close>

record go_profilers =
  gr_cpu :: bool
  gr_trace :: bool

text \<open>Whether the profiles of this cycle were started, over the types in order.\<close>

definition start_type :: "profile_type \<Rightarrow> bool \<times> bool \<times> go_profilers \<Rightarrow> bool \<times> bool \<times> go_profilers" where
  "start_type t acc =
     (case acc of (cpu_on, trace_on, gr) \<Rightarrow>
        (case t of
           CPUProfile \<Rightarrow> (\<not> gr_cpu gr, trace_on, gr\<lparr>gr_cpu := True\<rparr>)
         | ExecutionTrace \<Rightarrow> (cpu_on, \<not> gr_trace gr, gr\<lparr>gr_trace := True\<rparr>)
         | _ \<Rightarrow> acc))"

definition start_types :: "profile_type list \<Rightarrow> go_profilers \<Rightarrow> bool \<times> bool \<times> go_profilers" where
  "start_types types gr = fold start_type types (False, False, gr)"

definition stop_cpu :: "bool \<Rightarrow> go_profilers \<Rightarrow> go_profilers" where
  "stop_cpu cpu_on gr = (if cpu_on then gr\<lparr>gr_cpu := False\<rparr> else gr)"

definition stop_trace :: "bool \<times> go_profilers \<Rightarrow> bool \<times> go_profilers" where
  "stop_trace rg = (if fst rg then (False, (snd rg)\<lparr>gr_trace := False\<rparr>) else rg)"

datatype wait_event = Cancelled | TraceFull

text \<open>
  The wait: whether it was cancelled, and the trace still running with the runtime after it. The
  channel of a full trace is nil without a trace and once it was received from.
\<close>

fun wait_period :: "wait_event list \<Rightarrow> bool \<Rightarrow> bool \<times> go_profilers \<Rightarrow> bool \<times> bool \<times> go_profilers" where
  "wait_period [] full rg = (False, rg)"
| "wait_period (Cancelled # es) full rg = (True, rg)"
| "wait_period (TraceFull # es) full rg = (if full then wait_period es False (stop_trace rg) else wait_period es full rg)"

record attachment =
  at_name :: string
  at_data :: string

text \<open>What the profiles of the period and the snapshots hold.\<close>

record profile_data =
  pd_cpu :: string
  pd_trace :: string
  pd_snapshot :: "string \<Rightarrow> string option"

definition attach :: "profile_data \<Rightarrow> bool \<Rightarrow> bool \<Rightarrow> profile_type \<Rightarrow> attachment option" where
  "attach d cpu_on trace_on t =
     (case t of
        CPUProfile \<Rightarrow> if cpu_on then Some \<lparr>at_name = type_filename t, at_data = pd_cpu d\<rparr> else None
      | ExecutionTrace \<Rightarrow> if trace_on then Some \<lparr>at_name = type_filename t, at_data = pd_trace d\<rparr> else None
      | _ \<Rightarrow> map_option (\<lambda>b. \<lparr>at_name = type_filename t, at_data = b\<rparr>) (pd_snapshot d (type_lookup t)))"

definition collect_profiles ::
  "profile_type list \<Rightarrow> wait_event list \<Rightarrow> profile_data \<Rightarrow> go_profilers \<Rightarrow> attachment list option \<times> go_profilers" where
  "collect_profiles types es d gr0 =
     (let (cpu_on, trace_on, gr) = start_types types gr0;
          (cancelled, running, gr1) = wait_period es trace_on (trace_on, gr);
          gr2 = snd (stop_trace (running, stop_cpu cpu_on gr1))
      in (if cancelled then None else Some (List.map_filter (attach d cpu_on trace_on) types), gr2))"

section \<open>The upload\<close>

record profiler =
  pr_config :: prof_config
  pr_hostname :: string
  pr_runtime_id :: string
  pr_seq :: nat

definition tags_profiler :: "profiler \<Rightarrow> string" where
  "tags_profiler p =
     (let c = pr_config p in
      join_with '',''
        ([''service:'' @ pf_service c, ''runtime:go'', ''language:go'', ''runtime-id:'' @ pr_runtime_id p, ''profile_seq:'' @ fmt_nat (pr_seq p)]
         @ (if pf_env c \<noteq> [] then [''env:'' @ pf_env c] else [])
         @ (if pf_version c \<noteq> [] then [''version:'' @ pf_version c] else [])
         @ (if pr_hostname p \<noteq> [] then [''host:'' @ pr_hostname p] else [])
         @ pf_tags c))"

definition upload_event :: "string \<Rightarrow> string \<Rightarrow> string list \<Rightarrow> string \<Rightarrow> json" where
  "upload_event start stop names tags = JObj
     [(''start'', JStr start), (''end'', JStr stop), (''attachments'', if names = [] then JNull else JArr (map JStr names)),
      (''tags_profiler'', JStr tags), (''family'', JStr ''go''), (''version'', JStr ''4''),
      (''info'', JObj [(''profiler'', JObj
         [(''activation'', JStr ''manual''), (''ssi'', JObj [(''mechanism'', JStr ''none'')]), (''settings'', JObj [])])])]"

datatype upload_part = FilePart string string | EventPart json

definition upload_parts :: "profiler \<Rightarrow> string \<Rightarrow> string \<Rightarrow> attachment list \<Rightarrow> upload_part list" where
  "upload_parts p start stop bat =
     map (\<lambda>a. FilePart (at_name a) (at_data a)) bat @ [EventPart (upload_event start stop (map at_name bat) (tags_profiler p))]"

datatype upload_error = NoAnswer | UploadCancelled | BadStatus int

text \<open>The answer of the agent: a status, none, or the context cancelled first.\<close>

datatype agent_answer = Status int | NoStatus | Stopped

definition upload_result :: "agent_answer \<Rightarrow> upload_error option" where
  "upload_result a =
     (case a of Status st \<Rightarrow> if go_quot st 100 = 2 then None else Some (BadStatus st) | NoStatus \<Rightarrow> Some NoAnswer | Stopped \<Rightarrow> Some UploadCancelled)"

section \<open>The loop\<close>

text \<open>What a cycle meets: the events of its wait, its profiles, the times it spans, the answer to its upload.\<close>

record cycle =
  cy_events :: "wait_event list"
  cy_data :: profile_data
  cy_start :: string
  cy_stop :: string
  cy_answer :: agent_answer

record prof_state =
  ps_profiler :: profiler
  ps_runtime :: go_profilers
  ps_uploads :: "upload_part list list"
  ps_warned :: nat
  ps_ended :: bool

definition prof_cycle :: "cycle \<Rightarrow> prof_state \<Rightarrow> prof_state" where
  "prof_cycle cy s =
     (let p = ps_profiler s; (got, gr) = collect_profiles (pf_types (pr_config p)) (cy_events cy) (cy_data cy) (ps_runtime s);
          s1 = s\<lparr>ps_runtime := gr\<rparr>
      in case got of
           None \<Rightarrow> s1\<lparr>ps_ended := True\<rparr>
         | Some bat \<Rightarrow>
             let s2 = s1\<lparr>ps_uploads := ps_uploads s1 @ [upload_parts p (cy_start cy) (cy_stop cy) bat]\<rparr>;
                 s3 = (case upload_result (cy_answer cy) of
                         None \<Rightarrow> s2
                       | Some UploadCancelled \<Rightarrow> s2
                       | Some e \<Rightarrow> s2\<lparr>ps_warned := ps_warned s2 + 1\<rparr>)
             in s3\<lparr>ps_profiler := p\<lparr>pr_seq := pr_seq p + 1\<rparr>\<rparr>)"

fun prof_run :: "cycle list \<Rightarrow> prof_state \<Rightarrow> prof_state" where
  "prof_run [] s = s"
| "prof_run (cy # cs) s = (let s' = prof_cycle cy s in if ps_ended s' then s' else prof_run cs s')"

section \<open>Identifier\<close>

definition new_uuid :: "string \<Rightarrow> string" where
  "new_uuid b =
     (let b1 = b[6 := char_of (byte (b ! 6) mod 16 + 64)]; b2 = b1[8 := char_of (byte (b1 ! 8) mod 64 + 128)]
      in hex_bytes (take 4 b2) @ ''-'' @ hex_bytes (drop 4 (take 6 b2)) @ ''-'' @ hex_bytes (drop 6 (take 8 b2)) @ ''-''
         @ hex_bytes (drop 8 (take 10 b2)) @ ''-'' @ hex_bytes (drop 10 (take 16 b2)))"

section \<open>Start and Stop\<close>

text \<open>
  The process: the active profiler, those whose goroutine has not ended, numbered as they were
  started, and the rates given to the runtime. Stop gives up the active profiler first and then
  waits for its goroutine, so another Start may come between.
\<close>

record library =
  lb_active :: "nat option"
  lb_running :: "nat list"
  lb_next :: nat
  lb_mutex :: int
  lb_block :: int

definition lib_start :: "prof_config \<Rightarrow> library \<Rightarrow> library" where
  "lib_start c l =
     (if lb_active l \<noteq> None then l
      else l\<lparr>lb_active := Some (lb_next l), lb_running := lb_running l @ [lb_next l], lb_next := lb_next l + 1,
             lb_mutex := (if 0 < pf_mutex_fraction c then pf_mutex_fraction c else lb_mutex l),
             lb_block := (if 0 < pf_block_rate c then pf_block_rate c else lb_block l)\<rparr>)"

definition lib_stop :: "library \<Rightarrow> library" where
  "lib_stop l = l\<lparr>lb_active := None\<rparr>"

text \<open>A goroutine ends once its context is cancelled, which only Stop does.\<close>

definition lib_ended :: "nat \<Rightarrow> library \<Rightarrow> library" where
  "lib_ended i l = l\<lparr>lb_running := filter (\<lambda>j. j \<noteq> i) (lb_running l)\<rparr>"

inductive lib_step :: "library \<Rightarrow> library \<Rightarrow> bool" where
  Start: "lib_step l (lib_start c l)"
| Stop: "lib_step l (lib_stop l)"
| Ended: "lb_active l \<noteq> Some i \<Longrightarrow> lib_step l (lib_ended i l)"

definition lib_init :: library where
  "lib_init = \<lparr>lb_active = None, lb_running = [], lb_next = 0, lb_mutex = 0, lb_block = 0\<rparr>"

section \<open>A cycle leaves the runtime as it found it\<close>

lemma start_types_distinct:
  "distinct types \<Longrightarrow> fold start_type types (c, t, gr) =
     (if CPUProfile \<in> set types then \<not> gr_cpu gr else c, if ExecutionTrace \<in> set types then \<not> gr_trace gr else t,
      gr\<lparr>gr_cpu := gr_cpu gr \<or> CPUProfile \<in> set types, gr_trace := gr_trace gr \<or> ExecutionTrace \<in> set types\<rparr>)"
proof (induction types arbitrary: c t gr)
  case (Cons ty types)
  then show ?case by (cases ty) (simp_all add: start_type_def)
qed simp

lemma wait_period_trace:
  "wait_period es full (r, gr) = (cancelled, r', gr') \<Longrightarrow> (r' = r \<and> gr' = gr) \<or> (r \<and> \<not> r' \<and> gr' = gr\<lparr>gr_trace := False\<rparr>)"
  by (induction es full "(r, gr)" arbitrary: r gr rule: wait_period.induct) (auto simp: stop_trace_def split: if_splits)



text \<open>
  A type asked for twice is not collected, and its profiler is left running: the second start
  fails, and with it the cycle takes the first for failed.
\<close>

lemma doubled_type_leaks:
  "collect_profiles [CPUProfile, CPUProfile] [] d \<lparr>gr_cpu = False, gr_trace = False\<rparr> = (Some [], \<lparr>gr_cpu = True, gr_trace = False\<rparr>)"
  by (simp add: collect_profiles_def start_types_def start_type_def stop_trace_def stop_cpu_def attach_def map_filter_simps)

text \<open>A cycle that is not cancelled attaches the profiles of the types asked for, in their order.\<close>

theorem cycle_attaches_types:
  assumes "distinct types" "Cancelled \<notin> set es" "\<And>t. pd_snapshot d t \<noteq> None"
  shows "\<exists>bat. fst (collect_profiles types es d \<lparr>gr_cpu = False, gr_trace = False\<rparr>) = Some bat \<and> map at_name bat = map type_filename types"
proof -
  let ?on = "CPUProfile \<in> set types" and ?tr = "ExecutionTrace \<in> set types"
  have st: "start_types types \<lparr>gr_cpu = False, gr_trace = False\<rparr> = (?on, ?tr, \<lparr>gr_cpu = ?on, gr_trace = ?tr\<rparr>)"
    using start_types_distinct [OF assms(1), of False False "\<lparr>gr_cpu = False, gr_trace = False\<rparr>"] by (simp add: start_types_def)
  have "\<not> fst (wait_period es full rg)" for full rg
    using assms(2) by (induction es full rg rule: wait_period.induct) auto
  moreover have "map at_name (List.map_filter (attach d ?on ?tr) ts) = map type_filename ts" if "set ts \<subseteq> set types" for ts
    using that
  proof (induction ts)
    case (Cons t ts)
    have "\<exists>a. attach d ?on ?tr t = Some a \<and> at_name a = type_filename t"
      using Cons.prems assms(3) [of "type_lookup t"] by (cases t) (auto simp: attach_def)
    with Cons show ?case by (auto simp: map_filter_simps)
  qed (simp add: map_filter_simps)
  ultimately show ?thesis
    unfolding collect_profiles_def st Let_def prod.case by (simp add: case_prod_beta)
qed

theorem cycle_attaches_types_witness:
  "\<exists>bat. fst (collect_profiles [HeapProfile, CPUProfile, ExecutionTrace] [TraceFull] \<lparr>pd_cpu = ''c'', pd_trace = ''t'', pd_snapshot = (\<lambda>_. Some ''s'')\<rparr>
      \<lparr>gr_cpu = False, gr_trace = False\<rparr>) = Some bat \<and> map at_name bat = [''heap.pprof'', ''cpu.pprof'', ''go.trace'']"
  using cycle_attaches_types [of "[HeapProfile, CPUProfile, ExecutionTrace]" "[TraceFull]" "\<lparr>pd_cpu = ''c'', pd_trace = ''t'', pd_snapshot = (\<lambda>_. Some ''s'')\<rparr>"]
  by simp

section \<open>The trace\<close>

definition trace_ok :: "trace_writer \<Rightarrow> bool" where
  "trace_ok w \<longleftrightarrow> tw_closes w = (if tw_limit w \<le> length (tw_buf w) then 1 else 0) \<and> (tw_closed w \<longleftrightarrow> tw_closes w = 1)"

lemma trace_write_fields: "tw_buf (trace_write q w) = tw_buf w @ q" "tw_limit (trace_write q w) = tw_limit w"
  by (simp_all add: trace_write_def Let_def)

lemma trace_write_ok: "trace_ok w \<Longrightarrow> trace_ok (trace_write q w)"
  by (cases "tw_limit w \<le> length (tw_buf w)") (simp_all add: trace_ok_def trace_write_def Let_def)

lemma trace_writes:
  "trace_ok w \<Longrightarrow> trace_ok (fold trace_write ps w) \<and> tw_buf (fold trace_write ps w) = tw_buf w @ concat ps \<and> tw_limit (fold trace_write ps w) = tw_limit w"
  by (induction ps arbitrary: w) (simp_all add: trace_write_ok trace_write_fields)

text \<open>
  Whatever is written, the trace is kept whole, and its channel is closed once the limit is
  reached, and never twice.
\<close>

theorem trace_closed_once:
  "let w = fold trace_write (p # ps) (new_trace limit) in
     tw_buf w = concat (p # ps) \<and> tw_closes w = (if limit \<le> length (concat (p # ps)) then 1 else 0) \<and> (tw_closed w \<longleftrightarrow> tw_closes w = 1)"
proof -
  have "trace_ok (trace_write p (new_trace limit))" by (simp add: trace_ok_def trace_write_def new_trace_def Let_def)
  from trace_writes [OF this, of ps] show ?thesis
    by (simp add: trace_ok_def trace_write_fields Let_def) (simp add: new_trace_def)
qed

section \<open>Numbering\<close>

text \<open>
  The uploads of a run are numbered without a gap, whether they succeed or not, so the backend
  can tell a lost period: the \<open>i\<close>th carries the sequence number the profiler had, plus \<open>i\<close>.
\<close>

theorem uploads_numbered:
  "\<exists>bats. length bats \<le> length cs \<and> ps_uploads (prof_run cs s) = ps_uploads s @
     map (\<lambda>(i, start, stop, bat). upload_parts ((ps_profiler s)\<lparr>pr_seq := pr_seq (ps_profiler s) + i\<rparr>) start stop bat) (zip [0..<length bats] bats)"
proof (induction cs arbitrary: s)
  case Nil
  show ?case by (rule exI [of _ "[]"]) simp
next
  case (Cons cy cs)
  let ?p = "ps_profiler s"
  obtain got gr where c: "collect_profiles (pf_types (pr_config ?p)) (cy_events cy) (cy_data cy) (ps_runtime s) = (got, gr)"
    by (metis prod.exhaust)
  show ?case
  proof (cases got)
    case None
    then show ?thesis by (intro exI [of _ "[]"]) (simp add: prof_cycle_def c Let_def)
  next
    case (Some bat)
    then have s': "ps_profiler (prof_cycle cy s) = ?p\<lparr>pr_seq := pr_seq ?p + 1\<rparr>"
      "ps_uploads (prof_cycle cy s) = ps_uploads s @ [upload_parts ?p (cy_start cy) (cy_stop cy) bat]"
      "ps_ended (prof_cycle cy s) = ps_ended s"
      by (simp_all add: prof_cycle_def c Let_def split: option.split upload_error.split)
    have p: "?p\<lparr>pr_seq := pr_seq ?p\<rparr> = ?p" by simp
    from Cons [of "prof_cycle cy s"] obtain bats where b: "length bats \<le> length cs"
      "ps_uploads (prof_run cs (prof_cycle cy s)) = ps_uploads s @ upload_parts ?p (cy_start cy) (cy_stop cy) bat #
        map (\<lambda>(i, start, stop, bat). upload_parts (?p\<lparr>pr_seq := pr_seq ?p + (i + 1)\<rparr>) start stop bat) (zip [0..<length bats] bats)"
      unfolding s' by auto
    have z: "zip [0..<Suc (length bats)] ((a, b, bat) # bats) = (0, a, b, bat) # map (\<lambda>(i, x). (i + 1, x)) (zip [0..<length bats] bats)" for a b
      by (simp add: upt_conv_Cons map_Suc_upt [symmetric] zip_map1 del: upt_Suc)
    show ?thesis
    proof (cases "ps_ended s")
      case True
      then show ?thesis
        by (intro exI [of _ "[(cy_start cy, cy_stop cy, bat)]"]) (simp add: s')
    next
      case False
      with b show ?thesis
        by (intro exI [of _ "(cy_start cy, cy_stop cy, bat) # bats"])
          (simp add: s' z case_prod_beta comp_def del: upt_Suc)
    qed
  qed
qed

section \<open>One active profiler\<close>

definition lib_ok :: "library \<Rightarrow> bool" where
  "lib_ok l \<longleftrightarrow> distinct (lb_running l) \<and> (\<forall>i \<in> set (lb_running l). i < lb_next l)
     \<and> (case lb_active l of None \<Rightarrow> True | Some i \<Rightarrow> i \<in> set (lb_running l))"

lemma lib_step_ok: "lib_step l l' \<Longrightarrow> lib_ok l \<Longrightarrow> lib_ok l'"
  by (induction rule: lib_step.induct)
    (fastforce simp: lib_ok_def lib_start_def lib_stop_def lib_ended_def split: option.splits)+

text \<open>
  Whatever calls of Start and Stop come between, also a Start while a Stop still waits, the
  active profiler keeps running until a Stop gives it up, and no profiler is started twice.
\<close>

theorem active_profiler_runs:
  "lib_step\<^sup>*\<^sup>* lib_init l \<Longrightarrow> distinct (lb_running l)
     \<and> (case lb_active l of None \<Rightarrow> True | Some i \<Rightarrow> i \<in> set (lb_running l))"
proof -
  assume "lib_step\<^sup>*\<^sup>* lib_init l"
  then have "lib_ok l"
  proof (induction rule: rtranclp_induct)
    case base
    show ?case by (simp add: lib_ok_def lib_init_def)
  qed (rule lib_step_ok)
  then show ?thesis by (simp add: lib_ok_def)
qed

section \<open>Identifier and tags\<close>

text \<open>The runtime's identifier is a version-4 UUID, whatever sixteen bytes the random source gives.\<close>

theorem new_uuid_version4:
  assumes "length b = 16"
  shows "map length (split_on CHR ''-'' (new_uuid b)) = [8, 4, 4, 4, 12] \<and> new_uuid b ! 14 = CHR ''4''
    \<and> new_uuid b ! 19 \<in> {CHR ''8'', CHR ''9'', CHR ''a'', CHR ''b''}"
proof -
  define b2 where "b2 = (b[6 := char_of (byte (b ! 6) mod 16 + 64)])[8 := char_of (byte (b ! 8) mod 64 + 128)]"
  have len: "length b2 = 16" using assms by (simp add: b2_def)
  have h: "length (hex_bytes b2) = 32" using len by (simp add: length_hex_bytes)
  have u: "new_uuid b = join_with ''-'' (groups (hex_bytes b2))"
    using assms len by (simp add: new_uuid_def b2_def groups_def Let_def hex_take hex_drop h)
  have d6: "byte (b2 ! 6) div 16 = 4"
    using assms by (simp add: b2_def byte_def)
  have d8: "byte (b2 ! 8) div 16 \<in> {8, 9, 10, 11}"
  proof -
    have "byte (b2 ! 8) = byte (b ! 8) mod 64 + 128" using assms by (simp add: b2_def byte_def)
    moreover have "byte (b ! 8) mod 64 < 64" by simp
    ultimately show ?thesis by auto
  qed
  have "map length (groups (hex_bytes b2)) = [8, 4, 4, 4, 12]" using h by (simp add: groups_def)
  moreover have "new_uuid b ! 14 = hex_bytes b2 ! (2 * 6)" "new_uuid b ! 19 = hex_bytes b2 ! (2 * 8)"
    using h by (simp_all add: u groups_def nth_append)
  moreover have "hex_char 4 = CHR ''4''" "hex_char 8 = CHR ''8''" "hex_char 9 = CHR ''9''" "hex_char 10 = CHR ''a''" "hex_char 11 = CHR ''b''"
    by code_simp+
  ultimately show ?thesis
    using hex_nth [of 6 b2] hex_nth [of 8 b2] d6 d8 len by (auto simp: u split_groups)
qed

theorem new_uuid_version4_witness: "new_uuid (replicate 16 CHR 0xFF) ! 14 = CHR ''4''"
  using new_uuid_version4 [of "replicate 16 CHR 0xFF"] by simp

definition tag_list :: "profiler \<Rightarrow> string list" where
  "tag_list p =
     [''service:'' @ pf_service (pr_config p), ''runtime:go'', ''language:go'', ''runtime-id:'' @ pr_runtime_id p, ''profile_seq:'' @ fmt_nat (pr_seq p)]
     @ map (\<lambda>(k, v). k @ v) (filter (\<lambda>(k, v). v \<noteq> []) [(''env:'', pf_env (pr_config p)), (''version:'', pf_version (pr_config p)), (''host:'', pr_hostname p)])
     @ pf_tags (pr_config p)"

text \<open>The tags of an upload are read back as they were given, when none of them holds a comma.\<close>

theorem tags_read_back:
  assumes "list_all (\<lambda>t. CHR '','' \<notin> set t) ([pf_service (pr_config p), pr_runtime_id p, pf_env (pr_config p), pf_version (pr_config p), pr_hostname p]
    @ pf_tags (pr_config p))"
  shows "split_on CHR '','' (tags_profiler p) = tag_list p"
proof -
  have "tags_profiler p = join_with '','' (tag_list p)" by (simp add: tags_profiler_def tag_list_def Let_def)
  moreover have "CHR '','' \<notin> set (fmt_nat n)" for n by (simp add: digits_not is_digit_char_def byte_def)
  then have "CHR '','' \<notin> set t" if "t \<in> set (tag_list p)" for t
    using that assms by (auto simp: tag_list_def list_all_iff split: if_splits)
  ultimately show ?thesis using split_join [of "tag_list p" "CHR '',''"] by (simp add: tag_list_def)
qed

theorem tags_read_back_witness:
  "split_on CHR '','' (tags_profiler \<lparr>pr_config = new_config (\<lambda>_. []) ''/bin/web'' ''plan9'' [with_tags [''team:core'']], pr_hostname = [], pr_runtime_id = ''id'', pr_seq = 7\<rparr>)
   = [''service:web'', ''runtime:go'', ''language:go'', ''runtime-id:id'', ''profile_seq:7'', ''team:core'']"
proof -
  have b: "base_name ''/bin/web'' = ''web''" and f: "fmt_nat 7 = ''7''" by code_simp+
  show ?thesis
    by (subst tags_read_back)
      (simp_all add: tag_list_def new_config_def with_tags_def default_profile_types_def split_tag_list_def default_rates_def b f Let_def)
qed

section \<open>Rates\<close>

lemma default_rates_sampled:
  "(MutexProfile \<in> set (pf_types (default_rates c)) \<longrightarrow> pf_mutex_fraction (default_rates c) \<noteq> 0)
   \<and> (BlockProfile \<in> set (pf_types (default_rates c)) \<longrightarrow> pf_block_rate (default_rates c) \<noteq> 0)"
  by (auto simp: default_rates_def default_mutex_fraction_def default_block_rate_def Let_def)

text \<open>
  A profile that is asked for is sampled: whatever the options, in whatever order, the mutex
  and block profiles have a rate when they are collected.
\<close>

theorem requested_profiles_sampled:
  "(MutexProfile \<in> set (pf_types (new_config env arg0 goos opts)) \<longrightarrow> pf_mutex_fraction (new_config env arg0 goos opts) \<noteq> 0)
   \<and> (BlockProfile \<in> set (pf_types (new_config env arg0 goos opts)) \<longrightarrow> pf_block_rate (new_config env arg0 goos opts) \<noteq> 0)"
  unfolding new_config_def Let_def by (rule default_rates_sampled)

theorem requested_profiles_sampled_witness:
  "pf_mutex_fraction (new_config (\<lambda>_. []) ''/bin/web'' ''linux'' [with_profile_types [MutexProfile]]) \<noteq> 0"
proof -
  have "MutexProfile \<in> set (pf_types (new_config (\<lambda>_. []) ''/bin/web'' ''linux'' [with_profile_types [MutexProfile]]))"
    by (simp add: new_config_def with_profile_types_def default_rates_def Let_def)
  then show ?thesis using requested_profiles_sampled by blast
qed

end
