(* ===== verification/ProfilingProxy.thy ===== *)
theory ProfilingProxy
  imports Config "HOL-Library.AList"
begin

text \<open>
  The profiling proxy, \<^verbatim>\<open>internal/profiling/profiling.go\<close>: the route to the one handler, the headers it
  adds, the fan-out of an upload to the configured intakes, and what the client is answered.
  The transport is a script of the answers the intakes will give, with the log of what was
  forwarded; \<open>parse_url\<close> is \<^verbatim>\<open>url.Parse\<close>, a URL with its host. Paths are clean: the standard mux
  redirects any other before it matches. Hop-by-hop headers are \<^verbatim>\<open>httputil\<close>'s.
\<close>

section \<open>Requests and the transport\<close>

type_synonym headers = "(string \<times> string) list"

text \<open>A body as the server reads it: its bytes, and whether they end with the body or with an error.\<close>

record upload_body =
  bd_data :: string
  bd_whole :: bool

record target =
  tg_url :: string
  tg_host :: string

record http_request =
  rq_method :: string
  rq_path :: string
  rq_headers :: headers
  rq_body :: upload_body

record forwarded =
  fw_url :: string
  fw_host :: string
  fw_headers :: headers
  fw_body :: upload_body

record upstream =
  up_answers :: "int option list"
  up_sent :: "forwarded list"

definition forward :: "forwarded \<Rightarrow> upstream \<Rightarrow> int option \<times> upstream" where
  "forward f up =
     (case up_answers up of [] \<Rightarrow> None | a # _ \<Rightarrow> a, up\<lparr>up_answers := tl (up_answers up), up_sent := up_sent up @ [f]\<rparr>)"

section \<open>The fan-out\<close>

definition max_request_bytes :: nat where "max_request_bytes = 52428800"

record multi_transport =
  mx_targets :: "target list"
  mx_keys :: "string list"
  mx_max_bytes :: nat

definition set_target :: "http_request \<Rightarrow> upload_body \<Rightarrow> target \<times> string \<Rightarrow> forwarded" where
  "set_target req body tk =
     (case tk of (u, key) \<Rightarrow>
        \<lparr>fw_url = tg_url u, fw_host = tg_host u, fw_headers = AList.update ''Dd-Api-Key'' key (rq_headers req), fw_body = body\<rparr>)"

text \<open>\<open>ReadAll\<close> of a limited reader: an error beyond the limit is not met.\<close>

definition read_limited :: "nat \<Rightarrow> upload_body \<Rightarrow> string option" where
  "read_limited n b = (if n \<le> length (bd_data b) then Some (take n (bd_data b)) else if bd_whole b then Some (bd_data b) else None)"

text \<open>An additional intake's answer is read and dropped.\<close>

definition forward_additional :: "http_request \<Rightarrow> upload_body \<Rightarrow> target \<times> string \<Rightarrow> upstream \<Rightarrow> upstream" where
  "forward_additional req body tk up = snd (forward (set_target req body tk) up)"

definition round_trip :: "multi_transport \<Rightarrow> http_request \<Rightarrow> upstream \<Rightarrow> int option \<times> upstream" where
  "round_trip m req up =
     (case zip (mx_targets m) (mx_keys m) of
        [] \<Rightarrow> (None, up)
      | [tk] \<Rightarrow> forward (set_target req (rq_body req) tk) up
      | tk # rest \<Rightarrow>
          (case read_limited (mx_max_bytes m + 1) (rq_body req) of
             None \<Rightarrow> (None, up)
           | Some body \<Rightarrow>
               if mx_max_bytes m < length body then (None, up)
               else let whole = \<lparr>bd_data = body, bd_whole = True\<rparr>;
                        (resp, up1) = forward (set_target req whole tk) up
                    in (resp, fold (forward_additional req whole) rest up1)))"

section \<open>The handler\<close>

definition upload_path :: string where "upload_path = ''/profiling/v1/input''"

definition director :: "string \<Rightarrow> string \<Rightarrow> http_request \<Rightarrow> http_request" where
  "director host env req =
     (let tags = ''host:'' @ host @ '',default_env:'' @ env @ '',agent_version:'' @ agent_version;
          h1 = AList.update ''Via'' (''trace-agent '' @ agent_version) (rq_headers req);
          h2 = AList.update ''X-Datadog-Additional-Tags'' tags h1
      in req\<lparr>rq_headers := (if map_of h2 ''User-Agent'' = None then AList.update ''User-Agent'' [] h2 else h2)\<rparr>)"

definition log_forwarded :: "int \<Rightarrow> int" where
  "log_forwarded status = (if status = 202 then 200 else status)"

definition log_failed :: int where "log_failed = 502"

record proxy_handler =
  ph_transport :: multi_transport
  ph_host :: string
  ph_env :: string

definition serve_upload :: "proxy_handler \<Rightarrow> http_request \<Rightarrow> upstream \<Rightarrow> int \<times> upstream" where
  "serve_upload h req up =
     (if rq_path req \<noteq> upload_path then (404, up)
      else if rq_method req \<noteq> ''POST'' then (405, up)
      else case round_trip (ph_transport h) (director (ph_host h) (ph_env h) req) up of
          (None, up') \<Rightarrow> (log_failed, up')
        | (Some status, up') \<Rightarrow> (log_forwarded status, up'))"

section \<open>Construction and run\<close>

datatype proxy_error = NoEndpoints | BadTarget string

fun parse_targets :: "(string \<Rightarrow> target option) \<Rightarrow> endpoint list \<Rightarrow> proxy_error + (target \<times> string) list" where
  "parse_targets parse_url [] = Inr []"
| "parse_targets parse_url (ep # eps) =
     (case parse_url (ep_url ep) of
        None \<Rightarrow> Inl (BadTarget (ep_url ep))
      | Some u \<Rightarrow> (case parse_targets parse_url eps of Inl e \<Rightarrow> Inl e | Inr tks \<Rightarrow> Inr ((u, ep_key ep) # tks)))"

definition new_handler :: "(string \<Rightarrow> target option) \<Rightarrow> endpoint list \<Rightarrow> string \<Rightarrow> string \<Rightarrow> proxy_error + proxy_handler" where
  "new_handler parse_url eps host env =
     (if eps = [] then Inl NoEndpoints
      else case parse_targets parse_url eps of
          Inl e \<Rightarrow> Inl e
        | Inr tks \<Rightarrow> Inr \<lparr>ph_transport = \<lparr>mx_targets = map fst tks, mx_keys = map snd tks, mx_max_bytes = max_request_bytes\<rparr>,
            ph_host = host, ph_env = env\<rparr>)"

record proxy_options =
  po_listen_host :: string
  po_listen_port :: int
  po_non_local :: bool
  po_endpoints :: "endpoint list"
  po_hostname :: string
  po_env :: string

definition new_proxy :: "(string \<Rightarrow> target option) \<Rightarrow> proxy_options \<Rightarrow> proxy_error + (string \<times> proxy_handler)" where
  "new_proxy parse_url o' =
     (case new_handler parse_url (po_endpoints o') (po_hostname o') (po_env o') of
        Inl e \<Rightarrow> Inl e
      | Inr h \<Rightarrow> Inr (join_host_port (if po_non_local o' then ''0.0.0.0'' else po_listen_host o') (fmt_int (po_listen_port o')), h))"

text \<open>How a run ends: the listener fails, the context is done, or the server stops, closed or failed.\<close>

datatype 'e proxy_event = ListenFailed 'e | ContextDone | ServerClosed | ServeFailed 'e

primrec proxy_run :: "'e proxy_event \<Rightarrow> 'e option" where
  "proxy_run (ListenFailed e) = Some e"
| "proxy_run ContextDone = None"
| "proxy_run ServerClosed = None"
| "proxy_run (ServeFailed e) = Some e"

datatype proxy_choice = FromEnvironment | FixedProxy target

record proxy_transport =
  pt_proxy :: proxy_choice
  pt_dial_timeout :: int
  pt_keep_alive :: int
  pt_idle :: int
  pt_handshake :: int
  pt_insecure :: bool

definition new_transport :: "(string \<Rightarrow> target option) \<Rightarrow> string \<Rightarrow> bool \<Rightarrow> proxy_transport" where
  "new_transport parse_url proxy_url skip_ssl =
     \<lparr>pt_proxy = (if proxy_url \<noteq> [] then (case parse_url proxy_url of Some u \<Rightarrow> FixedProxy u | None \<Rightarrow> FromEnvironment) else FromEnvironment),
      pt_dial_timeout = 30 * second, pt_keep_alive = 30 * second, pt_idle = 47 * second, pt_handshake = 10 * second,
      pt_insecure = skip_ssl\<rparr>"

section \<open>Every intake gets the upload\<close>

lemma parse_targets_all:
  "parse_targets parse_url eps = Inr tks \<longleftrightarrow> list_all2 (\<lambda>ep tk. parse_url (ep_url ep) = Some (fst tk) \<and> snd tk = ep_key ep) eps tks"
proof (induction eps arbitrary: tks)
  case (Cons ep eps)
  show ?case by (cases tks) (auto simp: Cons.IH [symmetric] split: option.splits sum.splits)
qed auto

lemma new_handler_built:
  assumes "new_handler parse_url eps host env = Inr h"
  shows "\<exists>tks. parse_targets parse_url eps = Inr tks \<and> eps \<noteq> [] \<and> ph_host h = host \<and> ph_env h = env
    \<and> ph_transport h = \<lparr>mx_targets = map fst tks, mx_keys = map snd tks, mx_max_bytes = max_request_bytes\<rparr>"
  using assms by (auto simp: new_handler_def split: if_splits sum.splits)

lemma forward_additionals:
  "up_sent (fold (forward_additional req body) tks up) = up_sent up @ map (set_target req body) tks"
  by (induction tks arbitrary: up) (simp_all add: forward_additional_def forward_def)

definition first_answer :: "upstream \<Rightarrow> int option" where
  "first_answer up = (case up_answers up of [] \<Rightarrow> None | a # _ \<Rightarrow> a)"


definition two_intakes :: "endpoint list" where
  "two_intakes = [\<lparr>ep_url = ''https://intake.a'', ep_key = ''k1'', ep_reliable = True\<rparr>, \<lparr>ep_url = ''https://intake.b'', ep_key = ''k2'', ep_reliable = False\<rparr>]"

definition plain_url :: "string \<Rightarrow> target option" where
  "plain_url s = Some \<lparr>tg_url = s, tg_host = drop 8 s\<rparr>"

definition two_handler :: proxy_handler where
  "two_handler = \<lparr>ph_transport = \<lparr>mx_targets = map (the \<circ> plain_url \<circ> ep_url) two_intakes, mx_keys = map ep_key two_intakes,
     mx_max_bytes = max_request_bytes\<rparr>, ph_host = ''h'', ph_env = ''prod''\<rparr>"

definition upload_of :: "upload_body \<Rightarrow> http_request" where
  "upload_of body = \<lparr>rq_method = ''POST'', rq_path = upload_path, rq_headers = [], rq_body = body\<rparr>"

lemma two_handler_built: "new_handler plain_url two_intakes ''h'' ''prod'' = Inr two_handler"
  by (simp add: new_handler_def two_intakes_def two_handler_def plain_url_def)




end
