(* ===== verification/Hostname.thy ===== *)
theory Hostname
  imports GoStrings
begin

text \<open>
  The name the agent reports for its host, \<^verbatim>\<open>internal/hostname/hostname.go\<close>: what is configured, a file,
  the metadata services of the clouds and the operating system are asked in turn. The answer of
  an HTTP request is its status and the body, if it could be read.
\<close>

section \<open>Metadata services\<close>

type_synonym http_answer = "(int \<times> string option) option"

definition http_get :: "http_answer \<Rightarrow> string" where
  "http_get a =
     (case a of
        None \<Rightarrow> []
      | Some (status, body) \<Rightarrow> if go_quot status 100 \<noteq> 2 then [] else (case body of None \<Rightarrow> [] | Some b \<Rightarrow> take 4096 b))"

text \<open>The services: a token, the instance behind a request with or without one, and the name at the other.\<close>

record metadata_services =
  ms_token :: http_answer
  ms_instance :: "string option \<Rightarrow> http_answer"
  ms_gce :: http_answer

definition ec2_name :: "metadata_services \<Rightarrow> string" where
  "ec2_name ms =
     (let token = trim_space (http_get (ms_token ms))
      in trim_space (http_get (ms_instance ms (if token \<noteq> [] then Some token else None))))"

definition gce_name :: "metadata_services \<Rightarrow> string" where
  "gce_name ms = trim_space (http_get (ms_gce ms))"

definition cloud_names :: "metadata_services \<Rightarrow> string \<times> string" where
  "cloud_names ms = (gce_name ms, ec2_name ms)"

section \<open>Resolution\<close>

text \<open>Lower case: two letters beyond ASCII become ASCII ones, the dotted capital I and the Kelvin sign.\<close>

function host_lower :: "string \<Rightarrow> string" where
  "host_lower s =
     (if s = [] then []
      else if take 2 s = [CHR 0xC4, CHR 0xB0] then CHR ''i'' # host_lower (drop 2 s)
      else if take 3 s = [CHR 0xE2, CHR 0x84, CHR 0xAA] then CHR ''k'' # host_lower (drop 3 s)
      else lower (hd s) # host_lower (tl s))"
  by pat_completeness auto
termination
  by (relation "measure length") auto

declare host_lower.simps [simp del]

lemma host_lower_Nil [simp]: "host_lower [] = []"
  by (subst host_lower.simps) simp

definition is_default_hostname :: "string \<Rightarrow> bool" where
  "is_default_hostname name =
     (let h = host_lower name
      in h = [] \<or> h = ''localhost'' \<or> h = ''localhost.localdomain'' \<or> list_ex (\<lambda>p. has_prefix p h) [''ip-'', ''domu'', ''ec2amaz-''])"

definition resolve :: "(string \<Rightarrow> string option) \<Rightarrow> metadata_services \<Rightarrow> string \<Rightarrow> string \<Rightarrow> string \<Rightarrow> string" where
  "resolve files ms os_name configured file_path =
     (if configured \<noteq> [] then configured
      else
        let rest = (case cloud_names ms of (gce, ec2) \<Rightarrow>
              if gce \<noteq> [] then gce
              else if os_name \<noteq> [] \<and> \<not> is_default_hostname os_name then os_name
              else if ec2 \<noteq> [] then ec2
              else if os_name \<noteq> [] then os_name
              else ''unknown'')
        in if file_path \<noteq> [] then
             (case files file_path of
                Some b \<Rightarrow> let h = trim_space b in if h \<noteq> [] then h else rest
              | None \<Rightarrow> rest)
           else rest)"

section \<open>The order of the sources\<close>

definition file_name :: "(string \<Rightarrow> string option) \<Rightarrow> string \<Rightarrow> string" where
  "file_name files path = (if path = [] then [] else case files path of Some b \<Rightarrow> trim_space b | None \<Rightarrow> [])"

text \<open>
  C33. The name is the first that is not empty of the configured one, the file's, Google's, that
  of the operating system unless the platform handed it out, Amazon's, that of the operating
  system whatever it is, and \<^verbatim>\<open>unknown\<close>; so it is never empty.
\<close>

theorem resolve_order:
  "resolve files ms os_name configured file_path =
     hd (filter (\<lambda>h. h \<noteq> [])
       [configured, file_name files file_path, gce_name ms, if is_default_hostname os_name then [] else os_name, ec2_name ms, os_name, ''unknown''])
   \<and> resolve files ms os_name configured file_path \<noteq> []"
proof -
  have "os_name = [] \<Longrightarrow> is_default_hostname os_name" by (simp add: is_default_hostname_def)
  then show ?thesis
    by (auto simp: resolve_def cloud_names_def file_name_def Let_def split: option.split)
qed

text \<open>The names EC2 gives out, in any case, give way to the instance's identifier.\<close>

lemma default_hostnames:
  "is_default_hostname ''ip-10-0-0-1''" "is_default_hostname ''EC2AMAZ-ABC''" "is_default_hostname ''domU-12-31''" "\<not> is_default_hostname ''web-1''"
  by code_simp+

end
