(* ===== verification/Agent.thy ===== *)
theory Agent
  imports ProfilingProxy DogstatsdServer Hostname
begin

text \<open>
  The agent's main program, \<^verbatim>\<open>cmd/agent/main.go\<close>: which components are started with which part of the
  configuration, and how a run ends. A component is what its constructor is given; its own run is
  modelled in its own theory. The reading of the configuration, the network packages and the
  sources of logs are arguments.
\<close>

section \<open>Components\<close>

text \<open>The log agent with its zero options filled in (\<open>NewAgent\<close>); durations are nanoseconds.\<close>

record 'src logs_options =
  lo_sources :: "'src list"
  lo_endpoints :: "endpoint list"
  lo_run_path :: string
  lo_batch_wait :: int
  lo_batch_max_size :: int
  lo_batch_max_content_size :: int

definition new_logs_agent :: "'src logs_options \<Rightarrow> 'src logs_options" where
  "new_logs_agent o' =
     o'\<lparr>lo_batch_wait := (if lo_batch_wait o' = 0 then 5 * second else lo_batch_wait o'),
        lo_batch_max_size := (if lo_batch_max_size o' = 0 then 1000 else lo_batch_max_size o'),
        lo_batch_max_content_size := (if lo_batch_max_content_size o' = 0 then 5000000 else lo_batch_max_content_size o')\<rparr>"

datatype 'src service =
    MetricsService "endpoint list" "endpoint list" "endpoint list"
  | MetadataService "endpoint list" "endpoint list"
  | VentiService "endpoint list" string
  | ProcessService "endpoint list"
  | DogstatsdService server
  | ProxyService string proxy_handler
  | LogsService "'src logs_options"

datatype agent_error = ConfigFailed config_error | ProxyFailed proxy_error | ServiceFailed string

text \<open>What the agent is started in.\<close>

record 'src agent_env =
  ag_load :: "config_error + config"
  ag_files :: "string \<Rightarrow> string option"
  ag_services :: metadata_services
  ag_os_name :: string
  ag_net_url :: net_url
  ag_parse_url :: "string \<Rightarrow> target option"
  ag_log_sources :: "string \<Rightarrow> config_error + 'src list \<times> (string \<times> string) list"

section \<open>Startup\<close>

definition dogstatsd_server :: "config \<Rightarrow> server" where
  "dogstatsd_server c =
     \<lparr>srv_port = nat (cf_dogstatsd_port c), srv_socket = cf_dogstatsd_socket c, srv_non_local = cf_dogstatsd_non_local c,
      srv_has_checks = True, srv_has_events = True\<rparr>"

definition proxy_options_of :: "string \<Rightarrow> config \<Rightarrow> proxy_options" where
  "proxy_options_of host c =
     \<lparr>po_listen_host = ap_receiver_host (cf_apm c), po_listen_port = ap_receiver_port (cf_apm c), po_non_local = ap_non_local (cf_apm c),
      po_endpoints = profiling_endpoints c, po_hostname = host, po_env = default_env c\<rparr>"

text \<open>The components that are always constructed, in the order they are started.\<close>

definition core_services :: "net_url \<Rightarrow> config \<Rightarrow> 'src service list" where
  "core_services nu c =
     [MetricsService (metrics_endpoints nu c) (check_run_endpoints nu c) (events_endpoints nu c)]
     @ (if cf_metadata c then [MetadataService (intake_endpoints nu c) (metadata_endpoints nu c)] else [])
     @ (if cf_venti_url c \<noteq> [] then [VentiService (metrics_endpoints nu c) (cf_venti_url c)] else [])
     @ (if process_enabled c then [ProcessService (process_endpoints c)] else [])
     @ (if 0 < cf_dogstatsd_port c \<or> cf_dogstatsd_socket c \<noteq> [] then [DogstatsdService (dogstatsd_server c)] else [])"

definition start_proxy :: "(string \<Rightarrow> target option) \<Rightarrow> string \<Rightarrow> config \<Rightarrow> agent_error + 'src service list" where
  "start_proxy parse_url host c =
     (if apm_enabled c then
        (case new_proxy parse_url (proxy_options_of host c) of Inl e \<Rightarrow> Inl (ProxyFailed e) | Inr (addr, h) \<Rightarrow> Inr [ProxyService addr h])
      else Inr [])"

definition start_logs :: "(string \<Rightarrow> config_error + 'src list \<times> (string \<times> string) list) \<Rightarrow> config \<Rightarrow> agent_error + 'src service list" where
  "start_logs load c =
     (if cf_logs_enabled c then
        (case load (cf_confd_path c) of
           Inl e \<Rightarrow> Inl (ConfigFailed e)
         | Inr (sources, skipped) \<Rightarrow>
             Inr [LogsService (new_logs_agent \<lparr>lo_sources = sources, lo_endpoints = logs_endpoints c, lo_run_path = cf_run_path c,
               lo_batch_wait = wrap_i64 (lg_batch_wait (cf_logs c) * second), lo_batch_max_size = lg_batch_max_size (cf_logs c),
               lo_batch_max_content_size = lg_batch_max_content_size (cf_logs c)\<rparr>)])
      else Inr [])"

text \<open>The components started, and the error that stops them again.\<close>

definition start_services :: "'src agent_env \<Rightarrow> string \<Rightarrow> config \<Rightarrow> 'src service list \<times> agent_error option" where
  "start_services e host c =
     (let core = core_services (ag_net_url e) c in
      case start_proxy (ag_parse_url e) host c of
        Inl err \<Rightarrow> (core, Some err)
      | Inr proxy \<Rightarrow>
          (case start_logs (ag_log_sources e) c of
             Inl err \<Rightarrow> (core @ proxy, Some err)
           | Inr logs \<Rightarrow> (core @ proxy @ logs, None)))"

section \<open>The run\<close>

text \<open>
  What ends a run: a signal, or a component that fails to listen. The channel of errors has room
  for one, and either cancels the context.
\<close>

datatype run_event = Signal | BindFailed string

record run_wait =
  rw_done :: bool
  rw_error :: "agent_error option"

definition run_event_step :: "run_event \<Rightarrow> run_wait \<Rightarrow> run_wait" where
  "run_event_step ev w =
     (case ev of
        Signal \<Rightarrow> w\<lparr>rw_done := True\<rparr>
      | BindFailed msg \<Rightarrow> w\<lparr>rw_done := True, rw_error := (if rw_error w = None then Some (ServiceFailed msg) else rw_error w)\<rparr>)"

datatype 'src agent_result = Refused agent_error | Failed "'src service list" agent_error | Running "'src service list" | Exited "'src service list" "agent_error option"

definition agent_run :: "'src agent_env \<Rightarrow> run_event list \<Rightarrow> 'src agent_result" where
  "agent_run e evs =
     (case ag_load e of
        Inl err \<Rightarrow> Refused (ConfigFailed err)
      | Inr c \<Rightarrow>
          (case validate_config c of
             Some err \<Rightarrow> Refused (ConfigFailed err)
           | None \<Rightarrow>
               let host = resolve (ag_files e) (ag_services e) (ag_os_name e) (cf_hostname c) (cf_hostname_file c) in
               case start_services e host c of
                 (svcs, Some err) \<Rightarrow> Failed svcs err
               | (svcs, None) \<Rightarrow>
                   let w = fold run_event_step evs \<lparr>rw_done = False, rw_error = None\<rparr>
                   in if rw_done w then Exited svcs (rw_error w) else Running svcs))"

section \<open>What is started can do its work\<close>

definition primary_keyed :: "config \<Rightarrow> endpoint list \<Rightarrow> bool" where
  "primary_keyed c eps \<longleftrightarrow> eps \<noteq> [] \<and> ep_key (hd eps) = cf_api_key c \<and> cf_api_key c \<noteq> []"

definition service_ready :: "config \<Rightarrow> 'src service \<Rightarrow> bool" where
  "service_ready c svc =
     (case svc of
        MetricsService m ch ev \<Rightarrow> list_all (primary_keyed c) [m, ch, ev]
      | MetadataService i m \<Rightarrow> list_all (primary_keyed c) [i, m]
      | VentiService m url \<Rightarrow> primary_keyed c m \<and> url \<noteq> []
      | ProcessService eps \<Rightarrow> primary_keyed c eps
      | DogstatsdService s \<Rightarrow> run_start s True True \<noteq> NoListener
      | ProxyService addr h \<Rightarrow> mx_targets (ph_transport h) \<noteq> [] \<and> length (mx_keys (ph_transport h)) = length (mx_targets (ph_transport h))
      | LogsService o' \<Rightarrow> primary_keyed c (lo_endpoints o') \<and> lo_batch_wait o' \<noteq> 0 \<and> lo_batch_max_size o' \<noteq> 0)"

definition services_of :: "'src agent_result \<Rightarrow> 'src service list" where
  "services_of r = (case r of Refused e \<Rightarrow> [] | Failed svcs e \<Rightarrow> svcs | Running svcs \<Rightarrow> svcs | Exited svcs e \<Rightarrow> svcs)"

lemma add_endpoint_hd: "snd st \<noteq> [] \<Longrightarrow> snd (add_endpoint u rel k st) \<noteq> [] \<and> hd (snd (add_endpoint u rel k st)) = hd (snd st)"
  by (cases st) (simp add: add_endpoint_def)

lemma append_additional_hd: "eps \<noteq> [] \<Longrightarrow> append_additional eps extra f \<noteq> [] \<and> hd (append_additional eps extra f) = hd eps"
proof -
  assume "eps \<noteq> []"
  have key: "snd (add_key u k st) \<noteq> [] \<and> hd (snd (add_key u k st)) = hd (snd st)" if "snd st \<noteq> []" for u k st
    using add_endpoint_hd [OF that] that by (simp add: add_key_def Let_def)
  have "snd (fold (add_key u) ks st) \<noteq> [] \<and> hd (snd (fold (add_key u) ks st)) = hd (snd st)" if "snd st \<noteq> []" for u ks st
    using that by (induction ks arbitrary: st) (simp_all add: key)
  then have "snd (fold (add_domain f extra) ds st) \<noteq> [] \<and> hd (snd (fold (add_domain f extra) ds st)) = hd (snd st)" if "snd st \<noteq> []" for ds st
    using that by (induction ds arbitrary: st) (simp_all add: add_domain_def)
  with \<open>eps \<noteq> []\<close> show ?thesis by (simp add: append_additional_def Let_def)
qed

lemma infra_primary: "infra_endpoints nu c route \<noteq> [] \<and> ep_key (hd (infra_endpoints nu c route)) = cf_api_key c"
  using append_additional_hd [of "[primary_ep (infra_base nu c @ route) c]"] by (simp add: infra_endpoints_def primary_ep_def)

lemma process_primary: "process_endpoints c \<noteq> [] \<and> ep_key (hd (process_endpoints c)) = cf_api_key c"
  using append_additional_hd [of "[primary_ep (process_url c) c]"] by (simp add: process_endpoints_def primary_ep_def)

lemma logs_primary: "logs_endpoints c \<noteq> [] \<and> ep_key (hd (logs_endpoints c)) = cf_api_key c"
proof -
  have "snd (fold add_logs_endpoint es st) \<noteq> [] \<and> hd (snd (fold add_logs_endpoint es st)) = hd (snd st)" if "snd st \<noteq> []" for es st
    using that by (induction es arbitrary: st) (simp_all add: add_logs_endpoint_def add_endpoint_hd Let_def)
  from this [of "(x, [y])" for x y] show ?thesis by (simp add: logs_endpoints_def primary_ep_def Let_def)
qed

lemma core_ready: "cf_api_key c \<noteq> [] \<Longrightarrow> list_all (service_ready c) (core_services nu c)"
proof -
  assume key: "cf_api_key c \<noteq> []"
  have "run_start (dogstatsd_server c) True True \<noteq> NoListener" if "0 < cf_dogstatsd_port c \<or> cf_dogstatsd_socket c \<noteq> []"
    using that run_start_serving [of "dogstatsd_server c" True True] by (auto simp: dogstatsd_server_def)
  with key show ?thesis
    by (simp add: core_services_def service_ready_def primary_keyed_def infra_primary process_primary metrics_endpoints_def
      check_run_endpoints_def events_endpoints_def intake_endpoints_def metadata_endpoints_def)
qed

lemma proxy_ready: "start_proxy parse_url host c = Inr svcs \<Longrightarrow> list_all (service_ready c) svcs"
proof -
  assume s: "start_proxy parse_url host c = Inr svcs"
  show ?thesis
  proof (cases "svcs = []")
    case False
    with s obtain addr h where h: "svcs = [ProxyService addr h]" "new_proxy parse_url (proxy_options_of host c) = Inr (addr, h)"
      by (auto simp: start_proxy_def split: if_splits sum.splits prod.splits)
    then obtain eps env where "new_handler parse_url eps host env = Inr h"
      by (auto simp: new_proxy_def proxy_options_of_def split: sum.splits)
    from new_handler_built [OF this] obtain tks where t: "parse_targets parse_url eps = Inr tks" "eps \<noteq> []"
      "ph_transport h = \<lparr>mx_targets = map fst tks, mx_keys = map snd tks, mx_max_bytes = max_request_bytes\<rparr>" by blast
    then have "tks \<noteq> []" by (auto simp: parse_targets_all)
    with h t show ?thesis by (simp add: service_ready_def)
  qed simp
qed

lemma logs_ready: "cf_api_key c \<noteq> [] \<Longrightarrow> start_logs load c = Inr svcs \<Longrightarrow> list_all (service_ready c) svcs"
  by (auto simp: start_logs_def service_ready_def new_logs_agent_def primary_keyed_def logs_primary second_def split: if_splits sum.splits)

text \<open>
  C32. Every component an agent starts has what it needs, whatever the configuration and however
  the run ends: one that ships data has a primary endpoint under the configured key, the
  DogStatsD server has something to listen on, the profiling proxy an intake with a key to
  forward to; without a configuration that loads and has a key nothing is started.
\<close>

theorem started_services_ready:
  "case ag_load e of Inl err \<Rightarrow> services_of (agent_run e evs) = [] | Inr c \<Rightarrow> list_all (service_ready c) (services_of (agent_run e evs))"
proof (cases "ag_load e")
  case (Inr c)
  show ?thesis
  proof (cases "cf_api_key c = []")
    case True
    then show ?thesis by (simp add: Inr agent_run_def validate_config_def services_of_def)
  next
    case key: False
    define host where "host = resolve (ag_files e) (ag_services e) (ag_os_name e) (cf_hostname c) (cf_hostname_file c)"
    have "list_all (service_ready c) (fst (start_services e host c))"
      using core_ready [OF key] proxy_ready logs_ready [OF key]
      by (auto simp: start_services_def Let_def split: sum.split)
    then show ?thesis
      using key by (cases "start_services e host c"; cases "snd (start_services e host c)")
        (simp_all add: Inr agent_run_def validate_config_def services_of_def host_def [symmetric] Let_def)
  qed
qed (simp add: agent_run_def services_of_def)

section \<open>How it ends\<close>

definition first_failure :: "run_event list \<Rightarrow> agent_error option" where
  "first_failure evs = (case List.map_filter (\<lambda>ev. case ev of Signal \<Rightarrow> None | BindFailed msg \<Rightarrow> Some (ServiceFailed msg)) evs of
     [] \<Rightarrow> None | err # _ \<Rightarrow> Some err)"

lemma run_events: "fold run_event_step evs w =
  w\<lparr>rw_done := (rw_done w \<or> evs \<noteq> []), rw_error := (if rw_error w = None then first_failure evs else rw_error w)\<rparr>"
proof (induction evs arbitrary: w)
  case (Cons ev evs)
  then show ?case by (cases ev) (auto simp: run_event_step_def first_failure_def map_filter_simps)
qed (simp add: first_failure_def map_filter_simps)

text \<open>
  A started agent runs until the first signal or failure to listen, and returns the first
  failure there was, even one that comes after a signal; a signal alone is no error.
\<close>

theorem first_failure_reported:
  "case agent_run e evs of Running svcs \<Rightarrow> evs = [] | Exited svcs err \<Rightarrow> evs \<noteq> [] \<and> err = first_failure evs
     | Refused err \<Rightarrow> agent_run e evs = agent_run e [] | Failed svcs err \<Rightarrow> agent_run e evs = agent_run e []"
  by (simp add: agent_run_def run_events Let_def split: sum.split option.split prod.split)

end
