(* ===== verification/Spec2Isabelle.thy ===== *)
theory Spec2Isabelle
  imports AggregatorRun DogstatsdServer LogDiscover LogJournald LogsRun LogBatcher LogTailer ProcReporter Config Plan9Collect HostLinux HostWindows Venti
    ProcPlan9 ProcBsd ProcOther HostMeta Profiler Agent
begin

text \<open>
  A verification development of dd-micro-agent, a small Datadog agent in Go for Linux, the BSDs,
  macOS, Windows and Plan 9, and of the profiler library in the same repository.

  \<^bold>\<open>The program.\<close> \<^verbatim>\<open>cmd/agent/main.go\<close> loads the configuration (\<^verbatim>\<open>internal/config\<close>), resolves the host's
  name (\<^verbatim>\<open>internal/hostname\<close>) and starts independent reporters that share nothing but the transport
  to the backend (\<^verbatim>\<open>internal/intake\<close>: one request, a ladder of retries, fan-out to several
  organisations). The DogStatsD server (\<^verbatim>\<open>internal/dogstatsd\<close>) cuts datagrams into samples, service
  checks and events and hands them to the aggregator (\<^verbatim>\<open>internal/metrics\<close>), which also polls the host
  collectors (\<^verbatim>\<open>internal/host\<close>) and the venti reporter (\<^verbatim>\<open>internal/venti\<close>). The logs agent
  (\<^verbatim>\<open>internal/logs\<close>) tails files and the journal into one channel, whose batcher posts and acknowledges
  into a registry of positions that survives restarts. The process reporter (\<^verbatim>\<open>internal/process\<close>)
  diffs two process lists into rates and sends them in a hand-written protobuf encoding. The metadata
  reporter (\<^verbatim>\<open>internal/hostmeta\<close>) sends host facts, the profiling proxy (\<^verbatim>\<open>internal/profiling\<close>) forwards
  uploads, and \<^verbatim>\<open>profiler\<close> is the library whose uploads it receives.

  \<^bold>\<open>Theories.\<close> Each models the source files named in its own opening text.
  \<^item> \<open>Prelude\<close>: type synonyms for Go's types, the fact collections, lemmas on lists, runs and stable
    sorting. \<open>GoStrings\<close>, \<open>GoStrconv\<close>, \<open>GoFloat\<close>, \<open>GoTime\<close>, \<open>GoHex\<close>: the parts of Go's standard library
    the agent calls, on byte strings, with IEEE arithmetic over the rationals written out.
  \<^item> \<open>Intake\<close> (\<^verbatim>\<open>intake.go\<close>) and \<open>Config\<close> (\<^verbatim>\<open>config.go\<close>), \<open>Hostname\<close>, \<open>Agent\<close> (\<^verbatim>\<open>main.go\<close>).
  \<^item> \<open>MetricTypes\<close>, \<open>DogstatsdParse\<close>, \<open>DogstatsdServer\<close>, \<open>MetricSubmit\<close>, \<open>Aggregator\<close>, \<open>AggregatorRun\<close>: from
    a datagram to a delivered series. The aggregator's goroutine is a step function over the cases
    its \<open>select\<close> picks; producers' calls are events.
  \<^item> \<open>LogRegistry\<close>, \<open>LogProcessor\<close>, \<open>LogBatcher\<close>, \<open>LogTailer\<close>, \<open>LogDiscover\<close>, \<open>LogJournald\<close>, \<open>JournaldRun\<close>,
    \<open>LogsRun\<close>: the logs agent, bottom up; the last composes them as \<open>Agent.Run\<close> does, shutdown included.
  \<^item> \<open>HostBase\<close>, \<open>DevStat\<close>, \<open>HostLinux\<close>, \<open>HostBsd\<close>, \<open>HostWindows\<close>, \<open>Plan9Parse\<close>, \<open>Plan9Collect\<close>, \<open>Venti\<close>: the
    sub-collectors of each system as functions of what the kernel answers and of the history they keep.
  \<^item> \<open>ProtoWire\<close>, \<open>Float32\<close>, \<open>ProcPayload\<close>, \<open>ProcSubmit\<close>, \<open>ProcReporter\<close>: codec, messages, transport and
    reporter of the process list. \<open>ProcLinux\<close>, \<open>ProcPlan9\<close>, \<open>ProcBsd\<close>, \<open>ProcOther\<close>: where the list
    comes from on each system.
  \<^item> \<open>MetaFacts\<close>, \<open>HostMeta\<close>: host facts and their reporter. \<open>ProfilingProxy\<close>, \<open>Profiler\<close>: proxy and library.

  \<^bold>\<open>How code and model correspond.\<close> A struct is a record, its fields with a short prefix; a sum of
  cases is a datatype; a function keeps its name in lower case. Machine integers are words where the
  code can wrap and \<open>int\<close> where its range is an invariant. Errors are values. A Go map is an
  association list read with \<open>map_of\<close>, and a result that depends on the map's order is stated for
  every order. A \<open>select\<close> is an event: the model takes the event a run picked, and an event the code
  would block on has no successor. Network, disk, kernel tables and clocks are arguments: a record of
  what each call answers, or a script of answers in order, with the requests made recorded.

  \<^bold>\<open>What the lemmas show.\<close>
  \<^item> Delivery: no accepted sample is lost or counted twice across any interleaving; a series, a log
    message or a process is acknowledged once and in order; the log registry never runs ahead of
    what was delivered, through refusals, restarts, rotations, journal respawns and the shutdown, which
    can always complete.
  \<^item> Meaning: the parsers accept exactly their grammars; the histogram's aggregates are the order
    statistics; aggregation of one context is independent of the others; rates are taken against the last
    good reading, are not negative, and are never taken across two processes.
  \<^item> Isolation: a sub-collector, a process directory or an intake that fails disturbs no other; an
    organisation's key and envelope go to its own intake.
  \<^item> Codecs: what the kernels, venti and the agent itself print or encode is read back.
  \<^item> Resources: retries and waits are bounded, batches and messages respect their limits, the
    profilers of the runtime are stopped after every cycle.

  \<^bold>\<open>Interfaces.\<close> \<open>slice_sorter\<close> (what code that sorts relies on), \<open>poster\<close> and \<open>fan_out\<close> (a transport that
  acknowledges once), \<open>position_store\<close> (the registry's two maps), \<open>reading_source\<close>, \<open>rate_source\<close> and
  \<open>io_kind\<close> (a collector that diffs two readings) are locales, each interpreted on the model's own
  definitions in the theory that provides them.

  \<^bold>\<open>Bounds and termination.\<close> No definition carries fuel: every loop is structural or has a
  termination proof, by the unread input for the readers of untrusted bytes, by the remaining attempts for
  the ladders of retries, by the remaining value for the printers of numbers. A loop of the program that
  runs until cancelled takes the list of events, rounds or answers it is to see, so a property of every
  finite run. The constants are the code's: four fetches of a process table, a hundred processes to a
  message, a thousand messages in the channel, fifty megabytes to an upload, 512 bytes of last words.

  \<^bold>\<open>Not modelled.\<close> Sockets, TLS, proxies and connection reuse (\<^verbatim>\<open>net/http\<close>), compression
  itself (a constructor around its input), the text of JSON (values; rendering is a parameter where text
  is embedded), YAML, regular expressions, SHA-256, URL parsing, the pprof encoders, \<^verbatim>\<open>journalctl\<close> and \<^verbatim>\<open>ps\<close>
  (parameters), raw system calls and the layout of structures the \<^verbatim>\<open>unix\<close> package decodes, logging, the flags
  and exit codes of \<^verbatim>\<open>main\<close>, and the test tools under \<^verbatim>\<open>e2e\<close>, which are not part of the agent.
  Physical concurrency is interleaving of the events named above; data races are outside.
\<close>

end
